(* ===== verification/Prelude.thy ===== *)
theory Prelude
  imports Main "HOL-Library.Word"
begin

text \<open>
  Shared vocabulary of the development: the Rust result type with its \<open>?\<close> operator, the
  machine integer types, saturating arithmetic, little-endian byte readers, and the list
  lemmas that several components use.

  Conventions. A Rust \<open>Result<T, E>\<close> is \<open>E + T\<close> (\<open>Inl\<close> the error). Bytes and unsigned
  registers are words of their width, so \<open>+\<close> wraps as a release build does; \<open>i64\<close> values
  that the code only compares, adds with saturation or passes on are \<open>int\<close> with
  \<open>in_i64\<close> as their range. \<open>usize\<close> lengths are \<open>nat\<close> (a slice never reaches
  \<open>usize::MAX\<close>). Byte strings and UTF-8 text are lists.
\<close>

named_theorems try_simps \<open>equations and equivalences for the result type\<close>

section \<open>Machine types\<close>

type_synonym u8 = "8 word"
type_synonym u16 = "16 word"
type_synonym u32 = "32 word"
type_synonym u64 = "64 word"
type_synonym bytes = "u8 list"

definition i64_max :: int where
  "i64_max = 2 ^ 63 - 1"

definition i64_min :: int where
  "i64_min = - (2 ^ 63)"

definition in_i64 :: "int \<Rightarrow> bool" where
  "in_i64 v \<longleftrightarrow> i64_min \<le> v \<and> v \<le> i64_max"

text \<open>\<open>i64::saturating_add\<close>, \<open>i64::saturating_sub\<close>, \<open>i64::saturating_mul\<close>.\<close>

definition sat_i64 :: "int \<Rightarrow> int" where
  "sat_i64 v = max i64_min (min i64_max v)"

text \<open>Two's complement wrap of an \<open>i64\<close> (plain \<open>+\<close> and \<open>*\<close> of a release build).\<close>

definition wrap_i64 :: "int \<Rightarrow> int" where
  "wrap_i64 v = (v + 2 ^ 63) mod 2 ^ 64 - 2 ^ 63"

lemma in_i64I: "- 9223372036854775808 \<le> v \<Longrightarrow> v \<le> 9223372036854775807 \<Longrightarrow> in_i64 v"
  by (simp add: in_i64_def i64_min_def i64_max_def)

lemma sat_i64_range [simp]: "in_i64 (sat_i64 v)"
  by (simp add: in_i64_def sat_i64_def i64_min_def i64_max_def)

lemma sat_i64_id [simp]: "in_i64 v \<Longrightarrow> sat_i64 v = v"
  by (simp add: in_i64_def sat_i64_def)

lemma sat_i64_mono: "a \<le> b \<Longrightarrow> sat_i64 a \<le> sat_i64 b"
  by (auto simp: sat_i64_def)

lemma wrap_i64_id [simp]: "in_i64 v \<Longrightarrow> wrap_i64 v = v"
  by (simp add: in_i64_def wrap_i64_def i64_min_def i64_max_def)

lemma wrap_i64_range [simp]: "in_i64 (wrap_i64 v)"
proof -
  have "0 \<le> (v + 2 ^ 63) mod 2 ^ 64" "(v + 2 ^ 63) mod 2 ^ 64 < (2 ^ 64 :: int)"
    by simp_all
  then show ?thesis
    by (simp add: in_i64_def wrap_i64_def i64_min_def i64_max_def)
qed

text \<open>\<open>u8::saturating_add\<close> and \<open>u32::saturating_add\<close> on words.\<close>

definition sat_add :: "'a::len word \<Rightarrow> 'a word \<Rightarrow> 'a word" where
  "sat_add a b = (if unat a + unat b < 2 ^ LENGTH('a) then a + b else - 1)"

lemma unat_sat_add:
  "unat (sat_add a (b :: 'a::len word)) = min (unat a + unat b) (2 ^ LENGTH('a) - 1)"
proof (cases "unat a + unat b < 2 ^ LENGTH('a)")
  case True
  then show ?thesis by (simp add: sat_add_def unat_word_ariths)
next
  case False
  then show ?thesis by (simp add: sat_add_def unsigned_minus_1_eq_mask mask_eq_exp_minus_1)
qed

section \<open>Results: the \<open>?\<close> operator and its friends\<close>

definition try_bind :: "'e + 'a \<Rightarrow> ('a \<Rightarrow> 'e + 'b) \<Rightarrow> 'e + 'b" where
  "try_bind m f = (case m of Inl e \<Rightarrow> Inl e | Inr x \<Rightarrow> f x)"

definition map_err :: "('e \<Rightarrow> 'g) \<Rightarrow> 'e + 'a \<Rightarrow> 'g + 'a" where
  "map_err h m = (case m of Inl e \<Rightarrow> Inl (h e) | Inr x \<Rightarrow> Inr x)"

definition ok_or :: "'e \<Rightarrow> 'a option \<Rightarrow> 'e + 'a" where
  "ok_or e v = (case v of None \<Rightarrow> Inl e | Some x \<Rightarrow> Inr x)"

text \<open>\<open>Option<Result<T, E>>::transpose\<close> after \<open>map\<close>.\<close>

definition opt_traverse :: "('a \<Rightarrow> 'e + 'b) \<Rightarrow> 'a option \<Rightarrow> 'e + 'b option" where
  "opt_traverse f v = (case v of None \<Rightarrow> Inr None | Some x \<Rightarrow> map_sum id Some (f x))"

definition is_ok :: "'e + 'a \<Rightarrow> bool" where
  "is_ok m = (case m of Inl _ \<Rightarrow> False | Inr _ \<Rightarrow> True)"

lemma try_bind_simps [simp, try_simps]:
  "try_bind (Inl e) f = Inl e"
  "try_bind (Inr x) f = f x"
  by (simp_all add: try_bind_def)

lemma map_err_simps [simp, try_simps]:
  "map_err h (Inl e) = Inl (h e)"
  "map_err h (Inr x) = Inr x"
  by (simp_all add: map_err_def)

lemma ok_or_simps [simp, try_simps]:
  "ok_or e None = Inl e"
  "ok_or e (Some x) = Inr x"
  by (simp_all add: ok_or_def)

lemma is_ok_simps [simp, try_simps]:
  "\<not> is_ok (Inl e)"
  "is_ok (Inr x)"
  by (simp_all add: is_ok_def)

lemma opt_traverse_simps [simp, try_simps]:
  "opt_traverse f None = Inr None"
  "opt_traverse f (Some x) = map_sum id Some (f x)"
  by (simp_all add: opt_traverse_def)

lemma try_bind_Inr_iff [try_simps]:
  "try_bind m f = Inr y \<longleftrightarrow> (\<exists>x. m = Inr x \<and> f x = Inr y)"
  by (cases m) auto

lemma try_bind_Inl_iff [try_simps]:
  "try_bind m f = Inl e \<longleftrightarrow> m = Inl e \<or> (\<exists>x. m = Inr x \<and> f x = Inl e)"
  by (cases m) auto

lemma map_err_Inr_iff [try_simps]: "map_err h m = Inr x \<longleftrightarrow> m = Inr x"
  by (cases m) auto

lemma ok_or_Inr_iff [try_simps]: "ok_or e v = Inr x \<longleftrightarrow> v = Some x"
  by (cases v) auto

lemma try_bind_assoc:
  "try_bind (try_bind m f) g = try_bind m (\<lambda>x. try_bind (f x) g)"
  by (cases m) auto

lemma try_bind_split:
  "P (try_bind m f) \<longleftrightarrow> (\<forall>e. m = Inl e \<longrightarrow> P (Inl e)) \<and> (\<forall>x. m = Inr x \<longrightarrow> P (f x))"
  by (cases m) auto

lemma try_bind_cong [fundef_cong]:
  "m = m' \<Longrightarrow> (\<And>x. m' = Inr x \<Longrightarrow> f x = g x) \<Longrightarrow> try_bind m f = try_bind m' g"
  by (cases m') auto

section \<open>Little-endian and big-endian readers\<close>

text \<open>\<open>u16::from_le_bytes\<close>, \<open>u32::from_le_bytes\<close>, \<open>u16::from_be_bytes\<close>, \<open>u16::to_le_bytes\<close>.\<close>

definition u16_from_le :: "u8 \<Rightarrow> u8 \<Rightarrow> u16" where
  "u16_from_le b0 b1 = word_of_nat (unat b0 + 256 * unat b1)"

definition u16_from_be :: "u8 \<Rightarrow> u8 \<Rightarrow> u16" where
  "u16_from_be b0 b1 = u16_from_le b1 b0"

definition u32_from_le :: "u8 \<Rightarrow> u8 \<Rightarrow> u8 \<Rightarrow> u8 \<Rightarrow> u32" where
  "u32_from_le b0 b1 b2 b3 =
     word_of_nat (unat b0 + 256 * unat b1 + 65536 * unat b2 + 16777216 * unat b3)"

definition u16_to_le :: "u16 \<Rightarrow> bytes" where
  "u16_to_le v = [word_of_nat (unat v mod 256), word_of_nat (unat v div 256)]"

lemma unat_lt_256 [simp]: "unat (b :: u8) < 256"
  using unsigned_less [of b, where ?'a = nat] by simp

lemma unat_u16_from_le: "unat (u16_from_le a b) = unat a + 256 * unat b"
proof -
  have "unat a + 256 * unat b < 65536"
    using unat_lt_256 [of a] unat_lt_256 [of b] by linarith
  then show ?thesis
    unfolding u16_from_le_def by (subst unsigned_of_nat) (simp add: take_bit_nat_eq_self)
qed

lemma u16_le_roundtrip: "u16_to_le (u16_from_le a b) = [a, b]"
  using unat_lt_256 [of a]
  by (simp add: u16_to_le_def unat_u16_from_le)

lemma u16_from_to_le: "u16_to_le v = [a, b] \<Longrightarrow> u16_from_le a b = v"
proof -
  assume "u16_to_le v = [a, b]"
  then have ab: "a = word_of_nat (unat v mod 256)" "b = word_of_nat (unat v div 256)"
    by (auto simp: u16_to_le_def)
  have "unat v < 65536" using unsigned_less [of v, where ?'a = nat] by simp
  then have "unat v div 256 < 256" by auto
  then have "unat a = unat v mod 256" "unat b = unat v div 256"
    by (simp_all add: ab unsigned_of_nat take_bit_nat_eq_self)
  then show "u16_from_le a b = v"
    by (simp add: u16_from_le_def)
qed

section \<open>Slices\<close>

text \<open>\<open>slice.get(i)\<close> and \<open>slice.get(off..off + n)\<close>.\<close>

definition get_at :: "'a list \<Rightarrow> nat \<Rightarrow> 'a option" where
  "get_at xs i = (if i < length xs then Some (xs ! i) else None)"

definition get_range :: "'a list \<Rightarrow> nat \<Rightarrow> nat \<Rightarrow> 'a list option" where
  "get_range xs off n = (if off + n \<le> length xs then Some (take n (drop off xs)) else None)"

lemma get_at_simps [simp]:
  "get_at [] i = None"
  "get_at (x # xs) 0 = Some x"
  "get_at (x # xs) (Suc i) = get_at xs i"
  by (simp_all add: get_at_def)

lemma get_at_numeral [simp]:
  "get_at (x # xs) (numeral n) = get_at xs (pred_numeral n)"
  by (simp add: get_at_def numeral_eq_Suc)

lemma get_range_length: "get_range xs off n = Some ys \<Longrightarrow> length ys = n"
  by (auto simp: get_range_def split: if_splits)

lemma get_at_append_length [simp]: "get_at (xs @ y # ys) (length xs) = Some y"
  by (simp add: get_at_def)

section \<open>Decimal text of integers\<close>

text \<open>\<open>u64::to_string\<close> and \<open>i64::to_string\<close>; \<open>str::parse::<i64>\<close> (an optional sign, then one or
  more ASCII digits, the value in range).\<close>

definition digit_char :: "nat \<Rightarrow> char" where
  "digit_char d = char_of (48 + d)"

definition is_digit :: "char \<Rightarrow> bool" where
  "is_digit c \<longleftrightarrow> 48 \<le> (of_char c :: nat) \<and> (of_char c :: nat) \<le> 57"

definition digit_val :: "char \<Rightarrow> nat" where
  "digit_val c = of_char c - 48"

fun nat_to_dec :: "nat \<Rightarrow> string" where
  "nat_to_dec n =
     (if n < 10 then [digit_char n] else nat_to_dec (n div 10) @ [digit_char (n mod 10)])"

declare nat_to_dec.simps [simp del]

definition int_to_dec :: "int \<Rightarrow> string" where
  "int_to_dec v = (if v < 0 then CHR ''-'' # nat_to_dec (nat (- v)) else nat_to_dec (nat v))"

definition dec_to_nat :: "string \<Rightarrow> nat option" where
  "dec_to_nat cs =
     (if cs \<noteq> [] \<and> list_all is_digit cs then Some (foldl (\<lambda>a c. 10 * a + digit_val c) 0 cs) else None)"

definition parse_i64 :: "string \<Rightarrow> int option" where
  "parse_i64 s =
     (let v = (case s of
                 [] \<Rightarrow> None
               | c # cs \<Rightarrow>
                   if c = CHR ''-'' then map_option (\<lambda>n. - int n) (dec_to_nat cs)
                   else if c = CHR ''+'' then map_option int (dec_to_nat cs)
                   else map_option int (dec_to_nat s))
      in case v of None \<Rightarrow> None | Some i \<Rightarrow> if in_i64 i then Some i else None)"

lemma of_char_digit_char: "d < 10 \<Longrightarrow> (of_char (digit_char d) :: nat) = 48 + d"
  by (simp add: digit_char_def)

lemma digit_char_simps [simp]:
  assumes "d < 10"
  shows "is_digit (digit_char d)" "digit_val (digit_char d) = d"
  using assms by (simp_all add: is_digit_def digit_val_def of_char_digit_char)

lemma nat_to_dec_nonempty [simp]: "nat_to_dec n \<noteq> []"
  by (subst nat_to_dec.simps) simp

lemma nat_to_dec_digits: "list_all is_digit (nat_to_dec n)"
  by (induction n rule: nat_to_dec.induct) (subst nat_to_dec.simps, simp)

lemma foldl_nat_to_dec: "foldl (\<lambda>a c. 10 * a + digit_val c) 0 (nat_to_dec n) = n"
proof (induction n rule: nat_to_dec.induct)
  case (1 n)
  show ?case
  proof (cases "n < 10")
    case True
    then show ?thesis by (subst nat_to_dec.simps) simp
  next
    case False
    with 1 have "foldl (\<lambda>a c. 10 * a + digit_val c) 0 (nat_to_dec (n div 10)) = n div 10" by simp
    then show ?thesis by (subst nat_to_dec.simps) (simp add: False)
  qed
qed

lemma dec_to_nat_roundtrip [simp]: "dec_to_nat (nat_to_dec n) = Some n"
  by (simp add: dec_to_nat_def nat_to_dec_digits foldl_nat_to_dec)

lemma nat_to_dec_head: "nat_to_dec n = c # cs \<Longrightarrow> c \<noteq> CHR ''-'' \<and> c \<noteq> CHR ''+''"
  using nat_to_dec_digits [of n] by (auto simp: is_digit_def)

text \<open>Printing an \<open>i64\<close> and parsing it back returns it.\<close>

lemma parse_i64_int_to_dec: "in_i64 v \<Longrightarrow> parse_i64 (int_to_dec v) = Some v"
proof (cases "v < 0")
  case True
  assume "in_i64 v"
  with True show ?thesis by (simp add: parse_i64_def int_to_dec_def)
next
  case False
  assume r: "in_i64 v"
  obtain c cs where d: "nat_to_dec (nat v) = c # cs"
    by (cases "nat_to_dec (nat v)") auto
  have "dec_to_nat (c # cs) = Some (nat v)"
    using dec_to_nat_roundtrip [of "nat v"] by (simp add: d)
  with False r nat_to_dec_head [OF d] show ?thesis
    by (simp add: parse_i64_def int_to_dec_def d Let_def)
qed

lemma int_to_dec_nonempty [simp]: "int_to_dec v \<noteq> []"
  by (simp add: int_to_dec_def)

text \<open>The format \<open>{b:02x}\<close> of a byte.\<close>

definition hex_char :: "nat \<Rightarrow> char" where
  "hex_char d = (if d < 10 then char_of (48 + d) else char_of (87 + d))"

definition hex2 :: "u8 \<Rightarrow> string" where
  "hex2 b = [hex_char (unat b div 16), hex_char (unat b mod 16)]"

section \<open>Lists\<close>

lemma length_eq_1: "length xs = Suc 0 \<longleftrightarrow> (\<exists>a. xs = [a])"
  by (simp add: length_Suc_conv)

lemma length_eq_2: "length xs = 2 \<longleftrightarrow> (\<exists>a b. xs = [a, b])"
  by (auto simp: eval_nat_numeral length_Suc_conv)

lemma length_eq_3: "length xs = 3 \<longleftrightarrow> (\<exists>a b c. xs = [a, b, c])"
  by (auto simp: eval_nat_numeral length_Suc_conv)

lemma take_append_drop_concat: "n \<le> length xs \<Longrightarrow> take n xs @ drop n xs = xs"
  by simp

lemma filter_sorted_wrt: "sorted_wrt R xs \<Longrightarrow> sorted_wrt R (filter P xs)"
  by (induction xs) auto

lemma find_filter_hd: "List.find P xs = (case filter P xs of [] \<Rightarrow> None | x # _ \<Rightarrow> Some x)"
  by (induction xs) auto

end
