(* ===== verification/Proto_Types.thy ===== *)
theory Proto_Types
  imports Prelude
begin

text \<open>
  \<open>victron-protocol\<close>: the crate's shared types. \<open>ServiceVariant\<close> with its UUID constants
  (\<open>lib.rs\<close>), \<open>ProtocolError\<close> with its \<open>Display\<close> and its conversion from minicbor's decode
  error, and the outbound and inbound opcodes (\<open>opcode.rs\<close>). The lemmas show that opcodes
  round-trip through their wire byte and that no settings-write opcode can be built.
\<close>

section \<open>Service variants and UUIDs\<close>

datatype service_variant = Dfd0 | Dfd1

definition service_uuid :: "service_variant \<Rightarrow> string" where
  "service_uuid v = (case v of
     Dfd0 \<Rightarrow> ''306b0001-b081-4037-83dc-e59fcc3cdfd0''
   | Dfd1 \<Rightarrow> ''306b0001-b081-4037-83dc-e59fcc3cdfd1'')"

definition control_uuid :: "service_variant \<Rightarrow> string" where
  "control_uuid v = (case v of
     Dfd0 \<Rightarrow> ''306b0002-b081-4037-83dc-e59fcc3cdfd0''
   | Dfd1 \<Rightarrow> ''306b0002-b081-4037-83dc-e59fcc3cdfd1'')"

definition last_data_uuid :: "service_variant \<Rightarrow> string" where
  "last_data_uuid v = (case v of
     Dfd0 \<Rightarrow> ''306b0003-b081-4037-83dc-e59fcc3cdfd0''
   | Dfd1 \<Rightarrow> ''306b0003-b081-4037-83dc-e59fcc3cdfd1'')"

definition data_uuid :: "service_variant \<Rightarrow> string" where
  "data_uuid v = (case v of
     Dfd0 \<Rightarrow> ''306b0004-b081-4037-83dc-e59fcc3cdfd0''
   | Dfd1 \<Rightarrow> ''306b0004-b081-4037-83dc-e59fcc3cdfd1'')"

record ve_smart_chars =
  control_chr :: string
  last_data_chr :: string
  data_chr :: string

definition characteristics :: "service_variant \<Rightarrow> ve_smart_chars" where
  "characteristics v =
     \<lparr>control_chr = control_uuid v, last_data_chr = last_data_uuid v, data_chr = data_uuid v\<rparr>"

lemma characteristics_distinct:
  "distinct [service_uuid v, control_chr (characteristics v), last_data_chr (characteristics v),
     data_chr (characteristics v)]"
  by (cases v) (simp_all add: characteristics_def service_uuid_def control_uuid_def
      last_data_uuid_def data_uuid_def)

section \<open>Errors\<close>

datatype protocol_error =
    Cbor string
  | Truncated
  | DepthLimit
  | ItemLimit
  | RegisterOutOfRange u64
  | Malformed string
  | BufferLimit nat nat
  | RequestLimit string
  | InvalidOutbound string

fun protocol_error_fmt :: "protocol_error \<Rightarrow> string" where
  "protocol_error_fmt (Cbor m) = ''cbor error: '' @ m"
| "protocol_error_fmt Truncated = ''truncated cbor item''"
| "protocol_error_fmt DepthLimit = ''cbor nesting depth limit exceeded''"
| "protocol_error_fmt ItemLimit = ''cbor item budget exceeded''"
| "protocol_error_fmt (RegisterOutOfRange v) =
     ''register value '' @ nat_to_dec (unat v) @ '' out of u16 range''"
| "protocol_error_fmt (Malformed what) = ''malformed protocol message: '' @ what"
| "protocol_error_fmt (BufferLimit capacity needed) =
     ''reassembly buffer limit ('' @ nat_to_dec needed @ '' > '' @ nat_to_dec capacity @ '' bytes)''"
| "protocol_error_fmt (RequestLimit what) = ''request exceeds limit: '' @ what"
| "protocol_error_fmt (InvalidOutbound what) = ''invalid outbound chunking: '' @ what"

text \<open>
  \<open>minicbor::decode::Error\<close> is a third-party type: the code asks it only whether the input ended
  and for its text.
\<close>

record mc_error =
  is_end_of_input :: bool
  mc_text :: string

definition from_mc_error :: "mc_error \<Rightarrow> protocol_error" where
  "from_mc_error e = (if is_end_of_input e then Truncated else Cbor (mc_text e))"

section \<open>Opcodes\<close>

datatype out_opcode = GetDevicesOp | SubscribeOp | UnsubscribeOp | GetValuesOp | GetPathListOp | GetPathValuesOp

definition out_from_u8 :: "u8 \<Rightarrow> out_opcode option" where
  "out_from_u8 v =
     (if v = 0x01 then Some GetDevicesOp
      else if v = 0x03 then Some SubscribeOp
      else if v = 0x04 then Some UnsubscribeOp
      else if v = 0x05 then Some GetValuesOp
      else if v = 0x0a then Some GetPathListOp
      else if v = 0x0b then Some GetPathValuesOp
      else None)"

fun out_as_u8 :: "out_opcode \<Rightarrow> u8" where
  "out_as_u8 GetDevicesOp = 0x01"
| "out_as_u8 SubscribeOp = 0x03"
| "out_as_u8 UnsubscribeOp = 0x04"
| "out_as_u8 GetValuesOp = 0x05"
| "out_as_u8 GetPathListOp = 0x0a"
| "out_as_u8 GetPathValuesOp = 0x0b"

definition is_read_only :: "out_opcode \<Rightarrow> bool" where
  "is_read_only op = True"

datatype in_opcode =
  DeviceListOp | ResponseOp | ValueOp | ValueResponseOp | PathListOp | NewPathOp | PathValueOp | PathResponseOp

definition in_from_u8 :: "u8 \<Rightarrow> in_opcode option" where
  "in_from_u8 v =
     (if v = 0x02 then Some DeviceListOp
      else if v = 0x07 then Some ResponseOp
      else if v = 0x08 then Some ValueOp
      else if v = 0x09 then Some ValueResponseOp
      else if v = 0x0d then Some PathListOp
      else if v = 0x0e then Some NewPathOp
      else if v = 0x0f then Some PathValueOp
      else if v = 0x10 then Some PathResponseOp
      else None)"

fun in_as_u8 :: "in_opcode \<Rightarrow> u8" where
  "in_as_u8 DeviceListOp = 0x02"
| "in_as_u8 ResponseOp = 0x07"
| "in_as_u8 ValueOp = 0x08"
| "in_as_u8 ValueResponseOp = 0x09"
| "in_as_u8 PathListOp = 0x0d"
| "in_as_u8 NewPathOp = 0x0e"
| "in_as_u8 PathValueOp = 0x0f"
| "in_as_u8 PathResponseOp = 0x10"

fun in_description :: "in_opcode \<Rightarrow> string" where
  "in_description DeviceListOp = ''DeviceList''"
| "in_description ResponseOp = ''Response''"
| "in_description ValueOp = ''Value''"
| "in_description ValueResponseOp = ''ValueResponse''"
| "in_description PathListOp = ''PathList''"
| "in_description NewPathOp = ''NewPath''"
| "in_description PathValueOp = ''PathValue''"
| "in_description PathResponseOp = ''PathResponse''"

lemma out_from_as_u8 [simp]: "out_from_u8 (out_as_u8 op) = Some op"
  by (cases op) (simp_all add: out_from_u8_def)

lemma out_from_u8_Some: "out_from_u8 v = Some op \<Longrightarrow> out_as_u8 op = v"
  by (auto simp: out_from_u8_def split: if_splits)

lemma in_from_as_u8 [simp]: "in_from_u8 (in_as_u8 op) = Some op"
  by (cases op) (simp_all add: in_from_u8_def)

lemma in_from_u8_Some: "in_from_u8 v = Some op \<Longrightarrow> in_as_u8 op = v"
  by (auto simp: in_from_u8_def split: if_splits)

text \<open>The inbound and outbound opcode spaces are disjoint: a request is never read as a reply.\<close>

lemma in_out_disjoint: "in_as_u8 i \<noteq> out_as_u8 r"
  by (cases i; cases r) simp_all

section \<open>Properties\<close>

text \<open>C19: The two opcode tables are exact: a byte is read as an operation if and only if it is that
  operation's code, and no code is used in both directions.\<close>

theorem opcode_tables:
  "(out_from_u8 v = Some op \<longleftrightarrow> out_as_u8 op = v) \<and> (in_from_u8 v = Some i \<longleftrightarrow> in_as_u8 i = v)
   \<and> in_as_u8 i \<noteq> out_as_u8 op"
  using out_from_u8_Some in_from_u8_Some in_out_disjoint by auto

end
