(* ===== verification/Control.thy ===== *)
theory Control
  imports Proto_Types
begin

text \<open>
  \<open>victron-protocol\<close>, \<open>control.rs\<close>: the raw messages of the Control characteristic
  (\<open>ControlMessage\<close>) with their encoder, the exact parser and the parser of a concatenated
  buffer, and the 7-byte \<open>ControlInfo\<close>. The lemmas give the round trips in both directions and
  the exact-length contract.
\<close>

section \<open>Messages\<close>

definition NEGOTIATE_CHUNK_SIZE :: bytes where
  "NEGOTIATE_CHUNK_SIZE = [0xfa, 0x80, 0xff]"

definition READY_TO_RECEIVE_80 :: bytes where
  "READY_TO_RECEIVE_80 = [0xf9, 0x80]"

definition NEGOTIATION_WRITES :: "bytes list" where
  "NEGOTIATION_WRITES = [NEGOTIATE_CHUNK_SIZE, READY_TO_RECEIVE_80]"

definition MIN_ATT_CHUNK_SIZE :: nat where
  "MIN_ATT_CHUNK_SIZE = 20"

text \<open>\<open>CmUnknown opcode len\<close> keeps the unrecognised byte and the length of the message.\<close>

datatype control_message =
    CmError u16
  | ClearBuffer
  | ReadyToReceive u8
  | ChunkSize u8 u8
  | CmUnknown u8 nat

fun cm_opcode :: "control_message \<Rightarrow> u8" where
  "cm_opcode (CmError code) = 0xf7"
| "cm_opcode ClearBuffer = 0xf8"
| "cm_opcode (ReadyToReceive n) = 0xf9"
| "cm_opcode (ChunkSize a b) = 0xfa"
| "cm_opcode (CmUnknown opcode n) = opcode"

fun cm_encode :: "control_message \<Rightarrow> bytes" where
  "cm_encode (CmError code) = 0xf7 # u16_to_le code"
| "cm_encode ClearBuffer = [0xf8]"
| "cm_encode (ReadyToReceive free_chunks) = [0xf9, free_chunks]"
| "cm_encode (ChunkSize a b) = [0xfa, a, b]"
| "cm_encode (CmUnknown opcode n) = [opcode]"

definition cm_parse :: "bytes \<Rightarrow> protocol_error + control_message" where
  "cm_parse data =
     try_bind (ok_or Truncated (get_at data 0)) (\<lambda>op.
       if op = 0xf7 then
         (if length data = 2 then Inr (CmError (ucast (data ! 1)))
          else if length data = 3 then Inr (CmError (u16_from_le (data ! 1) (data ! 2)))
          else Inl (Malformed ''f7 must be exactly 2 or 3 bytes''))
       else if op = 0xf8 then
         (if length data \<noteq> 1 then Inl (Malformed ''f8 must be exactly 1 byte'')
          else Inr ClearBuffer)
       else if op = 0xf9 then
         (if length data \<noteq> 2 then Inl (Malformed ''f9 must be exactly 2 bytes'')
          else Inr (ReadyToReceive (data ! 1)))
       else if op = 0xfa then
         (if length data \<noteq> 3 then Inl (Malformed ''fa must be exactly 3 bytes'')
          else Inr (ChunkSize (data ! 1) (data ! 2)))
       else Inr (CmUnknown op (length data)))"

section \<open>The concatenated buffer\<close>

definition stream_width :: "u8 \<Rightarrow> nat" where
  "stream_width op =
     (if op = 0xf7 then 3 else if op = 0xf8 then 1 else if op = 0xf9 then 2
      else if op = 0xfa then 3 else 1)"

lemma stream_width_pos [simp]: "0 < stream_width op"
  by (simp add: stream_width_def)

lemma stream_width_advances: "i < n \<Longrightarrow> n - (i + stream_width op) < n - i"
  by (rule diff_less_mono2) auto

text \<open>The \<open>while i < data.len()\<close> loop, with its index and its output vector.\<close>

function cm_stream_loop ::
  "bytes \<Rightarrow> nat \<Rightarrow> control_message list \<Rightarrow> protocol_error + control_message list" where
  "cm_stream_loop data i out =
     (if i < length data then
        try_bind (ok_or Truncated (get_at data i)) (\<lambda>op.
          let end = i + stream_width op in
          if end > length data
          then Inl (Malformed ''truncated control message in concatenated stream'')
          else try_bind (cm_parse (take (end - i) (drop i data))) (\<lambda>m.
                 cm_stream_loop data end (out @ [m])))
      else Inr out)"
  by pat_completeness auto
termination
  by (relation "measure (\<lambda>(data, i, out). length data - i)") (auto intro: stream_width_advances)

declare cm_stream_loop.simps [simp del]

definition cm_parse_stream :: "bytes \<Rightarrow> protocol_error + control_message list" where
  "cm_parse_stream data = cm_stream_loop data 0 []"

section \<open>Control info\<close>

record control_info =
  protocol_byte :: u8
  field_u16 :: u16
  payload_size_limit :: u8
  field_byte :: u8
  info_free_chunks :: u8
  tail_byte :: u8

definition control_info_parse :: "bytes \<Rightarrow> control_info option" where
  "control_info_parse data =
     (if length data \<noteq> 7 then None
      else Some \<lparr>protocol_byte = data ! 0, field_u16 = u16_from_le (data ! 1) (data ! 2),
                 payload_size_limit = data ! 3, field_byte = data ! 4,
                 info_free_chunks = data ! 5, tail_byte = data ! 6\<rparr>)"

section \<open>Round trips\<close>

text \<open>A message in the form the stream parser produces: an unknown opcode byte stands alone.\<close>

fun cm_canonical :: "control_message \<Rightarrow> bool" where
  "cm_canonical (CmUnknown opcode n) = (opcode \<notin> {0xf7, 0xf8, 0xf9, 0xfa} \<and> n = 1)"
| "cm_canonical m = True"

lemma cm_encode_length: "cm_canonical m \<Longrightarrow> length (cm_encode m) = stream_width (cm_opcode m)"
  by (cases m) (simp_all add: stream_width_def u16_to_le_def)

lemma cm_encode_hd: "\<exists>rest. cm_encode m = cm_opcode m # rest"
  by (cases m) simp_all

lemma u16_to_le_cases: "\<exists>a b. u16_to_le v = [a, b]"
  by (simp add: u16_to_le_def)

lemma cm_parse_encode: "cm_canonical m \<Longrightarrow> cm_parse (cm_encode m) = Inr m"
proof (cases m)
  case (CmError code)
  obtain a b where ab: "u16_to_le code = [a, b]" using u16_to_le_cases by blast
  then show ?thesis using u16_from_to_le [OF ab] by (simp add: CmError cm_parse_def)
qed (auto simp: cm_parse_def)

lemma cm_parse_known_length:
  "cm_parse data = Inr m \<Longrightarrow> \<forall>op n. m \<noteq> CmUnknown op n \<Longrightarrow>
    length data = stream_width (cm_opcode m) \<or> (cm_opcode m = 0xf7 \<and> length data = 2)"
  by (auto simp: cm_parse_def stream_width_def try_simps split: if_splits)

text \<open>One step of the loop at a message boundary.\<close>

lemma cm_stream_step:
  assumes "cm_canonical m"
  shows "cm_stream_loop (pre @ cm_encode m @ rest) (length pre) out =
         cm_stream_loop (pre @ cm_encode m @ rest) (length (pre @ cm_encode m)) (out @ [m])"
proof -
  obtain tl where hd: "cm_encode m = cm_opcode m # tl" using cm_encode_hd by blast
  have "get_at (pre @ cm_encode m @ rest) (length pre) = Some (cm_opcode m)"
    by (simp add: hd)
  moreover have "length pre < length (pre @ cm_encode m @ rest)" by (simp add: hd)
  moreover have "stream_width (cm_opcode m) = length (cm_encode m)"
    using cm_encode_length [OF assms] by simp
  ultimately show ?thesis
    using cm_parse_encode [OF assms]
    by (subst cm_stream_loop.simps) (simp add: Let_def)
qed

lemma cm_stream_loop_encode:
  "list_all cm_canonical ms \<Longrightarrow>
    cm_stream_loop (pre @ concat (map cm_encode ms)) (length pre) out = Inr (out @ ms)"
proof (induction ms arbitrary: pre out)
  case Nil
  then show ?case by (subst cm_stream_loop.simps) simp
next
  case (Cons m ms)
  then have "cm_canonical m" by simp
  from cm_stream_step [OF this, of pre "concat (map cm_encode ms)" out]
  show ?case
    using Cons.IH [of "pre @ cm_encode m" "out @ [m]"] Cons.prems by simp
qed

text \<open>The converse: whatever the loop accepts is the concatenation of what it returns.\<close>

lemma cm_parse_slice:
  assumes "cm_parse (x # xs) = Inr m" "length (x # xs) = stream_width x"
  shows "cm_encode m = x # xs \<and> cm_canonical m"
proof -
  consider "x = 0xf7" | "x = 0xf8" | "x = 0xf9" | "x = 0xfa" | "x \<notin> {0xf7, 0xf8, 0xf9, 0xfa}"
    by auto
  then show ?thesis
  proof cases
    case 1
    with assms(2) have "length xs = 2" by (simp add: stream_width_def)
    with 1 assms(1) show ?thesis by (auto simp: cm_parse_def u16_le_roundtrip length_eq_2)
  next
    case 2
    with assms show ?thesis by (auto simp: cm_parse_def stream_width_def)
  next
    case 3
    with assms(2) have "length xs = Suc 0" by (simp add: stream_width_def)
    with 3 assms(1) show ?thesis by (auto simp: cm_parse_def length_eq_1)
  next
    case 4
    with assms(2) have "length xs = 2" by (simp add: stream_width_def)
    with 4 assms(1) show ?thesis by (auto simp: cm_parse_def length_eq_2)
  next
    case 5
    with assms show ?thesis by (auto simp: cm_parse_def stream_width_def)
  qed
qed

lemma cm_stream_loop_sound:
  "cm_stream_loop data i out = Inr ms \<Longrightarrow> i \<le> length data \<Longrightarrow>
    \<exists>ms'. ms = out @ ms' \<and> concat (map cm_encode ms') = drop i data \<and> list_all cm_canonical ms'"
proof (induction data i out rule: cm_stream_loop.induct)
  case (1 data i out)
  show ?case
  proof (cases "i < length data")
    case False
    with "1.prems" show ?thesis by (subst (asm) cm_stream_loop.simps) simp
  next
    case True
    let ?e = "i + stream_width (data ! i)"
    let ?s = "take (stream_width (data ! i)) (drop i data)"
    have op: "get_at data i = Some (data ! i)" using True by (simp add: get_at_def)
    from "1.prems"(1) True obtain m where e: "?e \<le> length data"
      and m: "cm_parse ?s = Inr m" and rec: "cm_stream_loop data ?e (out @ [m]) = Inr ms"
      by (subst (asm) cm_stream_loop.simps)
        (auto simp: op Let_def try_simps split: if_splits)
    obtain w where w: "stream_width (data ! i) = Suc w"
      using stream_width_pos [of "data ! i"] by (cases "stream_width (data ! i)") auto
    have s: "?s = data ! i # take w (drop (Suc i) data)"
      using True by (simp add: w Cons_nth_drop_Suc [symmetric])
    have "length ?s = stream_width (data ! i)" using e by simp
    with m s have enc: "cm_encode m = ?s" "cm_canonical m"
      using cm_parse_slice by metis+
    have "\<exists>ms'. ms = (out @ [m]) @ ms' \<and> concat (map cm_encode ms') = drop ?e data
        \<and> list_all cm_canonical ms'"
      by (rule "1.IH" [OF True _ refl, of "data ! i"]) (use op m rec e in simp_all)
    then obtain ms' where "ms = (out @ [m]) @ ms'" "concat (map cm_encode ms') = drop ?e data"
      "list_all cm_canonical ms'"
      by blast
    moreover have "?s @ drop ?e data = drop i data"
      using append_take_drop_id [of "stream_width (data ! i)" "drop i data"] by (simp add: add.commute)
    ultimately show ?thesis
      using enc by (intro exI [of _ "m # ms'"]) simp
  qed
qed

text \<open>The stream parser never answers anything but a malformed-message error.\<close>

lemma cm_stream_loop_error:
  "cm_stream_loop data i out = Inl e \<Longrightarrow> \<exists>what. e = Malformed what"
proof (induction data i out rule: cm_stream_loop.induct)
  case (1 data i out)
  from "1.prems" have i: "i < length data"
    by (subst (asm) cm_stream_loop.simps) (auto split: if_splits)
  then have op: "get_at data i = Some (data ! i)" by (simp add: get_at_def)
  show ?case
  proof (cases "i + stream_width (data ! i) \<le> length data")
    case False
    with "1.prems" i op show ?thesis
      by (subst (asm) cm_stream_loop.simps) (auto simp: Let_def)
  next
    case True
    let ?s = "take (stream_width (data ! i)) (drop i data)"
    have ne: "get_at ?s 0 = Some (data ! i)"
      using i by (simp add: get_at_def)
    show ?thesis
    proof (cases "cm_parse ?s")
      case (Inl e')
      with ne have "\<exists>what. e' = Malformed what"
        by (auto simp: cm_parse_def split: if_splits)
      with "1.prems" Inl True i op show ?thesis
        by (subst (asm) cm_stream_loop.simps) (auto simp: Let_def)
    next
      case (Inr m)
      with "1.prems" True i op have "cm_stream_loop data (i + stream_width (data ! i)) (out @ [m]) = Inl e"
        by (subst (asm) cm_stream_loop.simps) (auto simp: Let_def)
      with "1.IH" [OF i _ refl, of "data ! i" m] True op Inr show ?thesis by auto
    qed
  qed
qed

section \<open>Properties\<close>

text \<open>C15: The control stream is parsed exactly: a byte string parses to a list of messages if and only
  if it is the concatenation of their encodings and each message is one that the parser can return. So
  the parser inverts the encoder on every stream, and loses no byte of a stream that it accepts.\<close>

theorem control_stream_exact:
  "cm_parse_stream data = Inr ms \<longleftrightarrow> data = concat (map cm_encode ms) \<and> list_all cm_canonical ms"
proof
  assume "cm_parse_stream data = Inr ms"
  from cm_stream_loop_sound [OF this [unfolded cm_parse_stream_def]] show "data = concat (map cm_encode ms) \<and> list_all cm_canonical ms"
    by auto
next
  assume a: "data = concat (map cm_encode ms) \<and> list_all cm_canonical ms"
  with cm_stream_loop_encode [of ms "[]" "[]"] show "cm_parse_stream data = Inr ms"
    by (simp add: cm_parse_stream_def)
qed

end
