(* ===== verification/Framing.thy ===== *)
theory Framing
  imports Control
begin

text \<open>
  \<open>victron-protocol\<close>, \<open>frame.rs\<close> and \<open>outbound.rs\<close>: the bounded \<open>Reassembler\<close> of
  Data/LastData notifications and \<open>split_request\<close>, which cuts a request into typed chunks.
  The locale \<open>reassembly\<close> is the interface between the two sides: its laws are what a receiver
  of chunks promises, and its client lemma is that the final-chunk rule of \<open>split_request\<close> is
  enough to rebuild the payload. It is interpreted on \<open>Reassembler\<close>.
\<close>

section \<open>Reassembler\<close>

definition DEFAULT_MAX_BUFFER :: nat where
  "DEFAULT_MAX_BUFFER = 64 * 1024"

record reassembly_error =
  err_capacity :: nat
  err_needed :: nat

record reassembler =
  ra_buffer :: bytes
  ra_max :: nat

definition ra_with_max :: "nat \<Rightarrow> reassembler" where
  "ra_with_max m = \<lparr>ra_buffer = [], ra_max = max m 1\<rparr>"

definition ra_new :: reassembler where
  "ra_new = ra_with_max DEFAULT_MAX_BUFFER"

definition ra_append :: "reassembler \<Rightarrow> bytes \<Rightarrow> (reassembly_error + unit) \<times> reassembler" where
  "ra_append r chunk =
     (let needed = length (ra_buffer r) + length chunk in
      if needed > ra_max r
      then (Inl \<lparr>err_capacity = ra_max r, err_needed = needed\<rparr>, r\<lparr>ra_buffer := []\<rparr>)
      else (Inr (), r\<lparr>ra_buffer := ra_buffer r @ chunk\<rparr>))"

definition ra_take :: "reassembler \<Rightarrow> bytes \<times> reassembler" where
  "ra_take r = (ra_buffer r, r\<lparr>ra_buffer := []\<rparr>)"

definition ra_clear :: "reassembler \<Rightarrow> reassembler" where
  "ra_clear r = r\<lparr>ra_buffer := []\<rparr>"

definition ra_push_data :: "reassembler \<Rightarrow> bytes \<Rightarrow> (reassembly_error + unit) \<times> reassembler" where
  "ra_push_data r chunk = ra_append r chunk"

definition ra_push_last_data ::
  "reassembler \<Rightarrow> bytes \<Rightarrow> (reassembly_error + bytes option) \<times> reassembler" where
  "ra_push_last_data r chunk =
     (case ra_append r chunk of
        (Inl e, r') \<Rightarrow> (Inl e, r')
      | (Inr _, r') \<Rightarrow> (let (payload, r'') = ra_take r' in (Inr (Some payload), r'')))"

definition ra_pending_len :: "reassembler \<Rightarrow> nat" where
  "ra_pending_len r = length (ra_buffer r)"

definition ra_is_empty :: "reassembler \<Rightarrow> bool" where
  "ra_is_empty r = (ra_buffer r = [])"

text \<open>Invariant: the buffer never holds more than its capacity, which is at least one byte.\<close>

definition ra_inv :: "reassembler \<Rightarrow> bool" where
  "ra_inv r \<longleftrightarrow> ra_pending_len r \<le> ra_max r \<and> 1 \<le> ra_max r"

lemmas ra_defs = ra_append_def ra_take_def ra_push_data_def ra_push_last_data_def Let_def

lemma ra_inv_with_max [simp]: "ra_inv (ra_with_max m)"
  by (simp add: ra_inv_def ra_with_max_def ra_pending_len_def)

lemma ra_inv_new [simp]: "ra_inv ra_new"
  by (simp add: ra_new_def)

lemma ra_inv_clear: "ra_inv r \<Longrightarrow> ra_inv (ra_clear r)"
  by (simp add: ra_inv_def ra_clear_def ra_pending_len_def)

lemma ra_inv_append: "ra_inv r \<Longrightarrow> ra_inv (snd (ra_append r c))"
  by (simp add: ra_inv_def ra_append_def ra_pending_len_def Let_def)

lemma ra_inv_push_data: "ra_inv r \<Longrightarrow> ra_inv (snd (ra_push_data r c))"
  by (simp add: ra_push_data_def ra_inv_append)

lemma ra_inv_push_last_data: "ra_inv r \<Longrightarrow> ra_inv (snd (ra_push_last_data r c))"
  by (auto simp: ra_inv_def ra_pending_len_def ra_defs)

lemma ra_push_last_data_some:
  "ra_push_last_data r c = (Inr res, r') \<Longrightarrow> res = Some (ra_buffer r @ c) \<and> ra_buffer r' = []"
  by (auto simp: ra_defs split: if_splits)

section \<open>Outbound chunking\<close>

datatype outbound_target = ToData | ToLastData

record outbound_chunk =
  target :: outbound_target
  chunk_bytes :: bytes

text \<open>The splitting loop, for a chunk size of at least one (the caller rejects zero).\<close>

function split_loop :: "nat \<Rightarrow> bytes \<Rightarrow> outbound_chunk list \<Rightarrow> outbound_chunk list" where
  "split_loop chunk_size rest chunks =
     (if chunk_size = 0 then chunks
      else let n = min (length rest) chunk_size; head = take n rest; tail = drop n rest;
               chunks' = chunks @ [\<lparr>target = (if tail = [] then ToLastData else ToData),
                                    chunk_bytes = head\<rparr>]
           in if tail = [] then chunks' else split_loop chunk_size tail chunks')"
  by pat_completeness auto
termination
  by (relation "measure (\<lambda>(n, rest, chunks). length rest)") auto

declare split_loop.simps [simp del]

definition split_request :: "bytes \<Rightarrow> nat \<Rightarrow> protocol_error + outbound_chunk list" where
  "split_request payload chunk_size =
     (if payload = [] then Inl (InvalidOutbound ''empty request payload'')
      else if chunk_size = 0 then Inl (InvalidOutbound ''chunk size must be >= 1'')
      else Inr (split_loop chunk_size payload []))"

text \<open>The shape of a split: full Data chunks, then one non-empty LastData chunk.\<close>

fun chunks_ok :: "nat \<Rightarrow> outbound_chunk list \<Rightarrow> bool" where
  "chunks_ok n [] = False"
| "chunks_ok n [c] = (target c = ToLastData \<and> chunk_bytes c \<noteq> [] \<and> length (chunk_bytes c) \<le> n)"
| "chunks_ok n (c # cs) = (target c = ToData \<and> length (chunk_bytes c) = n \<and> chunks_ok n cs)"

lemma chunks_ok_Cons:
  "cs \<noteq> [] \<Longrightarrow> chunks_ok n (c # cs) \<longleftrightarrow> target c = ToData \<and> length (chunk_bytes c) = n \<and> chunks_ok n cs"
  by (cases cs) simp_all

lemma split_loop_spec:
  assumes "0 < n" "rest \<noteq> []"
  shows "\<exists>cs. split_loop n rest acc = acc @ cs \<and> chunks_ok n cs \<and> concat (map chunk_bytes cs) = rest
    \<and> length cs = (length rest + n - 1) div n"
  using assms
proof (induction n rest acc rule: split_loop.induct)
  case (1 n rest acc)
  show ?case
  proof (cases "length rest \<le> n")
    case True
    moreover have "(length rest + n - 1) div n = 1"
      using "1.prems" True by (cases rest) (auto intro!: div_nat_eqI)
    ultimately show ?thesis
      using "1.prems" by (subst split_loop.simps) (simp add: Let_def)
  next
    case False
    let ?c = "\<lparr>target = ToData, chunk_bytes = take n rest\<rparr>"
    have "\<exists>cs. split_loop n (drop n rest) (acc @ [?c]) = (acc @ [?c]) @ cs \<and> chunks_ok n cs
        \<and> concat (map chunk_bytes cs) = drop n rest
        \<and> length cs = (length (drop n rest) + n - 1) div n"
      using "1.IH" [of n "take n rest" "drop n rest" "acc @ [?c]"] "1.prems" False
      by (simp add: min_def)
    then obtain cs where cs: "split_loop n (drop n rest) (acc @ [?c]) = acc @ [?c] @ cs"
      "chunks_ok n cs" "concat (map chunk_bytes cs) = drop n rest"
      "length cs = (length (drop n rest) + n - 1) div n"
      by auto
    have "cs \<noteq> []" using cs(2) by auto
    moreover have "(length rest + n - 1) div n = Suc ((length (drop n rest) + n - 1) div n)"
    proof -
      have "length rest + n - 1 = n + (length (drop n rest) + n - 1)"
        using "1.prems" False by simp
      then show ?thesis using "1.prems"(1) by (simp only: div_add_self1)
    qed
    moreover have "split_loop n rest acc = split_loop n (drop n rest) (acc @ [?c])"
      using "1.prems" False by (subst split_loop.simps) (simp add: Let_def min_def)
    ultimately show ?thesis
      using cs False by (intro exI [of _ "?c # cs"]) (simp add: chunks_ok_Cons)
  qed
qed

lemma split_request_spec:
  "split_request payload n = Inr cs \<Longrightarrow>
    chunks_ok n cs \<and> concat (map chunk_bytes cs) = payload \<and> length cs = (length payload + n - 1) div n"
  using split_loop_spec [of n payload "[]"] by (auto simp: split_request_def split: if_splits)

lemma split_request_total:
  "is_ok (split_request payload n) \<longleftrightarrow> payload \<noteq> [] \<and> 0 < n"
  by (simp add: split_request_def)

section \<open>The interface between sender and receiver\<close>

text \<open>
  A receiver, driven by the chunks a sender writes: Data chunks go to \<open>push_data\<close>, a LastData
  chunk to \<open>push_last_data\<close>, which yields the payload.
\<close>

fun feed_chunks ::
  "('r \<Rightarrow> bytes \<Rightarrow> ('e + unit) \<times> 'r) \<Rightarrow> ('r \<Rightarrow> bytes \<Rightarrow> ('e + bytes option) \<times> 'r) \<Rightarrow>
   'r \<Rightarrow> outbound_chunk list \<Rightarrow> ('e + bytes option) \<times> 'r" where
  "feed_chunks pd pl r [] = (Inr None, r)"
| "feed_chunks pd pl r (c # cs) =
     (case target c of
        ToData \<Rightarrow> (case pd r (chunk_bytes c) of
                     (Inl e, r') \<Rightarrow> (Inl e, r')
                   | (Inr _, r') \<Rightarrow> feed_chunks pd pl r' cs)
      | ToLastData \<Rightarrow> pl r (chunk_bytes c))"

locale reassembly =
  fixes push_data :: "'r \<Rightarrow> bytes \<Rightarrow> ('e + unit) \<times> 'r"
    and push_last_data :: "'r \<Rightarrow> bytes \<Rightarrow> ('e + bytes option) \<times> 'r"
    and pending :: "'r \<Rightarrow> bytes"
    and capacity :: "'r \<Rightarrow> nat"
  assumes push_data_fits:
      "length (pending r) + length c \<le> capacity r \<Longrightarrow>
        fst (push_data r c) = Inr () \<and> pending (snd (push_data r c)) = pending r @ c"
    and push_last_data_fits:
      "length (pending r) + length c \<le> capacity r \<Longrightarrow>
        fst (push_last_data r c) = Inr (Some (pending r @ c)) \<and> pending (snd (push_last_data r c)) = []"
    and overflow_drops:
      "capacity r < length (pending r) + length c \<Longrightarrow>
        (\<exists>e. fst (push_data r c) = Inl e) \<and> pending (snd (push_data r c)) = []
        \<and> (\<exists>e. fst (push_last_data r c) = Inl e) \<and> pending (snd (push_last_data r c)) = []"
    and capacity_fixed:
      "capacity (snd (push_data r c)) = capacity r" "capacity (snd (push_last_data r c)) = capacity r"
begin

text \<open>Chunks that follow the final-chunk rule and fit rebuild what they were cut from.\<close>

lemma feed_rebuilds:
  assumes "chunks_ok n cs" "length (pending r) + length (concat (map chunk_bytes cs)) \<le> capacity r"
  shows "fst (feed_chunks push_data push_last_data r cs)
           = Inr (Some (pending r @ concat (map chunk_bytes cs)))
       \<and> pending (snd (feed_chunks push_data push_last_data r cs)) = []"
  using assms
proof (induction cs arbitrary: r)
  case Nil
  then show ?case by simp
next
  case (Cons c cs)
  show ?case
  proof (cases "cs = []")
    case True
    with Cons.prems push_last_data_fits [of r "chunk_bytes c"] show ?thesis by simp
  next
    case False
    obtain r' where ok: "push_data r (chunk_bytes c) = (Inr (), r')"
      and p': "pending r' = pending r @ chunk_bytes c" and c': "capacity r' = capacity r"
      using push_data_fits [of r "chunk_bytes c"] capacity_fixed(1) [of r "chunk_bytes c"] Cons.prems(2)
      by (cases "push_data r (chunk_bytes c)") auto
    have "fst (feed_chunks push_data push_last_data r' cs)
            = Inr (Some (pending r' @ concat (map chunk_bytes cs)))
        \<and> pending (snd (feed_chunks push_data push_last_data r' cs)) = []"
      using Cons.prems False p' c' by (intro Cons.IH) (simp_all add: chunks_ok_Cons)
    moreover have "feed_chunks push_data push_last_data r (c # cs)
        = feed_chunks push_data push_last_data r' cs"
      using Cons.prems(1) False ok by (simp add: chunks_ok_Cons)
    ultimately show ?thesis using p' by simp
  qed
qed

text \<open>Whatever is fed, the receiver never holds more than its capacity.\<close>

lemma pending_bounded_push:
  assumes "length (pending r) \<le> capacity r"
  shows "length (pending (snd (push_data r c))) \<le> capacity r"
proof (cases "length (pending r) + length c \<le> capacity r")
  case True
  then show ?thesis using push_data_fits [OF True] by simp
next
  case False
  then show ?thesis using overflow_drops [of r c] by simp
qed

end

interpretation ra: reassembly ra_push_data ra_push_last_data ra_buffer ra_max
  by unfold_locales (auto simp: ra_defs)

section \<open>Properties\<close>

text \<open>A request is refused exactly when it is empty or the chunk size is zero. Otherwise it is cut
  into chunks that carry its bytes in order: all but the last are full and go to the data
  characteristic, the last goes to the last-data one, and there are as few as the size allows.\<close>

theorem split_request_exact:
  "case split_request payload n of
     Inl e \<Rightarrow> payload = [] \<or> n = 0
   | Inr cs \<Rightarrow> payload \<noteq> [] \<and> 0 < n \<and> chunks_ok n cs \<and> concat (map chunk_bytes cs) = payload
       \<and> length cs = (length payload + n - 1) div n"
  using split_request_total [of payload n] split_request_spec [of payload n]
  by (cases "split_request payload n") auto

text \<open>C17: Cutting a request and feeding the chunks to a reassembler gives the request back and leaves the
  reassembler empty, when its buffer has room for what is pending and the request.\<close>

theorem split_reassemble:
  assumes "split_request payload n = Inr cs" "ra_pending_len r + length payload \<le> ra_max r"
  shows "fst (feed_chunks ra_push_data ra_push_last_data r cs) = Inr (Some (ra_buffer r @ payload))
    \<and> ra_is_empty (snd (feed_chunks ra_push_data ra_push_last_data r cs))"
  using split_request_spec [OF assms(1)] ra.feed_rebuilds [of n cs r] assms(2)
  by (simp add: ra_pending_len_def ra_is_empty_def)

theorem split_reassemble_witness:
  "fst (feed_chunks ra_push_data ra_push_last_data ra_new
      [\<lparr>target = ToData, chunk_bytes = [1, 2]\<rparr>, \<lparr>target = ToLastData, chunk_bytes = [3]\<rparr>])
    = Inr (Some [1, 2, 3])"
proof -
  have "split_request [1, 2, 3] 2 = Inr [\<lparr>target = ToData, chunk_bytes = [1, 2]\<rparr>, \<lparr>target = ToLastData, chunk_bytes = [3]\<rparr>]"
    by code_simp
  from split_reassemble [OF this, of ra_new] show ?thesis by (simp add: ra_new_def ra_with_max_def ra_pending_len_def DEFAULT_MAX_BUFFER_def)
qed

end
