(* ===== verification/Float64.thy ===== *)
theory Float64
  imports Complex_Main "HOL-Library.Log_Nat" Prelude
begin

text \<open>
  Rust's \<open>f64\<close>: IEEE 754 binary64 with round-to-nearest, ties-to-even. A finite value is the
  rational number it denotes, so equality of two \<open>f64\<close> is equality of their bit patterns
  (negative zero and the infinities have constructors of their own; the NaN payload is not kept).
  Every arithmetic operation computes the exact rational result and rounds it once, with gradual
  underflow at \<open>2 ^ -1074\<close> and overflow to infinity at \<open>2 ^ 1024\<close>.

  The lemmas give what the components need of it: rounding is monotone, is the identity on
  representable values and moves a normal value by at most half a unit in the last place.
\<close>

section \<open>Rounding to 53 significant bits\<close>

definition pow2 :: "int \<Rightarrow> rat" where
  "pow2 e = (if 0 \<le> e then 2 ^ nat e else 1 / 2 ^ nat (- e))"

definition log2_floor :: "rat \<Rightarrow> int" where
  "log2_floor q =
     (let (n, d) = quotient_of q; e = bitlen n - bitlen d
      in if pow2 e \<le> q then e else e - 1)"

definition round_even :: "rat \<Rightarrow> int" where
  "round_even x =
     (let f = \<lfloor>x\<rfloor>; r = x - of_int f
      in if r < 1 / 2 then f else if 1 / 2 < r then f + 1 else if even f then f else f + 1)"

definition ulp_exp :: "rat \<Rightarrow> int" where
  "ulp_exp q = max (log2_floor q - 52) (- 1074)"

definition rnd_pos :: "rat \<Rightarrow> rat" where
  "rnd_pos q =
     (if q = 0 then 0 else of_int (round_even (q / pow2 (ulp_exp q))) * pow2 (ulp_exp q))"

lemma pow2_powi: "pow2 e = 2 powi e"
  by (simp add: pow2_def power_int_def power_divide divide_simps)

lemma pow2_pos [simp]: "0 < pow2 e"
  by (simp add: pow2_powi)

lemma pow2_nonzero [simp]: "pow2 e \<noteq> 0"
  by (simp add: pow2_powi)

lemma pow2_nonneg [simp]: "0 \<le> pow2 e"
  by (simp add: pow2_powi)

lemma pow2_add: "pow2 (a + b) = pow2 a * pow2 b"
  by (simp add: pow2_powi power_int_add)

lemma pow2_diff: "pow2 (a - b) = pow2 a / pow2 b"
  by (simp add: pow2_powi power_int_diff)

lemma pow2_less: "a < b \<Longrightarrow> pow2 a < pow2 b"
  by (simp add: pow2_powi power_int_strict_increasing)

lemma pow2_less_iff [simp]: "pow2 a < pow2 b \<longleftrightarrow> a < b"
  using pow2_less [of a b] pow2_less [of b a] by (cases a b rule: linorder_cases) auto

lemma pow2_le_iff [simp]: "pow2 a \<le> pow2 b \<longleftrightarrow> a \<le> b"
  by (simp only: not_less [symmetric] pow2_less_iff)

lemma pow2_nat: "0 \<le> d \<Longrightarrow> pow2 d = 2 ^ nat d"
  by (simp add: pow2_def)

lemma pow2_of_nat: "pow2 (int n) = 2 ^ n"
  by (simp add: pow2_def)

lemma log2_floor_bounds:
  assumes "0 < q"
  shows "pow2 (log2_floor q) \<le> q" "q < pow2 (log2_floor q + 1)"
proof -
  obtain n d where nd: "quotient_of q = (n, d)" by force
  then have q: "q = of_int n / of_int d" and d: "0 < d"
    using quotient_of_div quotient_of_denom_pos by blast+
  with assms have n: "0 < n" by (simp add: zero_less_divide_iff)
  have dyadic: "pow2 (bitlen x - 1) \<le> of_int x" "of_int x < pow2 (bitlen x)" if "0 < x" for x
  proof -
    have b: "2 ^ nat (bitlen x - 1) \<le> x" "x < 2 ^ nat (bitlen x)"
      using bitlen_bounds [OF that] by auto
    have "1 \<le> bitlen x"
      using that bitlen_nonneg [of x] by (metis bitlen_eq_zero_iff int_one_le_iff_zero_less le_less not_le)
    then have "pow2 (bitlen x - 1) = of_int (2 ^ nat (bitlen x - 1))"
      "pow2 (bitlen x) = of_int (2 ^ nat (bitlen x))"
      by (simp_all add: pow2_def)
    then show "pow2 (bitlen x - 1) \<le> of_int x" "of_int x < pow2 (bitlen x)"
      using b by (simp_all only: of_int_le_iff of_int_less_iff)
  qed
  have D: "(0 :: rat) < of_int d" using d by simp
  have lo: "pow2 (bitlen n - bitlen d - 1) \<le> q"
  proof -
    have "pow2 (bitlen n - 1) / pow2 (bitlen d) \<le> of_int n / of_int d"
      using dyadic(1) [OF n] dyadic(2) [OF d] D n by (intro frac_le) auto
    then show ?thesis by (simp add: q pow2_diff [symmetric] algebra_simps)
  qed
  have hi: "q < pow2 (bitlen n - bitlen d + 1)"
  proof -
    have "of_int n / of_int d < pow2 (bitlen n) / pow2 (bitlen d - 1)"
      using dyadic(2) [OF n] dyadic(1) [OF d] D n by (intro frac_less) auto
    then show ?thesis by (simp add: q pow2_diff [symmetric] algebra_simps)
  qed
  show "pow2 (log2_floor q) \<le> q" "q < pow2 (log2_floor q + 1)"
    using lo hi by (auto simp: log2_floor_def nd Let_def)
qed

lemma log2_floor_unique:
  assumes "pow2 e \<le> q" "q < pow2 (e + 1)"
  shows "log2_floor q = e"
proof -
  have q: "0 < q" using assms(1) pow2_pos [of e] by linarith
  have "pow2 e < pow2 (log2_floor q + 1)" "pow2 (log2_floor q) < pow2 (e + 1)"
    using le_less_trans [OF assms(1) log2_floor_bounds(2) [OF q]]
      le_less_trans [OF log2_floor_bounds(1) [OF q] assms(2)] by blast+
  then show ?thesis by simp
qed

lemma log2_floor_mono: "0 < q \<Longrightarrow> q \<le> r \<Longrightarrow> log2_floor q \<le> log2_floor r"
proof -
  assume "0 < q" "q \<le> r"
  then have "pow2 (log2_floor q) < pow2 (log2_floor r + 1)"
    using log2_floor_bounds [of q] log2_floor_bounds [of r] by linarith
  then show ?thesis by simp
qed

lemma round_even_of_int [simp]: "round_even (of_int k) = k"
  by (simp add: round_even_def)

lemma round_even_floor: "\<lfloor>x\<rfloor> \<le> round_even x" "round_even x \<le> \<lfloor>x\<rfloor> + 1"
  by (simp_all add: round_even_def Let_def)

lemma round_even_mono: "x \<le> y \<Longrightarrow> round_even x \<le> round_even y"
proof (cases "\<lfloor>x\<rfloor> = \<lfloor>y\<rfloor>")
  case True
  assume "x \<le> y"
  with True show ?thesis by (auto simp: round_even_def Let_def)
next
  case False
  assume "x \<le> y"
  then have "\<lfloor>x\<rfloor> \<le> \<lfloor>y\<rfloor>" by (rule floor_mono)
  with False have "\<lfloor>x\<rfloor> + 1 \<le> \<lfloor>y\<rfloor>" by simp
  then show ?thesis using round_even_floor(2) [of x] round_even_floor(1) [of y] by linarith
qed

lemma round_even_ge: "of_int k \<le> x \<Longrightarrow> k \<le> round_even x"
  using round_even_mono [of "of_int k" x] by simp

lemma round_even_le: "x \<le> of_int k \<Longrightarrow> round_even x \<le> k"
  using round_even_mono [of x "of_int k"] by simp

lemma round_even_error: "\<bar>of_int (round_even x) - x\<bar> \<le> 1 / 2"
proof -
  have lo: "of_int \<lfloor>x\<rfloor> \<le> x" and hi: "x < of_int \<lfloor>x\<rfloor> + 1" by linarith+
  have "round_even x = \<lfloor>x\<rfloor> \<and> x - of_int \<lfloor>x\<rfloor> \<le> 1 / 2
      \<or> round_even x = \<lfloor>x\<rfloor> + 1 \<and> 1 / 2 \<le> x - of_int \<lfloor>x\<rfloor>"
    unfolding round_even_def Let_def by (simp split: if_split)
  then show ?thesis using lo hi by (elim disjE conjE) (simp_all add: abs_le_iff)
qed

lemma scaled_mantissa:
  assumes "0 < q"
  shows "q / pow2 (ulp_exp q) < 2 ^ 53" "- 1074 < ulp_exp q \<Longrightarrow> 2 ^ 52 \<le> q / pow2 (ulp_exp q)"
proof -
  have "q < pow2 (ulp_exp q + 53)"
  proof (rule less_le_trans [OF log2_floor_bounds(2) [OF assms]])
    show "pow2 (log2_floor q + 1) \<le> pow2 (ulp_exp q + 53)"
      by (simp add: ulp_exp_def)
  qed
  then show "q / pow2 (ulp_exp q) < 2 ^ 53"
    by (simp add: pow2_add divide_less_eq mult.commute pow2_of_nat [of 53, simplified])
  assume "- 1074 < ulp_exp q"
  then have "log2_floor q = ulp_exp q + 52" by (simp add: ulp_exp_def max_def split: if_splits)
  then have "pow2 (ulp_exp q + 52) \<le> q" using log2_floor_bounds(1) [OF assms] by simp
  then show "2 ^ 52 \<le> q / pow2 (ulp_exp q)"
    by (simp add: pow2_add le_divide_eq mult.commute pow2_of_nat [of 52, simplified])
qed

definition dyadic53 :: "rat \<Rightarrow> bool" where
  "dyadic53 r \<longleftrightarrow> (\<exists>m e. r = of_int m * pow2 e \<and> 0 \<le> m \<and> m \<le> 2 ^ 53 \<and> - 1074 \<le> e)"

lemma rnd_pos_dyadic53: "0 \<le> q \<Longrightarrow> dyadic53 (rnd_pos q)"
proof (cases "q = 0")
  case True
  then show ?thesis unfolding dyadic53_def rnd_pos_def by (intro exI [of _ 0]) auto
next
  case False
  assume "0 \<le> q"
  with False have q: "0 < q" by simp
  let ?m = "round_even (q / pow2 (ulp_exp q))"
  have "0 \<le> ?m" using q by (intro round_even_ge) simp
  moreover have "?m \<le> 2 ^ 53"
    using scaled_mantissa(1) [OF q] by (intro round_even_le) simp
  moreover have "- 1074 \<le> ulp_exp q" by (simp add: ulp_exp_def)
  ultimately show ?thesis
    unfolding dyadic53_def rnd_pos_def using False by (intro exI [of _ ?m] exI [of _ "ulp_exp q"]) simp
qed

lemma rnd_pos_nonneg: "0 \<le> q \<Longrightarrow> 0 \<le> rnd_pos q"
  using rnd_pos_dyadic53 [of q] by (auto simp: dyadic53_def)

lemma rnd_pos_exact_aux:
  assumes "0 < m" "m < 2 ^ 53" "- 1074 \<le> e"
  shows "rnd_pos (of_int m * pow2 e) = of_int m * pow2 e"
proof -
  let ?q = "of_int m * pow2 e"
  let ?u = "ulp_exp ?q"
  have q: "0 < ?q" using assms(1) by simp
  have "?q < pow2 (e + 53)"
  proof -
    have "of_int m < (of_int (2 ^ 53) :: rat)" using assms(2) by (simp only: of_int_less_iff)
    then show ?thesis by (simp add: pow2_add pow2_of_nat [of 53, simplified] mult.commute)
  qed
  then have "pow2 (log2_floor ?q) < pow2 (e + 53)"
    using log2_floor_bounds(1) [OF q] by linarith
  then have u: "?u \<le> e" using assms(3) by (simp add: ulp_exp_def)
  have "?q / pow2 ?u = of_int (m * 2 ^ nat (e - ?u))"
  proof -
    have "pow2 e / pow2 ?u = 2 ^ nat (e - ?u)"
      using u pow2_nat [of "e - ?u"] by (simp add: pow2_diff)
    then show ?thesis by (simp add: field_simps)
  qed
  then have "of_int (round_even (?q / pow2 ?u)) = ?q / pow2 ?u"
    by (simp only: round_even_of_int)
  then show ?thesis using q by (simp add: rnd_pos_def)
qed

lemma rnd_pos_dyadic: "dyadic53 r \<Longrightarrow> rnd_pos r = r"
proof -
  assume "dyadic53 r"
  then obtain m e where r: "r = of_int m * pow2 e" and m: "0 \<le> m" "m \<le> 2 ^ 53" and e: "- 1074 \<le> e"
    by (auto simp: dyadic53_def)
  consider "m = 0" | "0 < m" "m < 2 ^ 53" | "m = 2 ^ 53" using m by linarith
  then show ?thesis
  proof cases
    case 1
    then show ?thesis by (simp add: r rnd_pos_def)
  next
    case 2
    then show ?thesis using rnd_pos_exact_aux e by (simp add: r)
  next
    case 3
    have "r = of_int (2 ^ 52) * pow2 (e + 1)"
      using pow2_of_nat [of 1] by (simp add: r 3 pow2_add)
    then show ?thesis using rnd_pos_exact_aux [of "2 ^ 52" "e + 1"] e by simp
  qed
qed

lemma rnd_pos_idem [simp]: "0 \<le> q \<Longrightarrow> rnd_pos (rnd_pos q) = rnd_pos q"
  by (rule rnd_pos_dyadic) (rule rnd_pos_dyadic53)

lemma rnd_pos_mono:
  assumes "0 \<le> q" "q \<le> r"
  shows "rnd_pos q \<le> rnd_pos r"
proof (cases "q = 0")
  case True
  then show ?thesis using assms rnd_pos_nonneg [of r] by (simp add: rnd_pos_def)
next
  case False
  then have q: "0 < q" and r: "0 < r" using assms by auto
  let ?u = "ulp_exp q" and ?v = "ulp_exp r"
  have rq: "rnd_pos q = of_int (round_even (q / pow2 ?u)) * pow2 ?u"
    and rr: "rnd_pos r = of_int (round_even (r / pow2 ?v)) * pow2 ?v"
    using q r by (simp_all add: rnd_pos_def)
  have uv: "?u \<le> ?v" using log2_floor_mono [OF q assms(2)] by (auto simp: ulp_exp_def)
  show ?thesis
  proof (cases "?u = ?v")
    case True
    have "round_even (q / pow2 ?v) \<le> round_even (r / pow2 ?v)"
      using assms(2) by (intro round_even_mono) (simp add: divide_right_mono)
    then show ?thesis unfolding rq rr True by (simp add: mult_right_mono)
  next
    case False
    with uv have v: "?u < ?v" "- 1074 < ?v" by (auto simp: ulp_exp_def)
    have "round_even (q / pow2 ?u) \<le> 2 ^ 53"
      using scaled_mantissa(1) [OF q] by (intro round_even_le) simp
    then have "rnd_pos q \<le> of_int (2 ^ 53) * pow2 ?u"
      unfolding rq by (intro mult_right_mono) (simp_all only: of_int_le_iff pow2_nonneg)
    also have "\<dots> = pow2 (?u + 53)"
      by (simp add: pow2_add pow2_of_nat [of 53, simplified])
    also have "\<dots> \<le> pow2 (?v + 52)" using v by simp
    also have "\<dots> = of_int (2 ^ 52) * pow2 ?v"
      by (simp add: pow2_add pow2_of_nat [of 52, simplified])
    also have "\<dots> \<le> rnd_pos r"
    proof -
      have "2 ^ 52 \<le> round_even (r / pow2 ?v)"
        using scaled_mantissa(2) [OF r v(2)] by (intro round_even_ge) simp
      then show ?thesis
        unfolding rr by (intro mult_right_mono) (simp_all only: of_int_le_iff pow2_nonneg)
    qed
    finally show ?thesis .
  qed
qed

text \<open>The rounding error is at most half a unit in the last place.\<close>

lemma rnd_pos_error: "0 < q \<Longrightarrow> \<bar>rnd_pos q - q\<bar> \<le> pow2 (ulp_exp q) / 2"
proof -
  assume q: "0 < q"
  let ?u = "pow2 (ulp_exp q)"
  have "rnd_pos q - q = (of_int (round_even (q / ?u)) - q / ?u) * ?u"
    using q by (simp add: rnd_pos_def left_diff_distrib)
  then have "\<bar>rnd_pos q - q\<bar> = \<bar>of_int (round_even (q / ?u)) - q / ?u\<bar> * ?u"
    by (simp add: abs_mult)
  also have "\<dots> \<le> 1 / 2 * ?u"
    by (intro mult_right_mono round_even_error) simp
  finally show ?thesis by simp
qed

section \<open>The type and its operations\<close>

datatype f64 = F64_NaN | F64_Inf bool | F64_NegZero | F64_Fin rat

definition rnd :: "rat \<Rightarrow> rat" where
  "rnd q = (if q < 0 then - rnd_pos (- q) else rnd_pos q)"

text \<open>\<open>f64_round neg q\<close> is the nearest \<open>f64\<close> to \<open>q\<close>; \<open>neg\<close> is the sign a zero result takes.\<close>

definition f64_round :: "bool \<Rightarrow> rat \<Rightarrow> f64" where
  "f64_round neg q =
     (let r = rnd q
      in if 2 ^ 1024 \<le> \<bar>r\<bar> then F64_Inf (r < 0)
         else if r = 0 then (if neg then F64_NegZero else F64_Fin 0)
         else F64_Fin r)"

text \<open>A decimal literal of the source, and the integer casts \<open>v as f64\<close>.\<close>

definition f64_lit :: "rat \<Rightarrow> f64" where
  "f64_lit q = f64_round (q < 0) q"

definition f64_of_int :: "int \<Rightarrow> f64" where
  "f64_of_int i = f64_lit (of_int i)"

definition f64_is_finite :: "f64 \<Rightarrow> bool" where
  "f64_is_finite x = (case x of F64_NegZero \<Rightarrow> True | F64_Fin _ \<Rightarrow> True | _ \<Rightarrow> False)"

definition f64_val :: "f64 \<Rightarrow> rat" where
  "f64_val x = (case x of F64_Fin q \<Rightarrow> q | _ \<Rightarrow> 0)"

text \<open>The sign bit (of a non-NaN value).\<close>

definition f64_neg :: "f64 \<Rightarrow> bool" where
  "f64_neg x = (case x of F64_NaN \<Rightarrow> False | F64_Inf s \<Rightarrow> s | F64_NegZero \<Rightarrow> True | F64_Fin q \<Rightarrow> q < 0)"

definition f64_add :: "f64 \<Rightarrow> f64 \<Rightarrow> f64" where
  "f64_add x y =
     (if x = F64_NaN \<or> y = F64_NaN then F64_NaN
      else case (x, y) of
        (F64_Inf s, F64_Inf t) \<Rightarrow> if s = t then F64_Inf s else F64_NaN
      | (F64_Inf s, _) \<Rightarrow> F64_Inf s
      | (_, F64_Inf t) \<Rightarrow> F64_Inf t
      | (F64_NegZero, F64_NegZero) \<Rightarrow> F64_NegZero
      | _ \<Rightarrow> f64_round False (f64_val x + f64_val y))"

definition f64_mul :: "f64 \<Rightarrow> f64 \<Rightarrow> f64" where
  "f64_mul x y =
     (let s = (f64_neg x \<noteq> f64_neg y)
      in if x = F64_NaN \<or> y = F64_NaN then F64_NaN
         else if f64_is_finite x \<and> f64_is_finite y then f64_round s (f64_val x * f64_val y)
         else if f64_is_finite x \<and> f64_val x = 0 \<or> f64_is_finite y \<and> f64_val y = 0 then F64_NaN
         else F64_Inf s)"

definition f64_div :: "f64 \<Rightarrow> f64 \<Rightarrow> f64" where
  "f64_div x y =
     (let s = (f64_neg x \<noteq> f64_neg y)
      in if x = F64_NaN \<or> y = F64_NaN then F64_NaN
         else if f64_is_finite x then
           (if \<not> f64_is_finite y then f64_round s 0
            else if f64_val y = 0 then (if f64_val x = 0 then F64_NaN else F64_Inf s)
            else f64_round s (f64_val x / f64_val y))
         else if f64_is_finite y then F64_Inf s else F64_NaN)"

text \<open>Comparisons: false whenever an operand is NaN; the two zeros are equal.\<close>

definition f64_lt :: "f64 \<Rightarrow> f64 \<Rightarrow> bool" where
  "f64_lt x y =
     (case (x, y) of
        (F64_NaN, _) \<Rightarrow> False
      | (_, F64_NaN) \<Rightarrow> False
      | (F64_Inf s, F64_Inf t) \<Rightarrow> s \<and> \<not> t
      | (F64_Inf s, _) \<Rightarrow> s
      | (_, F64_Inf t) \<Rightarrow> \<not> t
      | _ \<Rightarrow> f64_val x < f64_val y)"

definition f64_le :: "f64 \<Rightarrow> f64 \<Rightarrow> bool" where
  "f64_le x y =
     (case (x, y) of
        (F64_NaN, _) \<Rightarrow> False
      | (_, F64_NaN) \<Rightarrow> False
      | (F64_Inf s, F64_Inf t) \<Rightarrow> s \<or> \<not> t
      | (F64_Inf s, _) \<Rightarrow> s
      | (_, F64_Inf t) \<Rightarrow> \<not> t
      | _ \<Rightarrow> f64_val x \<le> f64_val y)"

text \<open>The values an \<open>f64\<close> variable can hold: a finite one is representable.\<close>

definition f64_wf :: "f64 \<Rightarrow> bool" where
  "f64_wf x = (case x of F64_Fin q \<Rightarrow> rnd q = q \<and> \<bar>q\<bar> < 2 ^ 1024 | _ \<Rightarrow> True)"

section \<open>Lemmas\<close>

lemma rnd_0 [simp]: "rnd 0 = 0"
  by (simp add: rnd_def rnd_pos_def)

lemma rnd_minus: "rnd (- q) = - rnd q"
  by (cases "q = 0") (auto simp: rnd_def rnd_pos_def)

lemma rnd_nonneg: "0 \<le> q \<Longrightarrow> 0 \<le> rnd q"
  by (simp add: rnd_def rnd_pos_nonneg)

lemma rnd_nonpos: "q \<le> 0 \<Longrightarrow> rnd q \<le> 0"
  using rnd_nonneg [of "- q"] by (simp add: rnd_minus)

lemma rnd_mono: "q \<le> r \<Longrightarrow> rnd q \<le> rnd r"
proof -
  assume qr: "q \<le> r"
  consider "0 \<le> q" | "q < 0" "0 \<le> r" | "r < 0" using qr by linarith
  then show ?thesis
  proof cases
    case 1
    then show ?thesis using qr by (simp add: rnd_def rnd_pos_mono)
  next
    case 2
    then show ?thesis using rnd_nonpos [of q] rnd_nonneg [of r] by linarith
  next
    case 3
    then show ?thesis using qr by (simp add: rnd_def rnd_pos_mono)
  qed
qed

lemma rnd_idem [simp]: "rnd (rnd q) = rnd q"
proof (cases "0 \<le> q")
  case True
  then show ?thesis using rnd_pos_nonneg [OF True] by (simp add: rnd_def)
next
  case False
  then have p: "0 \<le> - q" by simp
  then have "rnd (rnd (- q)) = rnd (- q)" using rnd_pos_nonneg [OF p] by (simp add: rnd_def)
  then show ?thesis by (simp add: rnd_minus)
qed

text \<open>Integers up to \<open>2 ^ 53\<close> are exact, so the casts of \<open>u8\<close>, \<open>u16\<close>, \<open>u32\<close>, \<open>i32\<close> are.\<close>

lemma rnd_pos_small_int: "0 \<le> i \<Longrightarrow> i \<le> 2 ^ 53 \<Longrightarrow> rnd_pos (of_int i) = of_int i"
proof (rule rnd_pos_dyadic)
  assume "0 \<le> i" "i \<le> 2 ^ 53"
  moreover have "(of_int i :: rat) = of_int i * pow2 0" by (simp add: pow2_def)
  ultimately show "dyadic53 (of_int i)"
    unfolding dyadic53_def by (intro exI [of _ i] exI [of _ "0 :: int"]) simp
qed

lemma rnd_small_int: "\<bar>i\<bar> \<le> 2 ^ 53 \<Longrightarrow> rnd (of_int i) = of_int i"
  using rnd_pos_small_int [of i] rnd_pos_small_int [of "- i"] by (auto simp: rnd_def)

lemma f64_of_int_small: "\<bar>i\<bar> \<le> 2 ^ 53 \<Longrightarrow> f64_of_int i = F64_Fin (of_int i)"
proof -
  assume i: "\<bar>i\<bar> \<le> 2 ^ 53"
  have "\<bar>of_int i\<bar> \<le> (of_int (2 ^ 53) :: rat)"
    using i by (simp only: of_int_abs [symmetric] of_int_le_iff)
  also have "\<dots> < 2 ^ 1024" by simp
  finally have "\<bar>of_int i\<bar> < (2 ^ 1024 :: rat)" .
  then show ?thesis
    using rnd_small_int [OF i]
    by (auto simp: f64_of_int_def f64_lit_def f64_round_def Let_def simp del: power_numeral)
qed

lemma f64_lit_int: "\<bar>i\<bar> \<le> 2 ^ 53 \<Longrightarrow> f64_lit (of_int i) = F64_Fin (of_int i)"
  using f64_of_int_small [of i] by (simp add: f64_of_int_def)

lemma f64_lit_numeral:
  "numeral n \<le> (2 ^ 53 :: int) \<Longrightarrow> f64_lit (numeral n) = F64_Fin (numeral n)"
  "numeral n \<le> (2 ^ 53 :: int) \<Longrightarrow> f64_lit (- numeral n) = F64_Fin (- numeral n)"
  "f64_lit 0 = F64_Fin 0"
  using f64_lit_int [of "numeral n"] f64_lit_int [of "- numeral n"] f64_lit_int [of 0] by simp_all

lemma f64_round_numeral:
  "numeral n \<le> (2 ^ 53 :: int) \<Longrightarrow> f64_round neg (numeral n) = F64_Fin (numeral n)"
  "numeral n \<le> (2 ^ 53 :: int) \<Longrightarrow> f64_round neg (- numeral n) = F64_Fin (- numeral n)"
  "f64_round neg 1 = F64_Fin 1"
  "f64_round neg (- 1) = F64_Fin (- 1)"
  "f64_round neg 0 = (if neg then F64_NegZero else F64_Fin 0)"
  using f64_of_int_small [of "numeral n"] f64_of_int_small [of "- numeral n"] f64_of_int_small [of 1]
    f64_of_int_small [of "- 1"] f64_of_int_small [of 0]
  by (auto simp: f64_of_int_def f64_lit_def f64_round_def Let_def simp del: power_numeral split: if_splits)

text \<open>Evaluation on integers of at most 53 bits.\<close>

lemmas f64_eval = f64_lit_numeral f64_round_numeral f64_add_def f64_mul_def f64_div_def f64_lt_def f64_le_def
  f64_neg_def f64_of_int_def

lemma f64_round_wf [simp]: "f64_wf (f64_round neg q)"
  by (auto simp: f64_round_def f64_wf_def Let_def)

lemma f64_lit_wf [simp]: "f64_wf (f64_lit q)"
  by (simp add: f64_lit_def)

lemma f64_of_int_wf [simp]: "f64_wf (f64_of_int i)"
  by (simp add: f64_of_int_def)

lemma f64_add_wf: "f64_wf x \<Longrightarrow> f64_wf y \<Longrightarrow> f64_wf (f64_add x y)"
  by (auto simp: f64_add_def split: f64.splits) (auto simp: f64_wf_def)

lemma f64_mul_wf [simp]: "f64_wf (f64_mul x y)"
  by (auto simp: f64_mul_def Let_def) (auto simp: f64_wf_def)

lemma f64_div_wf [simp]: "f64_wf (f64_div x y)"
  by (auto simp: f64_div_def Let_def) (auto simp: f64_wf_def)

lemma f64_is_finite_simps [simp]:
  "\<not> f64_is_finite F64_NaN" "\<not> f64_is_finite (F64_Inf s)"
  "f64_is_finite F64_NegZero" "f64_is_finite (F64_Fin q)"
  by (simp_all add: f64_is_finite_def)

lemma f64_val_simps [simp]:
  "f64_val F64_NegZero = 0" "f64_val (F64_Fin q) = q"
  by (simp_all add: f64_val_def)

lemma f64_finite_cases: "f64_is_finite x \<longleftrightarrow> x = F64_NegZero \<or> (\<exists>q. x = F64_Fin q)"
  by (cases x) auto

lemma f64_le_finite: "f64_is_finite x \<Longrightarrow> f64_is_finite y \<Longrightarrow> f64_le x y \<longleftrightarrow> f64_val x \<le> f64_val y"
  by (cases x; cases y) (simp_all add: f64_le_def)

lemma f64_lt_finite: "f64_is_finite x \<Longrightarrow> f64_is_finite y \<Longrightarrow> f64_lt x y \<longleftrightarrow> f64_val x < f64_val y"
  by (cases x; cases y) (simp_all add: f64_lt_def)

lemma f64_le_not_NaN: "f64_le x y \<Longrightarrow> x \<noteq> F64_NaN \<and> y \<noteq> F64_NaN"
  by (cases x; cases y) (simp_all add: f64_le_def)

lemma f64_round_finite:
  "f64_is_finite (f64_round neg q) \<Longrightarrow> f64_val (f64_round neg q) = rnd q"
  by (auto simp: f64_round_def Let_def split: if_splits)

lemma f64_round_finite_iff: "f64_is_finite (f64_round neg q) \<longleftrightarrow> \<bar>rnd q\<bar> < 2 ^ 1024"
  by (auto simp: f64_round_def Let_def not_le split: if_splits)

text \<open>A value between two representable bounds rounds to one between them.\<close>

lemma f64_round_between:
  assumes "rnd a = a" "rnd b = b" "a \<le> q" "q \<le> b" "- (2 ^ 1024) < a" "b < 2 ^ 1024"
  shows "f64_is_finite (f64_round neg q)" "a \<le> f64_val (f64_round neg q)"
    "f64_val (f64_round neg q) \<le> b"
proof -
  have "a \<le> rnd q" "rnd q \<le> b"
    using rnd_mono [OF assms(3)] rnd_mono [OF assms(4)] assms(1,2) by simp_all
  moreover from this have "\<bar>rnd q\<bar> < 2 ^ 1024"
    using assms(5,6) by (simp add: abs_less_iff del: power_numeral)
  ultimately show "f64_is_finite (f64_round neg q)" "a \<le> f64_val (f64_round neg q)"
    "f64_val (f64_round neg q) \<le> b"
    by (simp_all add: f64_round_finite_iff f64_round_finite del: power_numeral)
qed

lemma f64_wf_finite_rnd: "f64_wf x \<Longrightarrow> f64_is_finite x \<Longrightarrow> rnd (f64_val x) = f64_val x"
  by (cases x) (simp_all add: f64_wf_def)

lemma f64_add_finite:
  "f64_is_finite x \<Longrightarrow> f64_is_finite y \<Longrightarrow>
    f64_add x y = (if x = F64_NegZero \<and> y = F64_NegZero then F64_NegZero
                   else f64_round False (f64_val x + f64_val y))"
  by (cases x; cases y) (simp_all add: f64_add_def)

text \<open>Adding a non-negative amount never decreases a representable total.\<close>

lemma f64_add_nonneg_mono:
  assumes "f64_wf x" "f64_is_finite x" "f64_is_finite y" "0 \<le> f64_val y"
    and "f64_is_finite (f64_add x y)"
  shows "f64_val x \<le> f64_val (f64_add x y)"
proof (cases "x = F64_NegZero \<and> y = F64_NegZero")
  case True
  then show ?thesis by (simp add: f64_add_def)
next
  case False
  then have "f64_val (f64_add x y) = rnd (f64_val x + f64_val y)"
    using f64_add_finite [OF assms(2,3)] assms(5) by (auto simp: f64_round_finite)
  moreover have "rnd (f64_val x) \<le> rnd (f64_val x + f64_val y)"
    using assms(4) by (intro rnd_mono) simp
  ultimately show ?thesis using f64_wf_finite_rnd [OF assms(1,2)] by simp
qed

text \<open>Division is correctly rounded: an exact quotient is the literal of its value.\<close>

lemma f64_div_int:
  assumes "0 \<le> i" "i \<le> 2 ^ 53" "0 < d" "d \<le> 2 ^ 53"
  shows "f64_div (f64_of_int i) (f64_of_int d) = f64_lit (of_int i / of_int d)"
  using assms f64_of_int_small [of i] f64_of_int_small [of d]
  by (simp add: f64_div_def f64_neg_def f64_lit_def Let_def divide_less_0_iff)

section \<open>Non-negative bounded values\<close>

text \<open>\<open>f64_in b x\<close>: \<open>x\<close> is finite and between zero and \<open>b\<close>.\<close>

definition f64_in :: "rat \<Rightarrow> f64 \<Rightarrow> bool" where
  "f64_in b x \<longleftrightarrow> f64_is_finite x \<and> 0 \<le> f64_val x \<and> f64_val x \<le> b"

lemma f64_inD: "f64_in b x \<Longrightarrow> f64_is_finite x \<and> 0 \<le> f64_val x \<and> f64_val x \<le> b"
  by (simp add: f64_in_def)

lemma f64_in_mono: "f64_in a x \<Longrightarrow> a \<le> b \<Longrightarrow> f64_in b x"
  by (auto simp: f64_in_def)

lemma rnd_power2: "rnd (2 ^ k) = 2 ^ k"
proof -
  have "dyadic53 (2 ^ k)"
    unfolding dyadic53_def by (intro exI [of _ 1] exI [of _ "int k"]) (simp add: pow2_of_nat)
  from rnd_pos_dyadic [OF this] show ?thesis by (simp add: rnd_def)
qed

lemma f64_in_round:
  assumes "0 \<le> q" "q \<le> 2 ^ k" "k \<le> 1023"
  shows "f64_in (2 ^ k) (f64_round s q)"
proof -
  have "(2 :: rat) ^ k < 2 ^ 1024" using assms(3) by (intro power_strict_increasing) simp_all
  moreover have "- (2 ^ 1024) < (0 :: rat)" by simp
  ultimately show ?thesis
    using f64_round_between [of 0 "2 ^ k" q s] assms(1,2) rnd_power2 [of k] by (simp add: f64_in_def)
qed

lemma f64_in_add:
  assumes "f64_in a x" "f64_in b y" "a + b \<le> 2 ^ k" "k \<le> 1023"
  shows "f64_in (2 ^ k) (f64_add x y)"
proof -
  from assms(1,2) have f: "f64_is_finite x" "f64_is_finite y" and v: "0 \<le> f64_val x + f64_val y"
    and u: "f64_val x + f64_val y \<le> 2 ^ k"
    using assms(3) by (simp_all add: f64_in_def)
  have "f64_in (2 ^ k) F64_NegZero" by (simp add: f64_in_def)
  with f64_in_round [OF v u assms(4)] show ?thesis by (simp add: f64_add_finite [OF f])
qed

lemma f64_in_mul:
  assumes "f64_in a x" "f64_in b y" "a * b \<le> 2 ^ k" "k \<le> 1023"
  shows "f64_in (2 ^ k) (f64_mul x y)"
proof -
  from assms(1,2) have f: "f64_is_finite x" "f64_is_finite y" "0 \<le> f64_val x" "0 \<le> f64_val y"
    and "f64_val x \<le> a" "f64_val y \<le> b" by (simp_all add: f64_in_def)
  then have "f64_val x * f64_val y \<le> a * b" by (intro mult_mono) simp_all
  with f assms(3) f64_in_round [of "f64_val x * f64_val y" k] assms(4) show ?thesis
    by (auto simp: f64_mul_def Let_def)
qed

lemma f64_in_div:
  assumes "f64_in a x" "f64_is_finite y" "1 \<le> f64_val y" "a \<le> 2 ^ k" "k \<le> 1023"
  shows "f64_in (2 ^ k) (f64_div x y)"
proof -
  from assms(1) have f: "f64_is_finite x" "0 \<le> f64_val x" "f64_val x \<le> a" by (simp_all add: f64_in_def)
  have "f64_val x / f64_val y \<le> f64_val x / 1"
    using f(2) assms(3) by (intro divide_left_mono) simp_all
  then have u: "f64_val x / f64_val y \<le> 2 ^ k" using f(3) assms(4) by simp
  have v: "0 \<le> f64_val x / f64_val y" using f(2) assms(3) by simp
  have "x \<noteq> F64_NaN" "y \<noteq> F64_NaN" using f(1) assms(2) by auto
  with f64_in_round [OF v u assms(5)] f(1) assms(2,3) show ?thesis
    by (auto simp: f64_div_def Let_def)
qed

text \<open>Adding a non-negative amount never gives less, also when the sum overflows.\<close>

lemma f64_le_add:
  assumes "f64_wf x" "f64_is_finite x" "f64_in b y"
  shows "f64_le x (f64_add x y)"
proof (cases "f64_is_finite (f64_add x y)")
  case True
  then show ?thesis
    using f64_add_nonneg_mono [OF assms(1,2)] f64_inD [OF assms(3)] assms(2) by (simp add: f64_le_finite)
next
  case False
  have y: "f64_is_finite y" "0 \<le> f64_val y" using f64_inD [OF assms(3)] by simp_all
  let ?q = "f64_val x + f64_val y"
  from False have a: "f64_add x y = f64_round False ?q" and nf: "\<not> f64_is_finite (f64_round False ?q)"
    using f64_add_finite [OF assms(2) y(1)] by (auto split: if_splits)
  have "\<bar>f64_val x\<bar> < 2 ^ 1024" using assms(1,2) by (cases x) (auto simp: f64_wf_def)
  moreover have "f64_val x \<le> rnd ?q"
    using rnd_mono [of "f64_val x" ?q] y(2) f64_wf_finite_rnd [OF assms(1,2)] by simp
  ultimately have "- (2 ^ 1024) < rnd ?q" by linarith
  with nf have r: "2 ^ 1024 \<le> rnd ?q" unfolding f64_round_finite_iff by linarith
  moreover have "(0 :: rat) < 2 ^ 1024" by simp
  ultimately have "0 < rnd ?q" by (rule order.strict_trans2 [rotated])
  with r have "f64_round False ?q = F64_Inf False"
    by (simp add: f64_round_def Let_def del: power_numeral)
  then have "f64_add x y = F64_Inf False" by (simp add: a)
  then show ?thesis using assms(2) by (cases x) (simp_all add: f64_le_def)
qed

section \<open>Durations as floats\<close>

text \<open>\<open>Duration::as_secs_f64\<close> of a duration in nanoseconds: the whole seconds plus the fraction, each
  rounded.\<close>

definition as_secs_f64 :: "nat \<Rightarrow> f64" where
  "as_secs_f64 d =
     f64_add (f64_of_int (int (d div 1000000000)))
       (f64_div (f64_of_int (int (d mod 1000000000))) (f64_of_int 1000000000))"

text \<open>\<open>value as i32\<close>: toward zero, saturating, \<open>NaN\<close> to 0.\<close>

definition f64_as_i32 :: "f64 \<Rightarrow> int" where
  "f64_as_i32 x =
     (case x of
        F64_NaN \<Rightarrow> 0
      | F64_NegZero \<Rightarrow> 0
      | F64_Inf neg \<Rightarrow> if neg then - (2 ^ 31) else 2 ^ 31 - 1
      | F64_Fin q \<Rightarrow> max (- (2 ^ 31)) (min (2 ^ 31 - 1) (if q < 0 then - \<lfloor>- q\<rfloor> else \<lfloor>q\<rfloor>)))"

definition DURATION_MAX :: nat where
  "DURATION_MAX = (2 ^ 64 - 1) * 1000000000 + 999999999"

lemma f64_in_of_nat: "n \<le> 2 ^ k \<Longrightarrow> k \<le> 1023 \<Longrightarrow> f64_in (2 ^ k) (f64_of_int (int n))"
proof -
  assume n: "n \<le> 2 ^ k" and k: "k \<le> 1023"
  have "(of_nat n :: rat) \<le> of_nat (2 ^ k)" using n by (simp only: of_nat_le_iff)
  then show ?thesis using f64_in_round [of "of_nat n" k] k by (simp add: f64_of_int_def f64_lit_def)
qed

lemma as_secs_f64_in: "d \<le> DURATION_MAX \<Longrightarrow> f64_in (2 ^ 65) (as_secs_f64 d)"
proof -
  assume d: "d \<le> DURATION_MAX"
  then have "d div 1000000000 \<le> 2 ^ 64" by (simp add: DURATION_MAX_def)
  then have a: "f64_in (2 ^ 64) (f64_of_int (int (d div 1000000000)))" by (rule f64_in_of_nat) simp
  have "d mod 1000000000 \<le> 2 ^ 30"
    using mod_less_divisor [of 1000000000 d] by simp
  then have b: "f64_in (2 ^ 30) (f64_of_int (int (d mod 1000000000)))" by (rule f64_in_of_nat) simp
  have g: "f64_of_int 1000000000 = F64_Fin 1000000000" using f64_of_int_small [of 1000000000] by simp
  have "f64_in (2 ^ 30) (f64_div (f64_of_int (int (d mod 1000000000))) (f64_of_int 1000000000))"
    by (rule f64_in_div [OF b]) (simp_all add: g)
  from f64_in_add [OF a this, of 65] show ?thesis by (simp add: as_secs_f64_def)
qed

end
