(* ===== verification/Cbor.thy ===== *)
theory Cbor
  imports Proto_Types Float64
begin

text \<open>
  \<open>victron-protocol\<close>, \<open>cbor.rs\<close>: the bounded decoder of a concatenated CBOR stream and the
  encoder helpers. The low-level parser is the third-party crate minicbor, which is a parameter of
  the model: a record with one field per call the code makes, each from the input and a position
  to an error or a value with the new position. The lemmas about depth, item budget and sizes hold
  for every value of that parameter; only the round trips need its laws (\<open>minicbor_roundtrip\<close>).
\<close>

section \<open>The parser and encoder the code calls\<close>

datatype mc_type =
    TBool | TNull | TUndefined | TU8 | TU16 | TU32 | TU64 | TI8 | TI16 | TI32 | TI64 | TInt
  | TF16 | TF32 | TF64 | TSimple | TBytes | TBytesIndef | TString | TStringIndef
  | TArray | TArrayIndef | TMap | TMapIndef | TTag | TBreak | TUnknown u8

text \<open>
  \<open>mc_bytes_iter\<close> and \<open>mc_str_iter\<close> give the chunks the iterator yields, in order, and the
  position once it is exhausted. An encoder call gives the bytes it appends to the writer.
\<close>

record minicbor =
  mc_datatype :: "bytes \<Rightarrow> nat \<Rightarrow> mc_error + mc_type"
  mc_u64 :: "bytes \<Rightarrow> nat \<Rightarrow> mc_error + u64 \<times> nat"
  mc_i64 :: "bytes \<Rightarrow> nat \<Rightarrow> mc_error + int \<times> nat"
  mc_f64 :: "bytes \<Rightarrow> nat \<Rightarrow> mc_error + f64 \<times> nat"
  mc_bool :: "bytes \<Rightarrow> nat \<Rightarrow> mc_error + bool \<times> nat"
  mc_null :: "bytes \<Rightarrow> nat \<Rightarrow> mc_error + nat"
  mc_undefined :: "bytes \<Rightarrow> nat \<Rightarrow> mc_error + nat"
  mc_simple :: "bytes \<Rightarrow> nat \<Rightarrow> mc_error + u8 \<times> nat"
  mc_bytes_iter :: "bytes \<Rightarrow> nat \<Rightarrow> mc_error + (mc_error + bytes) list \<times> nat"
  mc_str_iter :: "bytes \<Rightarrow> nat \<Rightarrow> mc_error + (mc_error + string) list \<times> nat"
  mc_array :: "bytes \<Rightarrow> nat \<Rightarrow> mc_error + u64 option \<times> nat"
  mc_map :: "bytes \<Rightarrow> nat \<Rightarrow> mc_error + u64 option \<times> nat"
  mc_tag :: "bytes \<Rightarrow> nat \<Rightarrow> mc_error + u64 \<times> nat"
  mc_skip :: "bytes \<Rightarrow> nat \<Rightarrow> mc_error + nat"
  enc_u64 :: "u64 \<Rightarrow> string + bytes"
  enc_i64 :: "int \<Rightarrow> string + bytes"
  enc_array :: "u64 \<Rightarrow> string + bytes"
  enc_bytes :: "bytes \<Rightarrow> string + bytes"
  enc_str :: "string \<Rightarrow> string + bytes"

section \<open>Items and the stream decoder\<close>

definition MAX_DEPTH :: nat where
  "MAX_DEPTH = 16"

definition MAX_ITEMS :: nat where
  "MAX_ITEMS = 4096"

definition MAX_STRING_BYTES :: nat where
  "MAX_STRING_BYTES = 64 * 1024"

definition MAX_ARRAY_LEN :: nat where
  "MAX_ARRAY_LEN = 65536"

datatype item =
    UInt u64
  | SInt int
  | Bytes bytes
  | Text string
  | Array "item list"
  | Map "(item \<times> item) list"
  | Tag u64 item
  | Bool bool
  | Null
  | Undefined
  | Simple u8
  | Float f64

record stream_decoder =
  dec_input :: bytes
  dec_pos :: nat
  budget :: nat

definition sd_new :: "bytes \<Rightarrow> stream_decoder" where
  "sd_new data = \<lparr>dec_input = data, dec_pos = 0, budget = MAX_ITEMS\<rparr>"

definition sd_remaining :: "stream_decoder \<Rightarrow> nat" where
  "sd_remaining d = length (dec_input d) - dec_pos d"

definition sd_is_empty :: "stream_decoder \<Rightarrow> bool" where
  "sd_is_empty d = (sd_remaining d = 0)"

type_synonym 'a read = "stream_decoder \<Rightarrow> protocol_error + 'a \<times> stream_decoder"

text \<open>\<open>self.dec.<call>().map_err(ProtocolError::from)?\<close>, for calls that advance and for \<open>datatype\<close>.\<close>

definition dec_read :: "(bytes \<Rightarrow> nat \<Rightarrow> mc_error + 'a \<times> nat) \<Rightarrow> 'a read" where
  "dec_read f d =
     try_bind (map_err from_mc_error (f (dec_input d) (dec_pos d)))
       (\<lambda>(x, pos). Inr (x, d\<lparr>dec_pos := pos\<rparr>))"

definition dec_skip :: "(bytes \<Rightarrow> nat \<Rightarrow> mc_error + nat) \<Rightarrow> stream_decoder \<Rightarrow> protocol_error + stream_decoder" where
  "dec_skip f d =
     try_bind (map_err from_mc_error (f (dec_input d) (dec_pos d))) (\<lambda>pos. Inr (d\<lparr>dec_pos := pos\<rparr>))"

definition dec_type :: "minicbor \<Rightarrow> stream_decoder \<Rightarrow> protocol_error + mc_type" where
  "dec_type mc d = map_err from_mc_error (mc_datatype mc (dec_input d) (dec_pos d))"

text \<open>The chunk loop of a byte or text string: concatenate, bounded by \<open>MAX_STRING_BYTES\<close>.\<close>

fun collect_chunks :: "string \<Rightarrow> 'c list \<Rightarrow> (mc_error + 'c list) list \<Rightarrow> protocol_error + 'c list" where
  "collect_chunks msg buf [] = Inr buf"
| "collect_chunks msg buf (chunk # chunks) =
     try_bind (map_err from_mc_error chunk) (\<lambda>c.
       if length buf + length c > MAX_STRING_BYTES then Inl (Cbor msg)
       else collect_chunks msg (buf @ c) chunks)"

text \<open>\<open>for _ in 0..n\<close> over an element reader.\<close>

fun read_n :: "'a read \<Rightarrow> nat \<Rightarrow> 'a list \<Rightarrow> 'a list read" where
  "read_n f 0 acc d = Inr (acc, d)"
| "read_n f (Suc n) acc d = try_bind (f d) (\<lambda>(x, d'). read_n f n (acc @ [x]) d')"

text \<open>The \<open>loop\<close> of an indefinite container: until the break byte, bounded by \<open>MAX_ARRAY_LEN\<close>.\<close>

function read_until_break :: "minicbor \<Rightarrow> string \<Rightarrow> 'a read \<Rightarrow> 'a list \<Rightarrow> 'a list read" where
  "read_until_break mc msg f acc d =
     try_bind (dec_type mc d) (\<lambda>ty.
       if ty = TBreak then try_bind (dec_skip (mc_skip mc) d) (\<lambda>d'. Inr (acc, d'))
       else if length acc \<ge> MAX_ARRAY_LEN then Inl (Cbor msg)
       else try_bind (f d) (\<lambda>(x, d'). read_until_break mc msg f (acc @ [x]) d'))"
  by pat_completeness auto
termination
  by (relation "measure (\<lambda>(mc, msg, f, acc, d). MAX_ARRAY_LEN - length acc)") auto

declare read_until_break.simps [simp del]

definition read_container :: "minicbor \<Rightarrow> string \<Rightarrow> 'a read \<Rightarrow> u64 option \<Rightarrow> 'a list read" where
  "read_container mc msg f len d =
     (case len of
        Some n \<Rightarrow>
          if unat n > MAX_ARRAY_LEN then Inl (Cbor msg) else read_n f (unat n) [] d
      | None \<Rightarrow> read_until_break mc msg f [] d)"

definition read_entry :: "'a read \<Rightarrow> ('a \<times> 'a) read" where
  "read_entry f d = try_bind (f d) (\<lambda>(k, d'). try_bind (f d') (\<lambda>(v, d''). Inr ((k, v), d'')))"

text \<open>The \<open>match\<close> of \<open>item_at\<close> on the data type of the next item; \<open>rd\<close> reads a nested item.\<close>

definition item_of_type :: "minicbor \<Rightarrow> item read \<Rightarrow> mc_type \<Rightarrow> item read" where
  "item_of_type mc rd ty d =
     (case ty of
        TU8 \<Rightarrow> try_bind (dec_read (mc_u64 mc) d) (\<lambda>(v, d'). Inr (UInt v, d'))
      | TU16 \<Rightarrow> try_bind (dec_read (mc_u64 mc) d) (\<lambda>(v, d'). Inr (UInt v, d'))
      | TU32 \<Rightarrow> try_bind (dec_read (mc_u64 mc) d) (\<lambda>(v, d'). Inr (UInt v, d'))
      | TU64 \<Rightarrow> try_bind (dec_read (mc_u64 mc) d) (\<lambda>(v, d'). Inr (UInt v, d'))
      | TI8 \<Rightarrow> try_bind (dec_read (mc_i64 mc) d) (\<lambda>(v, d'). Inr (SInt v, d'))
      | TI16 \<Rightarrow> try_bind (dec_read (mc_i64 mc) d) (\<lambda>(v, d'). Inr (SInt v, d'))
      | TI32 \<Rightarrow> try_bind (dec_read (mc_i64 mc) d) (\<lambda>(v, d'). Inr (SInt v, d'))
      | TI64 \<Rightarrow> try_bind (dec_read (mc_i64 mc) d) (\<lambda>(v, d'). Inr (SInt v, d'))
      | TInt \<Rightarrow> try_bind (dec_read (mc_i64 mc) d) (\<lambda>(v, d'). Inr (SInt v, d'))
      | TF16 \<Rightarrow> try_bind (dec_read (mc_f64 mc) d) (\<lambda>(v, d'). Inr (Float v, d'))
      | TF32 \<Rightarrow> try_bind (dec_read (mc_f64 mc) d) (\<lambda>(v, d'). Inr (Float v, d'))
      | TF64 \<Rightarrow> try_bind (dec_read (mc_f64 mc) d) (\<lambda>(v, d'). Inr (Float v, d'))
      | TBool \<Rightarrow> try_bind (dec_read (mc_bool mc) d) (\<lambda>(v, d'). Inr (Bool v, d'))
      | TNull \<Rightarrow> try_bind (dec_skip (mc_null mc) d) (\<lambda>d'. Inr (Null, d'))
      | TUndefined \<Rightarrow> try_bind (dec_skip (mc_undefined mc) d) (\<lambda>d'. Inr (Undefined, d'))
      | TSimple \<Rightarrow> try_bind (dec_read (mc_simple mc) d) (\<lambda>(v, d'). Inr (Simple v, d'))
      | TBytes \<Rightarrow> try_bind (dec_read (mc_bytes_iter mc) d) (\<lambda>(chunks, d').
          try_bind (collect_chunks ''byte string exceeds limit'' [] chunks) (\<lambda>b. Inr (Bytes b, d')))
      | TBytesIndef \<Rightarrow> try_bind (dec_read (mc_bytes_iter mc) d) (\<lambda>(chunks, d').
          try_bind (collect_chunks ''byte string exceeds limit'' [] chunks) (\<lambda>b. Inr (Bytes b, d')))
      | TString \<Rightarrow> try_bind (dec_read (mc_str_iter mc) d) (\<lambda>(chunks, d').
          try_bind (collect_chunks ''text string exceeds limit'' [] chunks) (\<lambda>s. Inr (Text s, d')))
      | TStringIndef \<Rightarrow> try_bind (dec_read (mc_str_iter mc) d) (\<lambda>(chunks, d').
          try_bind (collect_chunks ''text string exceeds limit'' [] chunks) (\<lambda>s. Inr (Text s, d')))
      | TArray \<Rightarrow> try_bind (dec_read (mc_array mc) d) (\<lambda>(len, d').
          try_bind (read_container mc ''array exceeds length limit'' rd len d')
            (\<lambda>(xs, d''). Inr (Array xs, d'')))
      | TArrayIndef \<Rightarrow> try_bind (dec_read (mc_array mc) d) (\<lambda>(len, d').
          try_bind (read_container mc ''array exceeds length limit'' rd len d')
            (\<lambda>(xs, d''). Inr (Array xs, d'')))
      | TMap \<Rightarrow> try_bind (dec_read (mc_map mc) d) (\<lambda>(len, d').
          try_bind (read_container mc ''map exceeds length limit'' (read_entry rd) len d')
            (\<lambda>(es, d''). Inr (Map es, d'')))
      | TMapIndef \<Rightarrow> try_bind (dec_read (mc_map mc) d) (\<lambda>(len, d').
          try_bind (read_container mc ''map exceeds length limit'' (read_entry rd) len d')
            (\<lambda>(es, d''). Inr (Map es, d'')))
      | TTag \<Rightarrow> try_bind (dec_read (mc_tag mc) d) (\<lambda>(t, d').
          try_bind (rd d') (\<lambda>(x, d''). Inr (Tag t x, d'')))
      | TBreak \<Rightarrow> Inl (Malformed ''unexpected CBOR break at top level'')
      | TUnknown b \<Rightarrow> Inl (Cbor (''unsupported CBOR byte 0x'' @ hex2 b)))"

text \<open>
  \<open>item_at\<close>, by recursion on the levels left: \<open>item_levels k\<close> is \<open>item_at(depth)\<close> for
  \<open>k = MAX_DEPTH + 1 - depth\<close>, so no level left is \<open>depth > MAX_DEPTH\<close> and every container
  passes one level less on.
\<close>

primrec item_levels :: "nat \<Rightarrow> minicbor \<Rightarrow> item read" where
  "item_levels 0 mc d = Inl DepthLimit"
| "item_levels (Suc k) mc d0 =
     (if budget d0 = 0 then Inl ItemLimit
      else let d = d0\<lparr>budget := budget d0 - 1\<rparr> in
        try_bind (dec_type mc d) (\<lambda>ty. item_of_type mc (item_levels k mc) ty d))"

declare item_levels.simps(2) [simp del]

definition item_at :: "nat \<Rightarrow> minicbor \<Rightarrow> item read" where
  "item_at depth mc d = item_levels (MAX_DEPTH + 1 - depth) mc d"

definition next_item :: "minicbor \<Rightarrow> item read" where
  "next_item mc d = (if sd_is_empty d then Inl Truncated else item_at 0 mc d)"

section \<open>Every item is paid for\<close>

text \<open>
  \<open>item_nodes\<close> counts the items of a tree: the container itself, its elements, map keys and
  values, and tag payloads. Decoding takes exactly that many units from the budget.
\<close>

fun item_nodes :: "item \<Rightarrow> nat" where
  "item_nodes (Array xs) = Suc (sum_list (map item_nodes xs))"
| "item_nodes (Map es) = Suc (sum_list (map (\<lambda>(k, v). item_nodes k + item_nodes v) es))"
| "item_nodes (Tag t x) = Suc (item_nodes x)"
| "item_nodes x = 1"

lemma item_nodes_pos [simp]: "0 < item_nodes x"
  by (cases x) simp_all

definition costs :: "'a read \<Rightarrow> ('a \<Rightarrow> nat) \<Rightarrow> bool" where
  "costs f w \<longleftrightarrow> (\<forall>d x d'. f d = Inr (x, d') \<longrightarrow> budget d = budget d' + w x)"

lemma costsD: "costs f w \<Longrightarrow> f d = Inr (x, d') \<Longrightarrow> budget d = budget d' + w x"
  by (simp add: costs_def)

lemma dec_read_budget: "dec_read f d = Inr (x, d') \<Longrightarrow> budget d' = budget d"
  by (auto simp: dec_read_def try_simps)

lemma dec_skip_budget: "dec_skip f d = Inr d' \<Longrightarrow> budget d' = budget d"
  by (auto simp: dec_skip_def try_simps)

lemma read_n_costs:
  "costs f w \<Longrightarrow> read_n f n acc d = Inr (xs, d') \<Longrightarrow>
    budget d + sum_list (map w acc) = budget d' + sum_list (map w xs)"
proof (induction n arbitrary: acc d)
  case 0
  then show ?case by simp
next
  case (Suc n)
  from Suc.prems(2) obtain x d1 where "f d = Inr (x, d1)" "read_n f n (acc @ [x]) d1 = Inr (xs, d')"
    by (auto simp: try_simps)
  with Suc.IH [OF Suc.prems(1)] costsD [OF Suc.prems(1)] show ?case by fastforce
qed

lemma read_until_break_costs:
  "costs f w \<Longrightarrow> read_until_break mc msg f acc d = Inr (xs, d') \<Longrightarrow>
    budget d + sum_list (map w acc) = budget d' + sum_list (map w xs)"
proof (induction "MAX_ARRAY_LEN - length acc" arbitrary: acc d rule: less_induct)
  case less
  from less.prems(2) obtain ty where ty: "dec_type mc d = Inr ty"
    by (subst (asm) read_until_break.simps) (auto simp: try_simps)
  show ?case
  proof (cases "ty = TBreak")
    case True
    with less.prems(2) ty show ?thesis
      by (subst (asm) read_until_break.simps) (auto simp: try_simps dest: dec_skip_budget)
  next
    case False
    with less.prems(2) ty obtain x d1 where x: "f d = Inr (x, d1)"
      and rec: "read_until_break mc msg f (acc @ [x]) d1 = Inr (xs, d')"
      and len: "length acc < MAX_ARRAY_LEN"
      by (subst (asm) read_until_break.simps) (auto simp: try_simps split: if_splits)
    have "MAX_ARRAY_LEN - length (acc @ [x]) < MAX_ARRAY_LEN - length acc"
      using len by simp
    from less.hyps [OF this less.prems(1) rec] costsD [OF less.prems(1) x]
    show ?thesis by simp
  qed
qed

lemma read_container_costs:
  "costs f w \<Longrightarrow> costs (read_container mc msg f len) (\<lambda>xs. sum_list (map w xs))"
  unfolding costs_def [of "read_container mc msg f len"] read_container_def
  by (auto split: option.splits if_splits
      dest: read_n_costs [where acc = "[]"] read_until_break_costs [where acc = "[]"])

lemma read_entry_costs:
  assumes "costs f w"
  shows "costs (read_entry f) (\<lambda>(k, v). w k + w v)"
  using costsD [OF assms]
  by (fastforce simp: costs_def [of "read_entry f"] read_entry_def try_simps)

lemma item_of_type_costs:
  assumes "costs rd item_nodes"
  shows "item_of_type mc rd ty d = Inr (x, d') \<Longrightarrow> budget d = budget d' + (item_nodes x - 1)"
  using costsD [OF assms] costsD [OF read_container_costs [OF assms]]
    costsD [OF read_container_costs [OF read_entry_costs [OF assms]]]
  by (cases ty) (fastforce simp: item_of_type_def try_simps dest: dec_read_budget dec_skip_budget)+

lemma item_levels_costs: "costs (item_levels k mc) item_nodes"
proof (induction k)
  case 0
  show ?case by (simp add: costs_def)
next
  case (Suc k)
  have "budget d = budget d' + item_nodes x" if r: "item_levels (Suc k) mc d = Inr (x, d')" for d x d'
  proof -
    from r obtain ty where b: "0 < budget d"
      and t: "item_of_type mc (item_levels k mc) ty (d\<lparr>budget := budget d - 1\<rparr>) = Inr (x, d')"
      by (auto simp: item_levels.simps(2) Let_def try_simps split: if_splits)
    from item_of_type_costs [OF Suc t] b item_nodes_pos [of x] show ?thesis
      by (simp del: item_nodes_pos)
  qed
  then show ?case by (simp add: costs_def)
qed

lemma next_item_budget: "next_item mc d = Inr (x, d') \<Longrightarrow> budget d = budget d' + item_nodes x"
  using costsD [OF item_levels_costs] by (auto simp: next_item_def item_at_def split: if_splits)

lemma next_item_less: "next_item mc d = Inr (x, d') \<Longrightarrow> budget d' < budget d"
  using next_item_budget [of mc d x d'] item_nodes_pos [of x] by linarith

section \<open>The stream\<close>

function decode_loop :: "minicbor \<Rightarrow> stream_decoder \<Rightarrow> item list \<Rightarrow> protocol_error + item list" where
  "decode_loop mc d out =
     (if sd_is_empty d then Inr out
      else try_bind (next_item mc d) (\<lambda>(x, d'). decode_loop mc d' (out @ [x])))"
  by pat_completeness auto
termination
  by (relation "measure (\<lambda>(mc, d, out). budget d)") (auto dest: next_item_less)

declare decode_loop.simps [simp del]

definition decode_stream :: "minicbor \<Rightarrow> bytes \<Rightarrow> protocol_error + item list" where
  "decode_stream mc data = decode_loop mc (sd_new data) []"

text \<open>The encoder helpers; \<open>None\<close> is the panic of \<open>expect\<close>.\<close>

definition expect_encodable :: "string + bytes \<Rightarrow> bytes option" where
  "expect_encodable r = (case r of Inl _ \<Rightarrow> None | Inr b \<Rightarrow> Some b)"

definition encode_uint :: "minicbor \<Rightarrow> u64 \<Rightarrow> bytes option" where
  "encode_uint mc n = expect_encodable (enc_u64 mc n)"

definition encode_int :: "minicbor \<Rightarrow> int \<Rightarrow> bytes option" where
  "encode_int mc n = expect_encodable (enc_i64 mc n)"

definition encode_array_len :: "minicbor \<Rightarrow> nat \<Rightarrow> bytes option" where
  "encode_array_len mc n = expect_encodable (enc_array mc (of_nat n))"

definition encode_bytes :: "minicbor \<Rightarrow> bytes \<Rightarrow> bytes option" where
  "encode_bytes mc data = expect_encodable (enc_bytes mc data)"

definition encode_text :: "minicbor \<Rightarrow> string \<Rightarrow> bytes option" where
  "encode_text mc text = expect_encodable (enc_str mc text)"

section \<open>Depth and size bounds of what is decoded\<close>

text \<open>\<open>fits k x\<close>: \<open>x\<close> nests at most \<open>k\<close> levels, and every string and container in it is within
  its limit.\<close>

primrec fits :: "nat \<Rightarrow> item \<Rightarrow> bool" where
  "fits 0 x = False"
| "fits (Suc k) x =
     (case x of
        Array xs \<Rightarrow> length xs \<le> MAX_ARRAY_LEN \<and> list_all (fits k) xs
      | Map es \<Rightarrow> length es \<le> MAX_ARRAY_LEN \<and> list_all (\<lambda>(a, b). fits k a \<and> fits k b) es
      | Tag t y \<Rightarrow> fits k y
      | Bytes b \<Rightarrow> length b \<le> MAX_STRING_BYTES
      | Text s \<Rightarrow> length s \<le> MAX_STRING_BYTES
      | _ \<Rightarrow> True)"

definition yields :: "'a read \<Rightarrow> ('a \<Rightarrow> bool) \<Rightarrow> bool" where
  "yields f P \<longleftrightarrow> (\<forall>d x d'. f d = Inr (x, d') \<longrightarrow> P x)"

lemma yieldsD: "yields f P \<Longrightarrow> f d = Inr (x, d') \<Longrightarrow> P x"
  by (auto simp: yields_def)

lemma collect_chunks_bound:
  "collect_chunks msg buf cs = Inr b \<Longrightarrow> length buf \<le> MAX_STRING_BYTES \<Longrightarrow> length b \<le> MAX_STRING_BYTES"
  by (induction msg buf cs rule: collect_chunks.induct) (auto simp: try_simps split: if_splits)

lemma read_n_yields:
  "yields f P \<Longrightarrow> read_n f n acc d = Inr (xs, d') \<Longrightarrow> list_all P acc \<Longrightarrow>
    list_all P xs \<and> length xs = length acc + n"
proof (induction n arbitrary: acc d)
  case 0
  then show ?case by simp
next
  case (Suc n)
  from Suc.prems(2) obtain x d1 where "f d = Inr (x, d1)" "read_n f n (acc @ [x]) d1 = Inr (xs, d')"
    by (auto simp: try_simps)
  with Suc.IH [OF Suc.prems(1)] Suc.prems(3) yieldsD [OF Suc.prems(1)] show ?case by fastforce
qed

lemma read_until_break_yields:
  "yields f P \<Longrightarrow> read_until_break mc msg f acc d = Inr (xs, d') \<Longrightarrow> list_all P acc \<Longrightarrow>
    length acc \<le> MAX_ARRAY_LEN \<Longrightarrow> list_all P xs \<and> length xs \<le> MAX_ARRAY_LEN"
proof (induction "MAX_ARRAY_LEN - length acc" arbitrary: acc d rule: less_induct)
  case less
  from less.prems(2) obtain ty where ty: "dec_type mc d = Inr ty"
    by (subst (asm) read_until_break.simps) (auto simp: try_simps)
  show ?case
  proof (cases "ty = TBreak")
    case True
    with less.prems ty show ?thesis
      by (subst (asm) read_until_break.simps) (auto simp: try_simps)
  next
    case False
    with less.prems(2) ty obtain x d1 where x: "f d = Inr (x, d1)"
      and rec: "read_until_break mc msg f (acc @ [x]) d1 = Inr (xs, d')"
      and len: "length acc < MAX_ARRAY_LEN"
      by (subst (asm) read_until_break.simps) (auto simp: try_simps split: if_splits)
    show ?thesis
      using len less.prems(3) yieldsD [OF less.prems(1) x] by (intro less.hyps [OF _ less.prems(1) rec]) simp_all
  qed
qed

lemma read_container_yields:
  "yields f P \<Longrightarrow> yields (read_container mc msg f len) (\<lambda>xs. length xs \<le> MAX_ARRAY_LEN \<and> list_all P xs)"
  unfolding yields_def [of "read_container mc msg f len"] read_container_def
  by (auto split: option.splits if_splits
      dest: read_n_yields [where acc = "[]"] read_until_break_yields [where acc = "[]"])

lemma read_entry_yields: "yields f P \<Longrightarrow> yields (read_entry f) (\<lambda>(k, v). P k \<and> P v)"
  by (auto simp: yields_def [of "read_entry f"] read_entry_def try_simps dest: yieldsD)

lemma item_of_type_fits:
  assumes "yields rd (fits k)"
  shows "item_of_type mc rd ty d = Inr (x, d') \<Longrightarrow> fits (Suc k) x"
  using yieldsD [OF assms] yieldsD [OF read_container_yields [OF assms]]
    yieldsD [OF read_container_yields [OF read_entry_yields [OF assms]]]
  by (cases ty) (fastforce simp: item_of_type_def try_simps dest: collect_chunks_bound)+

lemma item_levels_fits: "yields (item_levels k mc) (fits k)"
proof (induction k)
  case 0
  show ?case by (simp add: yields_def)
next
  case (Suc k)
  show ?case
    by (auto simp: yields_def item_levels.simps(2) Let_def try_simps simp del: fits.simps
        split: if_splits dest!: item_of_type_fits [OF Suc])
qed

lemma decode_loop_bounds:
  "decode_loop mc d out = Inr xs \<Longrightarrow> list_all (fits (Suc MAX_DEPTH)) out \<Longrightarrow>
    list_all (fits (Suc MAX_DEPTH)) xs
    \<and> sum_list (map item_nodes xs) \<le> budget d + sum_list (map item_nodes out)"
proof (induction mc d out rule: decode_loop.induct)
  case (1 mc d out)
  show ?case
  proof (cases "sd_is_empty d")
    case True
    with "1.prems" show ?thesis by (subst (asm) decode_loop.simps) simp
  next
    case False
    with "1.prems"(1) obtain x d1 where x: "next_item mc d = Inr (x, d1)"
      and rec: "decode_loop mc d1 (out @ [x]) = Inr xs"
      by (subst (asm) decode_loop.simps) (auto simp: try_simps)
    have "fits (Suc MAX_DEPTH) x"
      using yieldsD [OF item_levels_fits] x False by (fastforce simp: next_item_def item_at_def)
    with "1.IH" [OF False x refl rec] "1.prems"(2) next_item_budget [OF x] show ?thesis
      by simp
  qed
qed

section \<open>Properties\<close>

text \<open>C18: Whatever the bytes and whatever the CBOR library does, a decoded stream is bounded: at most
  \<open>MAX_ITEMS\<close> items in all, nested at most \<open>MAX_DEPTH\<close> levels below the top, no string longer than
  \<open>MAX_STRING_BYTES\<close> and no container longer than \<open>MAX_ARRAY_LEN\<close>.\<close>

theorem decode_stream_bounded:
  "case decode_stream mc input of
     Inl e \<Rightarrow> True
   | Inr items \<Rightarrow> sum_list (map item_nodes items) \<le> MAX_ITEMS \<and> list_all (fits (Suc MAX_DEPTH)) items"
proof (cases "decode_stream mc input")
  case (Inr items)
  with decode_loop_bounds [of mc "sd_new input" "[]" items] show ?thesis
    by (simp add: decode_stream_def sd_new_def)
qed simp

end
