(* ===== verification/Request.thy ===== *)
theory Request
  imports Cbor
begin

text \<open>
  \<open>victron-protocol\<close>, \<open>request.rs\<close>: the read-only requests and their CBOR encoding. The encoder
  calls are fields of the \<open>minicbor\<close> parameter. \<open>minicbor_codec\<close> states what the code relies on of
  that crate: a value written by an encoder call is read back, at any position of any input, by the
  decoder call for its data type. Under it, decoding an encoded request returns its items.
\<close>

section \<open>Requests\<close>

definition MAX_REGISTERS :: nat where
  "MAX_REGISTERS = 512"

definition MAX_PATH_INDEXES :: nat where
  "MAX_PATH_INDEXES = 512"

datatype request =
    GetDevices
  | Subscribe u16
  | GetValues u16 "u16 list"
  | GetPathList u16
  | GetPathValues u16 "int list"

fun request_opcode :: "request \<Rightarrow> out_opcode" where
  "request_opcode GetDevices = GetDevicesOp"
| "request_opcode (Subscribe instance_id) = SubscribeOp"
| "request_opcode (GetValues instance_id registers) = GetValuesOp"
| "request_opcode (GetPathList instance_id) = GetPathListOp"
| "request_opcode (GetPathValues instance_id path_indexes) = GetPathValuesOp"

section \<open>Encoding\<close>

text \<open>
  An encoder step appends to \<open>out\<close> and may fail; the bytes stay appended when a later step fails.
  \<open>emit\<close> is one \<open>e.<call>(..).map_err(..)?\<close>, \<open>enc_then\<close> sequences two steps, \<open>enc_each\<close> is the
  \<open>for\<close> loop over a list.
\<close>

type_synonym enc_step = "bytes \<Rightarrow> bytes \<times> (protocol_error + unit)"

definition emit :: "string + bytes \<Rightarrow> enc_step" where
  "emit r out = (case r of Inl err \<Rightarrow> (out, Inl (Cbor err)) | Inr b \<Rightarrow> (out @ b, Inr ()))"

definition enc_then :: "enc_step \<Rightarrow> enc_step \<Rightarrow> enc_step" where
  "enc_then f g out = (case f out of (out', Inl e) \<Rightarrow> (out', Inl e) | (out', Inr _) \<Rightarrow> g out')"

definition enc_fail :: "protocol_error \<Rightarrow> enc_step" where
  "enc_fail e out = (out, Inl e)"

definition enc_done :: enc_step where
  "enc_done out = (out, Inr ())"

primrec enc_each :: "('a \<Rightarrow> string + bytes) \<Rightarrow> 'a list \<Rightarrow> enc_step" where
  "enc_each f [] = enc_done"
| "enc_each f (x # xs) = enc_then (emit (f x)) (enc_each f xs)"

definition encode_into :: "minicbor \<Rightarrow> request \<Rightarrow> enc_step" where
  "encode_into mc r =
     enc_then (emit (enc_u64 mc (ucast (out_as_u8 (request_opcode r)))))
      (case r of
         GetDevices \<Rightarrow> enc_done
       | Subscribe instance_id \<Rightarrow> emit (enc_u64 mc (ucast instance_id))
       | GetValues instance_id registers \<Rightarrow>
           if length registers > MAX_REGISTERS
           then enc_fail (RequestLimit ''getValues supports at most 512 registers'')
           else enc_then (emit (enc_u64 mc (ucast instance_id)))
                (enc_then (emit (enc_array mc (of_nat (length registers))))
                  (enc_each (\<lambda>reg. enc_u64 mc (ucast reg)) registers))
       | GetPathList instance_id \<Rightarrow> emit (enc_u64 mc (ucast instance_id))
       | GetPathValues instance_id path_indexes \<Rightarrow>
           if length path_indexes > MAX_PATH_INDEXES
           then enc_fail (RequestLimit ''getPathValues supports at most 512 path indexes'')
           else enc_then (emit (enc_u64 mc (ucast instance_id)))
                (enc_then (emit (enc_array mc (of_nat (length path_indexes))))
                  (enc_each (\<lambda>idx. enc_i64 mc idx) path_indexes)))"

definition request_encode :: "minicbor \<Rightarrow> request \<Rightarrow> protocol_error + bytes" where
  "request_encode mc r = (case encode_into mc r [] of (out, res) \<Rightarrow> try_bind res (\<lambda>_. Inr out))"

text \<open>The requests that the size guards accept.\<close>

fun within_limits :: "request \<Rightarrow> bool" where
  "within_limits (GetValues instance_id registers) = (length registers \<le> MAX_REGISTERS)"
| "within_limits (GetPathValues instance_id path_indexes) = (length path_indexes \<le> MAX_PATH_INDEXES)"
| "within_limits r = True"

fun request_i64 :: "request \<Rightarrow> bool" where
  "request_i64 (GetPathValues instance_id path_indexes) = list_all in_i64 path_indexes"
| "request_i64 r = True"

lemma enc_step_simps [simp]:
  "emit (Inr b) out = (out @ b, Inr ())"
  "emit (Inl err) out = (out, Inl (Cbor err))"
  "enc_done out = (out, Inr ())"
  "enc_fail e out = (out, Inl e)"
  by (simp_all add: emit_def enc_done_def enc_fail_def)

lemma enc_then_Inr: "f out = (out', Inr ()) \<Longrightarrow> enc_then f g out = g out'"
  by (simp add: enc_then_def)

text \<open>What an encoder call that never fails appends.\<close>

definition enc_out :: "string + bytes \<Rightarrow> bytes" where
  "enc_out r = (case r of Inl _ \<Rightarrow> [] | Inr b \<Rightarrow> b)"

lemma emit_ok: "is_ok r \<Longrightarrow> emit r out = (out @ enc_out r, Inr ())"
  by (cases r) (simp_all add: enc_out_def)

lemma enc_each_ok:
  "(\<And>x. x \<in> set xs \<Longrightarrow> is_ok (f x)) \<Longrightarrow>
    enc_each f xs out = (out @ concat (map (\<lambda>x. enc_out (f x)) xs), Inr ())"
  by (induction xs arbitrary: out) (auto simp: enc_then_Inr emit_ok)

section \<open>What the code relies on of minicbor\<close>

text \<open>
  The documented behaviour of the crate's encoder and decoder on integers and array headers: the
  encoder accepts every value and the decoder, wherever it stands in front of the encoding, sees the
  data type of the value and reads it back, moving past exactly its bytes.
\<close>

locale minicbor_codec =
  fixes mc :: minicbor
  assumes enc_u64_total: "\<exists>b. enc_u64 mc n = Inr b \<and> b \<noteq> []"
    and enc_i64_total: "in_i64 i \<Longrightarrow> \<exists>b. enc_i64 mc i = Inr b \<and> b \<noteq> []"
    and enc_array_total: "\<exists>b. enc_array mc n = Inr b \<and> b \<noteq> []"
    and u64_read: "enc_u64 mc n = Inr b \<Longrightarrow>
      (\<exists>ty \<in> {TU8, TU16, TU32, TU64}. mc_datatype mc (pre @ b @ post) (length pre) = Inr ty)
      \<and> mc_u64 mc (pre @ b @ post) (length pre) = Inr (n, length pre + length b)"
    and i64_nonneg: "in_i64 i \<Longrightarrow> 0 \<le> i \<Longrightarrow> enc_i64 mc i = enc_u64 mc (of_int i)"
    and i64_read: "in_i64 i \<Longrightarrow> i < 0 \<Longrightarrow> enc_i64 mc i = Inr b \<Longrightarrow>
      (\<exists>ty \<in> {TI8, TI16, TI32, TI64, TInt}. mc_datatype mc (pre @ b @ post) (length pre) = Inr ty)
      \<and> mc_i64 mc (pre @ b @ post) (length pre) = Inr (i, length pre + length b)"
    and array_read: "enc_array mc n = Inr b \<Longrightarrow>
      mc_datatype mc (pre @ b @ post) (length pre) = Inr TArray
      \<and> mc_array mc (pre @ b @ post) (length pre) = Inr (Some n, length pre + length b)"
begin

lemma enc_ok [simp]:
  "is_ok (enc_u64 mc n)" "is_ok (enc_array mc n)" "in_i64 i \<Longrightarrow> is_ok (enc_i64 mc i)"
  using enc_u64_total [of n] enc_array_total [of n] enc_i64_total [of i] by auto

text \<open>\<open>reads b x\<close>: in front of the bytes \<open>b\<close> the decoder reads the item \<open>x\<close> and moves past them.\<close>

definition reads :: "nat \<Rightarrow> bytes \<Rightarrow> item \<Rightarrow> bool" where
  "reads k b x \<longleftrightarrow> b \<noteq> [] \<and> (\<forall>pre post n. item_nodes x \<le> n \<longrightarrow>
     item_levels k mc \<lparr>dec_input = pre @ b @ post, dec_pos = length pre, budget = n\<rparr>
       = Inr (x, \<lparr>dec_input = pre @ b @ post, dec_pos = length pre + length b, budget = n - item_nodes x\<rparr>))"

lemma readsD:
  "reads k b x \<Longrightarrow> item_nodes x \<le> n \<Longrightarrow>
    item_levels k mc \<lparr>dec_input = pre @ b @ post, dec_pos = length pre, budget = n\<rparr>
      = Inr (x, \<lparr>dec_input = pre @ b @ post, dec_pos = length pre + length b, budget = n - item_nodes x\<rparr>)"
  by (simp add: reads_def)

lemma reads_u64: "reads (Suc k) (enc_out (enc_u64 mc n)) (UInt n)"
proof -
  from enc_u64_total [of n] obtain b where b: "enc_u64 mc n = Inr b" "b \<noteq> []" by blast
  have "item_levels (Suc k) mc \<lparr>dec_input = pre @ b @ post, dec_pos = length pre, budget = m\<rparr>
      = Inr (UInt n, \<lparr>dec_input = pre @ b @ post, dec_pos = length pre + length b, budget = m - 1\<rparr>)"
    if "1 \<le> m" for pre post m
    using u64_read [OF b(1), of pre post] that
    by (elim conjE bexE) (auto simp: item_levels.simps(2) dec_type_def item_of_type_def dec_read_def)
  with b show ?thesis by (simp add: reads_def enc_out_def)
qed

definition path_item :: "int \<Rightarrow> item" where
  "path_item i = (if 0 \<le> i then UInt (of_int i) else SInt i)"

lemma reads_i64:
  assumes "in_i64 i"
  shows "reads (Suc k) (enc_out (enc_i64 mc i)) (path_item i)"
proof (cases "0 \<le> i")
  case True
  then show ?thesis by (simp add: i64_nonneg [OF assms] reads_u64 path_item_def)
next
  case False
  then have neg: "i < 0" by simp
  from enc_i64_total [OF assms] obtain b where b: "enc_i64 mc i = Inr b" "b \<noteq> []" by blast
  have "item_levels (Suc k) mc \<lparr>dec_input = pre @ b @ post, dec_pos = length pre, budget = m\<rparr>
      = Inr (SInt i, \<lparr>dec_input = pre @ b @ post, dec_pos = length pre + length b, budget = m - 1\<rparr>)"
    if "1 \<le> m" for pre post m
    using i64_read [OF assms neg b(1), of pre post] that
    by (elim conjE bexE) (auto simp: item_levels.simps(2) dec_type_def item_of_type_def dec_read_def)
  with b False show ?thesis by (simp add: reads_def enc_out_def path_item_def)
qed

lemma read_n_reads:
  assumes "list_all2 (reads k) bs xs" "sum_list (map item_nodes xs) \<le> n"
  shows "read_n (item_levels k mc) (length xs) acc
     \<lparr>dec_input = pre @ concat bs @ post, dec_pos = length pre, budget = n\<rparr>
     = Inr (acc @ xs, \<lparr>dec_input = pre @ concat bs @ post, dec_pos = length pre + length (concat bs),
         budget = n - sum_list (map item_nodes xs)\<rparr>)"
  using assms
proof (induction bs xs arbitrary: pre acc n rule: list_all2_induct)
  case Nil
  then show ?case by simp
next
  case (Cons b bs x xs)
  from readsD [OF Cons.hyps(1), of n pre "concat bs @ post"]
    Cons.IH [where n = "n - item_nodes x" and pre = "pre @ b" and acc = "acc @ [x]"] Cons.prems
  show ?case by (simp add: add.assoc)
qed

lemma reads_array:
  assumes "list_all2 (reads k) bs xs" "length xs \<le> MAX_ARRAY_LEN"
  shows "reads (Suc k) (enc_out (enc_array mc (of_nat (length xs))) @ concat bs) (Array xs)"
proof -
  obtain b where b: "enc_array mc (of_nat (length xs)) = Inr b" "b \<noteq> []"
    using enc_array_total by blast
  have len: "unat (of_nat (length xs) :: u64) = length xs"
    using assms(2) by (simp add: MAX_ARRAY_LEN_def unsigned_of_nat take_bit_nat_eq_self)
  have "item_levels (Suc k) mc \<lparr>dec_input = pre @ (b @ concat bs) @ post, dec_pos = length pre, budget = n\<rparr>
      = Inr (Array xs, \<lparr>dec_input = pre @ (b @ concat bs) @ post,
          dec_pos = length pre + length (b @ concat bs), budget = n - item_nodes (Array xs)\<rparr>)"
    if "item_nodes (Array xs) \<le> n" for pre post n
    using array_read [OF b(1), of pre "concat bs @ post"] that assms(2) len
      read_n_reads [OF assms(1), of "n - 1" "[]" "pre @ b" post]
    by (simp add: item_levels.simps(2) dec_type_def item_of_type_def dec_read_def read_container_def
        add.assoc)
  with b show ?thesis by (simp add: reads_def enc_out_def)
qed

lemma decode_loop_reads:
  assumes "list_all2 (reads (Suc MAX_DEPTH)) bs xs" "sum_list (map item_nodes xs) \<le> n"
  shows "decode_loop mc \<lparr>dec_input = pre @ concat bs, dec_pos = length pre, budget = n\<rparr> acc = Inr (acc @ xs)"
  using assms
proof (induction bs xs arbitrary: pre acc n rule: list_all2_induct)
  case Nil
  then show ?case by (subst decode_loop.simps) (simp add: sd_is_empty_def sd_remaining_def)
next
  case (Cons b bs x xs)
  from Cons.hyps(1) have "b \<noteq> []" by (simp add: reads_def)
  with readsD [OF Cons.hyps(1), of n pre "concat bs"]
    Cons.IH [where n = "n - item_nodes x" and pre = "pre @ b" and acc = "acc @ [x]"] Cons.prems
  show ?case
    by (subst decode_loop.simps)
      (simp add: sd_is_empty_def sd_remaining_def next_item_def item_at_def)
qed

lemma decode_stream_reads:
  "list_all2 (reads (Suc MAX_DEPTH)) bs xs \<Longrightarrow> sum_list (map item_nodes xs) \<le> MAX_ITEMS \<Longrightarrow>
    decode_stream mc (concat bs) = Inr xs"
  using decode_loop_reads [of bs xs MAX_ITEMS "[]" "[]"] by (simp add: decode_stream_def sd_new_def)

end

section \<open>The items of a request\<close>

definition i64_item :: "int \<Rightarrow> item" where
  "i64_item i = (if 0 \<le> i then UInt (of_int i) else SInt i)"

fun request_items :: "request \<Rightarrow> item list" where
  "request_items GetDevices = [UInt 0x01]"
| "request_items (Subscribe i) = [UInt 0x03, UInt (ucast i)]"
| "request_items (GetValues i regs) = [UInt 0x05, UInt (ucast i), Array (map (\<lambda>r. UInt (ucast r)) regs)]"
| "request_items (GetPathList i) = [UInt 0x0a, UInt (ucast i)]"
| "request_items (GetPathValues i idxs) = [UInt 0x0b, UInt (ucast i), Array (map i64_item idxs)]"

context minicbor_codec
begin

lemma map_reads:
  "(\<And>x. x \<in> set xs \<Longrightarrow> reads k (f x) (g x)) \<Longrightarrow> list_all2 (reads k) (map f xs) (map g xs)"
  by (simp add: list_all2_conv_all_nth)

lemma path_item_eq: "path_item = i64_item"
  by (simp add: path_item_def i64_item_def fun_eq_iff)

lemma i64_item_nodes [simp]: "item_nodes (i64_item i) = 1"
  by (simp add: i64_item_def)

text \<open>A request within the limits encodes, and its payload decodes to exactly its items.\<close>

lemma request_roundtrip:
  assumes "within_limits r" "request_i64 r"
  shows "\<exists>b. request_encode mc r = Inr b \<and> decode_stream mc b = Inr (request_items r)"
proof -
  define u where "u n = enc_out (enc_u64 mc n)" for n
  define h where "h n = enc_out (enc_array mc n)" for n
  have u: "reads (Suc MAX_DEPTH) (u n) (UInt n)" for n by (simp add: u_def reads_u64)
  have lim: "1 \<le> MAX_ITEMS" "2 \<le> MAX_ITEMS" "Suc 0 \<le> MAX_ITEMS" by (simp_all add: MAX_ITEMS_def)
  have eu: "emit (enc_u64 mc n) out = (out @ u n, Inr ())" for n out by (simp add: emit_ok u_def)
  have eh: "emit (enc_array mc n) out = (out @ h n, Inr ())" for n out by (simp add: emit_ok h_def)
  note enc = request_encode_def encode_into_def enc_then_Inr eu eh enc_each_ok
  show ?thesis
  proof (cases r)
    case GetDevices
    with u [of 1] decode_stream_reads [of "[u 1]" "[UInt 1]"] lim show ?thesis by (simp add: enc)
  next
    case (Subscribe i)
    with u decode_stream_reads [of "[u 3, u (ucast i)]" "[UInt 3, UInt (ucast i)]"] lim
    show ?thesis by (simp add: enc)
  next
    case (GetPathList i)
    with u decode_stream_reads [of "[u 10, u (ucast i)]" "[UInt 10, UInt (ucast i)]"] lim
    show ?thesis by (simp add: enc)
  next
    case (GetValues i regs)
    let ?bs = "map (\<lambda>r. enc_out (enc_u64 mc (ucast r))) regs" and ?xs = "map (\<lambda>r. UInt (ucast r)) regs"
    have len: "length regs \<le> 512" using assms GetValues by (simp add: MAX_REGISTERS_def)
    have "list_all2 (reads MAX_DEPTH) ?bs ?xs"
      by (rule map_reads) (simp add: MAX_DEPTH_def eval_nat_numeral reads_u64)
    from reads_array [OF this] len have "reads (Suc MAX_DEPTH) (h (of_nat (length regs)) @ concat ?bs) (Array ?xs)"
      by (simp add: MAX_ARRAY_LEN_def h_def)
    with u decode_stream_reads [of "[u 5, u (ucast i), h (of_nat (length regs)) @ concat ?bs]"
        "[UInt 5, UInt (ucast i), Array ?xs]"] len
    show ?thesis
      using GetValues by (simp add: enc MAX_REGISTERS_def MAX_ITEMS_def comp_def sum_list_triv)
  next
    case (GetPathValues i idxs)
    let ?bs = "map (\<lambda>x. enc_out (enc_i64 mc x)) idxs" and ?xs = "map i64_item idxs"
    have len: "length idxs \<le> 512" and rng: "list_all in_i64 idxs"
      using assms GetPathValues by (simp_all add: MAX_PATH_INDEXES_def)
    have "list_all2 (reads MAX_DEPTH) ?bs ?xs"
      using rng by (intro map_reads)
        (simp add: MAX_DEPTH_def eval_nat_numeral reads_i64 path_item_eq [symmetric] list_all_iff)
    from reads_array [OF this] len have "reads (Suc MAX_DEPTH) (h (of_nat (length idxs)) @ concat ?bs) (Array ?xs)"
      by (simp add: MAX_ARRAY_LEN_def h_def)
    with u decode_stream_reads [of "[u 11, u (ucast i), h (of_nat (length idxs)) @ concat ?bs]"
        "[UInt 11, UInt (ucast i), Array ?xs]"] len rng
    show ?thesis
      using GetPathValues
      by (simp add: enc MAX_PATH_INDEXES_def MAX_ITEMS_def comp_def sum_list_triv list_all_iff)
  qed
qed

end

text \<open>The size guards, for every encoder: an over-long request is refused before its instance id.\<close>

lemma request_too_long:
  "\<not> within_limits r \<Longrightarrow> is_ok (enc_u64 mc (ucast (out_as_u8 (request_opcode r)))) \<Longrightarrow>
    \<exists>what. request_encode mc r = Inl (RequestLimit what)"
  by (cases r) (auto simp: request_encode_def encode_into_def enc_then_Inr emit_ok)

end
