(* ===== verification/Cbor_Rfc8949.thy ===== *)
theory Cbor_Rfc8949
  imports Request
begin

text \<open>
  A concrete value of the \<open>minicbor\<close> parameter, after RFC 8949: heads with a major type and a
  minimal-width big-endian argument, definite and indefinite strings and containers, half, single
  and double floats. It models no code of the repository; it shows that the laws the code relies on
  can hold (the interpretation of \<open>minicbor_codec\<close>) and lets the witnesses run the decoder.
  \<open>skip\<close> is needed at a break byte only, which is the one place the code calls it.
\<close>

section \<open>Heads\<close>

definition end_of_input :: mc_error where
  "end_of_input = \<lparr>is_end_of_input = True, mc_text = ''end of input bytes''\<rparr>"

definition type_mismatch :: mc_error where
  "type_mismatch = \<lparr>is_end_of_input = False, mc_text = ''unexpected type''\<rparr>"

primrec be_bytes :: "nat \<Rightarrow> nat \<Rightarrow> bytes" where
  "be_bytes 0 n = []"
| "be_bytes (Suc w) n = be_bytes w (n div 256) @ [word_of_nat (n mod 256)]"

definition be_nat :: "bytes \<Rightarrow> nat" where
  "be_nat bs = foldl (\<lambda>a b. a * 256 + unat b) 0 bs"

text \<open>The width of the argument that follows an additional-information value.\<close>

definition arg_width :: "nat \<Rightarrow> nat option" where
  "arg_width ai = (if ai < 24 then Some 0 else if ai = 24 then Some 1 else if ai = 25 then Some 2
     else if ai = 26 then Some 4 else if ai = 27 then Some 8 else None)"

definition head_byte :: "nat \<Rightarrow> nat \<Rightarrow> u8" where
  "head_byte major ai = word_of_nat (32 * major + ai)"

definition rfc_enc_head :: "nat \<Rightarrow> nat \<Rightarrow> bytes" where
  "rfc_enc_head major n =
     (if n < 24 then [head_byte major n]
      else if n < 256 then head_byte major 24 # be_bytes 1 n
      else if n < 65536 then head_byte major 25 # be_bytes 2 n
      else if n < 4294967296 then head_byte major 26 # be_bytes 4 n
      else head_byte major 27 # be_bytes 8 n)"

text \<open>Major type, additional information, argument and new position.\<close>

definition rfc_head :: "bytes \<Rightarrow> nat \<Rightarrow> mc_error + nat \<times> nat \<times> nat \<times> nat" where
  "rfc_head data pos =
     (case get_at data pos of
        None \<Rightarrow> Inl end_of_input
      | Some b \<Rightarrow>
          (let major = unat b div 32; ai = unat b mod 32 in
            case arg_width ai of
              None \<Rightarrow> Inl type_mismatch
            | Some w \<Rightarrow>
                (case get_range data (pos + 1) w of
                   None \<Rightarrow> Inl end_of_input
                 | Some bs \<Rightarrow> Inr (major, ai, if w = 0 then ai else be_nat bs, pos + 1 + w))))"

lemma be_bytes_length [simp]: "length (be_bytes w n) = w"
  by (induction w arbitrary: n) simp_all

lemma unat_byte_mod: "unat (word_of_nat (m mod 256) :: u8) = m mod 256"
  by (simp add: unsigned_of_nat take_bit_nat_eq_self)

lemma be_nat_be_bytes: "n < 256 ^ w \<Longrightarrow> be_nat (be_bytes w n) = n"
proof (induction w arbitrary: n)
  case 0
  then show ?case by (simp add: be_nat_def)
next
  case (Suc w)
  then have "n div 256 < 256 ^ w" by (simp add: less_mult_imp_div_less mult.commute)
  from Suc.IH [OF this] show ?case
    by (simp add: be_nat_def unat_byte_mod)
qed

lemma unat_head_byte: "m < 8 \<Longrightarrow> ai < 32 \<Longrightarrow> unat (head_byte m ai) = 32 * m + ai"
  unfolding head_byte_def by (subst unsigned_of_nat) (simp add: take_bit_nat_eq_self)

lemma get_range_middle: "length b = w \<Longrightarrow> get_range (pre @ h # b @ post) (length pre + 1) w = Some b"
  by (simp add: get_range_def)

lemma rfc_head_arg:
  assumes "m < 8" "ai < 32" "arg_width ai = Some w" "length b = w"
  shows "rfc_head (pre @ (head_byte m ai # b) @ post) (length pre)
     = Inr (m, ai, if w = 0 then ai else be_nat b, length pre + 1 + w)"
  using assms get_range_middle [OF assms(4), of pre "head_byte m ai" post]
  by (simp add: rfc_head_def unat_head_byte Let_def)

definition head_ai :: "nat \<Rightarrow> nat" where
  "head_ai n = (if n < 24 then n else if n < 256 then 24 else if n < 65536 then 25
     else if n < 4294967296 then 26 else 27)"

lemma rfc_head_enc:
  assumes "m < 8" "n < 2 ^ 64"
  shows "rfc_head (pre @ rfc_enc_head m n @ post) (length pre)
     = Inr (m, head_ai n, n, length pre + length (rfc_enc_head m n))"
  using assms rfc_head_arg [of m n 0 "[]" pre post] rfc_head_arg [of m 24 1 "be_bytes 1 n" pre post]
    rfc_head_arg [of m 25 2 "be_bytes 2 n" pre post] rfc_head_arg [of m 26 4 "be_bytes 4 n" pre post]
    rfc_head_arg [of m 27 8 "be_bytes 8 n" pre post]
  by (simp add: rfc_enc_head_def head_ai_def arg_width_def be_nat_be_bytes del: be_bytes.simps)

lemma rfc_enc_head_nonempty [simp]: "rfc_enc_head m n \<noteq> []"
  by (simp add: rfc_enc_head_def)

lemma rfc_enc_head_first:
  "m < 8 \<Longrightarrow> \<exists>b bs. rfc_enc_head m n = b # bs \<and> unat b = 32 * m + head_ai n"
  by (simp add: rfc_enc_head_def head_ai_def unat_head_byte)

section \<open>The decoder calls\<close>

definition rfc_negative_type :: "nat \<Rightarrow> bytes \<Rightarrow> nat \<Rightarrow> mc_type" where
  "rfc_negative_type ai data pos =
     (let small = (case get_at data (pos + 1) of None \<Rightarrow> True | Some b \<Rightarrow> unat b < 128) in
      if ai < 24 then TI8
      else if ai = 24 then (if small then TI8 else TI16)
      else if ai = 25 then (if small then TI16 else TI32)
      else if ai = 26 then (if small then TI32 else TI64)
      else (if small then TI64 else TInt))"

definition rfc_type :: "nat \<Rightarrow> nat \<Rightarrow> u8 \<Rightarrow> bytes \<Rightarrow> nat \<Rightarrow> mc_type" where
  "rfc_type major ai b data pos =
   (if major = 0 \<and> ai \<le> 24 then TU8
  else if major = 0 \<and> ai = 25 then TU16
  else if major = 0 \<and> ai = 26 then TU32
  else if major = 0 \<and> ai = 27 then TU64
  else if major = 1 \<and> ai \<le> 27 then rfc_negative_type ai data pos
  else if major = 2 \<and> ai \<le> 27 then TBytes
  else if major = 2 \<and> ai = 31 then TBytesIndef
  else if major = 3 \<and> ai \<le> 27 then TString
  else if major = 3 \<and> ai = 31 then TStringIndef
  else if major = 4 \<and> ai \<le> 27 then TArray
  else if major = 4 \<and> ai = 31 then TArrayIndef
  else if major = 5 \<and> ai \<le> 27 then TMap
  else if major = 5 \<and> ai = 31 then TMapIndef
  else if major = 6 \<and> ai \<le> 27 then TTag
  else if major = 7 \<and> ai < 20 then TSimple
  else if major = 7 \<and> ai \<le> 21 then TBool
  else if major = 7 \<and> ai = 22 then TNull
  else if major = 7 \<and> ai = 23 then TUndefined
  else if major = 7 \<and> ai = 24 then TSimple
  else if major = 7 \<and> ai = 25 then TF16
  else if major = 7 \<and> ai = 26 then TF32
  else if major = 7 \<and> ai = 27 then TF64
  else if major = 7 \<and> ai = 31 then TBreak
  else TUnknown b)"

definition rfc_datatype :: "bytes \<Rightarrow> nat \<Rightarrow> mc_error + mc_type" where
  "rfc_datatype data pos =
     (case get_at data pos of
        None \<Rightarrow> Inl end_of_input
      | Some b \<Rightarrow> Inr (rfc_type (unat b div 32) (unat b mod 32) b data pos))"

definition rfc_expect :: "nat \<Rightarrow> (nat \<Rightarrow> 'a) \<Rightarrow> bytes \<Rightarrow> nat \<Rightarrow> mc_error + 'a \<times> nat" where
  "rfc_expect major f data pos =
     try_bind (rfc_head data pos) (\<lambda>(m, ai, n, pos').
       if m = major then Inr (f n, pos') else Inl type_mismatch)"

definition rfc_i64 :: "bytes \<Rightarrow> nat \<Rightarrow> mc_error + int \<times> nat" where
  "rfc_i64 data pos =
     try_bind (rfc_head data pos) (\<lambda>(m, ai, n, pos').
       if m = 0 \<and> in_i64 (int n) then Inr (int n, pos')
       else if m = 1 \<and> in_i64 (- 1 - int n) then Inr (- 1 - int n, pos')
       else Inl type_mismatch)"

definition float_of_bits :: "nat \<Rightarrow> nat \<Rightarrow> nat \<Rightarrow> f64" where
  "float_of_bits eb mb n =
     (let man = n mod 2 ^ mb; ex = n div 2 ^ mb mod 2 ^ eb; neg = n div 2 ^ (mb + eb) mod 2 = 1;
          bias = 2 ^ (eb - 1) - 1; s = (if neg then - 1 else 1) in
      if ex = 2 ^ eb - 1 then (if man = 0 then F64_Inf neg else F64_NaN)
      else if ex = 0 \<and> man = 0 then (if neg then F64_NegZero else F64_Fin 0)
      else if ex = 0 then F64_Fin (s * of_nat man * pow2 (1 - int bias - int mb))
      else F64_Fin (s * of_nat (2 ^ mb + man) * pow2 (int ex - int bias - int mb)))"

definition rfc_f64 :: "bytes \<Rightarrow> nat \<Rightarrow> mc_error + f64 \<times> nat" where
  "rfc_f64 data pos =
     try_bind (rfc_head data pos) (\<lambda>(m, ai, n, pos').
       if m = 7 \<and> ai = 25 then Inr (float_of_bits 5 10 n, pos')
       else if m = 7 \<and> ai = 26 then Inr (float_of_bits 8 23 n, pos')
       else if m = 7 \<and> ai = 27 then Inr (float_of_bits 11 52 n, pos')
       else Inl type_mismatch)"

definition rfc_bool :: "bytes \<Rightarrow> nat \<Rightarrow> mc_error + bool \<times> nat" where
  "rfc_bool data pos =
     try_bind (rfc_head data pos) (\<lambda>(m, ai, n, pos').
       if m = 7 \<and> ai = 20 then Inr (False, pos') else if m = 7 \<and> ai = 21 then Inr (True, pos')
       else Inl type_mismatch)"

definition rfc_unit :: "nat \<Rightarrow> bytes \<Rightarrow> nat \<Rightarrow> mc_error + nat" where
  "rfc_unit byte data pos =
     (case get_at data pos of None \<Rightarrow> Inl end_of_input
      | Some b \<Rightarrow> if unat b = byte then Inr (pos + 1) else Inl type_mismatch)"

definition rfc_simple :: "bytes \<Rightarrow> nat \<Rightarrow> mc_error + u8 \<times> nat" where
  "rfc_simple data pos =
     try_bind (rfc_head data pos) (\<lambda>(m, ai, n, pos').
       if m = 7 \<and> ai \<le> 24 then Inr (of_nat n, pos') else Inl type_mismatch)"

definition rfc_chunk :: "nat \<Rightarrow> bytes \<Rightarrow> nat \<Rightarrow> mc_error + bytes \<times> nat" where
  "rfc_chunk major data pos =
     try_bind (rfc_head data pos) (\<lambda>(m, ai, n, pos').
       if m \<noteq> major then Inl type_mismatch
       else case get_range data pos' n of
         None \<Rightarrow> Inl end_of_input
       | Some bs \<Rightarrow> Inr (bs, pos' + n))"

text \<open>The chunks of an indefinite string, with the input length as fuel (every chunk has a head).\<close>

fun rfc_chunks :: "nat \<Rightarrow> nat \<Rightarrow> bytes \<Rightarrow> nat \<Rightarrow> (mc_error + bytes) list \<times> nat" where
  "rfc_chunks 0 major data pos = ([Inl end_of_input], pos)"
| "rfc_chunks (Suc k) major data pos =
     (if get_at data pos = Some 255 then ([], pos + 1)
      else case rfc_chunk major data pos of
        Inl e \<Rightarrow> ([Inl e], pos)
      | Inr (bs, pos') \<Rightarrow> (case rfc_chunks k major data pos' of (cs, p) \<Rightarrow> (Inr bs # cs, p)))"

definition rfc_string :: "nat \<Rightarrow> bytes \<Rightarrow> nat \<Rightarrow> mc_error + (mc_error + bytes) list \<times> nat" where
  "rfc_string major data pos =
     (case get_at data pos of
        None \<Rightarrow> Inl end_of_input
      | Some b \<Rightarrow>
          if unat b = 32 * major + 31 then Inr (rfc_chunks (length data) major data (pos + 1))
          else try_bind (rfc_chunk major data pos) (\<lambda>(bs, pos'). Inr ([Inr bs], pos')))"

definition text_of :: "bytes \<Rightarrow> string" where
  "text_of bs = map (\<lambda>b. char_of (unat b)) bs"

definition rfc_text :: "bytes \<Rightarrow> nat \<Rightarrow> mc_error + (mc_error + string) list \<times> nat" where
  "rfc_text data pos =
     try_bind (rfc_string 3 data pos) (\<lambda>(cs, p). Inr (map (map_sum id text_of) cs, p))"

definition rfc_container :: "nat \<Rightarrow> bytes \<Rightarrow> nat \<Rightarrow> mc_error + u64 option \<times> nat" where
  "rfc_container major data pos =
     (case get_at data pos of
        None \<Rightarrow> Inl end_of_input
      | Some b \<Rightarrow>
          if unat b = 32 * major + 31 then Inr (None, pos + 1)
          else rfc_expect major (\<lambda>n. Some (of_nat n)) data pos)"

definition rfc_minicbor :: minicbor where
  "rfc_minicbor = \<lparr>
     mc_datatype = rfc_datatype,
     mc_u64 = rfc_expect 0 of_nat,
     mc_i64 = rfc_i64,
     mc_f64 = rfc_f64,
     mc_bool = rfc_bool,
     mc_null = rfc_unit 246,
     mc_undefined = rfc_unit 247,
     mc_simple = rfc_simple,
     mc_bytes_iter = rfc_string 2,
     mc_str_iter = rfc_text,
     mc_array = rfc_container 4,
     mc_map = rfc_container 5,
     mc_tag = rfc_expect 6 of_nat,
     mc_skip = rfc_unit 255,
     enc_u64 = (\<lambda>n. Inr (rfc_enc_head 0 (unat n))),
     enc_i64 = (\<lambda>i. Inr (if 0 \<le> i then rfc_enc_head 0 (nat i) else rfc_enc_head 1 (nat (- 1 - i)))),
     enc_array = (\<lambda>n. Inr (rfc_enc_head 4 (unat n))),
     enc_bytes = (\<lambda>bs. Inr (rfc_enc_head 2 (length bs) @ bs)),
     enc_str = (\<lambda>s. Inr (rfc_enc_head 3 (length s) @ map (\<lambda>c. of_char c) s))\<rparr>"

section \<open>The laws hold\<close>

lemma head_ai_le: "head_ai n \<le> 27"
  by (simp add: head_ai_def)

lemma first_byte:
  assumes "m < 8"
  shows "\<exists>b. get_at (pre @ rfc_enc_head m n @ post) (length pre) = Some b \<and> unat b = 32 * m + head_ai n"
  using rfc_enc_head_first [OF assms, of n] by auto

lemma rfc_datatype_head:
  assumes "m < 8"
  shows "\<exists>b. rfc_datatype (pre @ rfc_enc_head m n @ post) (length pre)
     = Inr (rfc_type m (head_ai n) b (pre @ rfc_enc_head m n @ post) (length pre))"
proof -
  obtain b where "get_at (pre @ rfc_enc_head m n @ post) (length pre) = Some b" "unat b = 32 * m + head_ai n"
    using first_byte [OF assms, of pre n post] by auto
  moreover have "(32 * m + head_ai n) div 32 = m" "(32 * m + head_ai n) mod 32 = head_ai n"
    using head_ai_le [of n] by simp_all
  ultimately show ?thesis by (auto simp: rfc_datatype_def)
qed

lemma rfc_datatype_uint:
  "\<exists>ty \<in> {TU8, TU16, TU32, TU64}. rfc_datatype (pre @ rfc_enc_head 0 n @ post) (length pre) = Inr ty"
proof -
  have "head_ai n \<le> 24 \<or> head_ai n = 25 \<or> head_ai n = 26 \<or> head_ai n = 27"
    using head_ai_le [of n] by arith
  then have "rfc_type 0 (head_ai n) b data pos \<in> {TU8, TU16, TU32, TU64}" for b data pos
    by (auto simp: rfc_type_def)
  note t = this
  obtain b where e: "rfc_datatype (pre @ rfc_enc_head 0 n @ post) (length pre)
      = Inr (rfc_type 0 (head_ai n) b (pre @ rfc_enc_head 0 n @ post) (length pre))"
    using rfc_datatype_head [of 0 pre n post] by auto
  show ?thesis using e t by (rule bexI)
qed

lemma rfc_datatype_negative:
  "\<exists>ty \<in> {TI8, TI16, TI32, TI64, TInt}. rfc_datatype (pre @ rfc_enc_head 1 n @ post) (length pre) = Inr ty"
proof -
  have "rfc_type 1 (head_ai n) b data pos \<in> {TI8, TI16, TI32, TI64, TInt}" for b data pos
    using head_ai_le [of n] by (simp add: rfc_type_def rfc_negative_type_def Let_def)
  note t = this
  obtain b where e: "rfc_datatype (pre @ rfc_enc_head 1 n @ post) (length pre)
      = Inr (rfc_type 1 (head_ai n) b (pre @ rfc_enc_head 1 n @ post) (length pre))"
    using rfc_datatype_head [of 1 pre n post] by auto
  show ?thesis using e t by (rule bexI)
qed

lemma rfc_datatype_array: "rfc_datatype (pre @ rfc_enc_head 4 n @ post) (length pre) = Inr TArray"
proof -
  have "rfc_type 4 (head_ai n) b data pos = TArray" for b data pos
    using head_ai_le [of n] by (simp add: rfc_type_def)
  then show ?thesis using rfc_datatype_head [of 4 pre n post] by auto
qed

lemma rfc_container_enc:
  assumes "n < 2 ^ 64"
  shows "rfc_container 4 (pre @ rfc_enc_head 4 n @ post) (length pre)
     = Inr (Some (of_nat n), length pre + length (rfc_enc_head 4 n))"
proof -
  obtain b where b: "get_at (pre @ rfc_enc_head 4 n @ post) (length pre) = Some b" "unat b = 128 + head_ai n"
    using first_byte [of 4 pre n post] by auto
  with head_ai_le [of n] rfc_head_enc [of 4 n pre post] assms show ?thesis
    by (simp add: rfc_container_def rfc_expect_def)
qed

lemma unat_lt_2_64: "unat (n :: u64) < 2 ^ 64"
  using unsigned_less [of n, where ?'a = nat] by simp

interpretation rfc: minicbor_codec rfc_minicbor
proof unfold_locales
  fix n :: u64 and i :: int and b pre post :: bytes
  show "\<exists>b. enc_u64 rfc_minicbor n = Inr b \<and> b \<noteq> []" by (simp add: rfc_minicbor_def)
  show "\<exists>b. enc_i64 rfc_minicbor i = Inr b \<and> b \<noteq> []" by (simp add: rfc_minicbor_def)
  show "\<exists>b. enc_array rfc_minicbor n = Inr b \<and> b \<noteq> []" by (simp add: rfc_minicbor_def)
  show "(\<exists>ty \<in> {TU8, TU16, TU32, TU64}. mc_datatype rfc_minicbor (pre @ b @ post) (length pre) = Inr ty)
      \<and> mc_u64 rfc_minicbor (pre @ b @ post) (length pre) = Inr (n, length pre + length b)"
    if "enc_u64 rfc_minicbor n = Inr b"
    using that rfc_datatype_uint [of pre "unat n" post] rfc_head_enc [of 0 "unat n" pre post] unat_lt_2_64 [of n]
    by (auto simp: rfc_minicbor_def rfc_expect_def)
  show "enc_i64 rfc_minicbor i = enc_u64 rfc_minicbor (of_int i)" if "in_i64 i" "0 \<le> i"
  proof -
    have "unat (of_int i :: u64) = nat i"
      using that by (simp add: in_i64_def i64_max_def unsigned_of_int take_bit_int_eq_self nat_eq_iff)
    then show ?thesis using that by (simp add: rfc_minicbor_def)
  qed
  show "(\<exists>ty \<in> {TI8, TI16, TI32, TI64, TInt}. mc_datatype rfc_minicbor (pre @ b @ post) (length pre) = Inr ty)
      \<and> mc_i64 rfc_minicbor (pre @ b @ post) (length pre) = Inr (i, length pre + length b)"
    if "in_i64 i" "i < 0" "enc_i64 rfc_minicbor i = Inr b"
  proof -
    have n: "nat (- 1 - i) < 2 ^ 64" "- 1 - int (nat (- 1 - i)) = i"
      using that by (simp_all add: in_i64_def i64_min_def nat_less_iff)
    from that have b: "b = rfc_enc_head 1 (nat (- 1 - i))" by (simp add: rfc_minicbor_def)
    show ?thesis
      using rfc_datatype_negative [of pre "nat (- 1 - i)" post] rfc_head_enc [of 1, OF _ n(1), of pre post] n that(1)
      by (simp add: rfc_minicbor_def rfc_i64_def b)
  qed
  show "mc_datatype rfc_minicbor (pre @ b @ post) (length pre) = Inr TArray
      \<and> mc_array rfc_minicbor (pre @ b @ post) (length pre) = Inr (Some n, length pre + length b)"
    if "enc_array rfc_minicbor n = Inr b"
    using that rfc_datatype_array [of pre "unat n" post] rfc_container_enc [of "unat n" pre post] unat_lt_2_64 [of n]
    by (auto simp: rfc_minicbor_def)
qed

section \<open>Properties\<close>

text \<open>C14: Every request within the limits encodes, and decoding the bytes gives the opcode and the
  arguments of the request, for every CBOR library that keeps the contract \<open>minicbor_codec\<close>.\<close>

theorem request_encode_decode:
  assumes "minicbor_codec mc" "within_limits r" "request_i64 r"
  shows "\<exists>b. request_encode mc r = Inr b \<and> decode_stream mc b = Inr (request_items r)"
  by (rule minicbor_codec.request_roundtrip [OF assms])

text \<open>A request over the limits is refused, with the limit that it exceeds.\<close>

theorem request_over_limit:
  assumes "\<not> within_limits r" "\<And>n. is_ok (enc_u64 mc n)"
  shows "\<exists>what. request_encode mc r = Inl (RequestLimit what)"
  using request_too_long [OF assms(1)] assms(2) by blast

theorem request_over_limit_witness:
  "\<exists>what. request_encode rfc_minicbor (GetValues 3 (replicate 600 1)) = Inl (RequestLimit what)"
  by (rule request_over_limit) (simp_all add: MAX_REGISTERS_def)

theorem request_encode_decode_witness:
  "\<exists>b. request_encode rfc_minicbor (GetValues 3 [60908]) = Inr b \<and>
     decode_stream rfc_minicbor b = Inr (request_items (GetValues 3 [60908]))"
  by (rule request_encode_decode [OF rfc.minicbor_codec_axioms]) (simp_all add: MAX_REGISTERS_def)

end
