(* ===== verification/Vreg.thy ===== *)
theory Vreg
  imports Prelude Float64
begin

text \<open>
  \<open>victron-protocol\<close>, \<open>vreg.rs\<close>, \<open>vreg/types.rs\<close>, \<open>vreg/round.rs\<close>: decoding of raw little-endian
  register payloads into scaled values. Floats are binary64 (theory \<open>Float64\<close>), \<open>i16\<close>/\<open>i32\<close> values
  are the signed reading of their words. The lemmas show that a decoder never gives a value together
  with a reason for its absence, that every sentinel is refused, that scaling stays in range, and
  that the hundredths rounding is round-half-even for every \<open>i64\<close>.
\<close>

section \<open>Types\<close>

datatype confidence = Confirmed | Candidate

fun confidence_as_str :: "confidence \<Rightarrow> string" where
  "confidence_as_str Confirmed = ''confirmed''"
| "confidence_as_str Candidate = ''candidate''"

datatype invalid =
    Sentinel string
  | ShortPayload nat nat
  | LengthMismatch nat nat
  | NotAligned nat nat

record slot =
  slot_offset :: nat
  slot_register :: "u16 option"
  slot_raw :: bytes

datatype scaled =
    ScNumber f64
  | ScInteger int
  | ScState u8 string
  | ScSlots "slot list"
  | ScBlock "u16 list" "u16 list"

record decoded_vreg =
  dv_register :: u16
  dv_name :: "string option"
  dv_unit :: "string option"
  dv_decoder :: string
  dv_confidence :: confidence
  dv_value :: "scaled option"
  dv_invalid :: "invalid option"

record vreg_value =
  vv_register :: u16
  vv_raw :: bytes

definition CHARGER_STATES :: "(u8 \<times> string) list" where
  "CHARGER_STATES =
     [(0, ''Off''), (2, ''Fault''), (3, ''Bulk''), (4, ''Absorption''), (5, ''Float''),
      (6, ''Storage''), (7, ''Equalize''), (245, ''Starting-up''),
      (247, ''Auto equalize/Recondition''), (252, ''External control'')]"

definition LOAD_STATES :: "(u8 \<times> string) list" where
  "LOAD_STATES = [(0, ''Off''), (1, ''On'')]"

definition charger_state_name :: "u8 \<Rightarrow> string" where
  "charger_state_name code =
     (case map_of CHARGER_STATES code of Some n \<Rightarrow> n
      | None \<Rightarrow> ''Unknown('' @ nat_to_dec (unat code) @ '')'')"

definition load_state_name :: "u8 \<Rightarrow> string" where
  "load_state_name code =
     (case map_of LOAD_STATES code of Some n \<Rightarrow> n
      | None \<Rightarrow> ''Unknown('' @ nat_to_dec (unat code) @ '')'')"

section \<open>Rounding\<close>

text \<open>
  Rust's \<open>/\<close> and \<open>%\<close> truncate toward zero and the remainder carries the sign of the dividend:
  \<open>tdiv\<close> and \<open>tmod\<close>.
\<close>

definition tdiv :: "int \<Rightarrow> int \<Rightarrow> int" where
  "tdiv a b = sgn a * sgn b * (\<bar>a\<bar> div \<bar>b\<bar>)"

definition tmod :: "int \<Rightarrow> int \<Rightarrow> int" where
  "tmod a b = a - tdiv a b * b"

definition round_hundredths_ties_even :: "int \<Rightarrow> int" where
  "round_hundredths_ties_even v =
     (let q = tdiv v 100; r = tmod v 100 in
      if r = 0 then q
      else if \<bar>r\<bar> < 50 then q
      else if \<bar>r\<bar> > 50 then wrap_i64 (q + sgn v)
      else if tmod q 2 = 0 then q
      else wrap_i64 (q + sgn v))"

section \<open>Raw readers and sentinels\<close>

definition u16le :: "bytes \<Rightarrow> nat \<Rightarrow> u16 option" where
  "u16le raw off = map_option (\<lambda>b. u16_from_le (b ! 0) (b ! 1)) (get_range raw off 2)"

definition s16le :: "bytes \<Rightarrow> nat \<Rightarrow> int option" where
  "s16le raw off = map_option sint (u16le raw off)"

definition u32le :: "bytes \<Rightarrow> nat \<Rightarrow> u32 option" where
  "u32le raw off = map_option (\<lambda>b. u32_from_le (b ! 0) (b ! 1) (b ! 2) (b ! 3)) (get_range raw off 4)"

definition s32le :: "bytes \<Rightarrow> nat \<Rightarrow> int option" where
  "s32le raw off = map_option sint (u32le raw off)"

definition invalid_u16 :: "u16 \<Rightarrow> invalid option" where
  "invalid_u16 v = (if v = 0xffff then Some (Sentinel ''0xffff'') else None)"

definition invalid_u32 :: "u32 \<Rightarrow> invalid option" where
  "invalid_u32 v = (if v = 0xffffffff then Some (Sentinel ''0xffffffff'') else None)"

definition invalid_s16 :: "int \<Rightarrow> invalid option" where
  "invalid_s16 v =
     (if v = 0x7fff then Some (Sentinel ''0x7fff'')
      else if v = - 0x8000 then Some (Sentinel ''0x8000'') else None)"

definition invalid_s32 :: "int \<Rightarrow> invalid option" where
  "invalid_s32 v =
     (if v = 0x7fffffff then Some (Sentinel ''0x7fffffff'')
      else if v = - 0x80000000 then Some (Sentinel ''0x80000000'') else None)"

definition short_payload :: "nat \<Rightarrow> nat \<Rightarrow> invalid option" where
  "short_payload need have_len = (if have_len < need then Some (ShortPayload need have_len) else None)"

text \<open>\<open>v.and_then(|v| invalid(v).is_none().then_some(f(v)))\<close>, and \<open>v.and_then(invalid).or(ivd)\<close>.\<close>

definition checked :: "('a \<Rightarrow> invalid option) \<Rightarrow> ('a \<Rightarrow> scaled) \<Rightarrow> 'a option \<Rightarrow> scaled option" where
  "checked bad f v = Option.bind v (\<lambda>x. if bad x = None then Some (f x) else None)"

definition reason :: "('a \<Rightarrow> invalid option) \<Rightarrow> 'a option \<Rightarrow> invalid option \<Rightarrow> invalid option" where
  "reason bad v ivd = (case Option.bind v bad of Some s \<Rightarrow> Some s | None \<Rightarrow> ivd)"

section \<open>Decoders\<close>

definition named ::
  "u16 \<Rightarrow> string \<Rightarrow> string option \<Rightarrow> string \<Rightarrow> confidence \<Rightarrow> scaled option \<Rightarrow> invalid option \<Rightarrow> decoded_vreg"
  where
  "named reg name un dec conf val ivd =
     \<lparr>dv_register = reg, dv_name = Some name, dv_unit = un, dv_decoder = dec, dv_confidence = conf,
      dv_value = val, dv_invalid = ivd\<rparr>"

definition unnamed :: "u16 \<Rightarrow> string \<Rightarrow> scaled option \<Rightarrow> invalid option \<Rightarrow> decoded_vreg" where
  "unnamed reg dec val ivd =
     \<lparr>dv_register = reg, dv_name = None, dv_unit = None, dv_decoder = dec, dv_confidence = Candidate,
      dv_value = val, dv_invalid = ivd\<rparr>"

text \<open>\<open>v as f64 / div\<close>.\<close>

definition scale_f64 :: "int \<Rightarrow> rat \<Rightarrow> scaled" where
  "scale_f64 v d = ScNumber (f64_div (f64_of_int v) (f64_lit d))"

definition u16_candidate ::
  "u16 \<Rightarrow> string \<Rightarrow> string option \<Rightarrow> string \<Rightarrow> rat \<Rightarrow> u16 option \<Rightarrow> invalid option \<Rightarrow> decoded_vreg" where
  "u16_candidate reg name un dec d v ivd =
     named reg name un dec Candidate (checked invalid_u16 (\<lambda>v. scale_f64 (uint v) d) v)
       (reason invalid_u16 v ivd)"

definition u16_candidate_int ::
  "u16 \<Rightarrow> string \<Rightarrow> string option \<Rightarrow> string \<Rightarrow> u16 option \<Rightarrow> invalid option \<Rightarrow> decoded_vreg" where
  "u16_candidate_int reg name un dec v ivd =
     named reg name un dec Candidate (checked invalid_u16 (\<lambda>v. ScInteger (uint v)) v)
       (reason invalid_u16 v ivd)"

definition state_candidate ::
  "u16 \<Rightarrow> bytes \<Rightarrow> string \<Rightarrow> string \<Rightarrow> (u8 \<Rightarrow> string) \<Rightarrow> invalid option \<Rightarrow> decoded_vreg" where
  "state_candidate reg raw name dec lookup ivd =
     named reg name None dec Candidate
       (map_option (\<lambda>c. ScState c (lookup c)) (get_at raw 0)) ivd"

text \<open>\<open>raw.chunks_exact(8).enumerate()\<close>: the remainder is dropped.\<close>

fun trend_slots :: "nat \<Rightarrow> bytes \<Rightarrow> slot list" where
  "trend_slots k raw =
     (if length raw < 8 then []
      else let chunk = take 8 raw; reg = u16_from_le (chunk ! 0) (chunk ! 1) in
        \<lparr>slot_offset = k * 8, slot_register = (if reg \<noteq> 0xffff then Some reg else None), slot_raw = chunk\<rparr>
        # trend_slots (Suc k) (drop 8 raw))"

declare trend_slots.simps [simp del]

text \<open>\<open>(0..n).step_by(2)\<close>.\<close>

definition evens_below :: "nat \<Rightarrow> nat list" where
  "evens_below n = filter even [0..<n]"

definition words_le :: "bytes \<Rightarrow> u16 list" where
  "words_le raw = List.map_filter
     (\<lambda>i. map_option (\<lambda>b. u16_from_le (b ! 0) (b ! 1)) (get_range raw i 2)) (evens_below (length raw - 1))"

definition words_be :: "bytes \<Rightarrow> u16 list" where
  "words_be raw = List.map_filter
     (\<lambda>i. map_option (\<lambda>b. u16_from_be (b ! 0) (b ! 1)) (get_range raw i 2)) (evens_below (length raw - 1))"

text \<open>The fallback on the payload length, for registers without a decoder.\<close>

definition decode_generic :: "u16 \<Rightarrow> bytes \<Rightarrow> decoded_vreg" where
  "decode_generic reg raw =
     (if length raw = 1 then unnamed reg ''u8'' (Some (ScInteger (uint (raw ! 0)))) None
      else if length raw = 2 then
        (let v = u16_from_le (raw ! 0) (raw ! 1); sentinel = invalid_u16 v in
         unnamed reg ''raw_u16_le'' (if sentinel = None then Some (ScInteger (uint v)) else None) sentinel)
      else if length raw = 4 then
        (let v = sint (u32_from_le (raw ! 0) (raw ! 1) (raw ! 2) (raw ! 3));
             sentinel = (if raw = [0xff, 0xff, 0xff, 0xff] then Some (Sentinel ''0xffffffff'') else invalid_s32 v) in
         unnamed reg ''raw_s32_le'' (if sentinel = None then Some (ScInteger v) else None) sentinel)
      else unnamed reg ''raw'' None None)"

text \<open>The arms of \<open>decode_register\<close> from the last: the trend and history blocks, the fields added from the
  live reader, and the first registers.\<close>

definition decode_blocks :: "u16 \<Rightarrow> bytes \<Rightarrow> decoded_vreg" where
  "decode_blocks reg raw =
     (if reg = 0xEC20 then
        (if length raw mod 8 = 0 \<and> raw \<noteq> []
         then named reg ''Trend available-vregs block'' None ''8-byte slots, first u16 register'' Candidate
           (Some (ScSlots (trend_slots 0 raw))) None
         else named reg ''Trend available-vregs block'' None ''8-byte slots, first u16 register'' Candidate
           None (Some (NotAligned 8 (length raw))))
      else if reg = 0x104F \<or> reg = 0x1050 then
        (if length raw = 34
         then named reg ''MPPT history/trend block'' None ''raw 34-byte block; field layout pending'' Candidate
           (Some (ScBlock (words_le raw) (words_be raw))) None
         else named reg ''MPPT history/trend block'' None ''raw 34-byte block; field layout pending'' Candidate
           None (Some (LengthMismatch 34 (length raw))))
      else decode_generic reg raw)"

definition decode_fields :: "u16 \<Rightarrow> bytes \<Rightarrow> decoded_vreg" where
  "decode_fields reg raw =
     (if reg = 0xEDBD then
        u16_candidate reg ''Solar current'' (Some ''A'') ''u16_le/10'' 10 (u16le raw 0)
          (short_payload 2 (length raw))
      else if reg = 0x0201 then
        state_candidate reg raw ''Battery state'' ''u8 state enum'' charger_state_name
          (short_payload 1 (length raw))
      else if reg = 0xEDA8 then
        state_candidate reg raw ''Load output state'' ''u8 load state enum'' load_state_name
          (short_payload 1 (length raw))
      else if reg = 0xEDAD then
        u16_candidate reg ''Load output current'' (Some ''A'') ''u16_le/10'' 10 (u16le raw 0)
          (short_payload 2 (length raw))
      else if reg = 0xEDAA then
        u16_candidate_int reg ''Load output power'' (Some ''W'') ''u16_le'' (u16le raw 0)
          (short_payload 2 (length raw))
      else if reg = 0x2027 then
        named reg ''Power-like trend value'' (Some ''W'') ''s32_le/100'' Candidate
          (checked invalid_s32 (\<lambda>v. ScInteger (round_hundredths_ties_even v)) (s32le raw 0))
          (reason invalid_s32 (s32le raw 0) (short_payload 4 (length raw)))
      else decode_blocks reg raw)"

definition decode_register :: "u16 \<Rightarrow> bytes \<Rightarrow> decoded_vreg" where
  "decode_register reg raw =
     (if reg = 0xEDBB then
        named reg ''Solar voltage'' (Some ''V'') ''u16_le/100'' Confirmed
          (checked invalid_u16 (\<lambda>v. scale_f64 (uint v) 100) (u16le raw 0))
          (reason invalid_u16 (u16le raw 0) (short_payload 2 (length raw)))
      else if reg = 0xEDBC then
        named reg ''Solar power'' (Some ''W'') ''u32_le/100 rounded'' Confirmed
          (checked invalid_u32 (\<lambda>v. ScInteger (round_hundredths_ties_even (uint v))) (u32le raw 0))
          (reason invalid_u32 (u32le raw 0) (short_payload 4 (length raw)))
      else if reg = 0xED8D then
        named reg ''Battery voltage'' (Some ''V'') ''u16_le/100'' Candidate
          (checked invalid_u16 (\<lambda>v. scale_f64 (uint v) 100) (u16le raw 0))
          (reason invalid_u16 (u16le raw 0) (short_payload 2 (length raw)))
      else if reg = 0xED8C \<or> reg = 0x2013 then
        named reg (if reg = 0xED8C then ''Battery current'' else ''Trend/current-like value'')
          (Some ''A'') ''s32_le/1000'' Candidate
          (checked invalid_s32 (\<lambda>v. scale_f64 v 1000) (s32le raw 0))
          (reason invalid_s32 (s32le raw 0) (short_payload 4 (length raw)))
      else if reg = 0xED8F then
        named reg ''Current flag/legacy current'' None ''s16_le'' Candidate
          (checked invalid_s16 ScInteger (s16le raw 0))
          (reason invalid_s16 (s16le raw 0) (short_payload 2 (length raw)))
      else if reg = 0xEDA9 then
        named reg ''Load/output voltage-like value'' (Some ''V'') ''u16_le/10'' Candidate
          (checked invalid_u16 (\<lambda>v. scale_f64 (uint v) 10) (u16le raw 0))
          (reason invalid_u16 (u16le raw 0) (short_payload 2 (length raw)))
      else decode_fields reg raw)"

definition vv_decode :: "vreg_value \<Rightarrow> decoded_vreg" where
  "vv_decode v = decode_register (vv_register v) (vv_raw v)"

section \<open>Rounding is half to even\<close>

lemma tdiv_100_bounds: "\<bar>v - tdiv v 100 * 100\<bar> < 100"
proof -
  have "\<bar>v\<bar> = \<bar>v\<bar> div 100 * 100 + \<bar>v\<bar> mod 100" by simp
  then show ?thesis by (cases "0 \<le> v") (auto simp: tdiv_def sgn_if abs_if)
qed

lemma tdiv_100_abs: "\<bar>tdiv v 100\<bar> = \<bar>v\<bar> div 100"
  by (simp add: tdiv_def abs_mult sgn_if)

lemma tmod_even: "tmod q 2 = 0 \<longleftrightarrow> even q"
  by (auto simp: tmod_def tdiv_def sgn_if abs_if) presburger+

lemma tmod_sign: "v = tdiv v 100 * 100 + tmod v 100"
  by (simp add: tmod_def)

lemma round_hundredths_cases:
  assumes "in_i64 v"
  shows "round_hundredths_ties_even v = (let q = tdiv v 100; r = tmod v 100 in
     if \<bar>r\<bar> < 50 \<or> \<bar>r\<bar> = 50 \<and> even q then q else q + sgn v)"
proof -
  have "\<bar>tdiv v 100 + sgn v\<bar> \<le> \<bar>v\<bar> div 100 + 1"
    using tdiv_100_abs [of v] by (auto simp: sgn_if)
  moreover have "\<bar>v\<bar> div 100 \<le> 92233720368547758"
    using assms by (auto simp: in_i64_def i64_min_def i64_max_def abs_if)
  ultimately have "in_i64 (tdiv v 100 + sgn v)"
    by (intro in_i64I; linarith)
  then show ?thesis
    by (auto simp: round_hundredths_ties_even_def tmod_even Let_def)
qed

lemma tmod_pos: "0 \<le> v \<Longrightarrow> tmod v 100 = v mod 100 \<and> tdiv v 100 = v div 100"
  by (cases "v = 0") (auto simp: tmod_def tdiv_def minus_div_mult_eq_mod [symmetric])

lemma tmod_neg: "v < 0 \<Longrightarrow> tmod v 100 = - ((- v) mod 100) \<and> tdiv v 100 = - ((- v) div 100)"
  using minus_div_mult_eq_mod [of "- v" 100] by (auto simp: tmod_def tdiv_def)

text \<open>The result is a nearest multiple of one hundred, and the even one of two when both are nearest.\<close>

lemma round_hundredths_nearest:
  assumes "in_i64 v"
  shows "\<bar>100 * round_hundredths_ties_even v - v\<bar> \<le> 50
    \<and> (\<bar>100 * round_hundredths_ties_even v - v\<bar> = 50 \<longrightarrow> even (round_hundredths_ties_even v))"
proof -
  define q r where "q = tdiv v 100" and "r = tmod v 100"
  have v: "v = 100 * q + r" using tmod_sign [of v] by (simp add: q_def r_def)
  have r: "\<bar>r\<bar> < 100" using tdiv_100_bounds [of v] by (simp add: r_def tmod_def)
  have s: "sgn v = 1 \<and> 0 \<le> r \<or> sgn v = - 1 \<and> r \<le> 0 \<or> r = 0"
    using tmod_pos [of v] tmod_neg [of v]
    by (cases "v < 0"; cases "v = 0") (auto simp: r_def sgn_if tmod_def tdiv_def)
  have "round_hundredths_ties_even v = (if \<bar>r\<bar> < 50 \<or> \<bar>r\<bar> = 50 \<and> even q then q else q + sgn v)"
    by (simp add: round_hundredths_cases [OF assms] Let_def q_def r_def)
  then consider (down) "round_hundredths_ties_even v = q" "\<bar>r\<bar> < 50 \<or> \<bar>r\<bar> = 50 \<and> even q"
    | (up) "round_hundredths_ties_even v = q + sgn v" "\<bar>r\<bar> > 50 \<or> \<bar>r\<bar> = 50 \<and> odd q"
    by (cases "\<bar>r\<bar> < 50 \<or> \<bar>r\<bar> = 50 \<and> even q") (auto simp: not_less le_less)
  then show ?thesis
  proof cases
    case down
    then show ?thesis by (auto simp: v)
  next
    case up
    then have "r \<noteq> 0" by auto
    with s consider "sgn v = 1" "0 < r" | "sgn v = - 1" "r < 0" by linarith
    then show ?thesis
    proof cases
      case 1
      have d: "100 * round_hundredths_ties_even v - v = 100 - r" using up(1) 1(1) v by linarith
      have "even (round_hundredths_ties_even v) = odd q" using up(1) 1(1) by simp
      then show ?thesis using up(2) 1(2) r unfolding d by auto
    next
      case 2
      have d: "100 * round_hundredths_ties_even v - v = - 100 - r" using up(1) 2(1) v by linarith
      have "even (round_hundredths_ties_even v) = odd q" using up(1) 2(1) by simp
      then show ?thesis using up(2) 2(2) r unfolding d by auto
    qed
  qed
qed

lemma round_hundredths_unique:
  fixes a b v :: int
  assumes a: "\<bar>100 * a - v\<bar> \<le> 50" "\<bar>100 * a - v\<bar> = 50 \<longrightarrow> even a"
    and b: "\<bar>100 * b - v\<bar> \<le> 50" "\<bar>100 * b - v\<bar> = 50 \<longrightarrow> even b"
  shows "a = b"
proof -
  have "a = b \<or> a = b + 1 \<or> b = a + 1" using a(1) b(1) by arith
  moreover have False if "a = b + 1"
  proof -
    from that a(1) b(1) have "100 * a - v = 50" "100 * b - v = - 50" by arith+
    with a(2) b(2) that show False by simp
  qed
  moreover have False if "b = a + 1"
  proof -
    from that a(1) b(1) have "100 * b - v = 50" "100 * a - v = - 50" by arith+
    with a(2) b(2) that show False by simp
  qed
  ultimately show ?thesis by blast
qed

section \<open>Values and reasons exclude each other\<close>

lemma checked_reason:
  "(checked bad f v = None) = (reason bad v ivd \<noteq> None)" if "v = None \<longleftrightarrow> ivd \<noteq> None"
  using that by (cases v) (auto simp: checked_def reason_def)

lemma u16le_short [simp]: "u16le raw 0 = None \<longleftrightarrow> length raw < 2"
  by (auto simp: u16le_def get_range_def)

lemma u32le_short [simp]: "u32le raw 0 = None \<longleftrightarrow> length raw < 4"
  by (auto simp: u32le_def get_range_def)

lemma s16le_short [simp]: "s16le raw 0 = None \<longleftrightarrow> length raw < 2"
  by (simp add: s16le_def)

lemma s32le_short [simp]: "s32le raw 0 = None \<longleftrightarrow> length raw < 4"
  by (simp add: s32le_def)

lemma short_payload_None [simp]: "short_payload need n = None \<longleftrightarrow> need \<le> n"
  by (simp add: short_payload_def not_less)

lemma get_at_0_None: "get_at raw 0 = None \<longleftrightarrow> length raw < 1"
  by (simp add: get_at_def)

lemmas vreg_defs = named_def unnamed_def u16_candidate_def u16_candidate_int_def state_candidate_def

lemma checked_reason_short:
  "(checked invalid_u16 f (u16le raw 0) = None) = (reason invalid_u16 (u16le raw 0) (short_payload 2 (length raw)) \<noteq> None)"
  "(checked invalid_u32 g (u32le raw 0) = None) = (reason invalid_u32 (u32le raw 0) (short_payload 4 (length raw)) \<noteq> None)"
  "(checked invalid_s16 h (s16le raw 0) = None) = (reason invalid_s16 (s16le raw 0) (short_payload 2 (length raw)) \<noteq> None)"
  "(checked invalid_s32 h (s32le raw 0) = None) = (reason invalid_s32 (s32le raw 0) (short_payload 4 (length raw)) \<noteq> None)"
  by (rule checked_reason, simp add: not_le)+

definition exclusive :: "decoded_vreg \<Rightarrow> bool" where
  "exclusive d \<longleftrightarrow> dv_decoder d \<noteq> ''raw'' \<longrightarrow> (dv_value d = None) = (dv_invalid d \<noteq> None)"

lemma exclusive_intros:
  "(val = None) = (ivd \<noteq> None) \<Longrightarrow> exclusive (named reg name un dec conf val ivd)"
  "\<lbrakk>b \<Longrightarrow> exclusive d; \<not> b \<Longrightarrow> exclusive e\<rbrakk> \<Longrightarrow> exclusive (if b then d else e)"
  by (simp_all add: exclusive_def named_def)

lemma decode_generic_exclusive: "exclusive (decode_generic reg raw)"
  by (simp add: exclusive_def decode_generic_def unnamed_def Let_def)

lemma state_value_reason:
  "(map_option h (get_at raw 0) = None) = (short_payload 1 (length raw) \<noteq> None)"
  by (simp add: get_at_def) (metis short_payload_None less_Suc_eq_le not_less One_nat_def length_0_conv le_0_eq)

lemma decode_register_exclusive: "exclusive (decode_register reg raw)"
  unfolding decode_register_def decode_fields_def decode_blocks_def u16_candidate_def u16_candidate_int_def state_candidate_def
  by (intro exclusive_intros decode_generic_exclusive checked_reason_short state_value_reason) simp_all

section \<open>The confirmed registers\<close>

definition conf_iff :: "u16 \<Rightarrow> decoded_vreg \<Rightarrow> bool" where
  "conf_iff reg d \<longleftrightarrow> (dv_confidence d = Confirmed \<longleftrightarrow> reg = 0xEDBB \<or> reg = 0xEDBC)"

lemma conf_iff_intros:
  "\<lbrakk>b \<Longrightarrow> conf_iff reg d; \<not> b \<Longrightarrow> conf_iff reg e\<rbrakk> \<Longrightarrow> conf_iff reg (if b then d else e)"
  by simp

lemma decode_generic_candidate: "dv_confidence (decode_generic reg raw) = Candidate"
  by (simp add: decode_generic_def unnamed_def Let_def)

lemma decode_register_confirmed: "conf_iff reg (decode_register reg raw)"
  unfolding decode_register_def decode_fields_def decode_blocks_def
  by (intro conf_iff_intros) (auto simp: conf_iff_def vreg_defs decode_generic_candidate)

lemma solar_voltage_decode:
  assumes "u16_from_le a b \<noteq> 0xffff"
  shows "dv_value (decode_register 0xEDBB (a # b # rest))
    = Some (ScNumber (f64_lit (of_int (uint (u16_from_le a b)) / 100)))"
proof -
  let ?v = "uint (u16_from_le a b)"
  have "0 \<le> ?v" "?v \<le> 2 ^ 53"
    using uint_bounded [of "u16_from_le a b"] by simp_all
  from f64_div_int [OF this, of 100]
  have "scale_f64 ?v 100 = ScNumber (f64_lit (of_int ?v / 100))"
    by (simp add: scale_f64_def f64_of_int_def)
  with assms show ?thesis
    by (simp add: decode_register_def decode_fields_def decode_blocks_def vreg_defs checked_def u16le_def get_range_def invalid_u16_def)
qed

lemma solar_power_decode:
  assumes "u32_from_le a b c d \<noteq> 0xffffffff"
  shows "dv_value (decode_register 0xEDBC (a # b # c # d # rest))
    = Some (ScInteger (round_hundredths_ties_even (uint (u32_from_le a b c d))))"
  using assms
  by (simp add: decode_register_def decode_fields_def decode_blocks_def vreg_defs checked_def u32le_def get_range_def invalid_u32_def
      eval_nat_numeral)

lemma solar_power_bounds:
  assumes "dv_value (decode_register 0xEDBC raw) = Some (ScInteger w)"
  shows "0 \<le> w \<and> w \<le> 42949673"
proof -
  from assms obtain v where w: "w = round_hundredths_ties_even (uint (v :: u32))"
    by (auto simp: decode_register_def decode_fields_def decode_blocks_def vreg_defs checked_def bind_eq_Some_conv split: if_splits)
  have v: "0 \<le> uint v" "uint v < 4294967296"
    using uint_bounded [of v] by simp_all
  then have "in_i64 (uint v)" by (intro in_i64I; linarith)
  from round_hundredths_nearest [OF this] v show ?thesis
    unfolding w by linarith
qed

section \<open>Blocks\<close>

lemma trend_slots_props:
  "length (trend_slots k raw) = length raw div 8
   \<and> concat (map slot_raw (trend_slots k raw)) = take (8 * (length raw div 8)) raw
   \<and> map slot_offset (trend_slots k raw) = map (\<lambda>i. 8 * i) [k..<k + length raw div 8]
   \<and> list_all (\<lambda>s. length (slot_raw s) = 8 \<and> slot_register s \<noteq> Some 0xffff) (trend_slots k raw)"
proof (induction k raw rule: trend_slots.induct)
  case (1 k raw)
  show ?case
  proof (cases "length raw < 8")
    case True
    then show ?thesis by (simp add: trend_slots.simps [of k raw])
  next
    case False
    then have n: "length raw div 8 = Suc (length (drop 8 raw) div 8)"
      by (simp add: le_div_geq)
    let ?m = "length (drop 8 raw) div 8"
    have sp: "trend_slots k raw = \<lparr>slot_offset = k * 8,
        slot_register = (let reg = u16_from_le (take 8 raw ! 0) (take 8 raw ! 1) in if reg \<noteq> 0xffff then Some reg else None),
        slot_raw = take 8 raw\<rparr> # trend_slots (Suc k) (drop 8 raw)"
      using False by (subst trend_slots.simps) (simp add: Let_def)
    have tk: "take 8 raw @ take (8 * m) (drop 8 raw) = take (8 + 8 * m) raw" for m
      by (simp only: take_add)
    have up: "[k..<k + Suc ?m] = k # [Suc k..<Suc k + ?m]"
      by (simp add: upt_conv_Cons del: upt_Suc)
    from "1.IH" [OF False refl refl] False show ?thesis
      unfolding n sp up by (simp add: tk Let_def del: upt_Suc)
  qed
qed

lemma words_le_step:
  "evens_below (Suc (Suc n)) = 0 # map (\<lambda>i. i + 2) (evens_below n)"
proof -
  have "[0..<Suc (Suc n)] = 0 # 1 # map (\<lambda>i. i + 2) [0..<n]"
    using map_add_upt [of 2 n] by (simp add: upt_conv_Cons eval_nat_numeral del: upt_Suc)
  then show ?thesis by (simp add: evens_below_def filter_map comp_def del: upt_Suc)
qed

lemma words_le_Cons2: "words_le (a # b # rest) = u16_from_le a b # words_le rest"
proof -
  have r: "get_range (a # b # rest) (i + 2) 2 = get_range rest i 2" for i
    by (simp add: get_range_def)
  have z: "get_range (a # b # rest) 0 2 = Some [a, b]"
    by (simp add: get_range_def)
  show ?thesis
  proof (cases rest)
    case Nil
    then show ?thesis by (simp add: words_le_def evens_below_def get_range_def map_filter_def)
  next
    case (Cons c cs)
    then have "evens_below (length (a # b # rest) - 1) = 0 # map (\<lambda>i. i + 2) (evens_below (length rest - 1))"
      using words_le_step [of "length cs"] by simp
    then show ?thesis
      by (simp add: words_le_def List.map_filter_def z r [simplified] comp_def filter_map)
  qed
qed

lemma words_le_lossless: "even (length raw) \<Longrightarrow> concat (map u16_to_le (words_le raw)) = raw"
proof (induction raw rule: induct_list012)
  case 1
  then show ?case by (simp add: words_le_def evens_below_def List.map_filter_def)
next
  case (2 x)
  then show ?case by simp
next
  case (3 x y zs)
  then show ?case by (simp add: words_le_Cons2 u16_le_roundtrip)
qed

section \<open>Properties\<close>

text \<open>Every decoded register other than a raw dump has a value or a reason why it has none, never
  both and never neither; and only the solar voltage and the solar power are reported as confirmed.\<close>

theorem decoded_value_or_reason:
  "(dv_decoder (decode_register reg raw) = ''raw''
     \<or> (dv_value (decode_register reg raw) = None) = (dv_invalid (decode_register reg raw) \<noteq> None))
   \<and> (dv_confidence (decode_register reg raw) = Confirmed \<longleftrightarrow> reg = 0xEDBB \<or> reg = 0xEDBC)"
  using decode_register_exclusive [of reg raw] decode_register_confirmed [of reg raw]
  by (auto simp: exclusive_def conf_iff_def)

text \<open>The solar power register is hundredths of a watt: the decoded watts are the nearest integer,
  the even one when two are equally near, and lie between 0 and 42949673.\<close>

theorem solar_power_rounds:
  assumes "u32_from_le a b c d \<noteq> 0xffffffff"
  shows "\<exists>w. dv_value (decode_register 0xEDBC (a # b # c # d # rest)) = Some (ScInteger w)
    \<and> \<bar>100 * w - uint (u32_from_le a b c d)\<bar> \<le> 50 \<and> (\<bar>100 * w - uint (u32_from_le a b c d)\<bar> < 50 \<or> even w)
    \<and> 0 \<le> w \<and> w \<le> 42949673"
proof -
  let ?v = "uint (u32_from_le a b c d)"
  have "0 \<le> ?v" "?v < 4294967296"
    using unsigned_less [of "u32_from_le a b c d", where ?'a = int] by simp_all
  then have "in_i64 ?v" by (intro in_i64I) linarith+
  from round_hundredths_nearest [OF this] have "\<bar>100 * round_hundredths_ties_even ?v - ?v\<bar> < 50 \<or> even (round_hundredths_ties_even ?v)"
    and "\<bar>100 * round_hundredths_ties_even ?v - ?v\<bar> \<le> 50" by linarith+
  then show ?thesis
    using solar_power_decode [OF assms, of rest] solar_power_bounds [OF solar_power_decode [OF assms, of rest]] by auto
qed

theorem solar_power_rounds_witness:
  "\<exists>w. dv_value (decode_register 0xEDBC [0x92, 0x13, 0, 0]) = Some (ScInteger w) \<and> \<bar>100 * w - 5010\<bar> \<le> 50"
proof -
  have v: "u32_from_le 0x92 0x13 0 0 = 5010" by (simp add: u32_from_le_def)
  have "u32_from_le 0x92 0x13 0 0 \<noteq> 0xffffffff" by (simp add: v)
  from solar_power_rounds [OF this, of "[]"] show ?thesis by (auto simp: v)
qed

end
