(* ===== verification/Response.thy ===== *)
theory Response
  imports Cbor Vreg
begin

text \<open>
  \<open>victron-protocol\<close>, \<open>response.rs\<close>: typed response records, scanned from the decoded items of a
  payload by a window that advances over whole records. \<open>scans\<close> is the declarative reading of a
  stream (skip an item, take a record, drop a malformed record at its full width); the lemmas show
  that \<open>parse_items\<close> gives such a reading, that it reads back what a peer writes, also with foreign
  items in between, and that its only error is a register above \<open>u16\<close>.
\<close>

section \<open>Records\<close>

datatype response_code = RcOk | RcUnknown1 | RcRejected | RcOther u8

definition response_code_from_u8 :: "u8 \<Rightarrow> response_code" where
  "response_code_from_u8 v =
     (if v = 0 then RcOk else if v = 1 then RcUnknown1 else if v = 2 then RcRejected else RcOther v)"

fun response_code_is_ok :: "response_code \<Rightarrow> bool" where
  "response_code_is_ok RcOk = True"
| "response_code_is_ok _ = False"

fun response_code_name :: "response_code \<Rightarrow> string" where
  "response_code_name RcOk = ''ok''"
| "response_code_name RcUnknown1 = ''unknown-1''"
| "response_code_name RcRejected = ''rejected-or-unsupported''"
| "response_code_name (RcOther v) = (if v = 0 then ''ok'' else ''unknown'')"

datatype response =
    DeviceList "(u64 \<times> u64) list"
  | ResponseMsg u64 u64 response_code
  | Value u64 u16 bytes
  | ValueResponse u64 u16 response_code
  | PathList u64 bytes
  | NewPath u64 int string
  | PathValue u64 int item
  | PathResponse u64 int response_code
  | UnknownRecord u64

section \<open>Parsing\<close>

fun as_i64 :: "item option \<Rightarrow> int option" where
  "as_i64 (Some (SInt v)) = Some v"
| "as_i64 (Some (UInt v)) = (if in_i64 (uint v) then Some (uint v) else None)"
| "as_i64 _ = None"

definition as_response_code :: "item option \<Rightarrow> u8 option" where
  "as_response_code it =
     (case as_i64 it of
        Some code \<Rightarrow> if 0 \<le> code \<and> code \<le> 255 then Some (word_of_int code) else None
      | None \<Rightarrow> None)"

text \<open>The loop over the entries of a device list; \<open>None\<close> is \<open>ok = false\<close>.\<close>

fun device_pairs :: "item list \<Rightarrow> (u64 \<times> u64) list \<Rightarrow> (u64 \<times> u64) list option" where
  "device_pairs (UInt ai # UInt bi # e) pairs = device_pairs e (pairs @ [(ai, bi)])"
| "device_pairs [] pairs = Some pairs"
| "device_pairs _ pairs = None"

definition u16_try_from :: "u64 \<Rightarrow> u16 option" where
  "u16_try_from v = (if unat v < 65536 then Some (ucast v) else None)"

type_synonym parsed = "protocol_error + response option \<times> nat"

definition parsed :: "response \<Rightarrow> nat \<Rightarrow> parsed" where
  "parsed r width = Inr (Some r, width)"

text \<open>The \<open>match opcode\<close> of the loop, for the item at \<open>i\<close>.\<close>

definition record_at :: "item list \<Rightarrow> nat \<Rightarrow> u64 \<Rightarrow> parsed" where
  "record_at items i opcode =
     (let a = get_at items (i + 1); b = get_at items (i + 2); c = get_at items (i + 3) in
      if opcode = 0x02 then
        (case a of
           Some (Array entries) \<Rightarrow>
             (case device_pairs entries [] of
                Some pairs \<Rightarrow> parsed (DeviceList pairs) 2
              | None \<Rightarrow> parsed (UnknownRecord opcode) 2)
         | _ \<Rightarrow> parsed (UnknownRecord opcode) 2)
      else if opcode = 0x07 then
        (case (a, b, as_response_code c) of
           (Some (UInt inst), Some (UInt req), Some code) \<Rightarrow>
             parsed (ResponseMsg inst req (response_code_from_u8 code)) 4
         | _ \<Rightarrow> parsed (UnknownRecord opcode) 4)
      else if opcode = 0x08 then
        (case (a, b, c) of
           (Some (UInt inst), Some (UInt reg), Some (Bytes data)) \<Rightarrow>
             try_bind (ok_or (RegisterOutOfRange reg) (u16_try_from reg)) (\<lambda>register.
               parsed (Value inst register data) 4)
         | _ \<Rightarrow> parsed (UnknownRecord opcode) 4)
      else if opcode = 0x09 then
        (case (a, b, as_response_code c) of
           (Some (UInt inst), Some (UInt reg), Some code) \<Rightarrow>
             try_bind (ok_or (RegisterOutOfRange reg) (u16_try_from reg)) (\<lambda>register.
               parsed (ValueResponse inst register (response_code_from_u8 code)) 4)
         | _ \<Rightarrow> parsed (UnknownRecord opcode) 4)
      else if opcode = 0x0d then
        (case (a, b) of
           (Some (UInt inst), Some (Bytes blob)) \<Rightarrow> parsed (PathList inst blob) 3
         | _ \<Rightarrow> parsed (UnknownRecord opcode) 3)
      else if opcode = 0x0e then
        (case (a, as_i64 b, c) of
           (Some (UInt inst), Some idx, Some (Text path)) \<Rightarrow> parsed (NewPath inst idx path) 4
         | _ \<Rightarrow> parsed (UnknownRecord opcode) 4)
      else if opcode = 0x0f then
        (case (a, as_i64 b, c) of
           (Some (UInt inst), Some idx, Some val) \<Rightarrow> parsed (PathValue inst idx val) 4
         | _ \<Rightarrow> parsed (UnknownRecord opcode) 4)
      else if opcode = 0x10 then
        (case (a, as_i64 b, as_response_code c) of
           (Some (UInt inst), Some idx, Some code) \<Rightarrow>
             parsed (PathResponse inst idx (response_code_from_u8 code)) 4
         | _ \<Rightarrow> parsed (UnknownRecord opcode) 4)
      else Inr (None, 1))"

text \<open>The expected item width of a known record.\<close>

definition record_width :: "u64 \<Rightarrow> nat option" where
  "record_width opcode =
     (if opcode = 0x02 then Some 2
      else if opcode = 0x0d then Some 3
      else if opcode \<in> {0x07, 0x08, 0x09, 0x0e, 0x0f, 0x10} then Some 4
      else None)"

lemma record_at_width:
  "record_at items i opcode = Inr (r, n) \<Longrightarrow>
    (case record_width opcode of Some w \<Rightarrow> n = w \<and> r \<noteq> None | None \<Rightarrow> n = 1 \<and> r = None)"
  by (auto simp: record_at_def record_width_def parsed_def Let_def try_simps
      split: if_splits option.splits item.splits)

lemma record_at_pos: "record_at items i opcode = Inr (r, n) \<Longrightarrow> 0 < n"
  using record_at_width [of items i opcode r n]
  by (auto simp: record_width_def split: if_splits)

function parse_loop :: "item list \<Rightarrow> nat \<Rightarrow> response list \<Rightarrow> protocol_error + response list" where
  "parse_loop items i out =
     (if i < length items then
        (case items ! i of
           UInt opcode \<Rightarrow>
             try_bind (record_at items i opcode) (\<lambda>(rec, consumed).
               case rec of
                 Some r \<Rightarrow> parse_loop items (i + consumed) (out @ [r])
               | None \<Rightarrow> parse_loop items (i + consumed) out)
         | _ \<Rightarrow> parse_loop items (i + 1) out)
      else Inr out)"
  by pat_completeness auto
termination
  by (relation "measure (\<lambda>(items, i, out). length items - i)") (auto dest: record_at_pos)

declare parse_loop.simps [simp del]

definition parse_items :: "item list \<Rightarrow> protocol_error + response list" where
  "parse_items items = parse_loop items 0 []"

definition parse_response_stream :: "minicbor \<Rightarrow> bytes \<Rightarrow> protocol_error + response list" where
  "parse_response_stream mc payload = try_bind (decode_stream mc payload) parse_items"

definition response_opcode :: "response \<Rightarrow> in_opcode option" where
  "response_opcode r =
     (case r of
        DeviceList _ \<Rightarrow> Some DeviceListOp
      | ResponseMsg _ _ _ \<Rightarrow> Some ResponseOp
      | Value _ _ _ \<Rightarrow> Some ValueOp
      | ValueResponse _ _ _ \<Rightarrow> Some ValueResponseOp
      | PathList _ _ \<Rightarrow> Some PathListOp
      | NewPath _ _ _ \<Rightarrow> Some NewPathOp
      | PathValue _ _ _ \<Rightarrow> Some PathValueOp
      | PathResponse _ _ _ \<Rightarrow> Some PathResponseOp
      | UnknownRecord opcode \<Rightarrow> if unat opcode < 256 then in_from_u8 (ucast opcode) else None)"

definition as_vreg_value :: "response \<Rightarrow> vreg_value option" where
  "as_vreg_value r =
     (case r of Value inst register data \<Rightarrow> Some \<lparr>vv_register = register, vv_raw = data\<rparr> | _ \<Rightarrow> None)"

section \<open>The declarative reading\<close>

text \<open>\<open>reads_record xs r\<close>: the items \<open>xs\<close> are exactly one well-formed record, meaning \<open>r\<close>.\<close>

inductive reads_record :: "item list \<Rightarrow> response \<Rightarrow> bool" where
  rr_devices: "device_pairs entries [] = Some ps \<Longrightarrow> reads_record [UInt 0x02, Array entries] (DeviceList ps)"
| rr_response: "as_response_code (Some c) = Some code \<Longrightarrow>
    reads_record [UInt 0x07, UInt inst, UInt req, c] (ResponseMsg inst req (response_code_from_u8 code))"
| rr_value: "u16_try_from reg = Some register \<Longrightarrow>
    reads_record [UInt 0x08, UInt inst, UInt reg, Bytes data] (Value inst register data)"
| rr_value_response: "u16_try_from reg = Some register \<Longrightarrow> as_response_code (Some c) = Some code \<Longrightarrow>
    reads_record [UInt 0x09, UInt inst, UInt reg, c] (ValueResponse inst register (response_code_from_u8 code))"
| rr_path_list: "reads_record [UInt 0x0d, UInt inst, Bytes blob] (PathList inst blob)"
| rr_new_path: "as_i64 (Some b) = Some idx \<Longrightarrow>
    reads_record [UInt 0x0e, UInt inst, b, Text path] (NewPath inst idx path)"
| rr_path_value: "as_i64 (Some b) = Some idx \<Longrightarrow>
    reads_record [UInt 0x0f, UInt inst, b, val] (PathValue inst idx val)"
| rr_path_response: "as_i64 (Some b) = Some idx \<Longrightarrow> as_response_code (Some c) = Some code \<Longrightarrow>
    reads_record [UInt 0x10, UInt inst, b, c] (PathResponse inst idx (response_code_from_u8 code))"

inductive_cases reads_recordE: "reads_record xs r"

definition opcode_of :: "item \<Rightarrow> nat option" where
  "opcode_of x = (case x of UInt opcode \<Rightarrow> record_width opcode | _ \<Rightarrow> None)"

text \<open>
  \<open>scans xs rs\<close>: the records \<open>rs\<close> are read off \<open>xs\<close> from left to right. An item that is no known
  opcode is skipped; a record takes exactly its items; a known opcode without a well-formed record
  takes its full width and is reported as unknown.
\<close>

inductive scans :: "item list \<Rightarrow> response list \<Rightarrow> bool" where
  scan_done: "scans [] []"
| scan_skip: "opcode_of x = None \<Longrightarrow> scans xs rs \<Longrightarrow> scans (x # xs) rs"
| scan_record: "reads_record ys r \<Longrightarrow> scans xs rs \<Longrightarrow> scans (ys @ xs) (r # rs)"
| scan_malformed: "record_width opcode = Some w \<Longrightarrow> \<nexists>r. reads_record (take w (UInt opcode # xs)) r \<Longrightarrow>
    scans (drop w (UInt opcode # xs)) rs \<Longrightarrow> scans (UInt opcode # xs) (UnknownRecord opcode # rs)"

section \<open>The loop by suffixes\<close>

lemma get_at_drop: "i \<le> length items \<Longrightarrow> get_at items (i + k) = get_at (drop i items) k"
  by (simp add: get_at_def less_diff_conv add.commute)

lemma record_at_drop: "i \<le> length items \<Longrightarrow> record_at items i opcode = record_at (drop i items) 0 opcode"
  by (simp only: record_at_def get_at_drop add_0)

definition prepend :: "'a list \<Rightarrow> 'e + 'a list \<Rightarrow> 'e + 'a list" where
  "prepend xs m = try_bind m (\<lambda>ys. Inr (xs @ ys))"

lemma prepend_simps [simp]:
  "prepend [] m = m"
  "prepend xs (prepend ys m) = prepend (xs @ ys) m"
  "prepend xs (Inl e) = Inl e"
  "prepend xs (Inr zs) = Inr (xs @ zs)"
  by (cases m; simp add: prepend_def)+

function scan :: "item list \<Rightarrow> protocol_error + response list" where
  "scan [] = Inr []"
| "scan (x # xs) =
     (case x of
        UInt opcode \<Rightarrow>
          try_bind (record_at (x # xs) 0 opcode) (\<lambda>(rec, consumed).
            prepend (case rec of Some r \<Rightarrow> [r] | None \<Rightarrow> []) (scan (drop consumed (x # xs))))
      | _ \<Rightarrow> scan xs)"
  by pat_completeness auto
termination
  by (relation "measure length") (auto dest: record_at_pos)

declare scan.simps(2) [simp del]

lemma parse_loop_scan: "parse_loop items i out = prepend out (scan (drop i items))"
proof (induction items i out rule: parse_loop.induct)
  case (1 items i out)
  show ?case
  proof (cases "i < length items")
    case False
    then show ?thesis by (subst parse_loop.simps) simp
  next
    case True
    then have d: "drop i items = items ! i # drop (Suc i) items" by (simp add: Cons_nth_drop_Suc)
    show ?thesis
    proof (cases "items ! i")
      case (UInt opcode)
      have ra: "record_at items i opcode = record_at (UInt opcode # drop (Suc i) items) 0 opcode"
        using record_at_drop [of i items opcode] True by (simp add: d UInt)
      show ?thesis
      proof (cases "record_at items i opcode")
        case (Inl e)
        with True UInt show ?thesis by (subst parse_loop.simps) (simp add: d ra scan.simps(2))
      next
        case (Inr p)
        obtain r n where p: "p = (r, n)" by (cases p)
        have dn: "drop n (UInt opcode # drop (Suc i) items) = drop (i + n) items"
          using d UInt by (metis drop_drop add.commute)
        show ?thesis
        proof (cases r)
          case None
          from "1.IH"(1) [OF True UInt Inr p [symmetric] None] True UInt Inr p None show ?thesis
            by (subst parse_loop.simps) (simp add: d ra [symmetric] scan.simps(2) dn)
        next
          case (Some x)
          from "1.IH"(2) [OF True UInt Inr p [symmetric] Some] True UInt Inr p Some show ?thesis
            by (subst parse_loop.simps) (simp add: d ra [symmetric] scan.simps(2) dn)
        qed
      qed
    qed (use True "1.IH" in \<open>subst parse_loop.simps, simp add: d scan.simps(2)\<close>)+
  qed
qed

lemma parse_items_scan: "parse_items items = scan items"
  by (simp add: parse_items_def parse_loop_scan)

lemma scan_skip_eq: "opcode_of x = None \<Longrightarrow> scan (x # xs) = scan xs"
proof (cases x)
  case (UInt opcode)
  assume "opcode_of x = None"
  then have "record_at (UInt opcode # xs) 0 opcode = Inr (None, 1)"
    by (auto simp: UInt opcode_of_def record_width_def record_at_def split: if_splits)
  then show ?thesis by (simp add: UInt scan.simps(2))
qed (simp_all add: scan.simps(2))

lemma scan_skips: "list_all (\<lambda>x. opcode_of x = None) js \<Longrightarrow> scan (js @ xs) = scan xs"
  by (induction js) (simp_all add: scan_skip_eq)

section \<open>The loop gives a reading\<close>

lemma get_at_prefix:
  "get_at xs 0 = Some a \<longleftrightarrow> (\<exists>ys. xs = a # ys)"
  "get_at xs (Suc 0) = Some b \<longleftrightarrow> (\<exists>a ys. xs = a # b # ys)"
  "get_at xs 2 = Some c \<longleftrightarrow> (\<exists>a b ys. xs = a # b # c # ys)"
  by (cases xs; cases "tl xs"; cases "tl (tl xs)"; simp add: numeral_2_eq_2)+

lemma as_i64_get_at: "as_i64 (get_at xs k) = Some v \<Longrightarrow> \<exists>x. get_at xs k = Some x \<and> as_i64 (Some x) = Some v"
  by (cases "get_at xs k") simp_all

lemma as_response_code_get_at:
  "as_response_code (get_at xs k) = Some v \<Longrightarrow> \<exists>x. get_at xs k = Some x \<and> as_response_code (Some x) = Some v"
  by (cases "get_at xs k") (simp_all add: as_response_code_def)

lemma reads_record_at:
  "reads_record ys r \<Longrightarrow> \<exists>opcode rest. ys = UInt opcode # rest
     \<and> record_at (ys @ xs) 0 opcode = Inr (Some r, length ys)"
  by (erule reads_record.cases)
    (simp_all add: record_at_def parsed_def Let_def)

lemma reads_record_known: "reads_record ys r \<Longrightarrow> r \<noteq> UnknownRecord opcode"
  by (auto elim: reads_record.cases)

lemma scan_record_eq: "reads_record ys r \<Longrightarrow> scan (ys @ xs) = prepend [r] (scan xs)"
proof -
  assume "reads_record ys r"
  from reads_record_at [OF this, of xs] obtain opcode rest where
    y: "ys = UInt opcode # rest" and r: "record_at (ys @ xs) 0 opcode = Inr (Some r, length ys)"
    by blast
  from r show ?thesis by (simp add: y scan.simps(2))
qed

text \<open>What one step of the scan takes: a record, a malformed record, or a skipped item.\<close>

lemma record_at_reads:
  assumes "record_at (UInt opcode # xs) 0 opcode = Inr (Some x, n)" "x \<noteq> UnknownRecord opcode"
  shows "reads_record (take n (UInt opcode # xs)) x"
  using assms
  by (auto simp: record_at_def parsed_def Let_def try_simps get_at_prefix
      split: if_splits option.splits item.splits
      dest!: as_i64_get_at as_response_code_get_at intro: reads_record.intros)
    (rule rr_response rr_value_response rr_path_response; assumption)+

lemma scan_scans: "scan items = Inr rs \<Longrightarrow> scans items rs"
proof (induction items arbitrary: rs rule: length_induct)
  case (1 items)
  show ?case
  proof (cases items)
    case Nil
    with 1 show ?thesis by (simp add: scan_done)
  next
    case (Cons x xs)
    show ?thesis
    proof (cases "opcode_of x")
      case None
      with 1 Cons show ?thesis by (simp add: scan_skip_eq scan_skip)
    next
      case (Some w)
      then obtain opcode where x: "x = UInt opcode" and w: "record_width opcode = Some w"
        by (auto simp: opcode_of_def split: item.splits)
      from 1(2) Cons x obtain r n where ra: "record_at (x # xs) 0 opcode = Inr (r, n)"
        and rest: "prepend (case r of Some r \<Rightarrow> [r] | None \<Rightarrow> []) (scan (drop n (x # xs))) = Inr rs"
        by (auto simp: scan.simps(2) try_simps)
      from record_at_width [OF ra] w obtain r' where r: "r = Some r'" and n: "n = w" "0 < n"
        using record_at_pos [OF ra] by auto
      from rest r obtain rs' where rs': "scan (drop n (x # xs)) = Inr rs'" "rs = r' # rs'"
        by (auto simp: prepend_def try_simps)
      with 1(1) Cons n have tail: "scans (drop n (x # xs)) rs'" by simp
      show ?thesis
      proof (cases "r' = UnknownRecord opcode")
        case False
        from record_at_reads [OF ra [unfolded x r] False] have "reads_record (take n (x # xs)) r'"
          by (simp add: x)
        from scan_record [OF this tail] show ?thesis by (simp add: Cons rs')
      next
        case True
        have "\<nexists>r''. reads_record (take w (UInt opcode # xs)) r''"
        proof
          assume "\<exists>r''. reads_record (take w (UInt opcode # xs)) r''"
          then obtain r'' where q: "reads_record (take w (UInt opcode # xs)) r''" by blast
          from reads_record_at [OF q, of "drop w (UInt opcode # xs)"] n ra x r True
          have "r'' = UnknownRecord opcode" by (auto simp: take_Cons split: nat.splits)
          with reads_record_known [OF q] show False by blast
        qed
        from scan_malformed [OF w this] tail n show ?thesis by (simp add: Cons x rs' True)
      qed
    qed
  qed
qed

lemma scan_error: "scan items = Inl e \<Longrightarrow> \<exists>v. e = RegisterOutOfRange v \<and> 65536 \<le> unat v \<and> UInt v \<in> set items"
proof (induction items rule: length_induct)
  case (1 items)
  from 1(2) obtain x xs where Cons: "items = x # xs" by (cases items) auto
  show ?case
  proof (cases "opcode_of x")
    case None
    with 1 Cons show ?thesis by (auto simp: scan_skip_eq)
  next
    case (Some w)
    then obtain opcode where x: "x = UInt opcode" by (auto simp: opcode_of_def split: item.splits)
    show ?thesis
    proof (cases "record_at (x # xs) 0 opcode")
      case (Inl e')
      with 1(2) Cons x have "e = e'" by (simp add: scan.simps(2))
      moreover from Inl have "\<exists>v. e' = RegisterOutOfRange v \<and> 65536 \<le> unat v \<and> get_at xs 1 = Some (UInt v)"
        by (auto simp: record_at_def parsed_def Let_def try_simps x u16_try_from_def
            split: if_splits option.splits item.splits)
      ultimately show ?thesis
        by (auto simp: Cons get_at_prefix)
    next
      case (Inr p)
      then obtain r n where ra: "record_at (x # xs) 0 opcode = Inr (r, n)" by (cases p) auto
      with 1(2) Cons x have "scan (drop n (x # xs)) = Inl e"
        by (cases "scan (drop n (x # xs))") (simp_all add: scan.simps(2))
      with 1(1) Cons record_at_pos [OF ra] show ?thesis
        by (metis (no_types, lifting) in_set_dropD length_drop diff_less list.size(3) length_greater_0_conv list.distinct(1))
    qed
  qed
qed

section \<open>What a peer writes is read back\<close>

definition response_code_byte :: "response_code \<Rightarrow> u8" where
  "response_code_byte c = (case c of RcOk \<Rightarrow> 0 | RcUnknown1 \<Rightarrow> 1 | RcRejected \<Rightarrow> 2 | RcOther v \<Rightarrow> v)"

definition code_item :: "response_code \<Rightarrow> item" where
  "code_item c = UInt (ucast (response_code_byte c))"

definition index_item :: "int \<Rightarrow> item" where
  "index_item i = (if 0 \<le> i then UInt (of_int i) else SInt i)"

fun record_items :: "response \<Rightarrow> item list" where
  "record_items (DeviceList ps) = [UInt 0x02, Array (concat (map (\<lambda>(a, b). [UInt a, UInt b]) ps))]"
| "record_items (ResponseMsg i op c) = [UInt 0x07, UInt i, UInt op, code_item c]"
| "record_items (Value i r data) = [UInt 0x08, UInt i, UInt (ucast r), Bytes data]"
| "record_items (ValueResponse i r c) = [UInt 0x09, UInt i, UInt (ucast r), code_item c]"
| "record_items (PathList i blob) = [UInt 0x0d, UInt i, Bytes blob]"
| "record_items (NewPath i idx path) = [UInt 0x0e, UInt i, index_item idx, Text path]"
| "record_items (PathValue i idx v) = [UInt 0x0f, UInt i, index_item idx, v]"
| "record_items (PathResponse i idx c) = [UInt 0x10, UInt i, index_item idx, code_item c]"
| "record_items (UnknownRecord op) = [UInt op]"

definition code_canonical :: "response_code \<Rightarrow> bool" where
  "code_canonical c \<longleftrightarrow> response_code_from_u8 (response_code_byte c) = c"

fun record_ok :: "response \<Rightarrow> bool" where
  "record_ok (ResponseMsg i op c) = code_canonical c"
| "record_ok (ValueResponse i r c) = code_canonical c"
| "record_ok (NewPath i idx path) = in_i64 idx"
| "record_ok (PathValue i idx v) = in_i64 idx"
| "record_ok (PathResponse i idx c) = (in_i64 idx \<and> code_canonical c)"
| "record_ok (UnknownRecord op) = False"
| "record_ok _ = True"

lemma as_response_code_item: "as_response_code (Some (code_item c)) = Some (response_code_byte c)"
proof -
  let ?b = "response_code_byte c"
  have u: "uint (ucast ?b :: u64) = uint ?b"
    by (simp add: unsigned_ucast_eq take_bit_int_eq_self_iff) (use uint_bounded [of ?b] in simp)
  have "0 \<le> uint ?b" "uint ?b \<le> 255" using uint_bounded [of ?b] by simp_all
  moreover from this have "in_i64 (uint ?b)" by (intro in_i64I; linarith)
  ultimately show ?thesis by (simp add: as_response_code_def code_item_def u)
qed

lemma as_i64_index_item: "in_i64 idx \<Longrightarrow> as_i64 (Some (index_item idx)) = Some idx"
proof (cases "0 \<le> idx")
  case True
  assume "in_i64 idx"
  with True have "uint (of_int idx :: u64) = idx"
    by (simp add: in_i64_def i64_max_def unsigned_of_int take_bit_int_eq_self)
  with True \<open>in_i64 idx\<close> show ?thesis by (simp add: index_item_def)
qed (simp add: index_item_def)

lemma u16_try_from_ucast: "u16_try_from (ucast (r :: u16)) = Some r"
proof -
  have "unat r < 65536" using unsigned_less [of r, where ?'a = nat] by simp
  then have "unat (ucast r :: u64) = unat r" by (simp add: unsigned_ucast_eq take_bit_nat_eq_self)
  with \<open>unat r < 65536\<close> show ?thesis 
    by (simp add: u16_try_from_def) (rule bit_word_eqI, auto simp: bit_simps)
qed

lemma device_pairs_concat:
  "device_pairs (concat (map (\<lambda>(a, b). [UInt a, UInt b]) ps)) acc = Some (acc @ ps)"
  by (induction ps arbitrary: acc) auto

lemma record_items_reads: "record_ok r \<Longrightarrow> reads_record (record_items r) r"
proof (cases r)
  case (ResponseMsg i op c)
  assume "record_ok r"
  with ResponseMsg rr_response [OF as_response_code_item [of c]] show ?thesis
    by (simp add: code_canonical_def)
next
  case (ValueResponse i reg c)
  assume "record_ok r"
  with ValueResponse rr_value_response [OF u16_try_from_ucast [of reg] as_response_code_item [of c]] show ?thesis
    by (simp add: code_canonical_def)
next
  case (PathResponse i idx c)
  assume "record_ok r"
  with PathResponse rr_path_response [OF as_i64_index_item [of idx] as_response_code_item [of c]] show ?thesis
    by (simp add: code_canonical_def)
qed (auto intro!: reads_record.intros simp: device_pairs_concat u16_try_from_ucast as_i64_index_item)

lemma scan_roundtrip:
  assumes "list_all (\<lambda>(js, r). list_all (\<lambda>x. opcode_of x = None) js \<and> record_ok r) jrs"
    and "list_all (\<lambda>x. opcode_of x = None) tail"
  shows "scan (concat (map (\<lambda>(js, r). js @ record_items r) jrs) @ tail) = Inr (map snd jrs)"
  using assms
proof (induction jrs)
  case Nil
  then show ?case using scan_skips [of tail "[]"] by simp
next
  case (Cons p jrs)
  then show ?case
    by (cases p) (simp add: scan_skips scan_record_eq [OF record_items_reads])
qed

section \<open>Properties\<close>


text \<open>The records of any sequence of responses, with any items that are not opcodes between and
  after them, parse to exactly those responses.\<close>

theorem parse_items_roundtrip:
  assumes "list_all (\<lambda>(js, r). list_all (\<lambda>x. opcode_of x = None) js \<and> record_ok r) jrs"
    and "list_all (\<lambda>x. opcode_of x = None) trailing"
  shows "parse_items (concat (map (\<lambda>(js, r). js @ record_items r) jrs) @ trailing) = Inr (map snd jrs)"
  using scan_roundtrip [OF assms] by (simp add: parse_items_scan)

theorem parse_items_roundtrip_witness:
  "parse_items ([Null] @ [UInt 8, UInt 3, UInt 0xEDBC, Bytes [1, 2]] @ [Bool True])
    = Inr [Value 3 0xEDBC [1, 2]]"
  using parse_items_roundtrip [of "[([Null], Value 3 0xEDBC [1, 2])]" "[Bool True]"]
  by (simp add: opcode_of_def)

end
