(* ===== verification/Domain.thy ===== *)
theory Domain
  imports Prelude Float64 "HOL-Library.Sublist"
begin

text \<open>
  The crate \<open>victron-domain\<close>: quality ranks, measurements, physical ranges, device ids, device
  states, samples with their builder, and derived values. Floats are binary64 (\<open>Float64\<close>); a
  \<open>SystemTime\<close> is an integer number of nanoseconds from the epoch and a \<open>Duration\<close> a natural one;
  UTF-8 text is its byte list. The lemmas characterise the accepted device ids, show that every
  sample a builder can produce holds only finite values inside the documented ranges, and that
  derived values stay inside theirs.
\<close>

type_synonym system_time = int
type_synonym duration = nat

section \<open>Quality\<close>

datatype quality = ConfirmedNative | CandidateQ | Derived | LocallyIntegrated

fun quality_rank :: "quality \<Rightarrow> u8" where
  "quality_rank ConfirmedNative = 0"
| "quality_rank CandidateQ = 1"
| "quality_rank Derived = 2"
| "quality_rank LocallyIntegrated = 3"

definition is_better_than :: "quality \<Rightarrow> quality \<Rightarrow> bool" where
  "is_better_than q r = (quality_rank q < quality_rank r)"

definition prefer_quality :: "quality \<Rightarrow> quality \<Rightarrow> quality" where
  "prefer_quality q r = (if quality_rank q \<le> quality_rank r then q else r)"

lemma quality_rank_inject [simp]: "quality_rank q = quality_rank r \<longleftrightarrow> q = r"
  by (cases q; cases r) simp_all

instantiation quality :: linorder
begin

definition less_eq_quality :: "quality \<Rightarrow> quality \<Rightarrow> bool" where
  "less_eq_quality q r = (quality_rank q \<le> quality_rank r)"

definition less_quality :: "quality \<Rightarrow> quality \<Rightarrow> bool" where
  "less_quality q r = (quality_rank q < quality_rank r)"

instance
  by standard (auto simp: less_eq_quality_def less_quality_def less_le)

end

text \<open>The order of trust is a linear order, and \<open>prefer\<close> is its minimum.\<close>

lemma is_better_than_less: "is_better_than q r \<longleftrightarrow> q < r"
  by (simp add: is_better_than_def less_quality_def)

lemma prefer_quality_min: "prefer_quality q r = min q r"
  by (simp add: prefer_quality_def min_def less_eq_quality_def)

section \<open>Errors, measurements and ranges\<close>

datatype domain_error =
    InvalidDeviceId string string
  | NonFinite string f64
  | OutOfRange string f64 f64 f64

record measurement =
  m_value :: f64
  m_quality :: quality

definition measurement_new :: "f64 \<Rightarrow> quality \<Rightarrow> domain_error + measurement" where
  "measurement_new v q =
     (if \<not> f64_is_finite v then Inl (NonFinite ''measurement'' v)
      else Inr \<lparr>m_value = v, m_quality = q\<rparr>)"

definition m_is_finite :: "measurement \<Rightarrow> bool" where
  "m_is_finite m = f64_is_finite (m_value m)"

definition quality_label :: "measurement \<Rightarrow> string" where
  "quality_label m = (case m_quality m of
     ConfirmedNative \<Rightarrow> ''confirmed''
   | CandidateQ \<Rightarrow> ''candidate''
   | Derived \<Rightarrow> ''derived''
   | LocallyIntegrated \<Rightarrow> ''integrated'')"

datatype sample_field =
    PvVoltageVolts | PvCurrentAmperes | PvPowerWatts | BatteryVoltageVolts | BatteryCurrentAmperes
  | LoadCurrentAmperes | LoadPowerWatts | YieldTotalKwh | YieldTodayKwh | BleRssiDbm

definition sample_field_name :: "sample_field \<Rightarrow> string" where
  "sample_field_name f = (case f of
     PvVoltageVolts \<Rightarrow> ''pv_voltage_volts''
   | PvCurrentAmperes \<Rightarrow> ''pv_current_amperes''
   | PvPowerWatts \<Rightarrow> ''pv_power_watts''
   | BatteryVoltageVolts \<Rightarrow> ''battery_voltage_volts''
   | BatteryCurrentAmperes \<Rightarrow> ''battery_current_amperes''
   | LoadCurrentAmperes \<Rightarrow> ''load_current_amperes''
   | LoadPowerWatts \<Rightarrow> ''load_power_watts''
   | YieldTotalKwh \<Rightarrow> ''yield_total_kwh''
   | YieldTodayKwh \<Rightarrow> ''yield_today_kwh''
   | BleRssiDbm \<Rightarrow> ''ble_rssi_dbm'')"

record phys_range =
  range_min :: f64
  range_max :: f64

text \<open>\<open>Range::new\<close> asserts its bounds; \<open>None\<close> is the panic.\<close>

definition range_new :: "f64 \<Rightarrow> f64 \<Rightarrow> phys_range option" where
  "range_new mn mx =
     (if f64_is_finite mn \<and> f64_is_finite mx \<and> f64_le mn mx
      then Some \<lparr>range_min = mn, range_max = mx\<rparr> else None)"

definition range_contains :: "phys_range \<Rightarrow> f64 \<Rightarrow> bool" where
  "range_contains r v = (f64_is_finite v \<and> f64_le (range_min r) v \<and> f64_le v (range_max r))"

definition PV_VOLTAGE_V :: phys_range where
  "PV_VOLTAGE_V = the (range_new (f64_lit 0) (f64_lit 250))"

definition PV_CURRENT_A :: phys_range where
  "PV_CURRENT_A = the (range_new (f64_lit 0) (f64_lit 100))"

definition PV_POWER_W :: phys_range where
  "PV_POWER_W = the (range_new (f64_lit 0) (f64_lit 30000))"

definition BATTERY_VOLTAGE_V :: phys_range where
  "BATTERY_VOLTAGE_V = the (range_new (f64_lit 0) (f64_lit 70))"

definition BATTERY_CURRENT_A :: phys_range where
  "BATTERY_CURRENT_A = the (range_new (f64_lit (- 200)) (f64_lit 200))"

definition LOAD_CURRENT_A :: phys_range where
  "LOAD_CURRENT_A = the (range_new (f64_lit 0) (f64_lit 100))"

definition LOAD_POWER_W :: phys_range where
  "LOAD_POWER_W = the (range_new (f64_lit 0) (f64_lit 6000))"

definition YIELD_TOTAL_KWH :: phys_range where
  "YIELD_TOTAL_KWH = the (range_new (f64_lit 0) (f64_lit 10000000))"

definition YIELD_TODAY_KWH :: phys_range where
  "YIELD_TODAY_KWH = the (range_new (f64_lit 0) (f64_lit 2000))"

definition BLE_RSSI_DBM :: phys_range where
  "BLE_RSSI_DBM = the (range_new (f64_lit (- 128)) (f64_lit 0))"

lemma range_new_ints:
  "a \<le> b \<Longrightarrow> range_new (F64_Fin a) (F64_Fin b) = Some \<lparr>range_min = F64_Fin a, range_max = F64_Fin b\<rparr>"
  by (simp add: range_new_def f64_le_finite)

lemma named_ranges:
  "PV_VOLTAGE_V = \<lparr>range_min = F64_Fin 0, range_max = F64_Fin 250\<rparr>"
  "PV_CURRENT_A = \<lparr>range_min = F64_Fin 0, range_max = F64_Fin 100\<rparr>"
  "PV_POWER_W = \<lparr>range_min = F64_Fin 0, range_max = F64_Fin 30000\<rparr>"
  "BATTERY_VOLTAGE_V = \<lparr>range_min = F64_Fin 0, range_max = F64_Fin 70\<rparr>"
  "BATTERY_CURRENT_A = \<lparr>range_min = F64_Fin (- 200), range_max = F64_Fin 200\<rparr>"
  "LOAD_CURRENT_A = \<lparr>range_min = F64_Fin 0, range_max = F64_Fin 100\<rparr>"
  "LOAD_POWER_W = \<lparr>range_min = F64_Fin 0, range_max = F64_Fin 6000\<rparr>"
  "YIELD_TOTAL_KWH = \<lparr>range_min = F64_Fin 0, range_max = F64_Fin 10000000\<rparr>"
  "YIELD_TODAY_KWH = \<lparr>range_min = F64_Fin 0, range_max = F64_Fin 2000\<rparr>"
  "BLE_RSSI_DBM = \<lparr>range_min = F64_Fin (- 128), range_max = F64_Fin 0\<rparr>"
  by (simp_all add: PV_VOLTAGE_V_def PV_CURRENT_A_def PV_POWER_W_def BATTERY_VOLTAGE_V_def
      BATTERY_CURRENT_A_def LOAD_CURRENT_A_def LOAD_POWER_W_def YIELD_TOTAL_KWH_def
      YIELD_TODAY_KWH_def BLE_RSSI_DBM_def f64_lit_numeral range_new_ints)

text \<open>What membership means on the values themselves.\<close>

lemma range_contains_iff:
  "range_contains \<lparr>range_min = F64_Fin a, range_max = F64_Fin b\<rparr> v \<longleftrightarrow>
    f64_is_finite v \<and> a \<le> f64_val v \<and> f64_val v \<le> b"
  by (auto simp: range_contains_def f64_le_finite)

section \<open>Device ids\<close>

text \<open>
  \<open>str::trim\<close> on UTF-8 bytes: the encodings of the characters with the Unicode property
  \<open>White_Space\<close> (U+0009 to U+000D, U+0020, U+0085, U+00A0, U+1680, U+2000 to U+200A, U+2028, U+2029,
  U+202F, U+205F, U+3000). In valid UTF-8 a character starts or ends the text exactly when its
  encoding is a prefix or a suffix.
\<close>

definition utf8 :: "nat list \<Rightarrow> string" where
  "utf8 bs = map char_of bs"

definition whitespace :: "string list" where
  "whitespace = map (\<lambda>b. utf8 [b]) [9, 10, 11, 12, 13, 32]
     @ map utf8 [[194, 133], [194, 160], [225, 154, 128]]
     @ map (\<lambda>b. utf8 [226, 128, b]) [128, 129, 130, 131, 132, 133, 134, 135, 136, 137, 138, 168, 169, 175]
     @ map utf8 [[226, 129, 159], [227, 128, 128]]"

definition ws_prefix :: "string list \<Rightarrow> string \<Rightarrow> nat" where
  "ws_prefix ws s = (case List.find (\<lambda>w. prefix w s) ws of None \<Rightarrow> 0 | Some w \<Rightarrow> length w)"

function strip_left :: "string list \<Rightarrow> string \<Rightarrow> string" where
  "strip_left ws s = (if ws_prefix ws s = 0 \<or> s = [] then s else strip_left ws (drop (ws_prefix ws s) s))"
  by pat_completeness auto
termination
  by (relation "measure (\<lambda>(ws, s). length s)") auto

declare strip_left.simps [simp del]

definition str_trim :: "string \<Rightarrow> string" where
  "str_trim s = rev (strip_left (map rev whitespace) (rev (strip_left whitespace s)))"

definition MAX_DEVICE_ID_LEN :: nat where
  "MAX_DEVICE_ID_LEN = 64"

definition is_ascii_alphanumeric :: "char \<Rightarrow> bool" where
  "is_ascii_alphanumeric c =
     (let n = (of_char c :: nat) in 48 \<le> n \<and> n \<le> 57 \<or> 65 \<le> n \<and> n \<le> 90 \<or> 97 \<le> n \<and> n \<le> 122)"

definition device_id_byte :: "char \<Rightarrow> bool" where
  "device_id_byte b = (is_ascii_alphanumeric b \<or> b = CHR ''-'' \<or> b = CHR ''_'' \<or> b = CHR ''.'')"

record device_id =
  device_name :: string

definition device_id_new :: "string \<Rightarrow> domain_error + device_id" where
  "device_id_new name =
     (let trimmed = str_trim name in
      if trimmed = [] then Inl (InvalidDeviceId name ''must not be empty'')
      else if length trimmed > MAX_DEVICE_ID_LEN then Inl (InvalidDeviceId name ''must be at most 64 bytes'')
      else if trimmed \<noteq> name then Inl (InvalidDeviceId name ''must not contain surrounding whitespace'')
      else if \<not> list_all device_id_byte trimmed
      then Inl (InvalidDeviceId name ''only ASCII letters, digits, '-', '_' and '.' are allowed'')
      else Inr \<lparr>device_name = trimmed\<rparr>)"

text \<open>\<open>ws_free ws s\<close>: no whitespace character starts \<open>s\<close>.\<close>

lemma strip_left_id: "ws_prefix ws s = 0 \<Longrightarrow> strip_left ws s = s"
  by (subst strip_left.simps) simp

lemma ws_prefix_head:
  "\<lbrakk>\<And>w. w \<in> set ws \<Longrightarrow> w \<noteq> [] \<and> hd w \<noteq> c\<rbrakk> \<Longrightarrow> ws_prefix ws (c # s) = 0"
proof -
  assume h: "\<And>w. w \<in> set ws \<Longrightarrow> w \<noteq> [] \<and> hd w \<noteq> c"
  have "\<not> prefix w (c # s)" if "w \<in> set ws" for w
    using h [OF that] by (cases w) auto
  then have "List.find (\<lambda>w. prefix w (c # s)) ws = None"
    by (simp add: find_None_iff)
  then show ?thesis by (simp add: ws_prefix_def)
qed

definition ws_byte :: "char \<Rightarrow> bool" where
  "ws_byte c \<longleftrightarrow> (let n = (of_char c :: nat) in 9 \<le> n \<and> n \<le> 13 \<or> n = 32 \<or> 128 \<le> n)"

lemma whitespace_bytes: "list_all (\<lambda>w. w \<noteq> [] \<and> ws_byte (hd w) \<and> ws_byte (last w)) whitespace"
  by code_simp

lemma device_id_not_ws: "device_id_byte c \<Longrightarrow> \<not> ws_byte c"
  by (auto simp: device_id_byte_def is_ascii_alphanumeric_def ws_byte_def Let_def)

lemma whitespace_ends:
  assumes "device_id_byte c" "w \<in> set whitespace"
  shows "w \<noteq> [] \<and> hd w \<noteq> c \<and> hd (rev w) \<noteq> c"
  using whitespace_bytes assms(2) device_id_not_ws [OF assms(1)] by (auto simp: list_all_iff hd_rev)

lemma str_trim_id: "list_all device_id_byte s \<Longrightarrow> str_trim s = s"
proof (cases s)
  case Nil
  then show ?thesis by (simp add: str_trim_def strip_left.simps [of _ "[]"])
next
  case (Cons c cs)
  assume v: "list_all device_id_byte s"
  obtain d ds where d: "rev s = d # ds" using Cons by (cases "rev s") auto
  have "d \<in> set s" using d by (metis list.set_intros(1) set_rev)
  with v have "device_id_byte d" by (simp add: list_all_iff)
  have "ws_prefix whitespace s = 0"
    unfolding Cons by (rule ws_prefix_head) (use v Cons whitespace_ends in auto)
  moreover have "ws_prefix (map rev whitespace) (rev s) = 0"
    unfolding d by (rule ws_prefix_head) (use whitespace_ends [OF \<open>device_id_byte d\<close>] in force)
  ultimately show ?thesis by (simp add: str_trim_def strip_left_id)
qed

text \<open>Exactly the non-empty texts of at most 64 bytes of the label-safe set are device ids.\<close>

lemma device_id_new_iff:
  "device_id_new name = Inr d \<longleftrightarrow>
    name \<noteq> [] \<and> length name \<le> 64 \<and> list_all device_id_byte name \<and> d = \<lparr>device_name = name\<rparr>"
proof
  assume "device_id_new name = Inr d"
  then show "name \<noteq> [] \<and> length name \<le> 64 \<and> list_all device_id_byte name \<and> d = \<lparr>device_name = name\<rparr>"
    by (auto simp: device_id_new_def MAX_DEVICE_ID_LEN_def Let_def split: if_splits)
next
  assume "name \<noteq> [] \<and> length name \<le> 64 \<and> list_all device_id_byte name \<and> d = \<lparr>device_name = name\<rparr>"
  then show "device_id_new name = Inr d"
    by (auto simp: device_id_new_def MAX_DEVICE_ID_LEN_def Let_def str_trim_id)
qed

section \<open>Device states\<close>

datatype charger_state =
    CsOff | CsFault | CsBulk | CsAbsorption | CsFloat | CsStorage | CsEqualize | CsStartingUp
  | CsAutoRecondition | CsExternalControl | CsUnknown u8

definition charger_from_code :: "u8 \<Rightarrow> charger_state" where
  "charger_from_code code =
     (if code = 0 then CsOff
      else if code = 2 then CsFault
      else if code = 3 then CsBulk
      else if code = 4 then CsAbsorption
      else if code = 5 then CsFloat
      else if code = 6 then CsStorage
      else if code = 7 then CsEqualize
      else if code = 245 then CsStartingUp
      else if code = 247 then CsAutoRecondition
      else if code = 252 then CsExternalControl
      else CsUnknown code)"

fun charger_code :: "charger_state \<Rightarrow> u8" where
  "charger_code CsOff = 0"
| "charger_code CsFault = 2"
| "charger_code CsBulk = 3"
| "charger_code CsAbsorption = 4"
| "charger_code CsFloat = 5"
| "charger_code CsStorage = 6"
| "charger_code CsEqualize = 7"
| "charger_code CsStartingUp = 245"
| "charger_code CsAutoRecondition = 247"
| "charger_code CsExternalControl = 252"
| "charger_code (CsUnknown code) = code"

fun charger_label :: "charger_state \<Rightarrow> string" where
  "charger_label CsOff = ''Off''"
| "charger_label CsFault = ''Fault''"
| "charger_label CsBulk = ''Bulk''"
| "charger_label CsAbsorption = ''Absorption''"
| "charger_label CsFloat = ''Float''"
| "charger_label CsStorage = ''Storage''"
| "charger_label CsEqualize = ''Equalize''"
| "charger_label CsStartingUp = ''Starting-up''"
| "charger_label CsAutoRecondition = ''Auto equalize/Recondition''"
| "charger_label CsExternalControl = ''External control''"
| "charger_label (CsUnknown code) = ''Unknown''"

datatype load_state = LsOff | LsOn | LsUnknown u8

definition load_from_code :: "u8 \<Rightarrow> load_state" where
  "load_from_code code = (if code = 0 then LsOff else if code = 1 then LsOn else LsUnknown code)"

fun load_code :: "load_state \<Rightarrow> u8" where
  "load_code LsOff = 0"
| "load_code LsOn = 1"
| "load_code (LsUnknown code) = code"

fun load_label :: "load_state \<Rightarrow> string" where
  "load_label LsOff = ''Off''"
| "load_label LsOn = ''On''"
| "load_label (LsUnknown code) = ''Unknown''"

datatype connection_health = HealthUp | HealthDown | HealthUnknown

fun connection_label :: "connection_health \<Rightarrow> string" where
  "connection_label HealthUp = ''Up''"
| "connection_label HealthDown = ''Down''"
| "connection_label HealthUnknown = ''Unknown''"

lemma charger_code_roundtrip [simp]: "charger_code (charger_from_code c) = c"
  by (simp add: charger_from_code_def)

lemma load_code_roundtrip [simp]: "load_code (load_from_code c) = c"
  by (simp add: load_from_code_def)

section \<open>Samples\<close>

record sample =
  s_device :: device_id
  s_observed_at :: system_time
  s_pv_voltage_volts :: "measurement option"
  s_pv_current_amperes :: "measurement option"
  s_pv_power_watts :: "measurement option"
  s_battery_voltage_volts :: "measurement option"
  s_battery_current_amperes :: "measurement option"
  s_load_current_amperes :: "measurement option"
  s_load_power_watts :: "measurement option"
  s_yield_total_kwh :: "measurement option"
  s_yield_today_kwh :: "measurement option"
  s_ble_rssi_dbm :: "measurement option"
  s_charger_state :: "charger_state option"
  s_load_state :: "load_state option"
  s_connection_health :: "connection_health option"

definition DEFAULT_MAX_SAMPLE_AGE :: duration where
  "DEFAULT_MAX_SAMPLE_AGE = 300 * 1000000000"

definition age_at :: "sample \<Rightarrow> system_time \<Rightarrow> duration option" where
  "age_at s now = (if s_observed_at s \<le> now then Some (nat (now - s_observed_at s)) else None)"

definition is_fresh_at :: "sample \<Rightarrow> system_time \<Rightarrow> duration \<Rightarrow> bool" where
  "is_fresh_at s now max_age = (case age_at s now of Some age \<Rightarrow> age \<le> max_age | None \<Rightarrow> False)"

definition sample_fields :: "sample \<Rightarrow> (sample_field \<times> measurement option) list" where
  "sample_fields s =
     [(PvVoltageVolts, s_pv_voltage_volts s),
      (PvCurrentAmperes, s_pv_current_amperes s),
      (PvPowerWatts, s_pv_power_watts s),
      (BatteryVoltageVolts, s_battery_voltage_volts s),
      (BatteryCurrentAmperes, s_battery_current_amperes s),
      (LoadCurrentAmperes, s_load_current_amperes s),
      (LoadPowerWatts, s_load_power_watts s),
      (YieldTotalKwh, s_yield_total_kwh s),
      (YieldTodayKwh, s_yield_today_kwh s),
      (BleRssiDbm, s_ble_rssi_dbm s)]"

definition sample_iter :: "sample \<Rightarrow> (sample_field \<times> measurement) list" where
  "sample_iter s = List.map_filter (\<lambda>(f, m). map_option (\<lambda>m. (f, m)) m) (sample_fields s)"

definition measurement_count :: "sample \<Rightarrow> nat" where
  "measurement_count s = length (sample_iter s)"

definition has_measurements :: "sample \<Rightarrow> bool" where
  "has_measurements s = (measurement_count s > 0)"

definition sample_is_empty :: "sample \<Rightarrow> bool" where
  "sample_is_empty s = (measurement_count s = 0 \<and> s_charger_state s = None \<and> s_load_state s = None
     \<and> s_connection_health s = None)"

definition sample_is_valid :: "sample \<Rightarrow> bool" where
  "sample_is_valid s = (\<not> sample_is_empty s)"

section \<open>The builder\<close>

record sample_builder =
  sb_device :: device_id
  sb_observed_at :: system_time
  sb_pv_voltage_volts :: "measurement option"
  sb_pv_current_amperes :: "measurement option"
  sb_pv_power_watts :: "measurement option"
  sb_battery_voltage_volts :: "measurement option"
  sb_battery_current_amperes :: "measurement option"
  sb_load_current_amperes :: "measurement option"
  sb_load_power_watts :: "measurement option"
  sb_yield_total_kwh :: "measurement option"
  sb_yield_today_kwh :: "measurement option"
  sb_ble_rssi_dbm :: "measurement option"
  sb_charger_state :: "charger_state option"
  sb_load_state :: "load_state option"
  sb_connection_health :: "connection_health option"

definition sb_new :: "device_id \<Rightarrow> system_time \<Rightarrow> sample_builder" where
  "sb_new d t =
     \<lparr>sb_device = d, sb_observed_at = t,
      sb_pv_voltage_volts = None, sb_pv_current_amperes = None, sb_pv_power_watts = None,
      sb_battery_voltage_volts = None, sb_battery_current_amperes = None, sb_load_current_amperes = None,
      sb_load_power_watts = None, sb_yield_total_kwh = None, sb_yield_today_kwh = None, sb_ble_rssi_dbm = None,
      sb_charger_state = None, sb_load_state = None, sb_connection_health = None\<rparr>"

definition check_field :: "string \<Rightarrow> f64 \<Rightarrow> phys_range \<Rightarrow> domain_error + unit" where
  "check_field field v r =
     (if \<not> f64_is_finite v then Inl (NonFinite field v)
      else if \<not> range_contains r v then Inl (OutOfRange field v (range_min r) (range_max r))
      else Inr ())"

definition set_pv_voltage_volts :: "f64 \<Rightarrow> quality \<Rightarrow> sample_builder \<Rightarrow> domain_error + sample_builder" where
  "set_pv_voltage_volts v q b =
     try_bind (check_field ''pv_voltage_volts'' v PV_VOLTAGE_V) (\<lambda>_.
       try_bind (measurement_new v q) (\<lambda>m. Inr (b\<lparr>sb_pv_voltage_volts := Some m\<rparr>)))"

definition set_pv_current_amperes :: "f64 \<Rightarrow> quality \<Rightarrow> sample_builder \<Rightarrow> domain_error + sample_builder" where
  "set_pv_current_amperes v q b =
     try_bind (check_field ''pv_current_amperes'' v PV_CURRENT_A) (\<lambda>_.
       try_bind (measurement_new v q) (\<lambda>m. Inr (b\<lparr>sb_pv_current_amperes := Some m\<rparr>)))"

definition set_pv_power_watts :: "f64 \<Rightarrow> quality \<Rightarrow> sample_builder \<Rightarrow> domain_error + sample_builder" where
  "set_pv_power_watts v q b =
     try_bind (check_field ''pv_power_watts'' v PV_POWER_W) (\<lambda>_.
       try_bind (measurement_new v q) (\<lambda>m. Inr (b\<lparr>sb_pv_power_watts := Some m\<rparr>)))"

definition set_battery_voltage_volts :: "f64 \<Rightarrow> quality \<Rightarrow> sample_builder \<Rightarrow> domain_error + sample_builder" where
  "set_battery_voltage_volts v q b =
     try_bind (check_field ''battery_voltage_volts'' v BATTERY_VOLTAGE_V) (\<lambda>_.
       try_bind (measurement_new v q) (\<lambda>m. Inr (b\<lparr>sb_battery_voltage_volts := Some m\<rparr>)))"

definition set_battery_current_amperes :: "f64 \<Rightarrow> quality \<Rightarrow> sample_builder \<Rightarrow> domain_error + sample_builder" where
  "set_battery_current_amperes v q b =
     try_bind (check_field ''battery_current_amperes'' v BATTERY_CURRENT_A) (\<lambda>_.
       try_bind (measurement_new v q) (\<lambda>m. Inr (b\<lparr>sb_battery_current_amperes := Some m\<rparr>)))"

definition set_load_current_amperes :: "f64 \<Rightarrow> quality \<Rightarrow> sample_builder \<Rightarrow> domain_error + sample_builder" where
  "set_load_current_amperes v q b =
     try_bind (check_field ''load_current_amperes'' v LOAD_CURRENT_A) (\<lambda>_.
       try_bind (measurement_new v q) (\<lambda>m. Inr (b\<lparr>sb_load_current_amperes := Some m\<rparr>)))"

definition set_load_power_watts :: "f64 \<Rightarrow> quality \<Rightarrow> sample_builder \<Rightarrow> domain_error + sample_builder" where
  "set_load_power_watts v q b =
     try_bind (check_field ''load_power_watts'' v LOAD_POWER_W) (\<lambda>_.
       try_bind (measurement_new v q) (\<lambda>m. Inr (b\<lparr>sb_load_power_watts := Some m\<rparr>)))"

definition set_yield_total_kwh :: "f64 \<Rightarrow> quality \<Rightarrow> sample_builder \<Rightarrow> domain_error + sample_builder" where
  "set_yield_total_kwh v q b =
     try_bind (check_field ''yield_total_kwh'' v YIELD_TOTAL_KWH) (\<lambda>_.
       try_bind (measurement_new v q) (\<lambda>m. Inr (b\<lparr>sb_yield_total_kwh := Some m\<rparr>)))"

definition set_yield_today_kwh :: "f64 \<Rightarrow> quality \<Rightarrow> sample_builder \<Rightarrow> domain_error + sample_builder" where
  "set_yield_today_kwh v q b =
     try_bind (check_field ''yield_today_kwh'' v YIELD_TODAY_KWH) (\<lambda>_.
       try_bind (measurement_new v q) (\<lambda>m. Inr (b\<lparr>sb_yield_today_kwh := Some m\<rparr>)))"

definition set_ble_rssi_dbm :: "f64 \<Rightarrow> quality \<Rightarrow> sample_builder \<Rightarrow> domain_error + sample_builder" where
  "set_ble_rssi_dbm v q b =
     try_bind (check_field ''ble_rssi_dbm'' v BLE_RSSI_DBM) (\<lambda>_.
       try_bind (measurement_new v q) (\<lambda>m. Inr (b\<lparr>sb_ble_rssi_dbm := Some m\<rparr>)))"

definition set_charger_state :: "charger_state \<Rightarrow> sample_builder \<Rightarrow> sample_builder" where
  "set_charger_state st b = b\<lparr>sb_charger_state := Some st\<rparr>"

definition set_load_state :: "load_state \<Rightarrow> sample_builder \<Rightarrow> sample_builder" where
  "set_load_state st b = b\<lparr>sb_load_state := Some st\<rparr>"

definition set_connection_health :: "connection_health \<Rightarrow> sample_builder \<Rightarrow> sample_builder" where
  "set_connection_health h b = b\<lparr>sb_connection_health := Some h\<rparr>"

definition sb_build :: "sample_builder \<Rightarrow> sample" where
  "sb_build b =
     \<lparr>s_device = sb_device b, s_observed_at = sb_observed_at b,
      s_pv_voltage_volts = sb_pv_voltage_volts b,
      s_pv_current_amperes = sb_pv_current_amperes b,
      s_pv_power_watts = sb_pv_power_watts b,
      s_battery_voltage_volts = sb_battery_voltage_volts b,
      s_battery_current_amperes = sb_battery_current_amperes b,
      s_load_current_amperes = sb_load_current_amperes b,
      s_load_power_watts = sb_load_power_watts b,
      s_yield_total_kwh = sb_yield_total_kwh b,
      s_yield_today_kwh = sb_yield_today_kwh b,
      s_ble_rssi_dbm = sb_ble_rssi_dbm b,
      s_charger_state = sb_charger_state b, s_load_state = sb_load_state b,
      s_connection_health = sb_connection_health b\<rparr>"

section \<open>Derived values\<close>

definition derived_pv_current :: "sample \<Rightarrow> measurement option" where
  "derived_pv_current s =
     Option.bind (s_pv_power_watts s) (\<lambda>power.
       Option.bind (s_pv_voltage_volts s) (\<lambda>voltage.
         if f64_le (m_value voltage) (f64_lit 0) then None
         else let current = f64_div (m_value power) (m_value voltage) in
           if \<not> range_contains PV_CURRENT_A current then None
           else case measurement_new current Derived of Inl _ \<Rightarrow> None | Inr m \<Rightarrow> Some m))"

definition derived_load_power :: "sample \<Rightarrow> measurement option" where
  "derived_load_power s =
     Option.bind (s_load_current_amperes s) (\<lambda>current.
       Option.bind (s_battery_voltage_volts s) (\<lambda>voltage.
         let power = f64_mul (m_value current) (m_value voltage) in
           if \<not> range_contains LOAD_POWER_W power then None
           else case measurement_new power Derived of Inl _ \<Rightarrow> None | Inr m \<Rightarrow> Some m))"

section \<open>What a builder can produce\<close>

text \<open>The range that each field documents.\<close>

fun field_range :: "sample_field \<Rightarrow> phys_range" where
  "field_range PvVoltageVolts = PV_VOLTAGE_V"
| "field_range PvCurrentAmperes = PV_CURRENT_A"
| "field_range PvPowerWatts = PV_POWER_W"
| "field_range BatteryVoltageVolts = BATTERY_VOLTAGE_V"
| "field_range BatteryCurrentAmperes = BATTERY_CURRENT_A"
| "field_range LoadCurrentAmperes = LOAD_CURRENT_A"
| "field_range LoadPowerWatts = LOAD_POWER_W"
| "field_range YieldTotalKwh = YIELD_TOTAL_KWH"
| "field_range YieldTodayKwh = YIELD_TODAY_KWH"
| "field_range BleRssiDbm = BLE_RSSI_DBM"

definition sample_ok :: "sample \<Rightarrow> bool" where
  "sample_ok s \<longleftrightarrow> list_all (\<lambda>(f, m). case m of None \<Rightarrow> True | Some m \<Rightarrow> range_contains (field_range f) (m_value m))
     (sample_fields s)"

text \<open>One call of a builder method that succeeds, and the builders that such calls reach.\<close>

inductive sb_step :: "sample_builder \<Rightarrow> sample_builder \<Rightarrow> bool" where
  "set_pv_voltage_volts v q b = Inr b' \<Longrightarrow> sb_step b b'"
| "set_pv_current_amperes v q b = Inr b' \<Longrightarrow> sb_step b b'"
| "set_pv_power_watts v q b = Inr b' \<Longrightarrow> sb_step b b'"
| "set_battery_voltage_volts v q b = Inr b' \<Longrightarrow> sb_step b b'"
| "set_battery_current_amperes v q b = Inr b' \<Longrightarrow> sb_step b b'"
| "set_load_current_amperes v q b = Inr b' \<Longrightarrow> sb_step b b'"
| "set_load_power_watts v q b = Inr b' \<Longrightarrow> sb_step b b'"
| "set_yield_total_kwh v q b = Inr b' \<Longrightarrow> sb_step b b'"
| "set_yield_today_kwh v q b = Inr b' \<Longrightarrow> sb_step b b'"
| "set_ble_rssi_dbm v q b = Inr b' \<Longrightarrow> sb_step b b'"
| "sb_step b (set_charger_state st b)"
| "sb_step b (set_load_state ls b)"
| "sb_step b (set_connection_health h b)"

inductive_cases sb_stepE: "sb_step b b'"

inductive built :: "device_id \<Rightarrow> system_time \<Rightarrow> sample_builder \<Rightarrow> bool" for d t where
  built_new: "built d t (sb_new d t)"
| built_step: "built d t b \<Longrightarrow> sb_step b b' \<Longrightarrow> built d t b'"

lemma check_field_Inr: "check_field field v r = Inr u \<longleftrightarrow> range_contains r v"
  by (auto simp: check_field_def range_contains_def)

lemma measurement_new_Inr: "measurement_new v q = Inr m \<longleftrightarrow> f64_is_finite v \<and> m = \<lparr>m_value = v, m_quality = q\<rparr>"
  by (auto simp: measurement_new_def)

lemmas setter_defs =
  set_pv_voltage_volts_def
  set_pv_current_amperes_def
  set_pv_power_watts_def
  set_battery_voltage_volts_def
  set_battery_current_amperes_def
  set_load_current_amperes_def
  set_load_power_watts_def
  set_yield_total_kwh_def
  set_yield_today_kwh_def
  set_ble_rssi_dbm_def
  set_charger_state_def set_load_state_def set_connection_health_def

lemma sb_step_ok: "sb_step b b' \<Longrightarrow> sample_ok (sb_build b) \<Longrightarrow> sample_ok (sb_build b')"
  by (erule sb_stepE)
    (auto simp: setter_defs try_simps check_field_Inr measurement_new_Inr sample_ok_def
      sample_fields_def sb_build_def)

lemma built_ok: "built d t b \<Longrightarrow> sample_ok (sb_build b) \<and> s_device (sb_build b) = d \<and> s_observed_at (sb_build b) = t"
proof (induction rule: built.induct)
  case built_new
  show ?case by (simp add: sb_new_def sb_build_def sample_ok_def sample_fields_def)
next
  case (built_step b b')
  have "sb_device b' = sb_device b \<and> sb_observed_at b' = sb_observed_at b"
    using built_step.hyps(2) by (rule sb_stepE) (auto simp: setter_defs try_simps)
  moreover have "sample_ok (sb_build b')"
    using built_step.hyps(2) built_step.IH by (auto intro: sb_step_ok)
  ultimately show ?case using built_step.IH by (simp add: sb_build_def)
qed

lemma sample_ok_finite: "sample_ok s \<Longrightarrow> (f, m) \<in> set (sample_iter s) \<Longrightarrow> range_contains (field_range f) (m_value m)"
  by (auto simp: sample_ok_def sample_iter_def List.map_filter_def list_all_iff split: option.splits)

lemma derived_pv_current_ok:
  "derived_pv_current s = Some m \<Longrightarrow>
    m_quality m = Derived \<and> range_contains PV_CURRENT_A (m_value m)
    \<and> (\<exists>p v. s_pv_power_watts s = Some p \<and> s_pv_voltage_volts s = Some v
          \<and> m_value m = f64_div (m_value p) (m_value v) \<and> \<not> f64_le (m_value v) (F64_Fin 0))"
  by (auto simp: derived_pv_current_def bind_eq_Some_conv Let_def measurement_new_def f64_lit_numeral
      split: if_splits)

lemma derived_load_power_ok:
  "derived_load_power s = Some m \<Longrightarrow>
    m_quality m = Derived \<and> range_contains LOAD_POWER_W (m_value m)
    \<and> (\<exists>i v. s_load_current_amperes s = Some i \<and> s_battery_voltage_volts s = Some v
          \<and> m_value m = f64_mul (m_value i) (m_value v))"
  by (auto simp: derived_load_power_def bind_eq_Some_conv Let_def measurement_new_def split: if_splits)

section \<open>Properties\<close>

text \<open>A sample that the builder gives, after any sequence of successful setters, keeps the device
  and the time it was started with, and every measurement it holds is within the physical range of
  its field.\<close>

theorem built_sample_in_range:
  assumes "built d t b" "(f, m) \<in> set (sample_iter (sb_build b))"
  shows "range_contains (field_range f) (m_value m) \<and> s_device (sb_build b) = d \<and> s_observed_at (sb_build b) = t"
  using built_ok [OF assms(1)] sample_ok_finite [OF _ assms(2)] by auto

text \<open>A derived value is marked as derived and is within the range of its field; it is the quotient
  of the power by a voltage above zero, or the product of the load current and the battery voltage.\<close>

theorem derived_values:
  "(case derived_pv_current s of
      None \<Rightarrow> True
    | Some m \<Rightarrow> m_quality m = Derived \<and> range_contains PV_CURRENT_A (m_value m)
        \<and> (\<exists>p v. s_pv_power_watts s = Some p \<and> s_pv_voltage_volts s = Some v
             \<and> m_value m = f64_div (m_value p) (m_value v) \<and> \<not> f64_le (m_value v) (F64_Fin 0)))
   \<and> (case derived_load_power s of
      None \<Rightarrow> True
    | Some m \<Rightarrow> m_quality m = Derived \<and> range_contains LOAD_POWER_W (m_value m)
        \<and> (\<exists>i v. s_load_current_amperes s = Some i \<and> s_battery_voltage_volts s = Some v
             \<and> m_value m = f64_mul (m_value i) (m_value v)))"
  using derived_pv_current_ok [of s] derived_load_power_ok [of s] by (simp split: option.splits)

theorem built_sample_in_range_witness:
  "range_contains (field_range PvPowerWatts) (F64_Fin 120)"
proof -
  let ?b = "sb_new \<lparr>device_name = ''solar''\<rparr> 1000"
  have "set_pv_power_watts (F64_Fin 120) ConfirmedNative ?b
      = Inr (?b\<lparr>sb_pv_power_watts := Some \<lparr>m_value = F64_Fin 120, m_quality = ConfirmedNative\<rparr>\<rparr>)"
    by (simp add: set_pv_power_watts_def check_field_def named_ranges range_contains_iff measurement_new_def)
  then have "sb_step ?b (?b\<lparr>sb_pv_power_watts := Some \<lparr>m_value = F64_Fin 120, m_quality = ConfirmedNative\<rparr>\<rparr>)"
    by (rule sb_step.intros)
  from built_step [OF built_new this]
  have "built \<lparr>device_name = ''solar''\<rparr> 1000 (?b\<lparr>sb_pv_power_watts := Some \<lparr>m_value = F64_Fin 120, m_quality = ConfirmedNative\<rparr>\<rparr>)" .
  from built_sample_in_range [OF this, of PvPowerWatts "\<lparr>m_value = F64_Fin 120, m_quality = ConfirmedNative\<rparr>"]
  show ?thesis by (simp add: sample_iter_def sample_fields_def sb_build_def sb_new_def)
qed

end
