(* ===== verification/Energy_Policy.thy ===== *)
theory Energy_Policy
  imports Domain
begin

text \<open>
  \<open>victron-service\<close>, \<open>energy.rs\<close>: the policy that resolves the cumulative energy of one sample, a
  confirmed native counter first and trapezoidal integration of confirmed PV power otherwise. The
  lemmas show when each kind of outcome arises, that the stored total never decreases and only an
  integration changes it, that an integrated interval starts at the stored anchor and ends at the
  sample, and that only confirmed power becomes an anchor.
\<close>

section \<open>The policy\<close>

record energy_state =
  es_total_kwh :: f64
  es_last_power_watts :: "f64 option"
  es_last_sample_at :: "system_time option"

datatype energy_kind = EkNative | EkIntegrated | EkStarted | EkSkipped

record energy_outcome =
  eo_kind :: energy_kind
  eo_total_kwh :: f64
  eo_skipped_gap :: "duration option"
  eo_next_state :: energy_state

record energy_policy =
  maximum_gap :: duration

definition confirmed_pv_power :: "sample \<Rightarrow> f64 option" where
  "confirmed_pv_power s =
     Option.bind (s_pv_power_watts s) (\<lambda>m. if m_quality m = ConfirmedNative then Some (m_value m) else None)"

definition updated_state :: "energy_state option \<Rightarrow> sample \<Rightarrow> energy_state" where
  "updated_state prev s =
     \<lparr>es_total_kwh = (case prev of Some p \<Rightarrow> es_total_kwh p | None \<Rightarrow> f64_lit 0),
      es_last_power_watts = confirmed_pv_power s,
      es_last_sample_at = Some (s_observed_at s)\<rparr>"

text \<open>\<open>(prev_power + cur_power) / 2.0 * gap.as_secs_f64() / 3_600_000.0\<close>.\<close>

definition trapezoid_kwh :: "f64 \<Rightarrow> f64 \<Rightarrow> duration \<Rightarrow> f64" where
  "trapezoid_kwh prev_power cur_power gap =
     f64_div (f64_mul (f64_div (f64_add prev_power cur_power) (f64_lit 2)) (as_secs_f64 gap)) (f64_lit 3600000)"

definition outcome :: "energy_kind \<Rightarrow> f64 \<Rightarrow> duration option \<Rightarrow> energy_state \<Rightarrow> energy_outcome" where
  "outcome k t g n = \<lparr>eo_kind = k, eo_total_kwh = t, eo_skipped_gap = g, eo_next_state = n\<rparr>"

text \<open>The part of \<open>apply\<close> after the native counter.\<close>

definition apply_fallback :: "energy_policy \<Rightarrow> energy_state option \<Rightarrow> sample \<Rightarrow> energy_outcome" where
  "apply_fallback pol prev s =
     (case prev of
        None \<Rightarrow> outcome EkStarted (f64_lit 0) None (updated_state None s)
      | Some p \<Rightarrow>
          (case es_last_sample_at p of
             None \<Rightarrow> outcome EkStarted (es_total_kwh p) None (updated_state (Some p) s)
           | Some prev_at \<Rightarrow>
               if s_observed_at s \<le> prev_at then outcome EkSkipped (es_total_kwh p) None p
               else
                 (case confirmed_pv_power s of
                    None \<Rightarrow> outcome EkSkipped (es_total_kwh p) None p
                  | Some cur_power \<Rightarrow>
                      (case es_last_power_watts p of
                         None \<Rightarrow> outcome EkStarted (es_total_kwh p) None (updated_state (Some p) s)
                       | Some prev_power \<Rightarrow>
                           (let gap = nat (s_observed_at s - prev_at) in
                            if gap > maximum_gap pol
                            then outcome EkSkipped (es_total_kwh p) (Some gap) (updated_state (Some p) s)
                            else
                              (let nxt = (updated_state (Some p) s)
                                     \<lparr>es_total_kwh := f64_add (es_total_kwh p) (trapezoid_kwh prev_power cur_power gap)\<rparr>
                               in outcome EkIntegrated (es_total_kwh nxt) None nxt))))))"

definition energy_apply :: "energy_policy \<Rightarrow> energy_state option \<Rightarrow> sample \<Rightarrow> energy_outcome" where
  "energy_apply pol prev s =
     (case s_yield_total_kwh s of
        Some native \<Rightarrow>
          if m_quality native = ConfirmedNative
          then outcome EkNative (m_value native) None (updated_state prev s)
          else apply_fallback pol prev s
      | None \<Rightarrow> apply_fallback pol prev s)"

section \<open>When each outcome arises\<close>

definition native_confirmed :: "sample \<Rightarrow> bool" where
  "native_confirmed s \<longleftrightarrow> (\<exists>m. s_yield_total_kwh s = Some m \<and> m_quality m = ConfirmedNative)"

text \<open>Integration needs a stored anchor with power before the sample, confirmed power now, and a gap
  within the limit.\<close>

definition integrable :: "energy_policy \<Rightarrow> energy_state option \<Rightarrow> sample \<Rightarrow> energy_state \<Rightarrow> system_time \<Rightarrow> f64 \<Rightarrow> f64 \<Rightarrow> bool"
  where
  "integrable pol prev s p t a b \<longleftrightarrow>
     \<not> native_confirmed s \<and> prev = Some p \<and> es_last_sample_at p = Some t \<and> t < s_observed_at s
     \<and> es_last_power_watts p = Some a \<and> confirmed_pv_power s = Some b
     \<and> s_observed_at s - t \<le> int (maximum_gap pol)"

lemmas policy_defs = energy_apply_def apply_fallback_def outcome_def

lemma energy_apply_native_iff: "eo_kind (energy_apply pol prev s) = EkNative \<longleftrightarrow> native_confirmed s"
  by (auto simp: policy_defs native_confirmed_def Let_def split: option.splits)

lemma energy_apply_integrated:
  assumes "integrable pol prev s p t a b"
  shows "energy_apply pol prev s =
    outcome EkIntegrated (f64_add (es_total_kwh p) (trapezoid_kwh a b (nat (s_observed_at s - t)))) None
      \<lparr>es_total_kwh = f64_add (es_total_kwh p) (trapezoid_kwh a b (nat (s_observed_at s - t))),
       es_last_power_watts = Some b, es_last_sample_at = Some (s_observed_at s)\<rparr>"
  using assms
  by (auto simp: integrable_def policy_defs native_confirmed_def updated_state_def Let_def nat_le_iff
      split: option.splits)

lemma energy_apply_integrated_only:
  assumes "eo_kind (energy_apply pol prev s) = EkIntegrated"
  shows "\<exists>p t a b. integrable pol prev s p t a b"
  using assms
  by (auto simp: integrable_def policy_defs native_confirmed_def Let_def nat_le_iff not_less
      split: option.splits if_splits)

text \<open>Every other outcome keeps the stored total.\<close>

lemma energy_apply_keeps_total:
  assumes "eo_kind (energy_apply pol prev s) \<noteq> EkIntegrated"
  shows "es_total_kwh (eo_next_state (energy_apply pol prev s))
    = (case prev of Some p \<Rightarrow> es_total_kwh p | None \<Rightarrow> F64_Fin 0)"
  using assms
  by (auto simp: policy_defs updated_state_def Let_def f64_lit_numeral split: option.splits if_splits)

lemma energy_apply_anchor:
  "eo_next_state (energy_apply pol prev s) = the prev \<and> prev \<noteq> None
   \<or> es_last_sample_at (eo_next_state (energy_apply pol prev s)) = Some (s_observed_at s)
     \<and> es_last_power_watts (eo_next_state (energy_apply pol prev s)) = confirmed_pv_power s"
  by (auto simp: policy_defs updated_state_def Let_def split: option.splits if_splits)

section \<open>Totals only grow\<close>

text \<open>The invariant of a stored state: a finite non-negative total and a power anchor in the range of
  \<open>PV_POWER_W\<close>.\<close>

definition energy_state_ok :: "energy_state \<Rightarrow> bool" where
  "energy_state_ok e \<longleftrightarrow> f64_wf (es_total_kwh e) \<and> f64_is_finite (es_total_kwh e) \<and> 0 \<le> f64_val (es_total_kwh e)
     \<and> (case es_last_power_watts e of None \<Rightarrow> True | Some a \<Rightarrow> f64_in 30000 a)"

lemma confirmed_power_in: "sample_ok s \<Longrightarrow> confirmed_pv_power s = Some b \<Longrightarrow> f64_in 30000 b"
  by (auto simp: sample_ok_def sample_fields_def confirmed_pv_power_def bind_eq_Some_conv named_ranges
      range_contains_iff f64_in_def split: if_splits)

lemma trapezoid_in:
  assumes "f64_in 30000 a" "f64_in 30000 b" "gap \<le> DURATION_MAX"
  shows "f64_in (2 ^ 81) (trapezoid_kwh a b gap)"
proof -
  have "f64_in (2 ^ 16) (f64_add a b)"
    using f64_in_add [OF assms(1,2), of 16] by simp
  moreover have two: "f64_lit 2 = F64_Fin 2" "f64_lit 3600000 = F64_Fin 3600000"
    by (simp_all add: f64_lit_numeral)
  ultimately have "f64_in (2 ^ 16) (f64_div (f64_add a b) (f64_lit 2))"
    using f64_in_div [of "2 ^ 16" "f64_add a b" "F64_Fin 2" 16] by simp
  from f64_in_mul [OF this as_secs_f64_in [OF assms(3)], of 81]
  have "f64_in (2 ^ 81) (f64_mul (f64_div (f64_add a b) (f64_lit 2)) (as_secs_f64 gap))"
    by simp
  from f64_in_div [OF this, of "F64_Fin 3600000" 81] show ?thesis
    by (simp add: trapezoid_kwh_def two)
qed

lemma energy_apply_total_mono:
  assumes "energy_state_ok p" "sample_ok s" "maximum_gap pol \<le> DURATION_MAX"
  shows "f64_le (es_total_kwh p) (es_total_kwh (eo_next_state (energy_apply pol (Some p) s)))"
proof (cases "eo_kind (energy_apply pol (Some p) s) = EkIntegrated")
  case False
  from energy_apply_keeps_total [OF False] assms(1) show ?thesis
    by (simp add: f64_le_finite energy_state_ok_def)
next
  case True
  from energy_apply_integrated_only [OF True] obtain t a b where
    i: "integrable pol (Some p) s p t a b" by (auto simp: integrable_def)
  then have "nat (s_observed_at s - t) \<le> DURATION_MAX" "f64_in 30000 a" "f64_in 30000 b"
    using assms confirmed_power_in [OF assms(2)] by (auto simp: integrable_def energy_state_ok_def nat_le_iff)
  then have "f64_in (2 ^ 81) (trapezoid_kwh a b (nat (s_observed_at s - t)))"
    by (intro trapezoid_in)
  from f64_le_add [OF _ _ this, of "es_total_kwh p"] assms(1) show ?thesis
    by (simp add: energy_apply_integrated [OF i] outcome_def energy_state_ok_def)
qed

text \<open>The native branch takes the sample's time as the anchor without looking at the old one, so a
  sample that is older than the anchor moves it back and the interval between them can be integrated
  a second time. (The commit of an older sample is refused by the storage, which is what protects a
  running collector.)\<close>

lemma energy_native_rewinds:
  assumes "native_confirmed s"
  shows "es_last_sample_at (eo_next_state (energy_apply pol prev s)) = Some (s_observed_at s)"
  using assms by (auto simp: native_confirmed_def policy_defs updated_state_def)

section \<open>Properties\<close>

text \<open>C20: The fallback integrates exactly when there is no confirmed native yield, both powers are
  confirmed and the sample is newer than the anchor by at most the allowed gap; then it adds the
  trapezoid to the total and moves the anchor to the sample. In every other case the stored total is
  kept.\<close>

theorem energy_integration_exact:
  "(eo_kind (energy_apply pol prev s) = EkIntegrated \<longleftrightarrow> (\<exists>p t a b. integrable pol prev s p t a b))
   \<and> (case (eo_kind (energy_apply pol prev s), prev) of
        (EkIntegrated, Some p) \<Rightarrow> \<exists>t a b. integrable pol prev s p t a b
          \<and> eo_next_state (energy_apply pol prev s) =
             \<lparr>es_total_kwh = f64_add (es_total_kwh p) (trapezoid_kwh a b (nat (s_observed_at s - t))),
              es_last_power_watts = Some b, es_last_sample_at = Some (s_observed_at s)\<rparr>
      | (EkIntegrated, None) \<Rightarrow> False
      | (_, Some p) \<Rightarrow> es_total_kwh (eo_next_state (energy_apply pol prev s)) = es_total_kwh p
      | (_, None) \<Rightarrow> es_total_kwh (eo_next_state (energy_apply pol prev s)) = F64_Fin 0)"
proof (cases "\<exists>p t a b. integrable pol prev s p t a b")
  case True
  then obtain p t a b where i: "integrable pol prev s p t a b" by blast
  then have "prev = Some p" by (simp add: integrable_def)
  with energy_apply_integrated [OF i] i show ?thesis by (auto simp: outcome_def)
next
  case False
  with energy_apply_integrated_only [of pol prev s] have k: "eo_kind (energy_apply pol prev s) \<noteq> EkIntegrated" by blast
  from energy_apply_keeps_total [OF k] k False show ?thesis
    by (auto split: energy_kind.splits option.splits)
qed

text \<open>Whatever the sample, a policy step never decreases the accumulated energy.\<close>

theorem energy_total_never_decreases:
  assumes "energy_state_ok p" "sample_ok s" "maximum_gap pol \<le> DURATION_MAX"
  shows "f64_le (es_total_kwh p) (es_total_kwh (eo_next_state (energy_apply pol (Some p) s)))"
  by (rule energy_apply_total_mono [OF assms])

theorem energy_total_never_decreases_witness:
  "f64_le (F64_Fin 2) (es_total_kwh (eo_next_state (energy_apply \<lparr>maximum_gap = 300000000000\<rparr>
     (Some \<lparr>es_total_kwh = F64_Fin 2, es_last_power_watts = Some (F64_Fin 100), es_last_sample_at = Some 1000\<rparr>)
     (sb_build ((sb_new \<lparr>device_name = ''solar''\<rparr> 2000000000)\<lparr>sb_pv_power_watts :=
        Some \<lparr>m_value = F64_Fin 300, m_quality = ConfirmedNative\<rparr>\<rparr>)))))"
proof -
  let ?p = "\<lparr>es_total_kwh = F64_Fin 2, es_last_power_watts = Some (F64_Fin 100), es_last_sample_at = Some 1000\<rparr>"
  let ?s = "sb_build ((sb_new \<lparr>device_name = ''solar''\<rparr> 2000000000)\<lparr>sb_pv_power_watts :=
        Some \<lparr>m_value = F64_Fin 300, m_quality = ConfirmedNative\<rparr>\<rparr>)"
  have p: "energy_state_ok ?p"
    using rnd_small_int [of 2] by (simp add: energy_state_ok_def f64_wf_def f64_in_def)
  have s: "sample_ok ?s"
    by (simp add: sample_ok_def sample_fields_def sb_build_def sb_new_def named_ranges range_contains_iff)
  from energy_total_never_decreases [OF p s, of "\<lparr>maximum_gap = 300000000000\<rparr>"] show ?thesis
    by (simp add: DURATION_MAX_def)
qed

end
