(* ===== verification/Scheduler.thy ===== *)
theory Scheduler
  imports Domain
begin

text \<open>
  \<open>victron-service\<close>, \<open>scheduler.rs\<close>: the active/idle cadence from the last committed sample, and the
  exponential backoff with saturating \<open>u32\<close> and \<open>Duration\<close> arithmetic. The lemmas show that the
  saturating computation is the documented \<open>min(cap, base * factor^(n-1))\<close>, monotone and capped.
\<close>

section \<open>Cadence\<close>

datatype interval_kind = IntervalActive | IntervalIdle

datatype solar_activity_kind = SolarActive | SolarIdle

record interval_context =
  ic_now :: system_time
  ic_last_success :: "system_time option"
  ic_last_solar :: "solar_activity_kind option"
  ic_consecutive_failures :: u32

text \<open>The two implementations of \<open>IntervalPolicy::kind\<close>.\<close>

definition constant_kind :: "interval_kind \<Rightarrow> interval_context \<Rightarrow> interval_kind" where
  "constant_kind k ctx = k"

definition solar_kind :: "interval_context \<Rightarrow> interval_kind" where
  "solar_kind ctx = (case ic_last_solar ctx of
     None \<Rightarrow> IntervalActive
   | Some SolarActive \<Rightarrow> IntervalActive
   | Some SolarIdle \<Rightarrow> IntervalIdle)"

definition solar_activity :: "sample \<Rightarrow> f64 \<Rightarrow> solar_activity_kind" where
  "solar_activity s threshold =
     (case s_pv_power_watts s of
        Some m \<Rightarrow> if m_quality m = ConfirmedNative \<and> f64_le threshold (m_value m) then SolarActive else SolarIdle
      | None \<Rightarrow> SolarIdle)"

lemma solar_activity_active_iff:
  "solar_activity s threshold = SolarActive \<longleftrightarrow>
    (\<exists>m. s_pv_power_watts s = Some m \<and> m_quality m = ConfirmedNative \<and> f64_le threshold (m_value m))"
  by (auto simp: solar_activity_def split: option.splits)

section \<open>Backoff\<close>

record exponential_backoff =
  bo_base :: duration
  bo_factor :: u32
  bo_cap :: duration

definition U32_MAX :: nat where
  "U32_MAX = 2 ^ 32 - 1"

text \<open>\<open>u32::saturating_pow\<close> and \<open>Duration::saturating_mul\<close>.\<close>

definition u32_saturating_pow :: "nat \<Rightarrow> nat \<Rightarrow> nat" where
  "u32_saturating_pow b e = min U32_MAX (b ^ e)"

definition duration_saturating_mul :: "duration \<Rightarrow> nat \<Rightarrow> duration" where
  "duration_saturating_mul d n = min DURATION_MAX (d * n)"

definition backoff_delay :: "exponential_backoff \<Rightarrow> u32 \<Rightarrow> duration" where
  "backoff_delay b failures =
     (if failures = 0 then 0
      else let exponent = min (unat failures - 1) 32;
               multiplier = u32_saturating_pow (unat (bo_factor b)) exponent in
        min (duration_saturating_mul (bo_base b) multiplier) (bo_cap b))"

lemma backoff_delay_le_cap: "backoff_delay b failures \<le> bo_cap b"
  by (simp add: backoff_delay_def Let_def)

lemma backoff_delay_pos: "failures \<noteq> 0 \<Longrightarrow>
  backoff_delay b failures = min (min DURATION_MAX (bo_base b * min U32_MAX (unat (bo_factor b) ^ min (unat failures - 1) 32))) (bo_cap b)"
  by (simp add: backoff_delay_def u32_saturating_pow_def duration_saturating_mul_def Let_def)

text \<open>With a cap that is a duration and is below the largest multiple the saturation can reach, the
  guards are invisible.\<close>

lemma backoff_delay_exact:
  assumes "failures \<noteq> 0" "bo_cap b \<le> DURATION_MAX" "bo_cap b \<le> bo_base b * U32_MAX"
  shows "backoff_delay b failures = min (bo_cap b) (bo_base b * unat (bo_factor b) ^ (unat failures - 1))"
proof -
  define f n where "f = unat (bo_factor b)" and "n = unat failures - 1"
  have key: "min (bo_base b * min U32_MAX (f ^ min n 32)) (bo_cap b) = min (bo_cap b) (bo_base b * f ^ n)"
  proof (cases "n \<le> 32")
    case True
    show ?thesis
    proof (cases "f ^ n \<le> U32_MAX")
      case True
      with \<open>n \<le> 32\<close> show ?thesis by (simp add: min.commute)
    next
      case False
      then have "bo_base b * U32_MAX \<le> bo_base b * f ^ n" by (intro mult_le_mono2) simp
      with assms(3) have "bo_cap b \<le> bo_base b * f ^ n" by (rule order.trans)
      with assms(3) False \<open>n \<le> 32\<close> show ?thesis by (simp add: min_def)
    qed
  next
    case False
    show ?thesis
    proof (cases "f \<le> 1")
      case True
      then have "f = 0 \<or> f = 1" by auto
      with False show ?thesis by (auto simp: U32_MAX_def min.commute zero_power)
    next
      case False
      then have "2 ^ 32 \<le> f ^ 32" by (intro power_mono) simp_all
      then have big: "U32_MAX \<le> f ^ 32" by (simp add: U32_MAX_def)
      also have "f ^ 32 \<le> f ^ n" using \<open>\<not> n \<le> 32\<close> False by (intro power_increasing) simp_all
      finally have "bo_base b * U32_MAX \<le> bo_base b * f ^ n" by (intro mult_le_mono2)
      with assms(3) have "bo_cap b \<le> bo_base b * f ^ n" by (rule order.trans)
      with assms(3) big \<open>\<not> n \<le> 32\<close> show ?thesis by (simp add: min_def)
    qed
  qed
  have cap: "min (min DURATION_MAX x) (bo_cap b) = min x (bo_cap b)" for x
    using assms(2) by (simp add: min_def)
  show ?thesis
    using key unfolding backoff_delay_pos [OF assms(1)] f_def n_def cap .
qed

lemma backoff_delay_mono:
  assumes "bo_factor b \<noteq> 0" "m \<le> n"
  shows "backoff_delay b m \<le> backoff_delay b n"
proof (cases "m = 0")
  case True
  then show ?thesis by (simp add: backoff_delay_def)
next
  case False
  with assms(2) have "n \<noteq> 0" by auto
  have "min (unat m - 1) 32 \<le> min (unat n - 1) 32"
    using assms(2) by (simp add: word_le_nat_alt)
  moreover have "1 \<le> unat (bo_factor b)" using assms(1) by (simp add: Suc_le_eq unat_gt_0)
  ultimately have "unat (bo_factor b) ^ min (unat m - 1) 32 \<le> unat (bo_factor b) ^ min (unat n - 1) 32"
    by (intro power_increasing)
  then have "bo_base b * min U32_MAX (unat (bo_factor b) ^ min (unat m - 1) 32)
    \<le> bo_base b * min U32_MAX (unat (bo_factor b) ^ min (unat n - 1) 32)"
    by (intro mult_le_mono2) simp
  then show ?thesis
    by (simp add: backoff_delay_pos [OF False] backoff_delay_pos [OF \<open>n \<noteq> 0\<close>] min_le_iff_disj)
qed

section \<open>Properties\<close>

text \<open>After a failure the backoff is the base times the factor to the power of the failures before
  it, cut at the cap; the saturating arithmetic never shows, whatever the number of failures, as long
  as the cap is within the range of durations that the saturation leaves exact.\<close>

theorem backoff_exact:
  assumes "failures \<noteq> 0" "bo_cap b \<le> DURATION_MAX" "bo_cap b \<le> bo_base b * U32_MAX"
  shows "backoff_delay b failures = min (bo_cap b) (bo_base b * unat (bo_factor b) ^ (unat failures - 1))"
  by (rule backoff_delay_exact [OF assms])

theorem backoff_exact_witness:
  "backoff_delay \<lparr>bo_base = 5000000000, bo_factor = 2, bo_cap = 300000000000\<rparr> 4 = 40000000000"
  using backoff_exact [of 4 "\<lparr>bo_base = 5000000000, bo_factor = 2, bo_cap = 300000000000\<rparr>"]
  by (simp add: DURATION_MAX_def U32_MAX_def)

end
