(* ===== verification/Cycle_State.thy ===== *)
theory Cycle_State
  imports Prelude
begin

text \<open>
  \<open>victron-service\<close>, \<open>state.rs\<close>: the phases of an acquisition cycle, the guarded state machine, and
  the recording observer. The locale \<open>pipeline\<close> is the contract of a machine whose stages can each be
  entered from one stage only; interpreted on the collector's phases it gives that a delivery is
  preceded by every earlier stage, in order.
\<close>

section \<open>Phases\<close>

datatype cycle_phase =
    Idle | Discovering | Connecting | Negotiating | Subscribing | Requesting | Collecting
  | Persisting | Delivering | Disconnecting | Backoff | ShuttingDown

fun phase_as_str :: "cycle_phase \<Rightarrow> string" where
  "phase_as_str Idle = ''idle''"
| "phase_as_str Discovering = ''discovering''"
| "phase_as_str Connecting = ''connecting''"
| "phase_as_str Negotiating = ''negotiating''"
| "phase_as_str Subscribing = ''subscribing''"
| "phase_as_str Requesting = ''requesting''"
| "phase_as_str Collecting = ''collecting''"
| "phase_as_str Persisting = ''persisting''"
| "phase_as_str Delivering = ''delivering''"
| "phase_as_str Disconnecting = ''disconnecting''"
| "phase_as_str Backoff = ''backoff''"
| "phase_as_str ShuttingDown = ''shutting_down''"

definition can_transition_to :: "cycle_phase \<Rightarrow> cycle_phase \<Rightarrow> bool" where
  "can_transition_to p nxt =
     (case p of
        Idle \<Rightarrow> nxt \<in> {Discovering, ShuttingDown}
      | Discovering \<Rightarrow> nxt \<in> {Connecting, Disconnecting, Backoff, ShuttingDown}
      | Connecting \<Rightarrow> nxt \<in> {Negotiating, Disconnecting, Backoff, ShuttingDown}
      | Negotiating \<Rightarrow> nxt \<in> {Subscribing, Disconnecting, Backoff, ShuttingDown}
      | Subscribing \<Rightarrow> nxt \<in> {Requesting, Disconnecting, Backoff, ShuttingDown}
      | Requesting \<Rightarrow> nxt \<in> {Collecting, Disconnecting, Backoff, ShuttingDown}
      | Collecting \<Rightarrow> nxt \<in> {Persisting, Disconnecting, Backoff, ShuttingDown}
      | Persisting \<Rightarrow> nxt \<in> {Delivering, Disconnecting, Backoff, ShuttingDown}
      | Delivering \<Rightarrow> nxt \<in> {Disconnecting, Backoff, ShuttingDown}
      | Disconnecting \<Rightarrow> nxt \<in> {Idle, Backoff, ShuttingDown}
      | Backoff \<Rightarrow> nxt \<in> {Idle, Discovering, ShuttingDown}
      | ShuttingDown \<Rightarrow> False)"

definition is_terminal :: "cycle_phase \<Rightarrow> bool" where
  "is_terminal p = (p = ShuttingDown)"

lemma can_transition_self [simp]: "\<not> can_transition_to p p"
  by (cases p) (simp_all add: can_transition_to_def)

section \<open>The guarded machine\<close>

record transition_error =
  te_from :: cycle_phase
  te_to :: cycle_phase

record state_machine =
  sm_current :: cycle_phase
  sm_transitions :: u64

definition sm_new :: state_machine where
  "sm_new = \<lparr>sm_current = Idle, sm_transitions = 0\<rparr>"

definition sm_transition :: "state_machine \<Rightarrow> cycle_phase \<Rightarrow> (transition_error + unit) \<times> state_machine" where
  "sm_transition m nxt =
     (if sm_current m = nxt \<or> \<not> can_transition_to (sm_current m) nxt
      then (Inl \<lparr>te_from = sm_current m, te_to = nxt\<rparr>, m)
      else (Inr (), \<lparr>sm_current = nxt, sm_transitions = sm_transitions m + 1\<rparr>))"

text \<open>\<open>RecordingObserver\<close>: the phases seen, in order.\<close>

definition observer_on_phase :: "cycle_phase list \<Rightarrow> cycle_phase \<Rightarrow> cycle_phase list" where
  "observer_on_phase seen p = seen @ [p]"

definition observer_contains :: "cycle_phase list \<Rightarrow> cycle_phase \<Rightarrow> bool" where
  "observer_contains seen p = (p \<in> set seen)"

definition observer_count :: "cycle_phase list \<Rightarrow> cycle_phase \<Rightarrow> nat" where
  "observer_count seen p = length (filter (\<lambda>q. q = p) seen)"

lemma sm_transition_ok_iff:
  "fst (sm_transition m nxt) = Inr () \<longleftrightarrow> can_transition_to (sm_current m) nxt"
  by (auto simp: sm_transition_def)

lemma sm_transition_error_unchanged: "fst (sm_transition m nxt) = Inl e \<Longrightarrow> snd (sm_transition m nxt) = m"
  by (auto simp: sm_transition_def split: if_splits)

section \<open>Runs\<close>

text \<open>A run is the non-empty list of phases entered so far, oldest first.\<close>

inductive run :: "cycle_phase list \<Rightarrow> bool" where
  run_start: "run [Idle]"
| run_step: "run ps \<Longrightarrow> can_transition_to (last ps) q \<Longrightarrow> run (ps @ [q])"

inductive_cases run_snocE: "run (ps @ [q])"

lemma run_snocD: "run (ps @ [q]) \<Longrightarrow> ps \<noteq> [] \<Longrightarrow> run ps \<and> can_transition_to (last ps) q"
  by (erule run_snocE) auto

lemma run_nonempty: "run ps \<Longrightarrow> ps \<noteq> []"
  by (erule run.cases) simp_all

text \<open>The phases a machine goes through, with the initial one, form a run.\<close>

fun drive :: "state_machine \<Rightarrow> cycle_phase list \<Rightarrow> cycle_phase list \<Rightarrow> state_machine \<times> cycle_phase list" where
  "drive m seen [] = (m, seen)"
| "drive m seen (q # qs) =
     (case sm_transition m q of
        (Inl e, m') \<Rightarrow> drive m' seen qs
      | (Inr u, m') \<Rightarrow> drive m' (observer_on_phase seen q) qs)"

lemma drive_run:
  "run (Idle # seen) \<Longrightarrow> last (Idle # seen) = sm_current m \<Longrightarrow>
   run (Idle # snd (drive m seen qs)) \<and> last (Idle # snd (drive m seen qs)) = sm_current (fst (drive m seen qs))"
proof (induction qs arbitrary: m seen)
  case Nil
  then show ?case by simp
next
  case (Cons q qs)
  show ?case
  proof (cases "can_transition_to (sm_current m) q")
    case True
    then have "run (Idle # (seen @ [q]))"
      using run_step [OF Cons.prems(1), of q] Cons.prems(2) by simp
    from Cons.IH [OF this, of "\<lparr>sm_current = q, sm_transitions = sm_transitions m + 1\<rparr>"] True
    show ?thesis by (auto simp: sm_transition_def observer_on_phase_def)
  next
    case False
    with Cons show ?thesis by (simp add: sm_transition_def)
  qed
qed

section \<open>Stages in order\<close>

text \<open>
  \<open>pipeline step pred\<close>: a stage with a predecessor is entered from it only. Then a path that reaches
  a stage ends with the chain of its predecessors.
\<close>

locale pipeline =
  fixes step :: "'p \<Rightarrow> 'p \<Rightarrow> bool"
    and pred_of :: "'p \<Rightarrow> 'p option"
  assumes only_from: "step p q \<Longrightarrow> pred_of q = Some r \<Longrightarrow> p = r"
begin

fun path :: "'p list \<Rightarrow> bool" where
  "path [] = True"
| "path [p] = True"
| "path (p # q # ps) = (step p q \<and> path (q # ps))"

lemma path_snoc: "path (ps @ [p, q]) \<longleftrightarrow> path (ps @ [p]) \<and> step p q"
  by (induction ps rule: path.induct) simp_all

fun chain :: "nat \<Rightarrow> 'p \<Rightarrow> 'p list" where
  "chain 0 q = [q]"
| "chain (Suc n) q = (case pred_of q of None \<Rightarrow> [q] | Some p \<Rightarrow> chain n p @ [q])"

text \<open>A path from a stage without predecessor that ends in \<open>q\<close> ends with the chain to \<open>q\<close>.\<close>

lemma path_ends_with_chain:
  "path (p # ps) \<Longrightarrow> pred_of p = None \<Longrightarrow> last (p # ps) = q \<Longrightarrow> \<exists>front. p # ps = front @ chain n q"
proof (induction n arbitrary: q ps)
  case 0
  then show ?case by (metis append_butlast_last_id chain.simps(1) list.distinct(1))
next
  case (Suc n)
  show ?case
  proof (cases "pred_of q")
    case None
    with Suc.prems show ?thesis
      by (metis append_butlast_last_id chain.simps(2) list.distinct(1) option.simps(4))
  next
    case (Some r)
    with Suc.prems have "ps \<noteq> []" by (cases ps) auto
    with Suc.prems(3) obtain qs where ps: "ps = qs @ [q]" by (metis append_butlast_last_id last_ConsR)
    obtain us u where us: "p # qs = us @ [u]" by (metis append_butlast_last_id list.distinct(1))
    have "p # ps = us @ [u, q]" using us by (simp add: ps)
    with Suc.prems(1) path_snoc [of us u q] have st: "step u q" and pt: "path (p # qs)"
      by (simp_all add: us)
    from only_from [OF st Some] have u: "u = r" .
    have "last (p # qs) = r" using us u by simp
    from Suc.IH [OF pt Suc.prems(2) this] obtain front where "p # qs = front @ chain n r" by blast
    then have "p # ps = front @ chain (Suc n) q" by (simp add: Some ps)
    then show ?thesis by blast
  qed
qed

end

text \<open>The stages of an acquisition and the one each follows.\<close>

fun stage_pred :: "cycle_phase \<Rightarrow> cycle_phase option" where
  "stage_pred Connecting = Some Discovering"
| "stage_pred Negotiating = Some Connecting"
| "stage_pred Subscribing = Some Negotiating"
| "stage_pred Requesting = Some Subscribing"
| "stage_pred Collecting = Some Requesting"
| "stage_pred Persisting = Some Collecting"
| "stage_pred Delivering = Some Persisting"
| "stage_pred _ = None"

interpretation stages: pipeline can_transition_to stage_pred
proof unfold_locales
  fix p q r
  assume "can_transition_to p q" "stage_pred q = Some r"
  then show "p = r"
    by (cases q; cases p) (simp_all add: can_transition_to_def)
qed

lemma run_path: "run ps \<Longrightarrow> stages.path ps \<and> (\<exists>qs. ps = Idle # qs)"
proof (induction rule: run.induct)
  case run_start
  then show ?case by simp
next
  case (run_step ps q)
  from run_step.IH obtain us where ps: "ps = us @ [last ps]" by (metis append_butlast_last_id list.distinct(1))
  have "ps @ [q] = us @ [last ps, q]" using ps by (metis append.assoc append_Cons append_Nil)
  moreover have "stages.path (us @ [last ps, q])"
    using run_step.IH run_step.hyps(2) ps stages.path_snoc [of us "last ps" q] by simp
  ultimately have "stages.path (ps @ [q])" by metis
  moreover obtain rs where "ps = Idle # rs" using run_step.IH by blast
  ultimately show ?case by simp
qed

lemma run_delivers_in_order:
  assumes "run ps" "last ps = Delivering"
  shows "\<exists>front. ps = front @ [Discovering, Connecting, Negotiating, Subscribing, Requesting,
      Collecting, Persisting, Delivering]"
proof -
  from run_path [OF assms(1)] obtain qs where qs: "ps = Idle # qs" and p: "stages.path (Idle # qs)" by auto
  have "stages.chain 7 Delivering = [Discovering, Connecting, Negotiating, Subscribing, Requesting,
      Collecting, Persisting, Delivering]"
    by (simp add: eval_nat_numeral)
  with stages.path_ends_with_chain [OF p, of Delivering 7] assms(2) qs show ?thesis by simp
qed

text \<open>Nothing follows the shutdown phase.\<close>

lemma run_terminal: "run (ps @ [ShuttingDown] @ qs) \<Longrightarrow> qs = []"
proof (induction qs rule: rev_induct)
  case Nil
  then show ?case by simp
next
  case (snoc q qs)
  from snoc.prems have r: "run ((ps @ [ShuttingDown] @ qs) @ [q])" by simp
  then have "run (ps @ [ShuttingDown] @ qs) \<and> can_transition_to (last (ps @ [ShuttingDown] @ qs)) q"
    by (rule run_snocD) simp
  with snoc.IH have "can_transition_to ShuttingDown q" by auto
  then show ?case by (simp add: can_transition_to_def)
qed

lemma every_phase_can_shut_down: "can_transition_to p ShuttingDown \<longleftrightarrow> \<not> is_terminal p"
  by (cases p) (simp_all add: can_transition_to_def is_terminal_def)

end
