(* ===== verification/Health.thy ===== *)
theory Health
  imports Domain
begin

text \<open>
  \<open>victron-service\<close>, \<open>health.rs\<close>: the health counters. They are \<open>u64\<close> and \<open>u32\<close> words; the plain
  \<open>+= 1\<close> wraps, the failure and gap counters saturate. The lemmas show that the recorded success time
  never moves back and that the gap counter is the saturated sum of the whole seconds skipped.
\<close>

record health_snapshot =
  h_cycles_total :: u64
  h_cycles_succeeded :: u64
  h_ble_discover_failures_total :: u64
  h_ble_connect_failures_total :: u64
  h_ble_session_failures_total :: u64
  h_protocol_errors_total :: u64
  h_samples_dropped_total :: u64
  h_deliveries_succeeded_total :: u64
  h_deliveries_failed_total :: u64
  h_spool_dropped_total :: u64
  h_energy_gap_skipped_seconds :: u64
  h_consecutive_failures :: u32
  h_last_success :: "system_time option"

definition health_new :: health_snapshot where
  "health_new =
     \<lparr>h_cycles_total = 0, h_cycles_succeeded = 0, h_ble_discover_failures_total = 0,
      h_ble_connect_failures_total = 0, h_ble_session_failures_total = 0, h_protocol_errors_total = 0,
      h_samples_dropped_total = 0, h_deliveries_succeeded_total = 0, h_deliveries_failed_total = 0,
      h_spool_dropped_total = 0, h_energy_gap_skipped_seconds = 0, h_consecutive_failures = 0,
      h_last_success = None\<rparr>"

definition set_last_success :: "system_time \<Rightarrow> health_snapshot \<Rightarrow> health_snapshot" where
  "set_last_success t h =
     (if (case h_last_success h of None \<Rightarrow> True | Some c \<Rightarrow> t > c)
      then h\<lparr>h_last_success := Some t\<rparr> else h)"

definition record_cycle :: "bool \<Rightarrow> health_snapshot \<Rightarrow> health_snapshot" where
  "record_cycle ok h0 =
     (let h = h0\<lparr>h_cycles_total := h_cycles_total h0 + 1\<rparr> in
      if ok then h\<lparr>h_cycles_succeeded := h_cycles_succeeded h + 1, h_consecutive_failures := 0\<rparr>
      else h\<lparr>h_consecutive_failures := sat_add (h_consecutive_failures h) 1\<rparr>)"

definition record_ble_discover_failure :: "health_snapshot \<Rightarrow> health_snapshot" where
  "record_ble_discover_failure h = h\<lparr>h_ble_discover_failures_total := h_ble_discover_failures_total h + 1\<rparr>"

definition record_ble_connect_failure :: "health_snapshot \<Rightarrow> health_snapshot" where
  "record_ble_connect_failure h = h\<lparr>h_ble_connect_failures_total := h_ble_connect_failures_total h + 1\<rparr>"

definition record_ble_session_failure :: "health_snapshot \<Rightarrow> health_snapshot" where
  "record_ble_session_failure h = h\<lparr>h_ble_session_failures_total := h_ble_session_failures_total h + 1\<rparr>"

definition record_protocol_error :: "health_snapshot \<Rightarrow> health_snapshot" where
  "record_protocol_error h = h\<lparr>h_protocol_errors_total := h_protocol_errors_total h + 1\<rparr>"

definition record_sample_dropped :: "health_snapshot \<Rightarrow> health_snapshot" where
  "record_sample_dropped h = h\<lparr>h_samples_dropped_total := h_samples_dropped_total h + 1\<rparr>"

definition record_delivery :: "bool \<Rightarrow> health_snapshot \<Rightarrow> health_snapshot" where
  "record_delivery ok h =
     (if ok then h\<lparr>h_deliveries_succeeded_total := h_deliveries_succeeded_total h + 1\<rparr>
      else h\<lparr>h_deliveries_failed_total := h_deliveries_failed_total h + 1\<rparr>)"

definition record_spool_dropped :: "health_snapshot \<Rightarrow> health_snapshot" where
  "record_spool_dropped h = h\<lparr>h_spool_dropped_total := h_spool_dropped_total h + 1\<rparr>"

text \<open>\<open>Duration::as_secs\<close> of a duration in nanoseconds; it fits \<open>u64\<close>.\<close>

definition as_secs :: "duration \<Rightarrow> u64" where
  "as_secs d = of_nat (d div 1000000000)"

definition record_energy_gap :: "duration \<Rightarrow> health_snapshot \<Rightarrow> health_snapshot" where
  "record_energy_gap gap h =
     h\<lparr>h_energy_gap_skipped_seconds := sat_add (h_energy_gap_skipped_seconds h) (as_secs gap)\<rparr>"

section \<open>Lemmas\<close>

definition not_before :: "system_time option \<Rightarrow> system_time option \<Rightarrow> bool" where
  "not_before a b \<longleftrightarrow> (case a of None \<Rightarrow> True | Some x \<Rightarrow> (case b of None \<Rightarrow> False | Some y \<Rightarrow> x \<le> y))"

lemma set_last_success_max:
  "h_last_success (set_last_success t h)
    = Some (case h_last_success h of None \<Rightarrow> t | Some c \<Rightarrow> max c t)"
  by (auto simp: set_last_success_def split: option.splits)

lemma set_last_success_monotone: "not_before (h_last_success h) (h_last_success (set_last_success t h))"
  by (auto simp: not_before_def set_last_success_def split: option.splits)

lemma unat_as_secs: "d \<le> DURATION_MAX \<Longrightarrow> unat (as_secs d) = d div 1000000000"
proof -
  assume "d \<le> DURATION_MAX"
  then have "d div 1000000000 < 2 ^ 64" by (simp add: DURATION_MAX_def)
  then show ?thesis unfolding as_secs_def by (subst unsigned_of_nat) (simp add: take_bit_nat_eq_self)
qed

lemma energy_gap_accumulates:
  "list_all (\<lambda>g. g \<le> DURATION_MAX) gaps \<Longrightarrow>
   unat (h_energy_gap_skipped_seconds (fold record_energy_gap gaps h))
    = min (unat (h_energy_gap_skipped_seconds h) + sum_list (map (\<lambda>g. g div 1000000000) gaps)) (2 ^ 64 - 1)"
proof (induction gaps arbitrary: h)
  case Nil
  show ?case using unsigned_less [of "h_energy_gap_skipped_seconds h", where ?'a = nat] by simp
next
  case (Cons g gaps)
  then show ?case
    by (simp add: record_energy_gap_def unat_sat_add unat_as_secs)
qed

lemma consecutive_failures_after:
  "unat (h_consecutive_failures (fold record_cycle (True # replicate n False) h)) = min n (2 ^ 32 - 1)"
proof -
  have "unat (h_consecutive_failures (fold record_cycle (replicate n False) g))
      = min (unat (h_consecutive_failures g) + n) (2 ^ 32 - 1)" for g
  proof (induction n arbitrary: g)
    case 0
    show ?case using unsigned_less [of "h_consecutive_failures g", where ?'a = nat] by simp
  next
    case (Suc n)
    then show ?case by (simp add: record_cycle_def unat_sat_add)
  qed
  then show ?thesis by (simp add: record_cycle_def)
qed

section \<open>Properties\<close>

text \<open>The skipped seconds are the sum of the recorded gaps and the failure streak counts the
  failures since the last success, both saturating and never wrapping; the last success never moves
  back.\<close>

theorem health_counters:
  "unat (h_consecutive_failures (fold record_cycle (True # replicate n False) h)) = min n (2 ^ 32 - 1)
   \<and> (let gaps = filter (\<lambda>g. g \<le> DURATION_MAX) gs in
      unat (h_energy_gap_skipped_seconds (fold record_energy_gap gaps h))
        = min (unat (h_energy_gap_skipped_seconds h) + sum_list (map (\<lambda>g. g div 1000000000) gaps)) (2 ^ 64 - 1))
   \<and> not_before (h_last_success h) (h_last_success (set_last_success t h))"
  using consecutive_failures_after [of n h] energy_gap_accumulates [of "filter (\<lambda>g. g \<le> DURATION_MAX) gs" h]
    set_last_success_monotone [of h t]
  by (simp add: list_all_iff)

end
