(* ===== verification/Storage_Db.thy ===== *)
theory Storage_Db
  imports Prelude Float64 "HOL-Library.AList" "HOL-Library.Char_ord" "HOL-Library.List_Lexorder"
begin

text \<open>
  \<open>victron-storage\<close>, \<open>lib.rs\<close> and \<open>database.rs\<close>: configuration and its validation, the error type,
  the tables of the schema, transactions, migrations and the key/value state.

  A table is a list of rows in insertion order; an SQL statement of the source is the list operation
  it denotes, with the \<open>CHECK\<close>, \<open>NOT NULL\<close> and \<open>PRIMARY KEY\<close> constraints of the schema as failures.
  SQLite may refuse any statement (busy, disk full): \<open>faults\<close> is a parameter that says which, and
  every theorem holds for all its values. A transaction that fails anywhere leaves the tables as
  they were (SQLite's rollback). Times are \<open>i64\<close> milliseconds.
\<close>

section \<open>Errors and configuration\<close>

datatype storage_error =
    Sqlite string
  | DatabaseTooNew int int
  | InvalidArgument string
  | Inconsistent string
  | EnergyAnchorConflict

datatype journal_mode = Conservative | Wal

datatype synchronous_mode = SyncOff | SyncNormal | SyncFull | SyncExtra

definition synchronous_from_i64 :: "int \<Rightarrow> synchronous_mode" where
  "synchronous_from_i64 v =
     (if v = 0 then SyncOff else if v = 1 then SyncNormal else if v = 3 then SyncExtra else SyncFull)"

record storage_config =
  journal :: journal_mode
  busy_timeout_ms :: u32
  max_spool_attempts :: u32
  spool_inflight_ms :: int
  spool_retry_base_ms :: int
  spool_retry_max_ms :: int
  max_spool_batches :: u64
  max_spool_age_ms :: int
  energy_gap_threshold_ms :: int
  energy_min_power_watts :: f64
  energy_max_power_watts :: "f64 option"

definition conservative :: storage_config where
  "conservative =
     \<lparr>journal = Conservative, busy_timeout_ms = 5000, max_spool_attempts = 5, spool_inflight_ms = 60000,
      spool_retry_base_ms = 30000, spool_retry_max_ms = 1800000, max_spool_batches = 10000,
      max_spool_age_ms = 604800000, energy_gap_threshold_ms = 300000,
      energy_min_power_watts = f64_lit 0, energy_max_power_watts = Some (f64_lit 30000)\<rparr>"

definition wal_config :: storage_config where
  "wal_config = conservative\<lparr>journal := Wal\<rparr>"

definition storage_validate :: "storage_config \<Rightarrow> storage_error + unit" where
  "storage_validate c =
     (if max_spool_attempts c = 0 then Inl (InvalidArgument ''max_spool_attempts must be >= 1'')
      else if spool_inflight_ms c \<le> 0 \<or> spool_retry_base_ms c \<le> 0 \<or> spool_retry_max_ms c \<le> 0
      then Inl (InvalidArgument ''spool retry delays must be > 0'')
      else if spool_retry_max_ms c < spool_retry_base_ms c
      then Inl (InvalidArgument ''spool_retry_max_ms must be >= spool_retry_base_ms'')
      else if max_spool_batches c = 0 then Inl (InvalidArgument ''max_spool_batches must be >= 1'')
      else if uint (max_spool_batches c) > i64_max
      then Inl (InvalidArgument ''max_spool_batches must fit in a SQLite INTEGER'')
      else if max_spool_age_ms c \<le> 0 then Inl (InvalidArgument ''max_spool_age_ms must be > 0'')
      else if energy_gap_threshold_ms c \<le> 0
      then Inl (InvalidArgument ''energy_gap_threshold_ms must be > 0'')
      else if \<not> f64_is_finite (energy_min_power_watts c)
        \<or> (case energy_max_power_watts c of None \<Rightarrow> False
           | Some m \<Rightarrow> \<not> f64_is_finite m \<or> f64_le m (energy_min_power_watts c))
      then Inl (InvalidArgument ''energy power bounds must be finite and min < max'')
      else Inr ())"

lemma conservative_valid: "storage_validate conservative = Inr ()" "storage_validate wal_config = Inr ()"
proof -
  have "f64_lit 0 = F64_Fin 0" "f64_lit 30000 = F64_Fin 30000"
    using f64_of_int_small [of 0] f64_of_int_small [of 30000] by (simp_all add: f64_of_int_def)
  then show "storage_validate conservative = Inr ()" "storage_validate wal_config = Inr ()"
    by (simp_all add: storage_validate_def conservative_def wal_config_def i64_max_def f64_le_finite)
qed

section \<open>Tables\<close>

record kv_row =
  kv_value :: string
  kv_updated_at_ms :: int

record spool_row =
  sr_id :: int
  sr_device :: string
  sr_created_at_ms :: int
  sr_payload :: bytes
  sr_attempts :: int
  sr_next_attempt_at_ms :: int

record energy_row =
  er_total_kwh :: f64
  er_last_power_watts :: "f64 option"
  er_last_sample_at_ms :: "int option"
  er_updated_at_ms :: int

text \<open>\<open>db_seq\<close> is the \<open>AUTOINCREMENT\<close> counter of \<open>spool_batch\<close>.\<close>

record db =
  db_kv :: "(string \<times> kv_row) list"
  db_spool :: "spool_row list"
  db_seq :: int
  db_energy :: "(string \<times> energy_row) list"

definition empty_db :: db where
  "empty_db = \<lparr>db_kv = [], db_spool = [], db_seq = 0, db_energy = []\<rparr>"

text \<open>The \<open>CHECK\<close> constraints of the schema.\<close>

definition kv_check :: "kv_row \<Rightarrow> bool" where
  "kv_check r = (kv_updated_at_ms r > 0)"

definition spool_check :: "spool_row \<Rightarrow> bool" where
  "spool_check r = (sr_created_at_ms r > 0 \<and> length (sr_payload r) > 0 \<and> sr_attempts r \<ge> 0
     \<and> sr_next_attempt_at_ms r \<ge> 0)"

definition energy_check :: "energy_row \<Rightarrow> bool" where
  "energy_check r = (f64_le (f64_lit 0) (er_total_kwh r) \<and> f64_le (er_total_kwh r) (f64_lit 1000000000)
     \<and> er_updated_at_ms r > 0)"

section \<open>Statements and transactions\<close>

text \<open>\<open>begin_fault\<close>, \<open>commit_fault\<close>: the transaction's start or end fails; \<open>stmt_fault k\<close>: the
  \<open>k\<close>-th statement fails.\<close>

record faults =
  begin_fault :: "string option"
  stmt_fault :: "nat \<Rightarrow> string option"
  commit_fault :: "string option"

definition no_faults :: faults where
  "no_faults = \<lparr>begin_fault = None, stmt_fault = (\<lambda>_. None), commit_fault = None\<rparr>"

definition stmt :: "faults \<Rightarrow> nat \<Rightarrow> 'a \<Rightarrow> storage_error + 'a" where
  "stmt io k x = (case stmt_fault io k of Some e \<Rightarrow> Inl (Sqlite e) | None \<Rightarrow> Inr x)"

definition constrained :: "bool \<Rightarrow> string \<Rightarrow> 'a \<Rightarrow> storage_error + 'a" where
  "constrained ok table x = (if ok then Inr x else Inl (Sqlite (''CHECK constraint failed: '' @ table)))"

text \<open>
  \<open>immediate io body db\<close>: \<open>BEGIN IMMEDIATE\<close>, the body, \<open>COMMIT\<close>; a failure anywhere rolls back. The
  body's value may itself be an error that the code returns after the commit.
\<close>

definition immediate ::
  "faults \<Rightarrow> (db \<Rightarrow> storage_error + ((storage_error + 'a) \<times> db)) \<Rightarrow> db \<Rightarrow> (storage_error + 'a) \<times> db" where
  "immediate io body d =
     (case begin_fault io of
        Some e \<Rightarrow> (Inl (Sqlite e), d)
      | None \<Rightarrow>
          (case body d of
             Inl e \<Rightarrow> (Inl e, d)
           | Inr (r, d') \<Rightarrow>
               (case commit_fault io of
                  Some e \<Rightarrow> (Inl (Sqlite e), d)
                | None \<Rightarrow> (r, d'))))"

lemma stmt_no_faults [simp]: "stmt no_faults k x = Inr x"
  by (simp add: stmt_def no_faults_def)

lemma stmt_Inr [try_simps]: "stmt io k x = Inr y \<longleftrightarrow> stmt_fault io k = None \<and> x = y"
  by (auto simp: stmt_def split: option.splits)

lemma constrained_Inr [try_simps]: "constrained ok t x = Inr y \<longleftrightarrow> ok \<and> x = y"
  by (auto simp: constrained_def)

lemma immediate_no_faults:
  "immediate no_faults body d = (case body d of Inl e \<Rightarrow> (Inl e, d) | Inr (r, d') \<Rightarrow> (r, d'))"
  by (simp add: immediate_def no_faults_def split: sum.splits)

text \<open>Either nothing happened, or the body ran to its end.\<close>

lemma immediate_cases:
  obtains (rolled_back) e where "immediate io body d = (Inl e, d)"
  | (committed) r d' where "body d = Inr (r, d')" "immediate io body d = (r, d')"
  by (cases "begin_fault io"; cases "body d"; cases "commit_fault io") (auto simp: immediate_def)

lemma immediate_Inr:
  "immediate io body d = (Inr x, d') \<Longrightarrow> body d = Inr (Inr x, d')"
  by (rule immediate_cases [of io body d]) auto

text \<open>An invariant that the body keeps is kept by the transaction, whatever fails.\<close>

lemma immediate_invariant:
  "\<lbrakk>I d; \<And>r d'. body d = Inr (r, d') \<Longrightarrow> I d'\<rbrakk> \<Longrightarrow> I (snd (immediate io body d))"
  by (rule immediate_cases [of io body d]) auto

section \<open>Key/value state\<close>

definition get_kv :: "faults \<Rightarrow> nat \<Rightarrow> db \<Rightarrow> string \<Rightarrow> storage_error + string option" where
  "get_kv io k d key = stmt io k (map_option kv_value (map_of (db_kv d) key))"

definition get_kv_i64 :: "faults \<Rightarrow> nat \<Rightarrow> db \<Rightarrow> string \<Rightarrow> storage_error + int option" where
  "get_kv_i64 io k d key =
     try_bind (get_kv io k d key) (\<lambda>v. case v of
       None \<Rightarrow> Inr None
     | Some raw \<Rightarrow>
         (case parse_i64 raw of
            Some i \<Rightarrow> Inr (Some i)
          | None \<Rightarrow> Inl (Inconsistent (''collector_state['' @ key @ ''] is not an integer''))))"

definition set_kv :: "faults \<Rightarrow> nat \<Rightarrow> string \<Rightarrow> string \<Rightarrow> int \<Rightarrow> db \<Rightarrow> storage_error + db" where
  "set_kv io k key val now d =
     (if key = [] then Inl (InvalidArgument ''key must not be empty'')
      else if now \<le> 0 then Inl (InvalidArgument ''now_ms must be > 0'')
      else let row = \<lparr>kv_value = val, kv_updated_at_ms = now\<rparr> in
        try_bind (stmt io k ()) (\<lambda>_.
          constrained (kv_check row) ''collector_state'' (d\<lparr>db_kv := AList.update key row (db_kv d)\<rparr>)))"

definition list_kv :: "faults \<Rightarrow> db \<Rightarrow> storage_error + (string \<times> kv_row) list" where
  "list_kv io d = stmt io 0 (sort_key fst (db_kv d))"

text \<open>\<open>current + 1\<close> on \<open>i64\<close>, which wraps in a release build.\<close>

definition bump_counter :: "faults \<Rightarrow> nat \<Rightarrow> string \<Rightarrow> int \<Rightarrow> db \<Rightarrow> storage_error + db" where
  "bump_counter io k key now d =
     try_bind (get_kv_i64 io k d key) (\<lambda>v.
       set_kv io (k + 1) key (int_to_dec (wrap_i64 ((case v of Some c \<Rightarrow> c | None \<Rightarrow> 0) + 1))) now d)"

definition set_state_i64 :: "faults \<Rightarrow> string \<Rightarrow> int \<Rightarrow> int \<Rightarrow> db \<Rightarrow> (storage_error + unit) \<times> db" where
  "set_state_i64 io key v now d =
     (case set_kv io 0 key (int_to_dec v) now d of Inl e \<Rightarrow> (Inl e, d) | Inr d' \<Rightarrow> (Inr (), d'))"

text \<open>The value of a counter: what a read returns, zero when there is none.\<close>

definition counter :: "string \<Rightarrow> db \<Rightarrow> int" where
  "counter key d = (case get_kv_i64 no_faults 0 d key of Inr (Some i) \<Rightarrow> i | _ \<Rightarrow> 0)"

lemma get_kv_i64_set:
  assumes "in_i64 v" "set_kv io k key (int_to_dec v) now d = Inr d'"
  shows "get_kv_i64 no_faults j d' key' = (if key' = key then Inr (Some v) else get_kv_i64 no_faults j d key')"
  using assms
  by (auto simp: set_kv_def get_kv_i64_def get_kv_def try_simps update_conv' parse_i64_int_to_dec Let_def
      split: if_splits)

lemma set_kv_other: "set_kv io k key val now d = Inr d' \<Longrightarrow>
    db_spool d' = db_spool d \<and> db_seq d' = db_seq d \<and> db_energy d' = db_energy d"
  by (auto simp: set_kv_def try_simps Let_def split: if_splits)

lemma get_kv_i64_range: "get_kv_i64 io k d key = Inr (Some i) \<Longrightarrow> in_i64 i"
  by (auto simp: get_kv_i64_def try_simps parse_i64_def Let_def split: option.splits if_splits)

lemma get_kv_i64_faultless:
  "get_kv_i64 io k d key = Inr v \<Longrightarrow> get_kv_i64 no_faults j d key = Inr v"
  by (auto simp: get_kv_i64_def get_kv_def try_simps)

lemma bump_counter_spec:
  assumes "bump_counter io k key now d = Inr d'"
  shows "counter key d' = wrap_i64 (counter key d + 1) \<and> (\<forall>key'. key' \<noteq> key \<longrightarrow> counter key' d' = counter key' d)
    \<and> db_spool d' = db_spool d \<and> db_seq d' = db_seq d \<and> db_energy d' = db_energy d"
proof -
  from assms obtain v where g: "get_kv_i64 io k d key = Inr v"
    and s: "set_kv io (k + 1) key (int_to_dec (wrap_i64 ((case v of Some c \<Rightarrow> c | None \<Rightarrow> 0) + 1))) now d = Inr d'"
    by (auto simp: bump_counter_def try_simps)
  have "counter key d = (case v of Some c \<Rightarrow> c | None \<Rightarrow> 0)"
    using get_kv_i64_faultless [OF g, of 0] by (simp add: counter_def split: option.splits)
  with get_kv_i64_set [OF wrap_i64_range s] set_kv_other [OF s] show ?thesis
    by (simp add: counter_def)
qed

section \<open>Migrations\<close>

text \<open>
  A database file: its \<open>user_version\<close> and the tables, which exist from version 1 on. Version 2 rebuilds
  \<open>energy_state\<close> under its constraint; a legacy row that violates it fails the migration. (A negative
  version is cast to a huge index by the code and skips every script.)
\<close>

record db_file =
  user_version :: int
  file_db :: db

definition schema_version :: int where
  "schema_version = 2"

definition migration_v1 :: "db \<Rightarrow> storage_error + db" where
  "migration_v1 d = Inr d"

definition migration_v2 :: "db \<Rightarrow> storage_error + db" where
  "migration_v2 d = constrained (list_all (\<lambda>(_, r). energy_check r) (db_energy d)) ''energy_state_v2'' d"

definition migration_step :: "faults \<Rightarrow> int \<Rightarrow> db_file \<Rightarrow> (storage_error + unit) \<times> db_file" where
  "migration_step io target f =
     (case immediate io (\<lambda>d. map_sum id (\<lambda>d'. (Inr (), d')) (if target = 1 then migration_v1 d else migration_v2 d)) (file_db f) of
        (Inr _, d') \<Rightarrow> (Inr (), \<lparr>user_version = target, file_db = d'\<rparr>)
      | (Inl e, _) \<Rightarrow> (Inl e, f))"

definition migrate :: "faults \<Rightarrow> db_file \<Rightarrow> (storage_error + unit) \<times> db_file" where
  "migrate io f =
     (if user_version f > schema_version
      then (Inl (DatabaseTooNew (user_version f) schema_version), f)
      else if user_version f = schema_version then (Inr (), f)
      else if user_version f < 0 then (Inr (), f)
      else if user_version f = 0 then
        (case migration_step io 1 f of
           (Inl e, f') \<Rightarrow> (Inl e, f')
         | (Inr _, f') \<Rightarrow> migration_step io 2 f')
      else migration_step io 2 f)"

lemma migrate_spec:
  assumes "0 \<le> user_version f"
  shows "fst (migrate io f) = Inr () \<Longrightarrow> user_version (snd (migrate io f)) = schema_version
      \<and> file_db (snd (migrate io f)) = file_db f"
    and "user_version f < schema_version \<Longrightarrow> fst (migrate io f) = Inr () \<Longrightarrow>
      list_all (\<lambda>(_, r). energy_check r) (db_energy (file_db f))"
    and "user_version f > schema_version \<Longrightarrow> snd (migrate io f) = f \<and> \<not> is_ok (fst (migrate io f))"
  using assms
  by (auto simp: migrate_def migration_step_def immediate_def migration_v1_def migration_v2_def
      schema_version_def constrained_def split: option.splits if_splits sum.splits prod.splits)

lemma migrate_idempotent: "fst (migrate io f) = Inr () \<Longrightarrow> 0 \<le> user_version f \<Longrightarrow>
    migrate io' (snd (migrate io f)) = (Inr (), snd (migrate io f))"
  using migrate_spec(1) [of f io] by (simp add: migrate_def [of io'])

section \<open>Properties\<close>

text \<open>A migration that succeeds leaves the file at the supported version with its tables
  unchanged, and only over energy rows that the new schema admits; running it again changes nothing. A
  file of a newer version is refused and left as it was.\<close>

theorem migrate_correct:
  assumes "0 \<le> user_version f"
  shows "case migrate io f of
     (Inr _, f') \<Rightarrow> user_version f' = schema_version \<and> file_db f' = file_db f \<and> migrate io' f' = (Inr (), f')
       \<and> (user_version f = schema_version \<or> list_all (\<lambda>(_, r). energy_check r) (db_energy (file_db f)))
   | (Inl e, f') \<Rightarrow> user_version f \<noteq> schema_version \<and> file_db f' = file_db f
       \<and> (user_version f \<le> schema_version \<or> f' = f)"
proof (cases "fst (migrate io f)")
  case (Inr u)
  then have ok: "fst (migrate io f) = Inr ()" by simp
  have le: "user_version f \<le> schema_version"
    using ok migrate_spec(3) [OF assms, of io] by (cases "user_version f > schema_version") auto
  with migrate_spec(1,2) [OF assms, of io] ok migrate_idempotent [OF ok assms, of io'] Inr
  show ?thesis using le by (cases "migrate io f"; cases "user_version f = schema_version") auto
next
  case (Inl e)
  then show ?thesis using assms
    by (auto simp: migrate_def migration_step_def immediate_def migration_v1_def migration_v2_def
      schema_version_def constrained_def split: option.splits if_splits sum.splits prod.splits)
qed

theorem migrate_correct_witness:
  "migrate no_faults \<lparr>user_version = 0, file_db = empty_db\<rparr> = (Inr (), \<lparr>user_version = 2, file_db = empty_db\<rparr>)"
  using migrate_correct [of "\<lparr>user_version = 0, file_db = empty_db\<rparr>" no_faults no_faults]
  by (simp add: migrate_def migration_step_def immediate_no_faults migration_v1_def migration_v2_def
      schema_version_def constrained_def empty_db_def)

end
