(* ===== verification/Spool.thy ===== *)
theory Spool
  imports Storage_Db "HOL-Library.Product_Lexorder"
begin

text \<open>
  \<open>victron-storage\<close>, \<open>spool.rs\<close>: the durable outbound queue. Rows leave it only as delivered, as
  dropped or by pruning. The lemmas give the FIFO choice of a claim, the exclusion of a leased row,
  the attempt budget, the ledger of delivered, dropped and queued batches, the retry delay, and the
  bounds that pruning establishes; they hold for every pattern of SQLite failures.
\<close>

section \<open>Operations\<close>

record spool_batch =
  b_id :: int
  b_device :: string
  b_created_at_ms :: int
  b_payload :: bytes
  b_attempts :: u32
  b_next_attempt_at_ms :: int

datatype retry_outcome = Retried int u32 | Dropped u32

record prune_stats =
  removed :: u64
  remaining :: u64

record spool_stats =
  queued_batches :: u64
  oldest_created_at_ms :: "int option"
  total_attempts :: u64

text \<open>\<open>row.get::<i64>(4)? as u32\<close>.\<close>

definition row_to_batch :: "spool_row \<Rightarrow> spool_batch" where
  "row_to_batch r =
     \<lparr>b_id = sr_id r, b_device = sr_device r, b_created_at_ms = sr_created_at_ms r,
      b_payload = sr_payload r, b_attempts = of_int (sr_attempts r),
      b_next_attempt_at_ms = sr_next_attempt_at_ms r\<rparr>"

text \<open>\<open>INSERT INTO spool_batch\<close>; the id is the next of the \<open>AUTOINCREMENT\<close> sequence.\<close>

definition spool_insert :: "faults \<Rightarrow> nat \<Rightarrow> string \<Rightarrow> bytes \<Rightarrow> int \<Rightarrow> db \<Rightarrow> storage_error + int \<times> db" where
  "spool_insert io k device payload now d =
     try_bind (stmt io k ()) (\<lambda>_.
       if db_seq d \<ge> i64_max then Inl (Sqlite ''database or disk is full'')
       else let row = \<lparr>sr_id = db_seq d + 1, sr_device = device, sr_created_at_ms = now, sr_payload = payload,
                       sr_attempts = 0, sr_next_attempt_at_ms = now\<rparr> in
         constrained (spool_check row) ''spool_batch''
           (sr_id row, d\<lparr>db_spool := db_spool d @ [row], db_seq := db_seq d + 1\<rparr>))"

definition enqueue :: "faults \<Rightarrow> nat \<Rightarrow> string \<Rightarrow> bytes \<Rightarrow> int \<Rightarrow> db \<Rightarrow> storage_error + int \<times> db" where
  "enqueue io k device payload now d =
     (if device = [] then Inl (InvalidArgument ''device must not be empty'')
      else if payload = [] then Inl (InvalidArgument ''payload must not be empty'')
      else if now \<le> 0 then Inl (InvalidArgument ''now_ms must be > 0'')
      else spool_insert io k device payload now d)"

text \<open>\<open>Storage::enqueue_batch\<close>, in autocommit mode.\<close>

definition enqueue_batch :: "faults \<Rightarrow> string \<Rightarrow> bytes \<Rightarrow> int \<Rightarrow> db \<Rightarrow> (storage_error + int) \<times> db" where
  "enqueue_batch io device payload now d =
     (case enqueue io 0 device payload now d of Inl e \<Rightarrow> (Inl e, d) | Inr (i, d') \<Rightarrow> (Inr i, d'))"

text \<open>\<open>SELECT_READY\<close>: \<open>ORDER BY created_at_ms, id LIMIT 1\<close>.\<close>

definition fifo_key :: "spool_row \<Rightarrow> int \<times> int" where
  "fifo_key r = (sr_created_at_ms r, sr_id r)"

definition ready :: "int \<Rightarrow> u32 \<Rightarrow> spool_row \<Rightarrow> bool" where
  "ready now max_attempts r = (sr_next_attempt_at_ms r \<le> now \<and> sr_attempts r < uint max_attempts)"

definition select_ready :: "int \<Rightarrow> u32 \<Rightarrow> spool_row list \<Rightarrow> spool_row option" where
  "select_ready now max_attempts rows =
     (case sort_key fifo_key (filter (ready now max_attempts) rows) of [] \<Rightarrow> None | r # _ \<Rightarrow> Some r)"

definition peek_oldest :: "faults \<Rightarrow> int \<Rightarrow> u32 \<Rightarrow> db \<Rightarrow> storage_error + spool_batch option" where
  "peek_oldest io now max_attempts d =
     stmt io 0 (map_option row_to_batch (select_ready now max_attempts (db_spool d)))"

text \<open>\<open>UPDATE spool_batch SET .. WHERE p\<close>, with the number of rows it changed; \<open>DELETE .. WHERE p\<close>.\<close>

definition spool_update :: "(spool_row \<Rightarrow> bool) \<Rightarrow> (spool_row \<Rightarrow> spool_row) \<Rightarrow> db \<Rightarrow> storage_error + nat \<times> db" where
  "spool_update p f d =
     constrained (list_all (\<lambda>r. p r \<longrightarrow> spool_check (f r)) (db_spool d)) ''spool_batch''
       (length (filter p (db_spool d)), d\<lparr>db_spool := map (\<lambda>r. if p r then f r else r) (db_spool d)\<rparr>)"

definition spool_delete :: "(spool_row \<Rightarrow> bool) \<Rightarrow> db \<Rightarrow> nat \<times> db" where
  "spool_delete p d =
     (length (filter p (db_spool d)), d\<lparr>db_spool := filter (\<lambda>r. \<not> p r) (db_spool d)\<rparr>)"

definition claim_body ::
  "faults \<Rightarrow> int \<Rightarrow> storage_config \<Rightarrow> db \<Rightarrow> storage_error + ((storage_error + spool_batch option) \<times> db)" where
  "claim_body io now cfg d =
     try_bind (stmt io 0 (select_ready now (max_spool_attempts cfg) (db_spool d))) (\<lambda>candidate.
       case candidate of
         None \<Rightarrow> Inr (Inr None, d)
       | Some r \<Rightarrow>
           (let batch = row_to_batch r; next_attempt = wrap_i64 (now + spool_inflight_ms cfg) in
            try_bind (stmt io 1 ()) (\<lambda>_.
              try_bind (spool_update (\<lambda>q. sr_id q = b_id batch \<and> sr_attempts q < uint (max_spool_attempts cfg))
                          (\<lambda>q. q\<lparr>sr_attempts := sr_attempts q + 1, sr_next_attempt_at_ms := next_attempt\<rparr>) d)
                (\<lambda>(changed, d').
                  if changed = 0 then Inr (Inr None, d')
                  else Inr (Inr (Some (batch\<lparr>b_attempts := b_attempts batch + 1,
                                             b_next_attempt_at_ms := next_attempt\<rparr>)), d')))))"

definition claim_oldest :: "faults \<Rightarrow> int \<Rightarrow> storage_config \<Rightarrow> db \<Rightarrow> (storage_error + spool_batch option) \<times> db" where
  "claim_oldest io now cfg d = immediate io (claim_body io now cfg) d"

definition remove_body :: "faults \<Rightarrow> string \<Rightarrow> int \<Rightarrow> int \<Rightarrow> db \<Rightarrow> storage_error + ((storage_error + bool) \<times> db)" where
  "remove_body io counter_key i now d =
     try_bind (stmt io 0 (spool_delete (\<lambda>r. sr_id r = i) d)) (\<lambda>(changed, d').
       if changed > 0
       then try_bind (bump_counter io 1 counter_key now d') (\<lambda>d''. Inr (Inr True, d''))
       else Inr (Inr False, d'))"

definition mark_delivered :: "faults \<Rightarrow> int \<Rightarrow> int \<Rightarrow> db \<Rightarrow> (storage_error + bool) \<times> db" where
  "mark_delivered io i now d = immediate io (remove_body io ''spool.delivered_total'' i now) d"

definition drop_batch :: "faults \<Rightarrow> int \<Rightarrow> int \<Rightarrow> db \<Rightarrow> (storage_error + bool) \<times> db" where
  "drop_batch io i now d = immediate io (remove_body io ''spool.dropped_total'' i now) d"

text \<open>\<open>base * 2^(attempts - 1)\<close>, saturating, with the exponent at most 20, capped.\<close>

definition retry_delay :: "storage_config \<Rightarrow> u32 \<Rightarrow> int" where
  "retry_delay cfg attempts =
     (let e = min (unat attempts - 1) 20 in
      min (sat_i64 (spool_retry_base_ms cfg * 2 ^ e)) (spool_retry_max_ms cfg))"

definition retry_body ::
  "faults \<Rightarrow> int \<Rightarrow> int \<Rightarrow> storage_config \<Rightarrow> db \<Rightarrow> storage_error + ((storage_error + retry_outcome) \<times> db)" where
  "retry_body io i now cfg d =
     try_bind (stmt io 0 (List.find (\<lambda>r. sr_id r = i) (db_spool d))) (\<lambda>row.
       case row of
         None \<Rightarrow> Inr (Inl (Inconsistent (''spool batch '' @ int_to_dec i
                        @ '' not found for retry (already delivered or pruned)'')), d)
       | Some r \<Rightarrow>
           (let attempts = of_int (sr_attempts r) in
            if attempts \<ge> max_spool_attempts cfg then
              try_bind (stmt io 1 (snd (spool_delete (\<lambda>r. sr_id r = i) d))) (\<lambda>d'.
                try_bind (bump_counter io 2 ''spool.dropped_total'' now d') (\<lambda>d''.
                  Inr (Inr (Dropped attempts), d'')))
            else
              (let nxt = sat_i64 (now + retry_delay cfg attempts) in
               try_bind (stmt io 1 ()) (\<lambda>_.
                 try_bind (spool_update (\<lambda>q. sr_id q = i) (\<lambda>q. q\<lparr>sr_next_attempt_at_ms := nxt\<rparr>) d)
                   (\<lambda>(changed, d'). Inr (Inr (Retried nxt attempts), d'))))))"

definition record_retry :: "faults \<Rightarrow> int \<Rightarrow> int \<Rightarrow> storage_config \<Rightarrow> db \<Rightarrow> (storage_error + retry_outcome) \<times> db" where
  "record_retry io i now cfg d = immediate io (retry_body io i now cfg) d"

text \<open>The rows that \<open>ORDER BY created_at_ms DESC, id DESC LIMIT -1 OFFSET n\<close> selects; a negative offset
  counts as zero.\<close>

definition beyond_newest :: "int \<Rightarrow> spool_row list \<Rightarrow> spool_row list" where
  "beyond_newest n rows = drop (nat n) (rev (sort_key fifo_key rows))"

definition prune_body :: "faults \<Rightarrow> int \<Rightarrow> storage_config \<Rightarrow> db \<Rightarrow> storage_error + ((storage_error + prune_stats) \<times> db)" where
  "prune_body io now cfg d0 =
     (let age_cutoff = sat_i64 (now - max_spool_age_ms cfg) in
      try_bind (stmt io 0 (spool_delete (\<lambda>r. sr_created_at_ms r < age_cutoff) d0)) (\<lambda>(n1, d1).
      try_bind (stmt io 1 (spool_delete (\<lambda>r. sr_attempts r \<ge> uint (max_spool_attempts cfg)) d1)) (\<lambda>(n2, d2).
      try_bind (stmt io 2 (spool_delete
          (\<lambda>r. sr_id r \<in> sr_id ` set (beyond_newest (sint (max_spool_batches cfg)) (db_spool d2))) d2)) (\<lambda>(n3, d3).
      try_bind (stmt io 3 (length (db_spool d3))) (\<lambda>left.
        Inr (Inr \<lparr>removed = of_nat n1 + of_nat n2 + of_nat n3, remaining = of_nat left\<rparr>, d3))))))"

definition prune :: "faults \<Rightarrow> int \<Rightarrow> storage_config \<Rightarrow> db \<Rightarrow> (storage_error + prune_stats) \<times> db" where
  "prune io now cfg d = immediate io (prune_body io now cfg) d"

definition stats :: "faults \<Rightarrow> db \<Rightarrow> storage_error + spool_stats" where
  "stats io d =
     try_bind (stmt io 0 (length (db_spool d))) (\<lambda>queued.
     try_bind (stmt io 1 (case map sr_created_at_ms (db_spool d) of [] \<Rightarrow> None | c # cs \<Rightarrow> Some (fold min cs c))) (\<lambda>oldest.
     try_bind (stmt io 2 (sum_list (map sr_attempts (db_spool d)))) (\<lambda>total.
       Inr \<lparr>queued_batches = of_nat queued, oldest_created_at_ms = oldest, total_attempts = of_int total\<rparr>)))"

section \<open>The invariant\<close>

text \<open>Row ids are distinct and at most the sequence number, the \<open>CHECK\<close>s hold, and no row has used more
  than its attempts.\<close>

definition spool_inv :: "storage_config \<Rightarrow> db \<Rightarrow> bool" where
  "spool_inv cfg d \<longleftrightarrow> distinct (map sr_id (db_spool d)) \<and> 0 \<le> db_seq d
     \<and> (\<forall>r \<in> set (db_spool d). 0 < sr_id r \<and> sr_id r \<le> db_seq d \<and> spool_check r
          \<and> sr_attempts r \<le> uint (max_spool_attempts cfg))"

lemma spool_inv_empty: "spool_inv cfg empty_db"
  by (simp add: spool_inv_def empty_db_def)

lemma spool_inv_delete: "spool_inv cfg d \<Longrightarrow> spool_inv cfg (snd (spool_delete p d))"
  by (auto simp: spool_inv_def spool_delete_def distinct_map_filter)

lemma spool_inv_same: "spool_inv cfg d \<Longrightarrow> db_spool d' = db_spool d \<Longrightarrow> db_seq d' = db_seq d \<Longrightarrow> spool_inv cfg d'"
  by (simp add: spool_inv_def)

lemma spool_inv_update:
  assumes "spool_inv cfg d" "spool_update p f d = Inr (n, d')"
    and "\<And>r. r \<in> set (db_spool d) \<Longrightarrow> p r \<Longrightarrow> sr_id (f r) = sr_id r \<and> sr_attempts (f r) \<le> uint (max_spool_attempts cfg)"
  shows "spool_inv cfg d'"
proof -
  from assms(2) have d': "d' = d\<lparr>db_spool := map (\<lambda>r. if p r then f r else r) (db_spool d)\<rparr>"
    and chk: "list_all (\<lambda>r. p r \<longrightarrow> spool_check (f r)) (db_spool d)"
    by (auto simp: spool_update_def try_simps)
  have "map sr_id (db_spool d') = map sr_id (db_spool d)"
    using assms(3) by (auto simp: d')
  then have "distinct (map sr_id (db_spool d'))" using assms(1) by (simp add: spool_inv_def)
  moreover have "0 < sr_id r \<and> sr_id r \<le> db_seq d' \<and> spool_check r \<and> sr_attempts r \<le> uint (max_spool_attempts cfg)"
    if r: "r \<in> set (db_spool d')" for r
  proof -
    from r obtain q where q: "q \<in> set (db_spool d)" "r = (if p q then f q else q)" by (auto simp: d')
    with assms(1) have "0 < sr_id q \<and> sr_id q \<le> db_seq d \<and> spool_check q \<and> sr_attempts q \<le> uint (max_spool_attempts cfg)"
      by (simp add: spool_inv_def)
    moreover have "p q \<Longrightarrow> spool_check (f q)" using chk q(1) by (simp add: list_all_iff)
    ultimately show ?thesis using assms(3) [OF q(1)] q(2) by (simp add: d')
  qed
  ultimately show ?thesis using assms(1) by (simp add: spool_inv_def d')
qed

lemma spool_inv_enqueue:
  assumes "spool_inv cfg d" "enqueue io k device payload now d = Inr (i, d')"
  shows "spool_inv cfg d'"
proof -
  from assms(2) obtain row where
    d': "d' = d\<lparr>db_spool := db_spool d @ [row], db_seq := db_seq d + 1\<rparr>" and
    row: "sr_id row = db_seq d + 1" "spool_check row" "sr_attempts row = 0"
    by (auto simp: enqueue_def spool_insert_def try_simps Let_def split: if_splits)
  have "sr_id r \<noteq> sr_id row" if "r \<in> set (db_spool d)" for r
    using assms(1) that row(1) by (fastforce simp: spool_inv_def)
  with assms(1) row show ?thesis by (fastforce simp: spool_inv_def d')
qed

text \<open>A claim either finds nothing, or takes the row that \<open>SELECT_READY\<close> gives.\<close>

lemma claim_body_cases:
  assumes "claim_body io now cfg d = Inr (r, d')"
  obtains (none) "select_ready now (max_spool_attempts cfg) (db_spool d) = None" "r = Inr None" "d' = d"
  | (some) row n where "select_ready now (max_spool_attempts cfg) (db_spool d) = Some row"
      "spool_update (\<lambda>q. sr_id q = sr_id row \<and> sr_attempts q < uint (max_spool_attempts cfg))
         (\<lambda>q. q\<lparr>sr_attempts := sr_attempts q + 1,
                sr_next_attempt_at_ms := wrap_i64 (now + spool_inflight_ms cfg)\<rparr>) d = Inr (n, d')"
      "r = Inr (if n = 0 then None else Some ((row_to_batch row)
         \<lparr>b_attempts := b_attempts (row_to_batch row) + 1,
          b_next_attempt_at_ms := wrap_i64 (now + spool_inflight_ms cfg)\<rparr>))"
proof (cases "select_ready now (max_spool_attempts cfg) (db_spool d)")
  case None
  with assms have "r = Inr None \<and> d' = d"
    by (cases "stmt_fault io 0") (auto simp: claim_body_def stmt_def)
  with none [OF None] show ?thesis by blast
next
  case (Some row)
  let ?next = "wrap_i64 (now + spool_inflight_ms cfg)"
  let ?P = "\<lambda>q. sr_id q = sr_id row \<and> sr_attempts q < uint (max_spool_attempts cfg)"
  let ?F = "\<lambda>q. q\<lparr>sr_attempts := sr_attempts q + 1, sr_next_attempt_at_ms := ?next\<rparr>"
  have id: "b_id (row_to_batch row) = sr_id row" by (simp add: row_to_batch_def)
  from assms obtain n d1 where u: "spool_update ?P ?F d = Inr (n, d1)"
    and r: "(if n = 0 then Inr (Inr None, d1) else Inr (Inr (Some ((row_to_batch row)
         \<lparr>b_attempts := b_attempts (row_to_batch row) + 1, b_next_attempt_at_ms := ?next\<rparr>)), d1) :: storage_error + _) = Inr (r, d')"
    unfolding claim_body_def Some Let_def id by (cases "stmt_fault io 0"; cases "stmt_fault io 1"; cases "spool_update ?P ?F d")
      (auto simp: stmt_def id)
  from r have "d1 = d'" by (simp split: if_splits)
  moreover from r have "r = Inr (if n = 0 then None else Some ((row_to_batch row)
         \<lparr>b_attempts := b_attempts (row_to_batch row) + 1, b_next_attempt_at_ms := ?next\<rparr>))"
    by (simp split: if_splits)
  ultimately show ?thesis using some [OF Some] u by blast
qed

lemma claim_body_inv:
  assumes "spool_inv cfg d" "claim_body io now cfg d = Inr (r, d')"
  shows "spool_inv cfg d'"
  using assms(2)
proof (cases rule: claim_body_cases)
  case none
  with assms(1) show ?thesis by simp
next
  case (some row n)
  from spool_inv_update [OF assms(1) some(2)] show ?thesis by simp
qed

lemma remove_body_inv:
  assumes "spool_inv cfg d" "remove_body io key i now d = Inr (r, d')"
  shows "spool_inv cfg d'"
proof -
  let ?e = "snd (spool_delete (\<lambda>r. sr_id r = i) d)"
  from assms(2) have "d' = ?e \<or> (\<exists>k. bump_counter io k key now ?e = Inr d')"
    by (cases "stmt_fault io 0"; cases "spool_delete (\<lambda>r. sr_id r = i) d")
      (auto simp: remove_body_def stmt_def try_bind_Inr_iff split: if_splits)
  then show ?thesis
  proof (elim disjE exE)
    assume "d' = ?e"
    with spool_inv_delete [OF assms(1)] show ?thesis by simp
  next
    fix k
    assume "bump_counter io k key now ?e = Inr d'"
    from bump_counter_spec [OF this] show ?thesis
      by (auto intro: spool_inv_same [OF spool_inv_delete [OF assms(1)]])
  qed
qed

lemma retry_body_cases:
  assumes "retry_body io i now cfg d = Inr (r, d')"
  obtains (unknown) e where "List.find (\<lambda>r. sr_id r = i) (db_spool d) = None" "r = Inl e" "d' = d"
  | (dropped) row k where "List.find (\<lambda>r. sr_id r = i) (db_spool d) = Some row"
      "max_spool_attempts cfg \<le> of_int (sr_attempts row)" "r = Inr (Dropped (of_int (sr_attempts row)))"
      "bump_counter io k ''spool.dropped_total'' now (snd (spool_delete (\<lambda>r. sr_id r = i) d)) = Inr d'"
  | (retried) row n where "List.find (\<lambda>r. sr_id r = i) (db_spool d) = Some row"
      "\<not> max_spool_attempts cfg \<le> of_int (sr_attempts row)"
      "r = Inr (Retried (sat_i64 (now + retry_delay cfg (of_int (sr_attempts row)))) (of_int (sr_attempts row)))"
      "spool_update (\<lambda>q. sr_id q = i)
         (\<lambda>q. q\<lparr>sr_next_attempt_at_ms := sat_i64 (now + retry_delay cfg (of_int (sr_attempts row)))\<rparr>) d = Inr (n, d')"
proof (cases "List.find (\<lambda>r. sr_id r = i) (db_spool d)")
  case None
  with assms have "(\<exists>e. r = Inl e) \<and> d' = d"
    by (cases "stmt_fault io 0") (auto simp: retry_body_def stmt_def)
  with unknown [OF None] show ?thesis by blast
next
  case (Some row)
  show ?thesis
  proof (cases "max_spool_attempts cfg \<le> of_int (sr_attempts row)")
    case True
    from assms obtain d1 where d1: "d1 = snd (spool_delete (\<lambda>r. sr_id r = i) d)"
      and "try_bind (bump_counter io 2 ''spool.dropped_total'' now d1)
             (\<lambda>d''. Inr (Inr (Dropped (of_int (sr_attempts row))), d'')) = Inr (r, d')"
      unfolding retry_body_def Some Let_def
      by (cases "stmt_fault io 0"; cases "stmt_fault io 1") (simp_all add: stmt_def True)
    then show ?thesis
      by (cases "bump_counter io 2 ''spool.dropped_total'' now d1") (simp_all add: dropped [OF Some True])
  next
    case False
    let ?nxt = "sat_i64 (now + retry_delay cfg (of_int (sr_attempts row)))"
    from assms obtain n d1 where u: "spool_update (\<lambda>q. sr_id q = i) (\<lambda>q. q\<lparr>sr_next_attempt_at_ms := ?nxt\<rparr>) d = Inr (n, d1)"
      and "(Inr (Inr (Retried ?nxt (of_int (sr_attempts row))), d1) :: storage_error + _) = Inr (r, d')"
      unfolding retry_body_def Some Let_def
      by (cases "stmt_fault io 0"; cases "stmt_fault io 1";
          cases "spool_update (\<lambda>q. sr_id q = i) (\<lambda>q. q\<lparr>sr_next_attempt_at_ms := ?nxt\<rparr>) d") (auto simp: stmt_def False)
    then show ?thesis using retried [OF Some False] by simp
  qed
qed

lemma retry_body_inv:
  assumes "spool_inv cfg d" "retry_body io i now cfg d = Inr (r, d')"
  shows "spool_inv cfg d'"
  using assms(2)
proof (cases rule: retry_body_cases)
  case unknown
  with assms(1) show ?thesis by simp
next
  case (dropped row k)
  from spool_inv_delete [OF assms(1)] bump_counter_spec [OF dropped(4)] show ?thesis
    by (auto intro: spool_inv_same)
next
  case (retried row n)
  from spool_inv_update [OF assms(1) retried(4)] assms(1) show ?thesis by (auto simp: spool_inv_def)
qed

lemma prune_body_inv:
  assumes "spool_inv cfg d" "prune_body io now cfg d = Inr (r, d')"
  shows "spool_inv cfg d'"
proof -
  from assms(2) obtain p q s where
    "d' = snd (spool_delete s (snd (spool_delete q (snd (spool_delete p d)))))"
    by (auto simp: prune_body_def try_simps Let_def spool_delete_def)
  with assms(1) show ?thesis by (simp add: spool_inv_delete)
qed

text \<open>Every operation keeps the invariant, whichever statements SQLite refuses.\<close>

lemma spool_operations_inv:
  assumes "spool_inv cfg d"
  shows "spool_inv cfg (snd (enqueue_batch io device payload now d))"
    and "spool_inv cfg (snd (claim_oldest io now cfg d))"
    and "spool_inv cfg (snd (mark_delivered io i now d))"
    and "spool_inv cfg (snd (drop_batch io i now d))"
    and "spool_inv cfg (snd (record_retry io i now cfg d))"
    and "spool_inv cfg (snd (prune io now cfg d))"
proof -
  show "spool_inv cfg (snd (enqueue_batch io device payload now d))"
    using assms spool_inv_enqueue [OF assms] by (auto simp: enqueue_batch_def split: sum.splits prod.splits)
  show "spool_inv cfg (snd (claim_oldest io now cfg d))"
    unfolding claim_oldest_def by (rule immediate_invariant [where I = "spool_inv cfg", OF assms]) (rule claim_body_inv [OF assms])
  show "spool_inv cfg (snd (mark_delivered io i now d))"
    unfolding mark_delivered_def by (rule immediate_invariant [where I = "spool_inv cfg", OF assms]) (rule remove_body_inv [OF assms])
  show "spool_inv cfg (snd (drop_batch io i now d))"
    unfolding drop_batch_def by (rule immediate_invariant [where I = "spool_inv cfg", OF assms]) (rule remove_body_inv [OF assms])
  show "spool_inv cfg (snd (record_retry io i now cfg d))"
    unfolding record_retry_def by (rule immediate_invariant [where I = "spool_inv cfg", OF assms]) (rule retry_body_inv [OF assms])
  show "spool_inv cfg (snd (prune io now cfg d))"
    unfolding prune_def by (rule immediate_invariant [where I = "spool_inv cfg", OF assms]) (rule prune_body_inv [OF assms])
qed

section \<open>Which batch a claim takes\<close>

lemma sort_key_hd:
  assumes "sort_key f xs = r # rs"
  shows "r \<in> set xs \<and> (\<forall>x \<in> set xs. f r \<le> f x)"
proof -
  have "set (r # rs) = set xs" using assms by (metis set_sort)
  moreover have "sorted (map f (r # rs))" using assms by (metis sorted_sort_key)
  ultimately show ?thesis by auto
qed

lemma select_ready_Some:
  assumes "select_ready now m rows = Some r"
  shows "r \<in> set rows \<and> ready now m r \<and> (\<forall>q \<in> set rows. ready now m q \<longrightarrow> fifo_key r \<le> fifo_key q)"
proof -
  from assms obtain rs where "sort_key fifo_key (filter (ready now m) rows) = r # rs"
    by (auto simp: select_ready_def split: list.splits)
  from sort_key_hd [OF this] show ?thesis by auto
qed

lemma select_ready_None: "select_ready now m rows = None \<longleftrightarrow> (\<forall>q \<in> set rows. \<not> ready now m q)"
proof -
  have "set (sort_key fifo_key (filter (ready now m) rows)) = {q \<in> set rows. ready now m q}" by simp
  then show ?thesis by (cases "sort_key fifo_key (filter (ready now m) rows)") (auto simp: select_ready_def)
qed

definition leased :: "storage_config \<Rightarrow> int \<Rightarrow> spool_row \<Rightarrow> spool_row" where
  "leased cfg now r = r\<lparr>sr_attempts := sr_attempts r + 1,
     sr_next_attempt_at_ms := wrap_i64 (now + spool_inflight_ms cfg)\<rparr>"

lemma distinct_ids: "spool_inv cfg d \<Longrightarrow> r \<in> set (db_spool d) \<Longrightarrow> q \<in> set (db_spool d) \<Longrightarrow> sr_id r = sr_id q \<Longrightarrow> r = q"
  by (auto simp: spool_inv_def distinct_map dest: inj_onD)

lemma claim_oldest_some:
  assumes "spool_inv cfg d" "claim_oldest io now cfg d = (Inr (Some b), d')"
  shows "\<exists>row \<in> set (db_spool d). ready now (max_spool_attempts cfg) row
    \<and> (\<forall>q \<in> set (db_spool d). ready now (max_spool_attempts cfg) q \<longrightarrow> fifo_key row \<le> fifo_key q)
    \<and> b = row_to_batch (leased cfg now row)
    \<and> db_spool d' = map (\<lambda>q. if sr_id q = sr_id row then leased cfg now q else q) (db_spool d)"
proof -
  from assms(2) have "claim_body io now cfg d = Inr (Inr (Some b), d')"
    unfolding claim_oldest_def by (rule immediate_Inr)
  then show ?thesis
  proof (cases rule: claim_body_cases)
    case none
    then show ?thesis by simp
  next
    case (some row n)
    note sel = select_ready_Some [OF some(1)]
    have p: "(sr_id q = sr_id row \<and> sr_attempts q < uint (max_spool_attempts cfg)) \<longleftrightarrow> sr_id q = sr_id row"
      if "q \<in> set (db_spool d)" for q
      using distinct_ids [OF assms(1) that, of row] sel by (auto simp: ready_def)
    from some(2) have "db_spool d' = map (\<lambda>q. if sr_id q = sr_id row then leased cfg now q else q) (db_spool d)"
      by (auto simp: spool_update_def constrained_Inr leased_def p intro!: map_cong)
    moreover have "b = row_to_batch (leased cfg now row)"
      using some(3) by (auto simp: row_to_batch_def leased_def split: if_splits)
    ultimately show ?thesis using sel by blast
  qed
qed

lemma claim_oldest_none:
  assumes "claim_oldest no_faults now cfg d = (Inr None, d')" "spool_inv cfg d"
  shows "d' = d \<and> (\<forall>q \<in> set (db_spool d). \<not> ready now (max_spool_attempts cfg) q)"
proof -
  from assms(1) have "claim_body no_faults now cfg d = Inr (Inr None, d')"
    unfolding claim_oldest_def by (rule immediate_Inr)
  then show ?thesis
  proof (cases rule: claim_body_cases)
    case none
    then show ?thesis by (simp add: select_ready_None)
  next
    case (some row n)
    note sel = select_ready_Some [OF some(1)]
    from some(3) have "n = 0" by (auto split: if_splits)
    with some(2) have "filter (\<lambda>q. sr_id q = sr_id row \<and> sr_attempts q < uint (max_spool_attempts cfg)) (db_spool d) = []"
      by (simp add: spool_update_def constrained_Inr)
    with sel show ?thesis by (auto simp: filter_empty_conv ready_def)
  qed
qed

section \<open>The ledger\<close>

lemma filter_id_length:
  assumes "distinct (map sr_id rows)" "r \<in> set rows"
  shows "length (filter (\<lambda>q. sr_id q \<noteq> sr_id r) rows) + 1 = length rows"
  using assms
proof (induction rows)
  case (Cons q rows)
  show ?case
  proof (cases "sr_id q = sr_id r")
    case True
    have "sr_id x \<noteq> sr_id r" if "x \<in> set rows" for x
      using Cons.prems(1) True imageI [OF that, of sr_id] by auto
    then have "filter (\<lambda>q. sr_id q \<noteq> sr_id r) rows = rows" by simp
    with True show ?thesis by simp
  next
    case False
    with Cons show ?thesis by auto
  qed
qed simp

lemma remove_body_ledger:
  assumes "spool_inv cfg d" "remove_body io key i now d = Inr (Inr True, d')"
  shows "counter key d' = wrap_i64 (counter key d + 1) \<and> (\<forall>key'. key' \<noteq> key \<longrightarrow> counter key' d' = counter key' d)
    \<and> db_spool d' = filter (\<lambda>r. sr_id r \<noteq> i) (db_spool d) \<and> length (db_spool d') + 1 = length (db_spool d)"
proof -
  let ?e = "snd (spool_delete (\<lambda>r. sr_id r = i) d)"
  from assms(2) have n: "filter (\<lambda>r. sr_id r = i) (db_spool d) \<noteq> []" and "\<exists>k. bump_counter io k key now ?e = Inr d'"
    by (cases "stmt_fault io 0"; cases "spool_delete (\<lambda>r. sr_id r = i) d";
        auto simp: remove_body_def stmt_def try_bind_Inr_iff spool_delete_def split: if_splits)+
  then obtain k where b: "bump_counter io k key now ?e = Inr d'" by blast
  have c: "counter key' ?e = counter key' d" for key'
    by (simp add: counter_def get_kv_i64_def get_kv_def spool_delete_def)
  from n obtain r where "r \<in> set (db_spool d)" "sr_id r = i" by (auto simp: filter_empty_conv)
  with assms(1) filter_id_length [of "db_spool d" r] have "length (db_spool ?e) + 1 = length (db_spool d)"
    by (simp add: spool_inv_def spool_delete_def)
  moreover have "db_spool ?e = filter (\<lambda>r. sr_id r \<noteq> i) (db_spool d)" by (simp add: spool_delete_def)
  ultimately show ?thesis using bump_counter_spec [OF b] unfolding c by simp
qed

lemma mark_delivered_ledger:
  "spool_inv cfg d \<Longrightarrow> mark_delivered io i now d = (Inr True, d') \<Longrightarrow>
    counter ''spool.delivered_total'' d' = wrap_i64 (counter ''spool.delivered_total'' d + 1)
    \<and> counter ''spool.dropped_total'' d' = counter ''spool.dropped_total'' d
    \<and> length (db_spool d') + 1 = length (db_spool d)"
  using remove_body_ledger [of cfg d io "''spool.delivered_total''" i now d']
  by (auto simp: mark_delivered_def dest!: immediate_Inr)

lemma drop_batch_ledger:
  "spool_inv cfg d \<Longrightarrow> drop_batch io i now d = (Inr True, d') \<Longrightarrow>
    counter ''spool.dropped_total'' d' = wrap_i64 (counter ''spool.dropped_total'' d + 1)
    \<and> counter ''spool.delivered_total'' d' = counter ''spool.delivered_total'' d
    \<and> length (db_spool d') + 1 = length (db_spool d)"
  using remove_body_ledger [of cfg d io "''spool.dropped_total''" i now d']
  by (auto simp: drop_batch_def dest!: immediate_Inr)

section \<open>Retries\<close>

lemma retry_delay_bounds:
  assumes "storage_validate cfg = Inr ()" "in_i64 (spool_retry_base_ms cfg)"
  shows "0 < retry_delay cfg a \<and> retry_delay cfg a \<le> spool_retry_max_ms cfg"
proof -
  from assms(1) have "0 < spool_retry_base_ms cfg" "0 < spool_retry_max_ms cfg"
    by (auto simp: storage_validate_def split: if_splits)
  then have "0 < spool_retry_base_ms cfg * 2 ^ min (unat a - 1) 20" by simp
  then have "0 < sat_i64 (spool_retry_base_ms cfg * 2 ^ min (unat a - 1) 20)"
    by (simp add: sat_i64_def i64_max_def)
  with \<open>0 < spool_retry_max_ms cfg\<close> show ?thesis by (simp add: retry_delay_def Let_def)
qed

lemma retry_delay_mono: "0 < spool_retry_base_ms cfg \<Longrightarrow> a \<le> b \<Longrightarrow> retry_delay cfg a \<le> retry_delay cfg b"
proof -
  assume b: "0 < spool_retry_base_ms cfg" and "a \<le> b"
  then have "min (unat a - 1) 20 \<le> min (unat b - 1) 20" by (simp add: word_le_nat_alt)
  then have "(2 :: int) ^ min (unat a - 1) 20 \<le> 2 ^ min (unat b - 1) 20" by (intro power_increasing) simp_all
  with b have "spool_retry_base_ms cfg * 2 ^ min (unat a - 1) 20 \<le> spool_retry_base_ms cfg * 2 ^ min (unat b - 1) 20"
    by (intro mult_left_mono) simp_all
  from sat_i64_mono [OF this] show ?thesis by (simp add: retry_delay_def Let_def min_le_iff_disj)
qed

section \<open>Pruning\<close>

lemma sorted_newest_first:
  "n \<le> m \<Longrightarrow> r \<in> set (take n (rev (sort_key fifo_key rows))) \<Longrightarrow> q \<in> set (drop m (rev (sort_key fifo_key rows))) \<Longrightarrow>
    fifo_key q \<le> fifo_key r"
proof -
  let ?s = "rev (sort_key fifo_key rows)"
  assume nm: "n \<le> m" and r: "r \<in> set (take n ?s)" and q: "q \<in> set (drop m ?s)"
  have so: "sorted_wrt (\<lambda>x y. fifo_key y \<le> fifo_key x) ?s"
    using sorted_sort_key [of fifo_key rows] by (simp add: sorted_wrt_rev sorted_map)
  from r obtain i where i: "i < n" "i < length ?s" "r = ?s ! i" by (auto simp: in_set_conv_nth)
  from q obtain j where "j < length (drop m ?s)" "q = drop m ?s ! j" by (auto simp only: in_set_conv_nth)
  then have j: "m + j < length ?s" "q = ?s ! (m + j)" by simp_all
  from i j nm sorted_wrt_nth_less [OF so, of i "m + j"] show ?thesis by simp
qed

lemma keep_newest:
  fixes n :: nat
  assumes "distinct (map sr_id rows)"
  defines "s \<equiv> rev (sort_key fifo_key rows)"
  defines "kept \<equiv> filter (\<lambda>r. sr_id r \<notin> sr_id ` set (drop n s)) rows"
  shows "set kept = set (take n s) \<and> length kept = min n (length rows)"
proof -
  have ss: "set s = set rows" by (simp add: s_def)
  have ds: "distinct (map sr_id s)"
    using assms(1) by (simp add: s_def rev_map [symmetric] distinct_map)
  have len: "length s = length rows" by (simp add: s_def)
  have dis: "set (take n (map sr_id s)) \<inter> set (drop n (map sr_id s)) = {}"
    using ds by (metis append_take_drop_id distinct_append)
  have mem: "r \<in> set (take n s) \<or> r \<in> set (drop n s)" if "r \<in> set rows" for r
    using that ss by (metis Un_iff append_take_drop_id set_append)
  have sub: "set (take n s) \<subseteq> set rows" using ss by (metis set_take_subset)
  have set_eq: "set kept = set (take n s)"
  proof
    show "set kept \<subseteq> set (take n s)" using mem by (auto simp: kept_def)
    show "set (take n s) \<subseteq> set kept"
    proof
      fix r assume r: "r \<in> set (take n s)"
      then have "sr_id r \<in> set (take n (map sr_id s))" by (simp add: take_map)
      with dis have "sr_id r \<notin> sr_id ` set (drop n s)" by (auto simp: drop_map)
      with r sub show "r \<in> set kept" by (auto simp: kept_def)
    qed
  qed
  have "distinct kept" using assms(1) by (simp add: kept_def distinct_map)
  then have "length kept = card (set (take n s))" using set_eq by (metis distinct_card)
  also have "\<dots> = length (take n s)" using ds by (simp add: distinct_card distinct_map)
  finally show ?thesis using set_eq len by simp
qed

lemma prune_spec:
  assumes inv: "spool_inv cfg d" and v: "storage_validate cfg = Inr ()"
    and p: "prune io now cfg d = (Inr st, d')"
  shows "set (db_spool d') \<subseteq> set (db_spool d)"
    and "length (db_spool d') \<le> unat (max_spool_batches cfg)"
    and "\<forall>r \<in> set (db_spool d'). sat_i64 (now - max_spool_age_ms cfg) \<le> sr_created_at_ms r
           \<and> sr_attempts r < uint (max_spool_attempts cfg)"
    and "\<forall>r \<in> set (db_spool d'). \<forall>q \<in> set (db_spool d). q \<notin> set (db_spool d')
           \<and> sat_i64 (now - max_spool_age_ms cfg) \<le> sr_created_at_ms q
           \<and> sr_attempts q < uint (max_spool_attempts cfg) \<longrightarrow> fifo_key q \<le> fifo_key r"
proof -
  define alive :: "spool_row \<Rightarrow> bool" where "alive = (\<lambda>r. sat_i64 (now - max_spool_age_ms cfg) \<le> sr_created_at_ms r
      \<and> sr_attempts r < uint (max_spool_attempts cfg))"
  define rows where "rows = filter alive (db_spool d)"
  define n where "n = nat (sint (max_spool_batches cfg))"
  define s where "s = rev (sort_key fifo_key rows)"
  have n: "n = unat (max_spool_batches cfg)"
  proof -
    from v have "uint (max_spool_batches cfg) < 2 ^ 63"
      by (auto simp: storage_validate_def i64_max_def split: if_splits)
    moreover have "- (2 ^ 63) \<le> uint (max_spool_batches cfg)"
      by (rule order_trans [OF _ uint_ge_0]) simp
    ultimately have "sint (max_spool_batches cfg) = uint (max_spool_batches cfg)"
      using signed_take_bit_int_eq_self [of 63 "uint (max_spool_batches cfg)"] by (simp add: sint_uint)
    then show ?thesis by (simp add: n_def)
  qed
  have ff: "filter (\<lambda>r. \<not> uint (max_spool_attempts cfg) \<le> sr_attempts r)
      (filter (\<lambda>r. \<not> sr_created_at_ms r < sat_i64 (now - max_spool_age_ms cfg)) (db_spool d)) = rows"
    by (auto simp: rows_def alive_def not_le not_less intro!: filter_cong)
  from p have "prune_body io now cfg d = Inr (Inr st, d')"
    unfolding prune_def by (rule immediate_Inr)
  then have d': "db_spool d' = filter (\<lambda>r. sr_id r \<notin> sr_id ` set (drop n s)) rows"
    by (auto simp: prune_body_def try_bind_Inr_iff stmt_Inr Let_def spool_delete_def beyond_newest_def
        n_def s_def ff [symmetric])
  have dist: "distinct (map sr_id rows)" using inv by (simp add: spool_inv_def rows_def distinct_map_filter)
  note kn = keep_newest [OF dist, of n, folded s_def, folded d']
  show "set (db_spool d') \<subseteq> set (db_spool d)" by (auto simp: d' rows_def)
  show "length (db_spool d') \<le> unat (max_spool_batches cfg)" using kn n by simp
  show "\<forall>r \<in> set (db_spool d'). sat_i64 (now - max_spool_age_ms cfg) \<le> sr_created_at_ms r
      \<and> sr_attempts r < uint (max_spool_attempts cfg)"
    by (auto simp: d' rows_def alive_def)
  show "\<forall>r \<in> set (db_spool d'). \<forall>q \<in> set (db_spool d). q \<notin> set (db_spool d')
      \<and> sat_i64 (now - max_spool_age_ms cfg) \<le> sr_created_at_ms q
      \<and> sr_attempts q < uint (max_spool_attempts cfg) \<longrightarrow> fifo_key q \<le> fifo_key r"
  proof (intro ballI impI)
    fix r q
    assume r: "r \<in> set (db_spool d')" and q: "q \<in> set (db_spool d)"
      "q \<notin> set (db_spool d') \<and> sat_i64 (now - max_spool_age_ms cfg) \<le> sr_created_at_ms q
       \<and> sr_attempts q < uint (max_spool_attempts cfg)"
    then have "q \<in> set s" by (simp add: s_def rows_def alive_def)
    with q(2) kn have "q \<in> set (drop n s)" by (metis Un_iff append_take_drop_id set_append)
    moreover have "r \<in> set (take n s)" using r kn by simp
    ultimately show "fifo_key q \<le> fifo_key r"
      unfolding s_def using sorted_newest_first [of n n] by blast
  qed
qed

section \<open>Properties\<close>

text \<open>A claim takes the ready batch that was created first (the smallest id among equals), counts
  the attempt and leases the row for the configured time; it changes no other row. It returns nothing
  only when no row is ready, if SQLite refuses no statement.\<close>

theorem claim_takes_oldest_ready:
  assumes "spool_inv cfg d" "claim_oldest no_faults now cfg d = (Inr claimed, d')"
  shows "case claimed of
     None \<Rightarrow> d' = d \<and> (\<forall>q \<in> set (db_spool d). \<not> ready now (max_spool_attempts cfg) q)
   | Some b \<Rightarrow> \<exists>row \<in> set (db_spool d). ready now (max_spool_attempts cfg) row
       \<and> (\<forall>q \<in> set (db_spool d). ready now (max_spool_attempts cfg) q \<longrightarrow> fifo_key row \<le> fifo_key q)
       \<and> b = row_to_batch (leased cfg now row)
       \<and> db_spool d' = map (\<lambda>q. if sr_id q = sr_id row then leased cfg now q else q) (db_spool d)"
proof (cases claimed)
  case None
  with claim_oldest_none [of now cfg d d'] assms show ?thesis by simp
next
  case (Some b)
  with claim_oldest_some [OF assms(1), of no_faults now b d'] assms(2) show ?thesis by simp
qed

definition two_batches :: db where
  "two_batches = empty_db\<lparr>db_seq := 2, db_spool :=
     [\<lparr>sr_id = 1, sr_device = ''d'', sr_created_at_ms = 20, sr_payload = [1], sr_attempts = 4, sr_next_attempt_at_ms = 20\<rparr>,
      \<lparr>sr_id = 2, sr_device = ''d'', sr_created_at_ms = 10, sr_payload = [2], sr_attempts = 0, sr_next_attempt_at_ms = 10\<rparr>]\<rparr>"

lemma two_batches_inv: "spool_inv conservative two_batches"
  by (simp add: spool_inv_def two_batches_def empty_db_def conservative_def spool_check_def)

lemmas claim_eval = claim_oldest_def claim_body_def immediate_no_faults two_batches_def empty_db_def conservative_def
  select_ready_def ready_def fifo_key_def row_to_batch_def spool_update_def constrained_def spool_check_def
  sort_key_def Let_def

lemma claim_two_batches:
  "claim_oldest no_faults 30 conservative two_batches = (Inr (Some \<lparr>b_id = 2, b_device = ''d'', b_created_at_ms = 10,
      b_payload = [2], b_attempts = 1, b_next_attempt_at_ms = 60030\<rparr>),
    two_batches\<lparr>db_spool := [hd (db_spool two_batches), (db_spool two_batches ! 1)\<lparr>sr_attempts := 1, sr_next_attempt_at_ms := 60030\<rparr>]\<rparr>)"
  by (simp add: claim_eval in_i64I)

theorem claim_takes_oldest_ready_witness:
  "\<exists>row. row \<in> set (db_spool two_batches) \<and> row_to_batch (leased conservative 30 row) =
     \<lparr>b_id = 2, b_device = ''d'', b_created_at_ms = 10, b_payload = [2], b_attempts = 1, b_next_attempt_at_ms = 60030\<rparr>"
  using claim_takes_oldest_ready [OF two_batches_inv claim_two_batches] by auto

text \<open>With a valid configuration the delay before the next attempt is positive, at most the
  configured maximum, and never shorter after more attempts.\<close>

theorem retry_delay_bounded_monotone:
  assumes "storage_validate cfg = Inr ()" "in_i64 (spool_retry_base_ms cfg)" "a \<le> b"
  shows "0 < retry_delay cfg a \<and> retry_delay cfg b \<le> spool_retry_max_ms cfg \<and> retry_delay cfg a \<le> retry_delay cfg b"
proof -
  have "0 < spool_retry_base_ms cfg"
    using assms(1) by (auto simp: storage_validate_def split: if_splits)
  with retry_delay_bounds [OF assms(1,2)] retry_delay_mono [OF _ assms(3)] show ?thesis by blast
qed

theorem retry_delay_bounded_monotone_witness:
  "retry_delay conservative 2 = 60000 \<and> retry_delay conservative 2 \<le> retry_delay conservative 9"
  using retry_delay_bounded_monotone [OF conservative_valid(1), of 2 9]
  by (simp add: conservative_def in_i64I retry_delay_def)

text \<open>A prune leaves rows of the queue only: at most the configured number, none older than the age
  bound, none out of attempts; and of the rows that satisfy these it drops the oldest.\<close>

theorem prune_keeps_newest:
  assumes "spool_inv cfg d" "storage_validate cfg = Inr ()" "prune io now cfg d = (Inr st, d')"
  shows "set (db_spool d') \<subseteq> set (db_spool d) \<and> length (db_spool d') \<le> unat (max_spool_batches cfg)
    \<and> (\<forall>r \<in> set (db_spool d'). sat_i64 (now - max_spool_age_ms cfg) \<le> sr_created_at_ms r
           \<and> sr_attempts r < uint (max_spool_attempts cfg))
    \<and> (\<forall>r \<in> set (db_spool d'). \<forall>q \<in> set (db_spool d). q \<notin> set (db_spool d')
           \<and> sat_i64 (now - max_spool_age_ms cfg) \<le> sr_created_at_ms q
           \<and> sr_attempts q < uint (max_spool_attempts cfg) \<longrightarrow> fifo_key q \<le> fifo_key r)"
  using prune_spec [OF assms] by blast

theorem prune_keeps_newest_witness:
  "\<exists>st d'. prune no_faults 30 (conservative\<lparr>max_spool_batches := 1\<rparr>) two_batches = (Inr st, d')
     \<and> length (db_spool d') \<le> 1"
proof -
  let ?cfg = "conservative\<lparr>max_spool_batches := 1\<rparr>"
  have v: "storage_validate ?cfg = Inr ()"
    using conservative_valid(1) by (simp add: storage_validate_def conservative_def i64_max_def)
  have i: "spool_inv ?cfg two_batches" using two_batches_inv by (simp add: spool_inv_def)
  obtain st d' where p: "prune no_faults 30 ?cfg two_batches = (Inr st, d')"
    by (simp add: prune_def prune_body_def immediate_no_faults spool_delete_def Let_def)
  from prune_keeps_newest [OF i v p] p show ?thesis by auto
qed

end
