(* ===== verification/Storage_Energy.thy ===== *)
theory Storage_Energy
  imports Storage_Db
begin

text \<open>
  \<open>victron-storage\<close>, \<open>energy.rs\<close>: the per-device integration state in the database. The lemmas show
  which samples are integrated, that reprocessing a sample changes nothing, and that the total never
  decreases when the configured minimum power is not negative (the validation also admits a negative
  one, with which it can: \<open>negative_minimum_decreases\<close>).
\<close>

section \<open>Operations\<close>

record energy_sample =
  smp_device :: string
  smp_power_watts :: f64
  smp_sample_at_ms :: int

datatype skip_reason = FirstSample | InvalidPower | BackwardTime | GapTooLarge int int

datatype integration = Integrated f64 f64 int | Skipped skip_reason

definition invalid_power :: "storage_config \<Rightarrow> f64 \<Rightarrow> bool" where
  "invalid_power cfg w =
     (\<not> f64_is_finite w \<or> f64_lt w (energy_min_power_watts cfg)
      \<or> (case energy_max_power_watts cfg of None \<Rightarrow> False | Some m \<Rightarrow> f64_lt m w))"

text \<open>An upsert or update of the row of one device.\<close>

definition put_energy :: "faults \<Rightarrow> nat \<Rightarrow> string \<Rightarrow> energy_row \<Rightarrow> db \<Rightarrow> storage_error + db" where
  "put_energy io k device row d =
     try_bind (stmt io k ()) (\<lambda>_.
       constrained (energy_check row) ''energy_state'' (d\<lparr>db_energy := AList.update device row (db_energy d)\<rparr>))"

text \<open>\<open>(previous + current) / 2.0 * (gap_ms as f64 / 1000.0) / 3_600_000.0\<close>.\<close>

definition delta_kwh :: "f64 \<Rightarrow> f64 \<Rightarrow> int \<Rightarrow> f64" where
  "delta_kwh previous_power current_power gap_ms =
     f64_div (f64_mul (f64_div (f64_add previous_power current_power) (f64_lit 2))
                (f64_div (f64_of_int gap_ms) (f64_lit 1000))) (f64_lit 3600000)"

definition anchored :: "energy_row \<Rightarrow> energy_sample \<Rightarrow> energy_row" where
  "anchored r s = r\<lparr>er_last_power_watts := Some (smp_power_watts s),
     er_last_sample_at_ms := Some (smp_sample_at_ms s), er_updated_at_ms := smp_sample_at_ms s\<rparr>"

definition integrate_body ::
  "faults \<Rightarrow> storage_config \<Rightarrow> energy_sample \<Rightarrow> db \<Rightarrow> storage_error + ((storage_error + integration) \<times> db)" where
  "integrate_body io cfg s d =
     try_bind (stmt io 0 (map_of (db_energy d) (smp_device s))) (\<lambda>previous.
       case previous of
         None \<Rightarrow>
           try_bind (put_energy io 1 (smp_device s)
               \<lparr>er_total_kwh = f64_lit 0, er_last_power_watts = Some (smp_power_watts s),
                er_last_sample_at_ms = Some (smp_sample_at_ms s), er_updated_at_ms = smp_sample_at_ms s\<rparr> d)
             (\<lambda>d'. Inr (Inr (Skipped FirstSample), d'))
       | Some r \<Rightarrow>
           (case er_last_sample_at_ms r of
              None \<Rightarrow>
                try_bind (put_energy io 1 (smp_device s) (anchored r s) d)
                  (\<lambda>d'. Inr (Inr (Skipped FirstSample), d'))
            | Some last_ms \<Rightarrow>
                if smp_sample_at_ms s \<le> last_ms then Inr (Inr (Skipped BackwardTime), d)
                else
                  (let gap_ms = wrap_i64 (smp_sample_at_ms s - last_ms) in
                   if gap_ms > energy_gap_threshold_ms cfg then
                     try_bind (put_energy io 1 (smp_device s) (anchored r s) d)
                       (\<lambda>d'. Inr (Inr (Skipped (GapTooLarge gap_ms (energy_gap_threshold_ms cfg))), d'))
                   else
                     (let previous_power = (case er_last_power_watts r of Some w \<Rightarrow> w | None \<Rightarrow> smp_power_watts s);
                          delta = delta_kwh previous_power (smp_power_watts s) gap_ms;
                          new_total = f64_add (er_total_kwh r) delta in
                      try_bind (put_energy io 1 (smp_device s) ((anchored r s)\<lparr>er_total_kwh := new_total\<rparr>) d)
                        (\<lambda>d'. Inr (Inr (Integrated delta new_total gap_ms), d'))))))"

definition integrate :: "faults \<Rightarrow> storage_config \<Rightarrow> energy_sample \<Rightarrow> db \<Rightarrow> (storage_error + integration) \<times> db" where
  "integrate io cfg s d =
     (if smp_device s = [] then (Inl (InvalidArgument ''device must not be empty''), d)
      else if smp_sample_at_ms s \<le> 0 then (Inl (InvalidArgument ''sample_at_ms must be > 0''), d)
      else if invalid_power cfg (smp_power_watts s) then (Inr (Skipped InvalidPower), d)
      else immediate io (integrate_body io cfg s) d)"

definition get_energy :: "faults \<Rightarrow> string \<Rightarrow> db \<Rightarrow> storage_error + energy_row option" where
  "get_energy io device d = stmt io 0 (map_of (db_energy d) device)"

definition reset_energy :: "faults \<Rightarrow> string \<Rightarrow> f64 \<Rightarrow> int \<Rightarrow> db \<Rightarrow> (storage_error + unit) \<times> db" where
  "reset_energy io device total_kwh now d =
     (if device = [] then (Inl (InvalidArgument ''device must not be empty''), d)
      else if \<not> f64_is_finite total_kwh \<or> f64_lt total_kwh (f64_lit 0)
      then (Inl (InvalidArgument ''total_kwh must be finite and >= 0''), d)
      else if now \<le> 0 then (Inl (InvalidArgument ''now_ms must be > 0''), d)
      else immediate io (\<lambda>d.
        try_bind (put_energy io 0 device
            \<lparr>er_total_kwh = total_kwh, er_last_power_watts = None, er_last_sample_at_ms = None, er_updated_at_ms = now\<rparr> d)
          (\<lambda>d'. Inr (Inr (), d'))) d)"

section \<open>What a step does\<close>

lemma put_energy_Inr:
  "put_energy io k device row d = Inr d' \<Longrightarrow>
    energy_check row \<and> d' = d\<lparr>db_energy := AList.update device row (db_energy d)\<rparr>"
  by (auto simp: put_energy_def try_simps)

text \<open>Every row satisfies the schema's constraint, and holds a representable total.\<close>

definition energy_inv :: "db \<Rightarrow> bool" where
  "energy_inv d \<longleftrightarrow> (\<forall>device r. map_of (db_energy d) device = Some r \<longrightarrow> energy_check r \<and> f64_wf (er_total_kwh r))"

lemma energy_inv_put:
  assumes "energy_inv d" "put_energy io k device row d = Inr d'" "f64_wf (er_total_kwh row)"
  shows "energy_inv d'"
  using assms put_energy_Inr [OF assms(2)] by (auto simp: energy_inv_def update_conv')

text \<open>The outcomes of a transaction that ran, by the stored row.\<close>

lemma integrate_body_cases:
  assumes "integrate_body io cfg s d = Inr (Inr out, d')"
  obtains (first) "map_of (db_energy d) (smp_device s) = None" "out = Skipped FirstSample"
      "put_energy io 1 (smp_device s) \<lparr>er_total_kwh = f64_lit 0, er_last_power_watts = Some (smp_power_watts s),
          er_last_sample_at_ms = Some (smp_sample_at_ms s), er_updated_at_ms = smp_sample_at_ms s\<rparr> d = Inr d'"
  | (anchor) r where "map_of (db_energy d) (smp_device s) = Some r" "\<exists>why. out = Skipped why"
      "put_energy io 1 (smp_device s) (anchored r s) d = Inr d'"
  | (backward) r t where "map_of (db_energy d) (smp_device s) = Some r" "er_last_sample_at_ms r = Some t"
      "smp_sample_at_ms s \<le> t" "out = Skipped BackwardTime" "d' = d"
  | (integrated) r t where "map_of (db_energy d) (smp_device s) = Some r" "er_last_sample_at_ms r = Some t"
      "t < smp_sample_at_ms s" "wrap_i64 (smp_sample_at_ms s - t) \<le> energy_gap_threshold_ms cfg"
      "out = Integrated (delta_kwh (case er_last_power_watts r of Some w \<Rightarrow> w | None \<Rightarrow> smp_power_watts s)
               (smp_power_watts s) (wrap_i64 (smp_sample_at_ms s - t)))
             (f64_add (er_total_kwh r) (delta_kwh (case er_last_power_watts r of Some w \<Rightarrow> w | None \<Rightarrow> smp_power_watts s)
               (smp_power_watts s) (wrap_i64 (smp_sample_at_ms s - t)))) (wrap_i64 (smp_sample_at_ms s - t))"
      "put_energy io 1 (smp_device s) ((anchored r s)\<lparr>er_total_kwh :=
          f64_add (er_total_kwh r) (delta_kwh (case er_last_power_watts r of Some w \<Rightarrow> w | None \<Rightarrow> smp_power_watts s)
               (smp_power_watts s) (wrap_i64 (smp_sample_at_ms s - t)))\<rparr>) d = Inr d'"
proof -
  have s0: "stmt_fault io 0 = None"
    using assms by (cases "stmt_fault io 0") (simp_all add: integrate_body_def stmt_def)
  show ?thesis
  proof (cases "map_of (db_energy d) (smp_device s)")
    case None
    from assms s0 show ?thesis
      unfolding integrate_body_def stmt_def None
      by (auto simp: try_bind_Inr_iff intro: first [OF None])
  next
    case (Some r)
    show ?thesis
    proof (cases "er_last_sample_at_ms r")
      case None
      from assms s0 show ?thesis
        unfolding integrate_body_def stmt_def Some
        by (auto simp: None try_bind_Inr_iff intro: anchor [OF Some])
    next
      case (Some t)
      note r = \<open>map_of (db_energy d) (smp_device s) = Some r\<close>
      from assms s0 show ?thesis
        unfolding integrate_body_def stmt_def r
        by (auto simp: Some try_bind_Inr_iff Let_def not_le not_less
            intro: backward [OF r Some] anchor [OF r] integrated [OF r Some] split: if_splits)
    qed
  qed
qed

lemma integrate_body_ok: "integrate_body io cfg s d = Inr (r, d') \<Longrightarrow> is_ok r"
  by (auto simp: integrate_body_def try_bind_Inr_iff Let_def stmt_Inr split: option.splits if_splits)

lemma integrate_inv:
  assumes "energy_inv d"
  shows "energy_inv (snd (integrate io cfg s d))"
proof -
  have "energy_inv d'" if r: "integrate_body io cfg s d = Inr (r, d')" for r d'
  proof -
    from integrate_body_ok [OF r] r obtain out where "integrate_body io cfg s d = Inr (Inr out, d')"
      by (cases r) auto
    then show ?thesis
    proof (cases rule: integrate_body_cases)
      case first
      from energy_inv_put [OF assms first(3)] show ?thesis by simp
    next
      case (anchor r)
      from energy_inv_put [OF assms anchor(3)] assms anchor(1) show ?thesis
        by (simp add: anchored_def energy_inv_def)
    next
      case (backward r t)
      with assms show ?thesis by simp
    next
      case (integrated r t)
      have "f64_wf (er_total_kwh r)" using assms integrated(1) by (simp add: energy_inv_def)
      from energy_inv_put [OF assms integrated(6)] f64_add_wf [OF this] show ?thesis
        by (simp add: delta_kwh_def)
    qed
  qed
  then show ?thesis
    using assms immediate_invariant [where I = energy_inv and body = "integrate_body io cfg s" and d = d]
    by (simp add: integrate_def)
qed

text \<open>The same sample again, or an older one, changes nothing.\<close>

lemma integrate_replay:
  assumes "map_of (db_energy d) (smp_device s) = Some r" "er_last_sample_at_ms r = Some t" "smp_sample_at_ms s \<le> t"
  shows "snd (integrate io cfg s d) = d"
  using assms
  by (auto simp: integrate_def immediate_def integrate_body_def stmt_def split: option.splits)

lemma integrate_anchors:
  assumes "integrate io cfg s d = (Inr out, d')" "out \<noteq> Skipped InvalidPower"
  shows "\<exists>r t. map_of (db_energy d') (smp_device s) = Some r \<and> er_last_sample_at_ms r = Some t \<and> smp_sample_at_ms s \<le> t"
proof -
  from assms have "integrate_body io cfg s d = Inr (Inr out, d')"
    by (auto simp: integrate_def split: if_splits dest: immediate_Inr)
  then show ?thesis
  proof (cases rule: integrate_body_cases)
    case first
    from put_energy_Inr [OF first(3)] show ?thesis by (auto simp: update_conv')
  next
    case (anchor r)
    from put_energy_Inr [OF anchor(3)] show ?thesis by (auto simp: update_conv' anchored_def)
  next
    case (backward r t)
    then show ?thesis by auto
  next
    case (integrated r t)
    from put_energy_Inr [OF integrated(6)] show ?thesis by (auto simp: update_conv' anchored_def)
  qed
qed

section \<open>Totals\<close>

lemma delta_kwh_in:
  assumes "f64_is_finite a" "0 \<le> f64_val a" "f64_val a \<le> 2 ^ 20" "f64_is_finite b" "0 \<le> f64_val b" "f64_val b \<le> 2 ^ 20"
    and "0 \<le> gap" "gap \<le> 2 ^ 63"
  shows "f64_in (2 ^ 100) (delta_kwh a b gap)"
proof -
  have lits: "f64_lit 2 = F64_Fin 2" "f64_lit 1000 = F64_Fin 1000" "f64_lit 3600000 = F64_Fin 3600000"
    using f64_of_int_small [of 2] f64_of_int_small [of 1000] f64_of_int_small [of 3600000]
    by (simp_all add: f64_of_int_def)
  have "f64_in (2 ^ 20) a" "f64_in (2 ^ 20) b" using assms by (simp_all add: f64_in_def)
  then have "f64_in (2 ^ 21) (f64_add a b)" by (rule f64_in_add) simp_all
  then have avg: "f64_in (2 ^ 21) (f64_div (f64_add a b) (f64_lit 2))"
    by (rule f64_in_div) (simp_all add: lits)
  have "f64_in (2 ^ 63) (f64_of_int (int (nat gap)))"
    using assms(7,8) by (intro f64_in_of_nat) (simp_all add: nat_le_iff)
  then have "f64_in (2 ^ 63) (f64_of_int gap)" using assms(7) by simp
  then have "f64_in (2 ^ 63) (f64_div (f64_of_int gap) (f64_lit 1000))"
    by (rule f64_in_div) (simp_all add: lits)
  from f64_in_mul [OF avg this, of 84]
  have "f64_in (2 ^ 84) (f64_mul (f64_div (f64_add a b) (f64_lit 2)) (f64_div (f64_of_int gap) (f64_lit 1000)))"
    by simp
  from f64_in_div [OF this, of "F64_Fin 3600000" 100] show ?thesis
    by (simp add: delta_kwh_def lits)
qed

text \<open>A power the configuration admits, with bounds between zero and 2^20 watts.\<close>

definition power_bounds_ok :: "storage_config \<Rightarrow> bool" where
  "power_bounds_ok cfg \<longleftrightarrow> f64_is_finite (energy_min_power_watts cfg) \<and> 0 \<le> f64_val (energy_min_power_watts cfg)
     \<and> (\<exists>m. energy_max_power_watts cfg = Some m \<and> f64_is_finite m \<and> f64_val m \<le> 2 ^ 20)"

definition anchors_ok :: "db \<Rightarrow> bool" where
  "anchors_ok d \<longleftrightarrow> (\<forall>device r. map_of (db_energy d) device = Some r \<longrightarrow>
     (\<forall>w. er_last_power_watts r = Some w \<longrightarrow> f64_is_finite w \<and> 0 \<le> f64_val w \<and> f64_val w \<le> 2 ^ 20)
     \<and> (\<forall>t. er_last_sample_at_ms r = Some t \<longrightarrow> 0 \<le> t))"

lemma valid_power_in: "power_bounds_ok cfg \<Longrightarrow> \<not> invalid_power cfg w \<Longrightarrow>
    f64_is_finite w \<and> 0 \<le> f64_val w \<and> f64_val w \<le> 2 ^ 20"
  by (auto simp: power_bounds_ok_def invalid_power_def f64_lt_finite)

lemma energy_check_finite: "energy_check r \<Longrightarrow> f64_is_finite (er_total_kwh r)"
proof -
  have l: "f64_lit 0 = F64_Fin 0" "f64_lit 1000000000 = F64_Fin 1000000000"
    using f64_of_int_small [of 0] f64_of_int_small [of 1000000000] by (simp_all add: f64_of_int_def)
  assume "energy_check r"
  then show ?thesis by (cases "er_total_kwh r") (auto simp: energy_check_def f64_le_def l)
qed

lemma integrate_total_mono:
  assumes inv: "energy_inv d" "anchors_ok d" and cfg: "power_bounds_ok cfg"
    and time: "in_i64 (smp_sample_at_ms s)"
    and r: "map_of (db_energy d) device = Some r" "map_of (db_energy (snd (integrate io cfg s d))) device = Some r'"
  shows "f64_le (er_total_kwh r) (er_total_kwh r')"
proof -
  have fin: "f64_is_finite (er_total_kwh r)" "f64_wf (er_total_kwh r)"
    using inv(1) r(1) energy_check_finite by (auto simp: energy_inv_def)
  then have refl: "f64_le (er_total_kwh r) (er_total_kwh r)" by (simp add: f64_le_finite)
  show ?thesis
  proof (cases "snd (integrate io cfg s d) = d \<or> device \<noteq> smp_device s")
    case True
    have "map_of (db_energy (snd (integrate io cfg s d))) device = map_of (db_energy d) device"
    proof (cases "snd (integrate io cfg s d) = d")
      case False
      with True have dev: "device \<noteq> smp_device s" by simp
      from False have "\<not> (smp_device s = [] \<or> smp_sample_at_ms s \<le> 0 \<or> invalid_power cfg (smp_power_watts s))"
        by (auto simp: integrate_def)
      then have im: "integrate io cfg s d = immediate io (integrate_body io cfg s) d" by (simp add: integrate_def)
      with False obtain q d' where b: "integrate_body io cfg s d = Inr (q, d')" "snd (integrate io cfg s d) = d'"
        by (cases rule: immediate_cases [of io "integrate_body io cfg s" d]) auto
      from integrate_body_ok [OF b(1)] b(1) obtain out where "integrate_body io cfg s d = Inr (Inr out, d')"
        by (cases q) auto
      then show ?thesis
        by (cases rule: integrate_body_cases) (auto dest!: put_energy_Inr simp: update_conv' dev b(2))
    qed simp
    with r refl show ?thesis by simp
  next
    case False
    then have dev: "device = smp_device s" and ch: "snd (integrate io cfg s d) \<noteq> d" by simp_all
    from ch have ok: "\<not> invalid_power cfg (smp_power_watts s)" "0 < smp_sample_at_ms s" "smp_device s \<noteq> []"
      by (auto simp: integrate_def split: if_splits)
    then have im: "integrate io cfg s d = immediate io (integrate_body io cfg s) d" by (simp add: integrate_def)
    with ch obtain q d' where b: "integrate_body io cfg s d = Inr (q, d')" "snd (integrate io cfg s d) = d'"
      by (cases rule: immediate_cases [of io "integrate_body io cfg s" d]) auto
    from integrate_body_ok [OF b(1)] b(1) obtain out where "integrate_body io cfg s d = Inr (Inr out, d')"
      by (cases q) auto
    then show ?thesis
    proof (cases rule: integrate_body_cases)
      case first
      with r(1) dev show ?thesis by simp
    next
      case (anchor p)
      with put_energy_Inr [OF anchor(3)] r dev b(2) refl show ?thesis
        by (auto simp: update_conv' anchored_def)
    next
      case (backward p t)
      with ch b(2) show ?thesis by simp
    next
      case (integrated p t)
      let ?prev = "case er_last_power_watts p of Some w \<Rightarrow> w | None \<Rightarrow> smp_power_watts s"
      let ?gap = "wrap_i64 (smp_sample_at_ms s - t)"
      let ?delta = "delta_kwh ?prev (smp_power_watts s) ?gap"
      have rp: "r = p" using r(1) integrated(1) dev by simp
      have r': "er_total_kwh r' = f64_add (er_total_kwh r) ?delta"
        using put_energy_Inr [OF integrated(6)] r(2) b(2) dev rp by (auto simp: update_conv')
      note cur = valid_power_in [OF cfg ok(1)]
      have prev: "f64_is_finite ?prev \<and> 0 \<le> f64_val ?prev \<and> f64_val ?prev \<le> 2 ^ 20"
        using inv(2) integrated(1) cur by (auto simp: anchors_ok_def split: option.splits)
      have "0 \<le> t" using inv(2) integrated(1,2) by (simp add: anchors_ok_def)
      with integrated(3) time have gap: "in_i64 (smp_sample_at_ms s - t)" by (simp add: in_i64_def i64_min_def)
      with integrated(3) have "0 \<le> ?gap" "?gap \<le> 2 ^ 63" by (simp_all add: in_i64_def i64_max_def)
      with prev cur have "f64_in (2 ^ 100) ?delta" by (intro delta_kwh_in) simp_all
      from f64_le_add [OF fin(2,1) this] show ?thesis by (simp add: r')
    qed
  qed
qed

text \<open>The transaction keeps the anchors valid, so the bound on the deltas lasts.\<close>

lemma anchors_ok_put:
  assumes "anchors_ok d" "put_energy io k device row d = Inr d'"
    "\<And>w. er_last_power_watts row = Some w \<Longrightarrow> f64_is_finite w \<and> 0 \<le> f64_val w \<and> f64_val w \<le> 2 ^ 20"
    "\<And>t. er_last_sample_at_ms row = Some t \<Longrightarrow> 0 \<le> t"
  shows "anchors_ok d'"
  using assms(1,3,4) put_energy_Inr [OF assms(2)] by (auto simp: anchors_ok_def update_conv')

lemma integrate_anchors_ok:
  assumes "anchors_ok d" "power_bounds_ok cfg"
  shows "anchors_ok (snd (integrate io cfg s d))"
proof (cases "smp_device s = [] \<or> smp_sample_at_ms s \<le> 0 \<or> invalid_power cfg (smp_power_watts s)")
  case True
  with assms show ?thesis by (auto simp: integrate_def)
next
  case False
  with valid_power_in [OF assms(2)] have s: "0 < smp_sample_at_ms s" "f64_is_finite (smp_power_watts s)"
    "0 \<le> f64_val (smp_power_watts s)" "f64_val (smp_power_watts s) \<le> 2 ^ 20" by auto
  have "anchors_ok d'" if r: "integrate_body io cfg s d = Inr (r, d')" for r d'
  proof -
    from integrate_body_ok [OF r] r obtain out where "integrate_body io cfg s d = Inr (Inr out, d')"
      by (cases r) auto
    then show ?thesis
    proof (cases rule: integrate_body_cases)
      case first
      from anchors_ok_put [OF assms(1) first(3)] s show ?thesis by simp
    next
      case (anchor r)
      from anchors_ok_put [OF assms(1) anchor(3)] s show ?thesis by (simp add: anchored_def)
    next
      case (backward r t)
      with assms show ?thesis by simp
    next
      case (integrated r t)
      from anchors_ok_put [OF assms(1) integrated(6)] s show ?thesis by (simp add: anchored_def)
    qed
  qed
  then show ?thesis
    using assms immediate_invariant [where I = anchors_ok and body = "integrate_body io cfg s" and d = d] False
    by (simp add: integrate_def)
qed

text \<open>A configuration that the validation admits, with which a stored total decreases.\<close>

definition export_config :: storage_config where
  "export_config = conservative\<lparr>energy_min_power_watts := f64_lit (- 40000)\<rparr>"

definition export_db :: db where
  "export_db = empty_db\<lparr>db_energy := [(''d'', \<lparr>er_total_kwh = f64_lit 3, er_last_power_watts = Some (f64_lit (- 30000)),
     er_last_sample_at_ms = Some 1, er_updated_at_ms = 1\<rparr>)]\<rparr>"

definition export_sample :: energy_sample where
  "export_sample = \<lparr>smp_device = ''d'', smp_power_watts = f64_lit (- 30000), smp_sample_at_ms = 120001\<rparr>"

lemma negative_minimum_decreases:
  "storage_validate export_config = Inr ()"
  "map_option er_total_kwh (map_of (db_energy export_db) ''d'') = Some (F64_Fin 3)"
  "map_option er_total_kwh (map_of (db_energy (snd (integrate no_faults export_config export_sample export_db))) ''d'')
    = Some (F64_Fin 2)"
  by (simp_all add: export_config_def export_db_def export_sample_def conservative_def storage_validate_def
      empty_db_def integrate_def immediate_no_faults integrate_body_def invalid_power_def put_energy_def
      anchored_def delta_kwh_def energy_check_def constrained_def i64_max_def in_i64I Let_def f64_eval)

section \<open>Properties\<close>

text \<open>An integration step never decreases the stored energy of any device, if the configured powers
  are between zero and 2^20 watts and the stored anchors came from such samples; and it keeps the
  anchors so. Reprocessing a sample that is not newer than the anchor changes nothing at all.\<close>

theorem integrate_never_decreases:
  assumes "energy_inv d" "anchors_ok d" "power_bounds_ok cfg" "in_i64 (smp_sample_at_ms s)"
    and "map_of (db_energy d) device = Some r" "map_of (db_energy (snd (integrate io cfg s d))) device = Some r'"
  shows "f64_le (er_total_kwh r) (er_total_kwh r') \<and> anchors_ok (snd (integrate io cfg s d))
    \<and> energy_inv (snd (integrate io cfg s d))
    \<and> (device = smp_device s \<and> (\<exists>t. er_last_sample_at_ms r = Some t \<and> smp_sample_at_ms s \<le> t)
         \<longrightarrow> snd (integrate io cfg s d) = d)"
  using integrate_total_mono [OF assms] integrate_anchors_ok [OF assms(2,3)] integrate_inv [OF assms(1)]
    integrate_replay [of d s r] assms(5) by blast

definition metered_db :: db where
  "metered_db = empty_db\<lparr>db_energy := [(''d'', \<lparr>er_total_kwh = F64_Fin 3, er_last_power_watts = Some (F64_Fin 100),
     er_last_sample_at_ms = Some 1, er_updated_at_ms = 1\<rparr>)]\<rparr>"

theorem integrate_never_decreases_witness:
  "\<exists>r'. map_of (db_energy (snd (integrate no_faults conservative \<lparr>smp_device = ''d'', smp_power_watts = F64_Fin 50,
      smp_sample_at_ms = 400001\<rparr> metered_db))) ''d'' = Some r' \<and> f64_le (F64_Fin 3) (er_total_kwh r')"
proof -
  let ?s = "\<lparr>smp_device = ''d'', smp_power_watts = F64_Fin 50, smp_sample_at_ms = 400001\<rparr>"
  have inv: "energy_inv metered_db"
    using rnd_small_int [of 3] by (simp add: energy_inv_def metered_db_def empty_db_def energy_check_def f64_wf_def f64_eval)
  have anc: "anchors_ok metered_db" by (simp add: anchors_ok_def metered_db_def empty_db_def)
  have cfg: "power_bounds_ok conservative" by (simp add: power_bounds_ok_def conservative_def f64_eval)
  obtain r' where r': "map_of (db_energy (snd (integrate no_faults conservative ?s metered_db))) ''d'' = Some r'"
    by (simp add: integrate_def integrate_body_def immediate_no_faults invalid_power_def conservative_def metered_db_def
        empty_db_def put_energy_def constrained_def anchored_def energy_check_def Let_def in_i64I f64_eval)
  have r: "map_of (db_energy metered_db) ''d'' = Some \<lparr>er_total_kwh = F64_Fin 3, er_last_power_watts = Some (F64_Fin 100),
     er_last_sample_at_ms = Some 1, er_updated_at_ms = 1\<rparr>" by (simp add: metered_db_def)
  from integrate_never_decreases [OF inv anc cfg _ r r'] r' show ?thesis by (simp add: in_i64I)
qed

end
