(* ===== verification/Acquisition.thy ===== *)
theory Acquisition
  imports Spool Storage_Energy
begin

text \<open>
  \<open>victron-storage\<close>, \<open>acquisition.rs\<close>: one rendered acquisition is committed in one transaction: the
  energy state, the acquisition's identity (its observation time, the idempotency key) and the
  outbound batch. The lemmas show that a commit writes all three or nothing, that the same or an
  older acquisition is a no-op, and that a stale energy anchor is refused.
\<close>

section \<open>Operations\<close>

record acquisition_energy =
  ae_total_kwh :: f64
  ae_last_power_watts :: "f64 option"
  ae_last_sample_at_ms :: "int option"

record acquisition_commit =
  ac_device :: string
  ac_observed_at_ms :: int
  ac_expected_energy :: "acquisition_energy option"
  ac_next_energy :: acquisition_energy
  ac_payload :: bytes

datatype commit_outcome = Committed int | AlreadyCommitted

definition MAX_ENERGY_KWH :: f64 where
  "MAX_ENERGY_KWH = f64_lit 1000000000"

definition validate_device :: "string \<Rightarrow> storage_error + unit" where
  "validate_device device =
     (if device = [] then Inl (InvalidArgument ''device must not be empty'') else Inr ())"

definition last_success_key :: "string \<Rightarrow> string" where
  "last_success_key device = ''acquisition.last_success.'' @ device"

definition last_success :: "faults \<Rightarrow> string \<Rightarrow> db \<Rightarrow> storage_error + int option" where
  "last_success io device d =
     try_bind (validate_device device) (\<lambda>_. get_kv_i64 io 0 d (last_success_key device))"

definition validate_identity :: "acquisition_commit \<Rightarrow> storage_error + unit" where
  "validate_identity c =
     try_bind (validate_device (ac_device c)) (\<lambda>_.
       if ac_observed_at_ms c \<le> 0 then Inl (InvalidArgument ''observed_at_ms must be > 0'') else Inr ())"

definition validate_energy :: "acquisition_energy \<Rightarrow> int \<Rightarrow> string \<Rightarrow> storage_error + unit" where
  "validate_energy e observed_at_ms field =
     (if \<not> f64_is_finite (ae_total_kwh e)
         \<or> \<not> (f64_le (f64_lit 0) (ae_total_kwh e) \<and> f64_le (ae_total_kwh e) MAX_ENERGY_KWH)
      then Inl (InvalidArgument (field @ ''.total_kwh must be finite and between 0 and 1000000000''))
      else if (case ae_last_power_watts e of None \<Rightarrow> False | Some w \<Rightarrow> \<not> f64_is_finite w)
      then Inl (InvalidArgument (field @ ''.last_power_watts must be finite''))
      else if (case ae_last_sample_at_ms e of None \<Rightarrow> False | Some t \<Rightarrow> t \<le> 0 \<or> t > observed_at_ms)
      then Inl (InvalidArgument (field @ ''.last_sample_at_ms must be positive and no later than observed_at_ms''))
      else Inr ())"

definition validate_state_and_payload :: "acquisition_commit \<Rightarrow> storage_error + unit" where
  "validate_state_and_payload c =
     (if ac_payload c = [] then Inl (InvalidArgument ''payload must not be empty'')
      else try_bind (case ac_expected_energy c of
                       None \<Rightarrow> Inr ()
                     | Some e \<Rightarrow> validate_energy e (ac_observed_at_ms c) ''expected_energy'') (\<lambda>_.
             validate_energy (ac_next_energy c) (ac_observed_at_ms c) ''next_energy''))"

definition read_energy :: "faults \<Rightarrow> nat \<Rightarrow> string \<Rightarrow> db \<Rightarrow> storage_error + acquisition_energy option" where
  "read_energy io k device d =
     stmt io k (map_option (\<lambda>r. \<lparr>ae_total_kwh = er_total_kwh r, ae_last_power_watts = er_last_power_watts r,
                                 ae_last_sample_at_ms = er_last_sample_at_ms r\<rparr>) (map_of (db_energy d) device))"

text \<open>\<open>to_bits\<close> equality is equality of the \<open>f64\<close> values (the validation has excluded NaN).\<close>

definition optional_f64_eq :: "f64 option \<Rightarrow> f64 option \<Rightarrow> bool" where
  "optional_f64_eq l r =
     (case (l, r) of (None, None) \<Rightarrow> True | (Some a, Some b) \<Rightarrow> a = b | _ \<Rightarrow> False)"

definition same_anchor :: "acquisition_energy option \<Rightarrow> acquisition_energy option \<Rightarrow> bool" where
  "same_anchor stored expected =
     (case (stored, expected) of
        (None, None) \<Rightarrow> True
      | (Some a, Some b) \<Rightarrow>
          ae_total_kwh a = ae_total_kwh b
          \<and> optional_f64_eq (ae_last_power_watts a) (ae_last_power_watts b)
          \<and> ae_last_sample_at_ms a = ae_last_sample_at_ms b
      | _ \<Rightarrow> False)"

definition next_row :: "acquisition_commit \<Rightarrow> energy_row" where
  "next_row c =
     \<lparr>er_total_kwh = ae_total_kwh (ac_next_energy c),
      er_last_power_watts = ae_last_power_watts (ac_next_energy c),
      er_last_sample_at_ms = ae_last_sample_at_ms (ac_next_energy c),
      er_updated_at_ms = ac_observed_at_ms c\<rparr>"

definition commit_body ::
  "faults \<Rightarrow> acquisition_commit \<Rightarrow> db \<Rightarrow> storage_error + ((storage_error + commit_outcome) \<times> db)" where
  "commit_body io c d =
     (let key = last_success_key (ac_device c) in
      try_bind (get_kv_i64 io 0 d key) (\<lambda>stored.
        if (case stored of None \<Rightarrow> False | Some t \<Rightarrow> t \<ge> ac_observed_at_ms c)
        then Inr (Inr AlreadyCommitted, d)
        else
          try_bind (validate_state_and_payload c) (\<lambda>_.
          try_bind (read_energy io 1 (ac_device c) d) (\<lambda>current.
            if \<not> same_anchor current (ac_expected_energy c) then Inl EnergyAnchorConflict
            else
              try_bind (put_energy io 2 (ac_device c) (next_row c) d) (\<lambda>d1.
              try_bind (set_kv io 3 key (int_to_dec (ac_observed_at_ms c)) (ac_observed_at_ms c) d1) (\<lambda>d2.
              try_bind (enqueue io 4 (ac_device c) (ac_payload c) (ac_observed_at_ms c) d2) (\<lambda>(i, d3).
                Inr (Inr (Committed i), d3))))))))"

definition commit_acquisition :: "faults \<Rightarrow> acquisition_commit \<Rightarrow> db \<Rightarrow> (storage_error + commit_outcome) \<times> db" where
  "commit_acquisition io c d =
     (case validate_identity c of
        Inl e \<Rightarrow> (Inl e, d)
      | Inr _ \<Rightarrow> immediate io (commit_body io c) d)"

section \<open>Atomicity\<close>

lemma same_anchor_eq: "same_anchor stored expected \<longleftrightarrow> stored = expected"
  by (cases stored; cases expected)
    (auto simp: same_anchor_def optional_f64_eq_def acquisition_energy.equality split: option.splits)

text \<open>The stored acquisition time of a device, and the abstract effect of a commit.\<close>

definition last_observed :: "string \<Rightarrow> db \<Rightarrow> int option" where
  "last_observed device d =
     (case get_kv_i64 no_faults 0 d (last_success_key device) of Inr v \<Rightarrow> v | Inl _ \<Rightarrow> None)"

definition stored_energy :: "string \<Rightarrow> db \<Rightarrow> acquisition_energy option" where
  "stored_energy device d =
     map_option (\<lambda>r. \<lparr>ae_total_kwh = er_total_kwh r, ae_last_power_watts = er_last_power_watts r,
                       ae_last_sample_at_ms = er_last_sample_at_ms r\<rparr>) (map_of (db_energy d) device)"

definition acquisition_row :: "acquisition_commit \<Rightarrow> int \<Rightarrow> spool_row" where
  "acquisition_row c i =
     \<lparr>sr_id = i, sr_device = ac_device c, sr_created_at_ms = ac_observed_at_ms c, sr_payload = ac_payload c,
      sr_attempts = 0, sr_next_attempt_at_ms = ac_observed_at_ms c\<rparr>"

lemma last_success_key_inj [simp]: "last_success_key a = last_success_key b \<longleftrightarrow> a = b"
  by (simp add: last_success_key_def)

lemma enqueue_effect:
  "enqueue io k device payload now d = Inr (i, d') \<Longrightarrow>
    i = db_seq d + 1 \<and> db_spool d' = db_spool d @ [\<lparr>sr_id = i, sr_device = device, sr_created_at_ms = now,
      sr_payload = payload, sr_attempts = 0, sr_next_attempt_at_ms = now\<rparr>]
    \<and> db_seq d' = i \<and> db_energy d' = db_energy d \<and> db_kv d' = db_kv d"
  by (auto simp: enqueue_def spool_insert_def try_simps Let_def split: if_splits)

lemma get_kv_i64_same: "db_kv d' = db_kv d \<Longrightarrow> get_kv_i64 io k d' key = get_kv_i64 io k d key"
  by (simp add: get_kv_i64_def get_kv_def)

lemma put_energy_kv: "put_energy io k device row d = Inr d' \<Longrightarrow>
    db_kv d' = db_kv d \<and> db_spool d' = db_spool d \<and> db_seq d' = db_seq d
    \<and> map_of (db_energy d') = (map_of (db_energy d)) (device \<mapsto> row)"
  by (auto dest!: put_energy_Inr simp: update_conv')

text \<open>A committed acquisition: its precondition and everything it wrote.\<close>

definition acquired :: "acquisition_commit \<Rightarrow> db \<Rightarrow> int \<Rightarrow> db \<Rightarrow> bool" where
  "acquired c d i d' \<longleftrightarrow>
     (case last_observed (ac_device c) d of None \<Rightarrow> True | Some t \<Rightarrow> t < ac_observed_at_ms c)
     \<and> stored_energy (ac_device c) d = ac_expected_energy c
     \<and> stored_energy (ac_device c) d' = Some (ac_next_energy c)
     \<and> last_observed (ac_device c) d' = Some (ac_observed_at_ms c)
     \<and> i = db_seq d + 1 \<and> db_seq d' = i \<and> db_spool d' = db_spool d @ [acquisition_row c i]
     \<and> (\<forall>device. device \<noteq> ac_device c \<longrightarrow>
          stored_energy device d' = stored_energy device d \<and> last_observed device d' = last_observed device d)"

lemma commit_body_committed:
  assumes "commit_body io c d = Inr (Inr (Committed i), d')" "in_i64 (ac_observed_at_ms c)"
  shows "acquired c d i d'"
proof -
  let ?key = "last_success_key (ac_device c)"
  from assms(1) obtain stored d1 d2 where
    g: "get_kv_i64 io 0 d ?key = Inr stored"
    and older: "\<not> (case stored of None \<Rightarrow> False | Some t \<Rightarrow> t \<ge> ac_observed_at_ms c)"
    and anchor: "stored_energy (ac_device c) d = ac_expected_energy c"
    and p: "put_energy io 2 (ac_device c) (next_row c) d = Inr d1"
    and s: "set_kv io 3 ?key (int_to_dec (ac_observed_at_ms c)) (ac_observed_at_ms c) d1 = Inr d2"
    and e: "enqueue io 4 (ac_device c) (ac_payload c) (ac_observed_at_ms c) d2 = Inr (i, d')"
    by (auto simp: commit_body_def read_energy_def stored_energy_def same_anchor_eq Let_def try_simps
        split: if_splits)
  note p' = put_energy_kv [OF p] and s' = set_kv_other [OF s] and e' = enqueue_effect [OF e]
  have kv: "get_kv_i64 no_faults 0 d' key = (if key = ?key then Inr (Some (ac_observed_at_ms c))
      else get_kv_i64 no_faults 0 d key)" for key
  proof -
    have "get_kv_i64 no_faults 0 d' key = get_kv_i64 no_faults 0 d2 key" using e' by (intro get_kv_i64_same) simp
    moreover have "get_kv_i64 no_faults 0 d1 key = get_kv_i64 no_faults 0 d key" using p' by (intro get_kv_i64_same) simp
    ultimately show ?thesis using get_kv_i64_set [OF assms(2) s, of 0 key] by simp
  qed
  have en: "map_of (db_energy d') = (map_of (db_energy d)) (ac_device c \<mapsto> next_row c)"
    using p' s' e' by simp
  have "last_observed (ac_device c) d = stored"
    using get_kv_i64_faultless [OF g, of 0] by (simp add: last_observed_def)
  with older have "case last_observed (ac_device c) d of None \<Rightarrow> True | Some t \<Rightarrow> t < ac_observed_at_ms c"
    by (auto split: option.splits)
  with anchor kv en p' s' e' show ?thesis
    by (auto simp: acquired_def stored_energy_def last_observed_def next_row_def acquisition_row_def)
qed

lemma commit_body_already:
  "commit_body io c d = Inr (Inr AlreadyCommitted, d') \<Longrightarrow>
    d' = d \<and> (\<exists>t. last_observed (ac_device c) d = Some t \<and> ac_observed_at_ms c \<le> t)"
  using get_kv_i64_faultless [of io 0 d "last_success_key (ac_device c)" _ 0]
  by (auto simp: commit_body_def Let_def try_simps last_observed_def split: if_splits option.splits prod.splits)

lemma commit_body_ok: "commit_body io c d = Inr (r, d') \<Longrightarrow> is_ok r"
  by (auto simp: commit_body_def Let_def try_simps split: if_splits)

text \<open>The three outcomes of a commit, whatever fails.\<close>

lemma commit_acquisition_cases:
  assumes "in_i64 (ac_observed_at_ms c)"
  obtains (failed) e where "commit_acquisition io c d = (Inl e, d)"
  | (already) t where "commit_acquisition io c d = (Inr AlreadyCommitted, d)"
      "last_observed (ac_device c) d = Some t" "ac_observed_at_ms c \<le> t"
  | (committed) i d' where "commit_acquisition io c d = (Inr (Committed i), d')" "acquired c d i d'"
proof (cases "validate_identity c")
  case (Inl e)
  then show ?thesis by (intro failed [of e]) (simp add: commit_acquisition_def)
next
  case (Inr u)
  then have im: "commit_acquisition io c d = immediate io (commit_body io c) d"
    by (simp add: commit_acquisition_def)
  show ?thesis
  proof (cases rule: immediate_cases [of io "commit_body io c" d])
    case (rolled_back e)
    with im show ?thesis by (intro failed) simp
  next
    case (committed r d')
    from commit_body_ok [OF committed(1)] obtain out where r: "r = Inr out" by (cases r) auto
    show ?thesis
    proof (cases out)
      case (Committed i)
      with committed r im commit_body_committed [OF _ assms] show ?thesis
        by (intro that(3) [of i d']) simp_all
    next
      case AlreadyCommitted
      with committed(1) r commit_body_already obtain t where
        "d' = d" "last_observed (ac_device c) d = Some t" "ac_observed_at_ms c \<le> t" by blast
      with AlreadyCommitted committed(2) r im show ?thesis by (intro already) simp_all
    qed
  qed
qed

lemma commit_keeps_inv:
  assumes "spool_inv cfg d" "in_i64 (ac_observed_at_ms c)"
  shows "spool_inv cfg (snd (commit_acquisition io c d))"
  using assms(2)
proof (cases rule: commit_acquisition_cases [where io = io and d = d])
  case (committed i d')
  then have "commit_body io c d = Inr (Inr (Committed i), d')"
    by (auto simp: commit_acquisition_def split: sum.splits dest: immediate_Inr)
  then obtain d1 d2 where p: "put_energy io 2 (ac_device c) (next_row c) d = Inr d1"
    and s: "set_kv io 3 (last_success_key (ac_device c)) (int_to_dec (ac_observed_at_ms c)) (ac_observed_at_ms c) d1 = Inr d2"
    and e: "enqueue io 4 (ac_device c) (ac_payload c) (ac_observed_at_ms c) d2 = Inr (i, d')"
    by (auto simp: commit_body_def Let_def try_simps split: if_splits)
  have "spool_inv cfg d2"
    using assms(1) put_energy_kv [OF p] set_kv_other [OF s] by (auto intro: spool_inv_same)
  then show ?thesis using spool_inv_enqueue [OF _ e] committed(1) by simp
qed (use assms(1) in simp_all)

text \<open>A valid commit over the current anchor succeeds when SQLite does not refuse it.\<close>

lemma commit_acquisition_enabled:
  assumes v: "validate_identity c = Inr ()" "validate_state_and_payload c = Inr ()"
    and k: "get_kv_i64 no_faults 0 d (last_success_key (ac_device c)) = Inr stored"
      "\<And>t. stored = Some t \<Longrightarrow> t < ac_observed_at_ms c"
    and a: "stored_energy (ac_device c) d = ac_expected_energy c"
    and q: "db_seq d < i64_max"
  shows "\<exists>d'. commit_acquisition no_faults c d = (Inr (Committed (db_seq d + 1)), d')"
proof -
  have pos: "0 < ac_observed_at_ms c" "ac_device c \<noteq> []" "ac_payload c \<noteq> []"
    using v by (auto simp: validate_identity_def validate_device_def validate_state_and_payload_def try_simps split: if_splits)
  have "validate_energy (ac_next_energy c) (ac_observed_at_ms c) ''next_energy'' = Inr ()"
    using v(2) by (auto simp: validate_state_and_payload_def try_simps split: if_splits)
  then have chk: "energy_check (next_row c)"
    using pos(1) by (auto simp: validate_energy_def energy_check_def next_row_def MAX_ENERGY_KWH_def split: if_splits)
  have old: "\<not> (case stored of None \<Rightarrow> False | Some t \<Rightarrow> t \<ge> ac_observed_at_ms c)"
    using k(2) by (auto split: option.splits)
  have ne: "last_success_key (ac_device c) \<noteq> []" by (simp add: last_success_key_def)
  have rd: "read_energy no_faults k (ac_device c) d = Inr (ac_expected_energy c)" for k
    using a by (simp add: read_energy_def stored_energy_def)
  show ?thesis
    using v(1) pos q old
    by (simp add: commit_acquisition_def immediate_no_faults commit_body_def Let_def k(1) v(2) rd same_anchor_eq
        put_energy_def constrained_def chk set_kv_def kv_check_def enqueue_def spool_insert_def spool_check_def ne)
qed

section \<open>Properties\<close>

text \<open>C3: A commit writes everything or nothing: it fails and leaves the database as it was, or finds
  the same or a newer acquisition recorded and leaves it as it was, or it replaces exactly the energy
  state it was computed from, records the acquisition and queues the batch, and touches no other
  device.\<close>

theorem commit_all_or_nothing:
  assumes "in_i64 (ac_observed_at_ms c)"
  shows "case commit_acquisition io c d of
      (Inl e, d') \<Rightarrow> d' = d
    | (Inr AlreadyCommitted, d') \<Rightarrow> d' = d
        \<and> (\<exists>t. last_observed (ac_device c) d = Some t \<and> ac_observed_at_ms c \<le> t)
    | (Inr (Committed i), d') \<Rightarrow> acquired c d i d'"
  using assms by (cases rule: commit_acquisition_cases [where io = io and d = d]) simp_all

text \<open>A valid acquisition that is newer than the recorded one and was computed from the stored
  energy state is committed, when SQLite refuses no statement: the guards reject nothing else.\<close>

theorem valid_commit_succeeds:
  assumes "validate_identity c = Inr ()" "validate_state_and_payload c = Inr ()"
    and "get_kv_i64 no_faults 0 d (last_success_key (ac_device c)) = Inr stored"
      "\<And>t. stored = Some t \<Longrightarrow> t < ac_observed_at_ms c"
    and "stored_energy (ac_device c) d = ac_expected_energy c" "db_seq d < i64_max"
  shows "\<exists>d'. commit_acquisition no_faults c d = (Inr (Committed (db_seq d + 1)), d')"
  using commit_acquisition_enabled [OF assms] by blast

definition sample_commit :: acquisition_commit where
  "sample_commit = \<lparr>ac_device = ''d'', ac_observed_at_ms = 1000, ac_expected_energy = None,
     ac_next_energy = \<lparr>ae_total_kwh = F64_Fin 0, ae_last_power_watts = None, ae_last_sample_at_ms = Some 1000\<rparr>,
     ac_payload = [1]\<rparr>"

lemma sample_commit_valid: "validate_identity sample_commit = Inr ()" "validate_state_and_payload sample_commit = Inr ()"
  by (simp_all add: sample_commit_def validate_identity_def validate_device_def validate_state_and_payload_def
      validate_energy_def MAX_ENERGY_KWH_def f64_eval)

lemma sample_commit_empty:
  "get_kv_i64 no_faults 0 empty_db (last_success_key (ac_device sample_commit)) = Inr None"
  "stored_energy (ac_device sample_commit) empty_db = ac_expected_energy sample_commit"
  by (simp_all add: get_kv_i64_def get_kv_def empty_db_def stored_energy_def sample_commit_def)

theorem valid_commit_succeeds_witness:
  "\<exists>d'. commit_acquisition no_faults sample_commit empty_db = (Inr (Committed 1), d')"
  using valid_commit_succeeds [OF sample_commit_valid sample_commit_empty(1) _ sample_commit_empty(2)]
  by (simp add: empty_db_def i64_max_def)

theorem commit_all_or_nothing_witness:
  "\<exists>i d'. commit_acquisition no_faults sample_commit empty_db = (Inr (Committed i), d') \<and> acquired sample_commit empty_db i d'"
proof -
  obtain d' where c: "commit_acquisition no_faults sample_commit empty_db = (Inr (Committed 1), d')"
    using commit_acquisition_enabled [OF sample_commit_valid sample_commit_empty(1) _ sample_commit_empty(2)]
    by (auto simp: empty_db_def i64_max_def)
  have "in_i64 (ac_observed_at_ms sample_commit)" by (simp add: sample_commit_def in_i64I)
  from commit_all_or_nothing [OF this, where io = no_faults and d = empty_db] c show ?thesis by simp
qed

end
