(* ===== verification/Storage_System.thy ===== *)
theory Storage_System
  imports Acquisition
begin

text \<open>
  \<open>victron-storage\<close>, the facade of \<open>lib.rs\<close>: every operation locks the one connection, so any use of it
  is a sequence of whole operations, each of which SQLite may fail at any statement. A sequence of
  operations is a list; the theorems hold for every list, every interleaving of callers and every
  failure: the ledger of the queue (no batch is lost without being counted), the lease of a claimed
  batch against all other operations, and the monotone identity of acquisitions.
\<close>

section \<open>Operations and their sequences\<close>

datatype storage_op =
    OpCommit acquisition_commit
  | OpEnqueue string bytes int
  | OpClaim int
  | OpDelivered int int
  | OpDrop int int
  | OpRetry int int
  | OpPrune int
  | OpSetState string string int
  | OpIntegrate energy_sample
  | OpReset string f64 int

text \<open>\<open>Storage::set_state\<close>, in autocommit mode.\<close>

definition set_state :: "faults \<Rightarrow> string \<Rightarrow> string \<Rightarrow> int \<Rightarrow> db \<Rightarrow> (storage_error + unit) \<times> db" where
  "set_state io key v now d =
     (case set_kv io 0 key v now d of Inl e \<Rightarrow> (Inl e, d) | Inr d' \<Rightarrow> (Inr (), d'))"

text \<open>The facade: the tables after one operation, and the rows that it reports as pruned.\<close>

fun storage_exec :: "storage_config \<Rightarrow> faults \<Rightarrow> storage_op \<Rightarrow> db \<Rightarrow> db" where
  "storage_exec cfg io (OpCommit c) d = snd (commit_acquisition io c d)"
| "storage_exec cfg io (OpEnqueue device payload now) d = snd (enqueue_batch io device payload now d)"
| "storage_exec cfg io (OpClaim now) d = snd (claim_oldest io now cfg d)"
| "storage_exec cfg io (OpDelivered i now) d = snd (mark_delivered io i now d)"
| "storage_exec cfg io (OpDrop i now) d = snd (drop_batch io i now d)"
| "storage_exec cfg io (OpRetry i now) d = snd (record_retry io i now cfg d)"
| "storage_exec cfg io (OpPrune now) d = snd (prune io now cfg d)"
| "storage_exec cfg io (OpSetState key v now) d = snd (set_state io key v now d)"
| "storage_exec cfg io (OpIntegrate s) d = snd (integrate io cfg s d)"
| "storage_exec cfg io (OpReset device total_kwh now) d = snd (reset_energy io device total_kwh now d)"

fun pruned_by :: "storage_config \<Rightarrow> faults \<Rightarrow> storage_op \<Rightarrow> db \<Rightarrow> nat" where
  "pruned_by cfg io (OpPrune now) d = (case fst (prune io now cfg d) of Inr st \<Rightarrow> unat (removed st) | Inl e \<Rightarrow> 0)"
| "pruned_by cfg io op d = 0"

type_synonym history = "(faults \<times> storage_op) list"

fun storage_run :: "storage_config \<Rightarrow> history \<Rightarrow> db \<Rightarrow> db" where
  "storage_run cfg [] d = d"
| "storage_run cfg ((io, op) # ops) d = storage_run cfg ops (storage_exec cfg io op d)"

fun pruned_total :: "storage_config \<Rightarrow> history \<Rightarrow> db \<Rightarrow> nat" where
  "pruned_total cfg [] d = 0"
| "pruned_total cfg ((io, op) # ops) d = pruned_by cfg io op d + pruned_total cfg ops (storage_exec cfg io op d)"

text \<open>What a caller may pass: an \<open>i64\<close> time and representable totals in a commit, no key of the
  storage's own in \<open>set_state\<close>.\<close>

definition reserved_key :: "string \<Rightarrow> bool" where
  "reserved_key key \<longleftrightarrow> key = ''spool.delivered_total'' \<or> key = ''spool.dropped_total''
     \<or> (\<exists>device. key = last_success_key device)"

fun op_ok :: "storage_op \<Rightarrow> bool" where
  "op_ok (OpCommit c) = (in_i64 (ac_observed_at_ms c) \<and> f64_wf (ae_total_kwh (ac_next_energy c)))"
| "op_ok (OpSetState key v now) = (\<not> reserved_key key)"
| "op_ok (OpReset device total_kwh now) = f64_wf total_kwh"
| "op_ok op = True"

text \<open>Without the representable totals.\<close>

fun op_typed :: "storage_op \<Rightarrow> bool" where
  "op_typed (OpCommit c) = in_i64 (ac_observed_at_ms c)"
| "op_typed (OpSetState key v now) = (\<not> reserved_key key)"
| "op_typed op = True"

lemma op_ok_typed: "list_all (op_ok \<circ> snd) ops \<Longrightarrow> list_all (op_typed \<circ> snd) ops"
proof -
  have "op_ok op \<Longrightarrow> op_typed op" for op by (cases op) simp_all
  then show "list_all (op_ok \<circ> snd) ops \<Longrightarrow> list_all (op_typed \<circ> snd) ops" by (simp add: list_all_iff)
qed

lemma reserved_keys [simp]:
  "reserved_key ''spool.delivered_total''" "reserved_key ''spool.dropped_total''" "reserved_key (last_success_key device)"
  by (auto simp: reserved_key_def)

lemma last_success_key_other [simp]:
  "last_success_key device \<noteq> ''spool.delivered_total''" "last_success_key device \<noteq> ''spool.dropped_total''"
  "''spool.delivered_total'' \<noteq> last_success_key device" "''spool.dropped_total'' \<noteq> last_success_key device"
  by (simp_all add: last_success_key_def)

section \<open>What an operation leaves alone\<close>

text \<open>\<open>kv_frame keys d d'\<close>: only the listed keys may differ.\<close>

definition kv_frame :: "string set \<Rightarrow> db \<Rightarrow> db \<Rightarrow> bool" where
  "kv_frame keys d d' \<longleftrightarrow> (\<forall>key. key \<notin> keys \<longrightarrow> map_of (db_kv d') key = map_of (db_kv d) key)"

named_theorems frame \<open>frames of the operations\<close>

lemma kv_frame_refl [frame]: "kv_frame keys d d"
  by (simp add: kv_frame_def)

lemma kv_frame_counter: "kv_frame keys d d' \<Longrightarrow> key \<notin> keys \<Longrightarrow> counter key d' = counter key d"
  by (simp add: kv_frame_def counter_def get_kv_i64_def get_kv_def)

lemma kv_frame_last_observed: "kv_frame keys d d' \<Longrightarrow> last_success_key device \<notin> keys \<Longrightarrow>
    last_observed device d' = last_observed device d"
  by (simp add: kv_frame_def last_observed_def get_kv_i64_def get_kv_def)

lemma set_kv_frame: "set_kv io k key v now d = Inr d' \<Longrightarrow> kv_frame {key} d d'"
  by (auto simp: set_kv_def kv_frame_def try_simps Let_def update_conv' split: if_splits)

lemma bump_counter_frame: "bump_counter io k key now d = Inr d' \<Longrightarrow> kv_frame {key} d d'"
  by (auto simp: bump_counter_def try_simps dest: set_kv_frame)

lemma kv_frame_mono: "kv_frame keys d d' \<Longrightarrow> keys \<subseteq> keys' \<Longrightarrow> kv_frame keys' d d'"
  by (auto simp: kv_frame_def)

lemma immediate_frame:
  assumes "\<And>r d'. body d = Inr (r, d') \<Longrightarrow> kv_frame keys d d'"
  shows "kv_frame keys d (snd (immediate io body d))"
  by (rule immediate_invariant [where I = "kv_frame keys d"]) (simp_all add: kv_frame_refl assms)


section \<open>The ledger\<close>

text \<open>Batches that left the queue uncounted by the two counters: those that were pruned.\<close>

definition uncounted :: "db \<Rightarrow> int" where
  "uncounted d = db_seq d - int (length (db_spool d)) - counter ''spool.delivered_total'' d - counter ''spool.dropped_total'' d"

definition books :: "db \<Rightarrow> bool" where
  "books d \<longleftrightarrow> 0 \<le> counter ''spool.delivered_total'' d \<and> 0 \<le> counter ''spool.dropped_total'' d
     \<and> 0 \<le> uncounted d \<and> db_seq d \<le> i64_max"

lemma books_same:
  "\<lbrakk>books d; db_seq d' = db_seq d; length (db_spool d') = length (db_spool d); kv_frame keys d d';
    ''spool.delivered_total'' \<notin> keys; ''spool.dropped_total'' \<notin> keys\<rbrakk> \<Longrightarrow> books d' \<and> uncounted d' = uncounted d"
  by (simp add: books_def uncounted_def kv_frame_counter)

lemma books_enqueued:
  "\<lbrakk>books d; db_seq d' = db_seq d + 1; db_seq d < i64_max; length (db_spool d') = length (db_spool d) + 1; kv_frame keys d d';
    ''spool.delivered_total'' \<notin> keys; ''spool.dropped_total'' \<notin> keys\<rbrakk> \<Longrightarrow> books d' \<and> uncounted d' = uncounted d"
  by (simp add: books_def uncounted_def kv_frame_counter)

text \<open>A row that leaves with its counter.\<close>

lemma books_counted:
  assumes "books d" "db_seq d' = db_seq d" "length (db_spool d') + 1 = length (db_spool d)"
    and "key = ''spool.delivered_total'' \<or> key = ''spool.dropped_total''"
    and "counter key d' = wrap_i64 (counter key d + 1)" "\<And>key'. key' \<noteq> key \<Longrightarrow> counter key' d' = counter key' d"
  shows "books d' \<and> uncounted d' = uncounted d"
proof -
  have "0 \<le> counter key d" "counter key d + 1 \<le> i64_max"
    using assms(1,3,4) by (auto simp: books_def uncounted_def)
  then have c: "counter key d' = counter key d + 1"
    using assms(5) by (simp add: in_i64_def i64_min_def)
  have n: "''spool.delivered_total'' \<noteq> ''spool.dropped_total''" by simp
  show ?thesis
    using assms(4)
  proof
    assume k: "key = ''spool.delivered_total''"
    with assms(6) n have "counter ''spool.dropped_total'' d' = counter ''spool.dropped_total'' d" by simp
    with c k assms(1-3) show ?thesis by (simp add: books_def uncounted_def)
  next
    assume k: "key = ''spool.dropped_total''"
    with assms(6) n have "counter ''spool.delivered_total'' d' = counter ''spool.delivered_total'' d" by simp
    with c k assms(1-3) show ?thesis by (simp add: books_def uncounted_def)
  qed
qed

lemma remove_books:
  assumes "spool_inv cfg d" "books d" "key = ''spool.delivered_total'' \<or> key = ''spool.dropped_total''"
    and "remove_body io key i now d = Inr (r, d')"
  shows "books d' \<and> uncounted d' = uncounted d"
proof -
  let ?e = "snd (spool_delete (\<lambda>r. sr_id r = i) d)"
  have "(\<exists>k. r = Inr True \<and> bump_counter io k key now ?e = Inr d') \<or> filter (\<lambda>r. sr_id r = i) (db_spool d) = [] \<and> d' = ?e"
    using assms(4)
    by (cases "stmt_fault io 0"; cases "spool_delete (\<lambda>r. sr_id r = i) d")
      (auto simp: remove_body_def stmt_def try_bind_Inr_iff spool_delete_def split: if_splits)
  then show ?thesis
  proof
    assume "\<exists>k. r = Inr True \<and> bump_counter io k key now ?e = Inr d'"
    then obtain k where r: "r = Inr True" and b: "bump_counter io k key now ?e = Inr d'" by blast
    note l = remove_body_ledger [OF assms(1) assms(4) [unfolded r]]
    have "db_seq d' = db_seq d" using bump_counter_spec [OF b] by (simp add: spool_delete_def)
    from books_counted [OF assms(2) this _ assms(3)] l show ?thesis by blast
  next
    assume a: "filter (\<lambda>r. sr_id r = i) (db_spool d) = [] \<and> d' = ?e"
    then have "filter (\<lambda>r. sr_id r \<noteq> i) (db_spool d) = db_spool d"
      by (auto simp: filter_empty_conv intro: filter_True)
    with a have "d' = d" by (simp add: spool_delete_def)
    with assms(2) show ?thesis by simp
  qed
qed

lemma remove_immediate_books:
  assumes "spool_inv cfg d" "books d" "key = ''spool.delivered_total'' \<or> key = ''spool.dropped_total''"
  shows "books (snd (immediate io (remove_body io key i now) d))
    \<and> uncounted (snd (immediate io (remove_body io key i now) d)) = uncounted d"
  by (rule immediate_cases [of io "remove_body io key i now" d])
    (use assms(2) in simp, use remove_books [OF assms] in simp)

lemma update_length: "spool_update p f d = Inr (n, d') \<Longrightarrow>
    length (db_spool d') = length (db_spool d) \<and> db_seq d' = db_seq d \<and> db_kv d' = db_kv d"
  by (auto simp: spool_update_def try_simps)

lemma claim_books:
  assumes "books d" "claim_body io now cfg d = Inr (r, d')"
  shows "books d' \<and> uncounted d' = uncounted d"
  using assms(2)
proof (cases rule: claim_body_cases)
  case none
  with assms(1) show ?thesis by simp
next
  case (some row n)
  from update_length [OF some(2)] books_same [OF assms(1), of d' "{}"] show ?thesis by (simp add: kv_frame_def)
qed

lemma find_id: "List.find (\<lambda>r. sr_id r = i) rows = Some row \<Longrightarrow> row \<in> set rows \<and> sr_id row = i"
  by (auto simp: find_Some_iff in_set_conv_nth)

lemma retry_books:
  assumes "spool_inv cfg d" "books d" "retry_body io i now cfg d = Inr (r, d')"
  shows "books d' \<and> uncounted d' = uncounted d"
  using assms(3)
proof (cases rule: retry_body_cases)
  case unknown
  with assms(2) show ?thesis by simp
next
  case (dropped row k)
  let ?e = "snd (spool_delete (\<lambda>r. sr_id r = i) d)"
  note b = bump_counter_spec [OF dropped(4)]
  from find_id [OF dropped(1)] have row: "row \<in> set (db_spool d)" "sr_id row = i" by simp_all
  have e: "counter key ?e = counter key d" for key
    by (simp add: counter_def get_kv_i64_def get_kv_def spool_delete_def)
  have "length (db_spool d') + 1 = length (db_spool d)"
    using b filter_id_length [OF _ row(1)] assms(1) row(2) by (simp add: spool_delete_def spool_inv_def)
  moreover have "db_seq d' = db_seq d" using b by (simp add: spool_delete_def)
  ultimately show ?thesis
    using b books_counted [OF assms(2), of d' "''spool.dropped_total''"] unfolding e by blast
next
  case (retried row n)
  from update_length [OF retried(4)] books_same [OF assms(2), of d' "{}"] show ?thesis by (simp add: kv_frame_def)
qed


lemma rows_at_most_seq: "spool_inv cfg d \<Longrightarrow> int (length (db_spool d)) \<le> db_seq d"
proof -
  assume inv: "spool_inv cfg d"
  have "length (db_spool d) = card (sr_id ` set (db_spool d))"
    using inv distinct_card [of "map sr_id (db_spool d)"] by (simp add: spool_inv_def)
  also have "\<dots> \<le> card {1..db_seq d}" using inv by (intro card_mono) (auto simp: spool_inv_def)
  finally have "length (db_spool d) \<le> nat (db_seq d)" by simp
  moreover have "0 \<le> db_seq d" using inv by (simp add: spool_inv_def)
  ultimately show ?thesis by linarith
qed

lemma delete_length: "fst (spool_delete p d) + length (db_spool (snd (spool_delete p d))) = length (db_spool d)"
  by (simp add: spool_delete_def sum_length_filter_compl)

lemma delete_frame: "db_seq (snd (spool_delete p d)) = db_seq d \<and> db_kv (snd (spool_delete p d)) = db_kv d"
  by (simp add: spool_delete_def)

lemma prune_books:
  assumes inv: "spool_inv cfg d" and b: "books d" and p: "prune_body io now cfg d = Inr (r, d')"
  shows "books d' \<and> (\<exists>st. r = Inr st \<and> uncounted d' = uncounted d + int (unat (removed st)))"
proof -
  from p obtain f1 f2 f3 n1 n2 n3 d1 d2 m where
    1: "spool_delete f1 d = (n1, d1)" and 2: "spool_delete f2 d1 = (n2, d2)" and 3: "spool_delete f3 d2 = (n3, d')"
    and r: "r = Inr \<lparr>removed = of_nat n1 + of_nat n2 + of_nat n3, remaining = m\<rparr>"
    by (auto simp: prune_body_def try_simps Let_def split: prod.splits)
  have len: "n1 + n2 + n3 + length (db_spool d') = length (db_spool d)"
    using delete_length [of f1 d] delete_length [of f2 d1] delete_length [of f3 d2] by (simp add: 1 2 3)
  have same: "db_seq d' = db_seq d" "db_kv d' = db_kv d"
    using delete_frame [of f1 d] delete_frame [of f2 d1] delete_frame [of f3 d2] by (simp_all add: 1 2 3)
  have "n1 + n2 + n3 < 2 ^ 64"
    using rows_at_most_seq [OF inv] b len by (simp add: books_def i64_max_def)
  then have "unat (of_nat (n1 + n2 + n3) :: u64) = n1 + n2 + n3"
    by (subst unsigned_of_nat) (simp add: take_bit_nat_eq_self)
  then have rm: "int (unat (of_nat n1 + of_nat n2 + of_nat n3 :: u64)) = int (n1 + n2 + n3)" by simp
  have c: "counter key d' = counter key d" for key
    by (rule kv_frame_counter [of "{}"]) (simp_all add: kv_frame_def same)
  have u: "uncounted d' = uncounted d + int (n1 + n2 + n3)"
    using len by (simp add: uncounted_def c same)
  then show ?thesis using b rm by (simp add: books_def c same r)
qed

lemma immediate_books:
  assumes "books d" "\<And>r d'. body d = Inr (r, d') \<Longrightarrow> books d' \<and> uncounted d' = uncounted d"
  shows "books (snd (immediate io body d)) \<and> uncounted (snd (immediate io body d)) = uncounted d"
  by (rule immediate_cases [of io body d]) (use assms in auto)

definition energy_only :: "db \<Rightarrow> db \<Rightarrow> bool" where
  "energy_only d d' \<longleftrightarrow> db_kv d' = db_kv d \<and> db_spool d' = db_spool d \<and> db_seq d' = db_seq d"

lemma energy_only_books: "energy_only d d' \<Longrightarrow> books d \<Longrightarrow> books d' \<and> uncounted d' = uncounted d"
  using books_same [of d d' "{}"] by (simp add: energy_only_def kv_frame_def)

lemma put_energy_only: "put_energy io k device row d = Inr d' \<Longrightarrow> energy_only d d'"
  using put_energy_kv [of io k device row d d'] by (simp add: energy_only_def)

lemma integrate_energy_only: "energy_only d (snd (integrate io cfg s d))"
proof -
  have "energy_only d d'" if r: "integrate_body io cfg s d = Inr (r, d')" for r d'
  proof -
    from integrate_body_ok [OF r] r obtain out where "integrate_body io cfg s d = Inr (Inr out, d')"
      by (cases r) auto
    then show ?thesis
      by (cases rule: integrate_body_cases) (auto dest: put_energy_only simp: energy_only_def)
  qed
  then have "energy_only d (snd (immediate io (integrate_body io cfg s) d))"
    by (intro immediate_invariant [where I = "energy_only d"]) (simp_all add: energy_only_def)
  then show ?thesis by (simp add: integrate_def energy_only_def)
qed

lemma reset_energy_only: "energy_only d (snd (reset_energy io device total_kwh now d))"
proof -
  have "energy_only d (snd (immediate io (\<lambda>d. try_bind (put_energy io 0 device
            \<lparr>er_total_kwh = total_kwh, er_last_power_watts = None, er_last_sample_at_ms = None, er_updated_at_ms = now\<rparr> d)
          (\<lambda>d'. Inr (Inr (), d'))) d))"
    by (rule immediate_invariant [where I = "energy_only d"])
      (auto simp: try_simps energy_only_def dest: put_energy_kv)
  then show ?thesis by (simp add: reset_energy_def energy_only_def)
qed


text \<open>A commit and an enqueue add one row.\<close>

lemma enqueue_books:
  assumes "books d" "enqueue_batch io device payload now d = (r, d')"
  shows "books d' \<and> uncounted d' = uncounted d"
proof (cases "enqueue io 0 device payload now d")
  case (Inl e)
  with assms show ?thesis by (simp add: enqueue_batch_def)
next
  case (Inr p)
  obtain i d1 where p: "p = (i, d1)" by (cases p)
  with Inr have e: "enqueue io 0 device payload now d = Inr (i, d1)" by simp
  then have "db_seq d < i64_max" by (auto simp: enqueue_def spool_insert_def try_simps split: if_splits)
  with books_enqueued [OF assms(1), of d1 "{}"] enqueue_effect [OF e] assms(2) e show ?thesis
    by (simp add: enqueue_batch_def kv_frame_def)
qed

lemma commit_body_writes:
  assumes "commit_body io c d = Inr (r, d')"
  shows "d' = d \<or> kv_frame {last_success_key (ac_device c)} d d' \<and> db_seq d < i64_max
    \<and> db_seq d' = db_seq d + 1 \<and> (\<exists>row. sr_id row = db_seq d' \<and> db_spool d' = db_spool d @ [row])"
proof -
  let ?key = "last_success_key (ac_device c)"
  from assms consider "d' = d"
    | d1 d2 i where "put_energy io 2 (ac_device c) (next_row c) d = Inr d1"
      "set_kv io 3 ?key (int_to_dec (ac_observed_at_ms c)) (ac_observed_at_ms c) d1 = Inr d2"
      "enqueue io 4 (ac_device c) (ac_payload c) (ac_observed_at_ms c) d2 = Inr (i, d')"
    by (auto simp: commit_body_def Let_def try_simps split: if_splits)
  then show ?thesis
  proof cases
    case (2 d1 d2 i)
    note p = put_energy_kv [OF 2(1)] and s = set_kv_other [OF 2(2)] and e = enqueue_effect [OF 2(3)]
    have "db_seq d2 < i64_max" using 2(3) by (auto simp: enqueue_def spool_insert_def try_simps split: if_splits)
    moreover have "kv_frame {?key} d d'"
      using set_kv_frame [OF 2(2)] p e by (simp add: kv_frame_def)
    ultimately show ?thesis using p s e by simp
  qed simp
qed

lemma commit_books:
  assumes "books d"
  shows "books (snd (commit_acquisition io c d)) \<and> uncounted (snd (commit_acquisition io c d)) = uncounted d"
proof (cases "validate_identity c")
  case (Inl e)
  with assms show ?thesis by (simp add: commit_acquisition_def)
next
  case (Inr u)
  have "books d' \<and> uncounted d' = uncounted d" if "commit_body io c d = Inr (r, d')" for r d'
    using commit_body_writes [OF that] assms books_enqueued [OF assms, of d' "{last_success_key (ac_device c)}"] by auto
  from immediate_books [OF assms this] Inr show ?thesis by (simp add: commit_acquisition_def)
qed

lemma set_state_books:
  assumes "books d" "\<not> reserved_key key"
  shows "books (snd (set_state io key v now d)) \<and> uncounted (snd (set_state io key v now d)) = uncounted d"
proof (cases "set_kv io 0 key v now d")
  case (Inr d')
  from assms(2) have "''spool.delivered_total'' \<noteq> key" "''spool.dropped_total'' \<noteq> key"
    by (auto simp: reserved_key_def)
  with set_kv_frame [OF Inr] set_kv_other [OF Inr] books_same [OF assms(1), of d' "{key}"] Inr
  show ?thesis by (auto simp: set_state_def)
qed (use assms in \<open>simp add: set_state_def\<close>)

section \<open>Every history\<close>

lemma storage_exec_books:
  assumes inv: "spool_inv cfg d" and b: "books d" and ok: "op_typed op"
  shows "books (storage_exec cfg io op d)
    \<and> uncounted (storage_exec cfg io op d) = uncounted d + int (pruned_by cfg io op d)"
proof (cases op)
  case (OpCommit c)
  with commit_books [OF b] show ?thesis by simp
next
  case (OpEnqueue device payload now)
  with enqueue_books [OF b, of io device payload now] show ?thesis
    by (cases "enqueue_batch io device payload now d") simp
next
  case (OpClaim now)
  with immediate_books [OF b claim_books [OF b]] show ?thesis by (simp add: claim_oldest_def)
next
  case (OpDelivered i now)
  with remove_immediate_books [OF inv b] show ?thesis by (simp add: mark_delivered_def)
next
  case (OpDrop i now)
  with remove_immediate_books [OF inv b] show ?thesis by (simp add: drop_batch_def)
next
  case (OpRetry i now)
  with immediate_books [OF b retry_books [OF inv b]] show ?thesis by (simp add: record_retry_def)
next
  case (OpPrune now)
  show ?thesis
  proof (cases rule: immediate_cases [of io "prune_body io now cfg" d])
    case (rolled_back e)
    with b OpPrune show ?thesis by (simp add: prune_def)
  next
    case (committed r d')
    from prune_books [OF inv b committed(1)] committed(2) OpPrune show ?thesis by (auto simp: prune_def)
  qed
next
  case (OpSetState key v now)
  with set_state_books [OF b, of key] ok show ?thesis by simp
next
  case (OpIntegrate s)
  with energy_only_books [OF integrate_energy_only b] show ?thesis by simp
next
  case (OpReset device total_kwh now)
  with energy_only_books [OF reset_energy_only b] show ?thesis by simp
qed

lemma storage_exec_inv:
  assumes inv: "spool_inv cfg d" and ok: "op_typed op"
  shows "spool_inv cfg (storage_exec cfg io op d)"
proof (cases op)
  case (OpCommit c)
  with commit_keeps_inv [OF inv] ok show ?thesis by simp
next
  case (OpSetState key v now)
  with inv show ?thesis
    by (auto simp: set_state_def split: sum.splits dest!: set_kv_other intro: spool_inv_same)
next
  case (OpIntegrate s)
  with inv integrate_energy_only [of d io cfg s] show ?thesis
    by (auto simp: energy_only_def intro: spool_inv_same)
next
  case (OpReset device total_kwh now)
  with inv reset_energy_only [of d io device total_kwh now] show ?thesis
    by (auto simp: energy_only_def intro: spool_inv_same)
qed (use spool_operations_inv [OF inv] in simp_all)

lemma storage_run_books:
  "spool_inv cfg d \<Longrightarrow> books d \<Longrightarrow> list_all (op_typed \<circ> snd) ops \<Longrightarrow>
    spool_inv cfg (storage_run cfg ops d) \<and> books (storage_run cfg ops d)
    \<and> uncounted (storage_run cfg ops d) = uncounted d + int (pruned_total cfg ops d)"
proof (induction cfg ops d rule: storage_run.induct)
  case (2 cfg io op ops d)
  with storage_exec_inv [OF 2(2), of op io] storage_exec_books [OF 2(2,3), of op io] show ?case by simp
qed simp

lemma empty_db_ok: "books empty_db" "uncounted empty_db = 0"
  by (simp_all add: books_def uncounted_def counter_def get_kv_i64_def get_kv_def empty_db_def i64_max_def)


section \<open>What a history cannot do to a row\<close>

text \<open>The id \<open>i\<close> has been given out, and its row, if it is still there, satisfies \<open>Q\<close>. Every operation
  keeps this, but a claim that could take such a row and a retry of it.\<close>

definition kept :: "int \<Rightarrow> (spool_row \<Rightarrow> bool) \<Rightarrow> db \<Rightarrow> bool" where
  "kept i Q d \<longleftrightarrow> i \<le> db_seq d \<and> (\<forall>r \<in> set (db_spool d). sr_id r = i \<longrightarrow> Q r)"

fun keeps :: "storage_config \<Rightarrow> int \<Rightarrow> (spool_row \<Rightarrow> bool) \<Rightarrow> storage_op \<Rightarrow> bool" where
  "keeps cfg i Q (OpClaim now) = (\<forall>r. Q r \<longrightarrow> \<not> ready now (max_spool_attempts cfg) r)"
| "keeps cfg i Q (OpRetry j now) = (j \<noteq> i \<or> (\<forall>r. \<not> Q r))"
| "keeps cfg i Q op = True"

lemma kept_subset: "kept i Q d \<Longrightarrow> db_seq d' = db_seq d \<Longrightarrow> set (db_spool d') \<subseteq> set (db_spool d) \<Longrightarrow> kept i Q d'"
  by (auto simp: kept_def)

lemma kept_delete: "kept i Q d \<Longrightarrow> kept i Q (snd (spool_delete p d))"
  by (auto simp: kept_def spool_delete_def)

lemma kept_append: "kept i Q d \<Longrightarrow> db_seq d' = db_seq d + 1 \<Longrightarrow> sr_id row = db_seq d' \<Longrightarrow>
    db_spool d' = db_spool d @ [row] \<Longrightarrow> kept i Q d'"
  by (auto simp: kept_def)

lemma kept_update:
  assumes "kept i Q d" "spool_update p f d = Inr (n, d')" "\<And>r. sr_id (f r) = sr_id r"
    and "\<And>r. r \<in> set (db_spool d) \<Longrightarrow> p r \<Longrightarrow> sr_id r \<noteq> i"
  shows "kept i Q d'"
  using assms by (fastforce simp: kept_def spool_update_def try_simps)

lemma kept_same: "kept i Q d \<Longrightarrow> db_seq d' = db_seq d \<Longrightarrow> db_spool d' = db_spool d \<Longrightarrow> kept i Q d'"
  by (simp add: kept_def)

lemma remove_kept:
  assumes "kept i Q d" "remove_body io key j now d = Inr (r, d')"
  shows "kept i Q d'"
proof -
  let ?e = "snd (spool_delete (\<lambda>r. sr_id r = j) d)"
  have "d' = ?e \<or> (\<exists>k. bump_counter io k key now ?e = Inr d')"
    using assms(2) by (cases "stmt_fault io 0"; cases "spool_delete (\<lambda>r. sr_id r = j) d")
      (auto simp: remove_body_def stmt_def try_bind_Inr_iff split: if_splits)
  with kept_delete [OF assms(1)] show ?thesis
    by (auto dest!: bump_counter_spec intro: kept_same)
qed

lemma claim_kept:
  assumes "kept i Q d" "keeps cfg i Q (OpClaim now)" "claim_body io now cfg d = Inr (r, d')"
  shows "kept i Q d'"
  using assms(3)
proof (cases rule: claim_body_cases)
  case none
  with assms(1) show ?thesis by simp
next
  case (some row n)
  from select_ready_Some [OF some(1)] assms(1,2) have "sr_id row \<noteq> i" by (auto simp: kept_def)
  then show ?thesis by (intro kept_update [OF assms(1) some(2)]) auto
qed

lemma retry_kept:
  assumes "kept i Q d" "keeps cfg i Q (OpRetry j now)" "retry_body io j now cfg d = Inr (r, d')"
  shows "kept i Q d'"
  using assms(3)
proof (cases rule: retry_body_cases)
  case unknown
  with assms(1) show ?thesis by simp
next
  case (dropped row k)
  from kept_delete [OF assms(1)] bump_counter_spec [OF dropped(4)] show ?thesis
    by (auto intro: kept_same)
next
  case (retried row n)
  from find_id [OF retried(1)] assms(1,2) have "j \<noteq> i" by (auto simp: kept_def)
  then show ?thesis by (intro kept_update [OF assms(1) retried(4)]) auto
qed

lemma prune_kept:
  assumes "kept i Q d" "prune_body io now cfg d = Inr (r, d')"
  shows "kept i Q d'"
proof -
  from assms(2) obtain p q s where
    "d' = snd (spool_delete s (snd (spool_delete q (snd (spool_delete p d)))))"
    by (auto simp: prune_body_def try_simps Let_def spool_delete_def)
  with assms(1) show ?thesis by (simp add: kept_delete)
qed

lemma immediate_kept:
  assumes "kept i Q d" "\<And>r d'. body d = Inr (r, d') \<Longrightarrow> kept i Q d'"
  shows "kept i Q (snd (immediate io body d))"
  by (rule immediate_invariant [where I = "kept i Q"]) (use assms in auto)

lemma storage_exec_kept:
  assumes k: "kept i Q d" and op: "keeps cfg i Q op"
  shows "kept i Q (storage_exec cfg io op d)"
proof (cases op)
  case (OpCommit c)
  have "kept i Q d'" if "commit_body io c d = Inr (r, d')" for r d'
    using commit_body_writes [OF that] k kept_append [OF k, of d'] by auto
  from immediate_kept [OF k this] OpCommit k show ?thesis
    by (auto simp: commit_acquisition_def split: sum.splits)
next
  case (OpEnqueue device payload now)
  with k show ?thesis
    by (auto simp: enqueue_batch_def split: sum.splits dest!: enqueue_effect simp: kept_def)
next
  case (OpClaim now)
  with immediate_kept [OF k claim_kept [OF k]] op show ?thesis by (simp add: claim_oldest_def)
next
  case (OpDelivered j now)
  with immediate_kept [OF k remove_kept [OF k, where j = j and now = now and key = "''spool.delivered_total''"]]
  show ?thesis by (simp add: mark_delivered_def)
next
  case (OpDrop j now)
  with immediate_kept [OF k remove_kept [OF k, where j = j and now = now and key = "''spool.dropped_total''"]]
  show ?thesis by (simp add: drop_batch_def)
next
  case (OpRetry j now)
  with immediate_kept [OF k retry_kept [OF k]] op show ?thesis by (simp add: record_retry_def)
next
  case (OpPrune now)
  with immediate_kept [OF k prune_kept [OF k, where now = now and cfg = cfg]] show ?thesis by (simp add: prune_def)
next
  case (OpSetState key v now)
  with k show ?thesis
    by (auto simp: set_state_def split: sum.splits dest!: set_kv_other intro: kept_subset)
next
  case (OpIntegrate s)
  with k integrate_energy_only [of d io cfg s] show ?thesis
    by (auto simp: energy_only_def intro: kept_subset)
next
  case (OpReset device total_kwh now)
  with k reset_energy_only [of d io device total_kwh now] show ?thesis
    by (auto simp: energy_only_def intro: kept_subset)
qed

lemma storage_run_kept:
  "kept i Q d \<Longrightarrow> list_all (keeps cfg i Q \<circ> snd) ops \<Longrightarrow> kept i Q (storage_run cfg ops d)"
  by (induction cfg ops d rule: storage_run.induct) (auto intro: storage_exec_kept)


section \<open>The identity of acquisitions\<close>

definition not_older :: "int option \<Rightarrow> int option \<Rightarrow> bool" where
  "not_older a b \<longleftrightarrow> (case a of None \<Rightarrow> True | Some x \<Rightarrow> (case b of None \<Rightarrow> False | Some y \<Rightarrow> x \<le> y))"

lemma not_older_refl [simp]: "not_older a a"
  by (simp add: not_older_def split: option.splits)

lemma not_older_trans: "not_older a b \<Longrightarrow> not_older b c \<Longrightarrow> not_older a c"
  by (auto simp: not_older_def split: option.splits)

lemma remove_frame: "remove_body io key i now d = Inr (r, d') \<Longrightarrow> kv_frame {key} d d'"
  by (cases "stmt_fault io 0"; cases "spool_delete (\<lambda>r. sr_id r = i) d")
    (auto simp: remove_body_def stmt_def try_bind_Inr_iff spool_delete_def kv_frame_def split: if_splits
      dest!: bump_counter_frame)

lemma claim_frame: "claim_body io now cfg d = Inr (r, d') \<Longrightarrow> kv_frame {} d d'"
  by (cases rule: claim_body_cases [of io now cfg d r d']) (auto simp: kv_frame_def dest: update_length)

lemma retry_frame: "retry_body io i now cfg d = Inr (r, d') \<Longrightarrow> kv_frame {''spool.dropped_total''} d d'"
  by (cases rule: retry_body_cases [of io i now cfg d r d'])
    (auto simp: kv_frame_def spool_delete_def dest: update_length dest!: bump_counter_frame)

lemma prune_frame: "prune_body io now cfg d = Inr (r, d') \<Longrightarrow> kv_frame {} d d'"
  by (auto simp: prune_body_def try_simps Let_def spool_delete_def kv_frame_def)

lemma storage_exec_frame:
  assumes "\<And>c. op \<noteq> OpCommit c" "op_typed op"
  shows "\<exists>keys. kv_frame keys d (storage_exec cfg io op d) \<and> (\<forall>device. last_success_key device \<notin> keys)"
proof (cases op)
  case (OpCommit c)
  with assms(1) [of c] show ?thesis by simp
next
  case (OpEnqueue device payload now)
  then have "kv_frame {} d (storage_exec cfg io op d)"
    by (auto simp: enqueue_batch_def kv_frame_def split: sum.splits dest!: enqueue_effect)
  then show ?thesis by (intro exI [of _ "{}"]) simp
next
  case (OpClaim now)
  with immediate_frame [of "claim_body io now cfg" d "{}" io] claim_frame show ?thesis
    by (intro exI [of _ "{}"]) (simp add: claim_oldest_def)
next
  case (OpDelivered i now)
  with immediate_frame [of "remove_body io ''spool.delivered_total'' i now" d "{''spool.delivered_total''}" io] remove_frame
  show ?thesis by (intro exI [of _ "{''spool.delivered_total''}"]) (simp add: mark_delivered_def)
next
  case (OpDrop i now)
  with immediate_frame [of "remove_body io ''spool.dropped_total'' i now" d "{''spool.dropped_total''}" io] remove_frame
  show ?thesis by (intro exI [of _ "{''spool.dropped_total''}"]) (simp add: drop_batch_def)
next
  case (OpRetry i now)
  with immediate_frame [of "retry_body io i now cfg" d "{''spool.dropped_total''}" io] retry_frame
  show ?thesis by (intro exI [of _ "{''spool.dropped_total''}"]) (simp add: record_retry_def)
next
  case (OpPrune now)
  with immediate_frame [of "prune_body io now cfg" d "{}" io] prune_frame show ?thesis
    by (intro exI [of _ "{}"]) (simp add: prune_def)
next
  case (OpSetState key v now)
  then have "kv_frame {key} d (storage_exec cfg io op d)"
    by (auto simp: set_state_def kv_frame_refl split: sum.splits dest!: set_kv_frame)
  with OpSetState assms(2) show ?thesis by (intro exI [of _ "{key}"]) (auto simp: reserved_key_def)
next
  case (OpIntegrate s)
  with integrate_energy_only [of d io cfg s] show ?thesis
    by (intro exI [of _ "{}"]) (simp add: energy_only_def kv_frame_def)
next
  case (OpReset device total_kwh now)
  with reset_energy_only [of d io device total_kwh now] show ?thesis
    by (intro exI [of _ "{}"]) (simp add: energy_only_def kv_frame_def)
qed

lemma storage_exec_last_observed:
  assumes ok: "op_typed op"
  shows "not_older (last_observed device d) (last_observed device (storage_exec cfg io op d))"
proof (cases "\<exists>c. op = OpCommit c")
  case True
  then obtain c where op: "op = OpCommit c" by blast
  from ok op have "in_i64 (ac_observed_at_ms c)" by simp
  then show ?thesis
  proof (cases rule: commit_acquisition_cases [where io = io and d = d])
    case (committed i d')
    with op show ?thesis
      by (cases "device = ac_device c") (auto simp: acquired_def not_older_def split: option.splits)
  qed (simp_all add: op)
next
  case False
  with storage_exec_frame [of op d cfg io] ok obtain keys where
    "kv_frame keys d (storage_exec cfg io op d)" "last_success_key device \<notin> keys" by blast
  from kv_frame_last_observed [OF this] show ?thesis by simp
qed

lemma storage_run_last_observed:
  "list_all (op_typed \<circ> snd) ops \<Longrightarrow> not_older (last_observed device d) (last_observed device (storage_run cfg ops d))"
proof (induction cfg ops d rule: storage_run.induct)
  case (2 cfg io op ops d)
  then have "not_older (last_observed device d) (last_observed device (storage_exec cfg io op d))"
    "not_older (last_observed device (storage_exec cfg io op d)) (last_observed device (storage_run cfg ops (storage_exec cfg io op d)))"
    using storage_exec_last_observed by simp_all
  then show ?case by (simp add: not_older_trans)
qed simp

section \<open>Energy rows\<close>

lemma storage_exec_energy:
  assumes inv: "energy_inv d" and ok: "op_ok op"
  shows "energy_inv (storage_exec cfg io op d)"
proof -
  have same: "energy_inv d'" if "db_energy d' = db_energy d" for d'
    using inv that by (simp add: energy_inv_def)
  show ?thesis
  proof (cases op)
    case (OpCommit c)
    have "energy_inv d'" if r: "commit_body io c d = Inr (r, d')" for r d'
    proof -
      from r consider "d' = d" | d1 d2 i where "put_energy io 2 (ac_device c) (next_row c) d = Inr d1"
        "set_kv io 3 (last_success_key (ac_device c)) (int_to_dec (ac_observed_at_ms c)) (ac_observed_at_ms c) d1 = Inr d2"
        "enqueue io 4 (ac_device c) (ac_payload c) (ac_observed_at_ms c) d2 = Inr (i, d')"
        by (auto simp: commit_body_def Let_def try_simps split: if_splits)
      then show ?thesis
      proof cases
        case (2 d1 d2 i)
        have "energy_inv d1" using energy_inv_put [OF inv 2(1)] ok OpCommit by (simp add: next_row_def)
        with set_kv_other [OF 2(2)] enqueue_effect [OF 2(3)] show ?thesis by (simp add: energy_inv_def)
      qed (use inv in simp)
    qed
    then have "energy_inv (snd (immediate io (commit_body io c) d))"
      by (intro immediate_invariant [where I = energy_inv]) (use inv in auto)
    with OpCommit inv show ?thesis by (auto simp: commit_acquisition_def split: sum.splits)
  next
    case (OpEnqueue device payload now)
    with inv show ?thesis
      by (auto simp: enqueue_batch_def split: sum.splits dest!: enqueue_effect intro: same)
  next
    case (OpClaim now)
    have "energy_inv d'" if "claim_body io now cfg d = Inr (r, d')" for r d'
      using that by (cases rule: claim_body_cases) (auto simp: spool_update_def try_simps intro: same)
    with OpClaim inv show ?thesis unfolding claim_oldest_def storage_exec.simps OpClaim
      by (intro immediate_invariant [where I = energy_inv]) auto
  next
    case (OpDelivered i now)
    have "energy_inv d'" if "remove_body io ''spool.delivered_total'' i now d = Inr (r, d')" for r d'
      using that by (auto simp: remove_body_def try_simps spool_delete_def split: if_splits dest!: bump_counter_spec intro: same)
    with OpDelivered inv show ?thesis unfolding mark_delivered_def storage_exec.simps OpDelivered
      by (intro immediate_invariant [where I = energy_inv]) auto
  next
    case (OpDrop i now)
    have "energy_inv d'" if "remove_body io ''spool.dropped_total'' i now d = Inr (r, d')" for r d'
      using that by (auto simp: remove_body_def try_simps spool_delete_def split: if_splits dest!: bump_counter_spec intro: same)
    with OpDrop inv show ?thesis unfolding drop_batch_def storage_exec.simps OpDrop
      by (intro immediate_invariant [where I = energy_inv]) auto
  next
    case (OpRetry i now)
    have "energy_inv d'" if "retry_body io i now cfg d = Inr (r, d')" for r d'
      using that by (cases rule: retry_body_cases)
        (auto simp: spool_update_def spool_delete_def try_simps dest!: bump_counter_spec intro: same inv)
    with OpRetry inv show ?thesis unfolding record_retry_def storage_exec.simps OpRetry
      by (intro immediate_invariant [where I = energy_inv]) auto
  next
    case (OpPrune now)
    have "energy_inv d'" if "prune_body io now cfg d = Inr (r, d')" for r d'
      using that by (auto simp: prune_body_def try_simps Let_def spool_delete_def intro: same)
    with OpPrune inv show ?thesis unfolding prune_def storage_exec.simps OpPrune
      by (intro immediate_invariant [where I = energy_inv]) auto
  next
    case (OpSetState key v now)
    with inv show ?thesis by (auto simp: set_state_def split: sum.splits dest!: set_kv_other intro: same)
  next
    case (OpIntegrate s)
    with integrate_inv [OF inv] show ?thesis by simp
  next
    case (OpReset device total_kwh now)
    have "energy_inv (snd (immediate io (\<lambda>d. try_bind (put_energy io 0 device
            \<lparr>er_total_kwh = total_kwh, er_last_power_watts = None, er_last_sample_at_ms = None, er_updated_at_ms = now\<rparr> d)
          (\<lambda>d'. Inr (Inr (), d'))) d))"
      by (rule immediate_invariant [where I = energy_inv])
        (use inv OpReset ok in \<open>auto simp: try_simps intro: energy_inv_put\<close>)
    with OpReset inv show ?thesis by (simp add: reset_energy_def)
  qed
qed


lemma storage_run_energy:
  "energy_inv d \<Longrightarrow> list_all (op_ok \<circ> snd) ops \<Longrightarrow> energy_inv (storage_run cfg ops d)"
  by (induction cfg ops d rule: storage_run.induct) (auto intro: storage_exec_energy)

section \<open>Properties\<close>

text \<open>C4: No batch is lost without being counted. After any history of operations on a new database, with
  any failures of SQLite, every batch that was ever accepted is in the queue, or counted as delivered,
  or counted as dropped, or in the number of rows that a prune reported; and the queue and the energy
  rows satisfy their invariants.\<close>

theorem no_batch_unaccounted:
  assumes "list_all (op_ok \<circ> snd) ops"
  shows "db_seq (storage_run cfg ops empty_db)
      = int (length (db_spool (storage_run cfg ops empty_db)))
        + counter ''spool.delivered_total'' (storage_run cfg ops empty_db)
        + counter ''spool.dropped_total'' (storage_run cfg ops empty_db)
        + int (pruned_total cfg ops empty_db)
    \<and> spool_inv cfg (storage_run cfg ops empty_db) \<and> energy_inv (storage_run cfg ops empty_db)"
  using storage_run_books [OF spool_inv_empty empty_db_ok(1) op_ok_typed [OF assms], of cfg] empty_db_ok(2)
    storage_run_energy [of empty_db ops cfg] assms
  by (simp add: uncounted_def energy_inv_def empty_db_def)

definition small_history :: history where
  "small_history = [(no_faults, OpEnqueue ''d'' [1] 10), (no_faults, OpEnqueue ''d'' [2] 11),
     (no_faults, OpClaim 20), (no_faults, OpDelivered 1 21), (no_faults, OpEnqueue [] [3] 12)]"

theorem no_batch_unaccounted_witness:
  "db_seq (storage_run conservative small_history empty_db)
      = int (length (db_spool (storage_run conservative small_history empty_db)))
        + counter ''spool.delivered_total'' (storage_run conservative small_history empty_db)
        + counter ''spool.dropped_total'' (storage_run conservative small_history empty_db)
        + int (pruned_total conservative small_history empty_db)"
  using no_batch_unaccounted [of small_history conservative] by (simp add: small_history_def)

text \<open>C12: The lease of a claimed batch is exclusive: whatever other operations run in between, in any
  order and from any caller, a later claim does not return the batch before its lease ends, unless its
  owner asked for a retry.\<close>

theorem lease_exclusive_in_every_history:
  assumes "spool_inv cfg d" "claim_oldest io now cfg d = (Inr (Some b), d1)"
    and "list_all (\<lambda>(_, op). case op of OpClaim t \<Rightarrow> t < b_next_attempt_at_ms b | OpRetry i _ \<Rightarrow> i \<noteq> b_id b | _ \<Rightarrow> True) ops"
    and "claim_oldest io' now' cfg (storage_run cfg ops d1) = (Inr (Some b'), d2)" "now' < b_next_attempt_at_ms b"
    and "list_all (op_typed \<circ> snd) ops"
  shows "b_id b' \<noteq> b_id b"
proof -
  let ?Q = "\<lambda>r. b_next_attempt_at_ms b \<le> sr_next_attempt_at_ms r"
  from claim_oldest_some [OF assms(1,2)] obtain row where row: "row \<in> set (db_spool d)"
    "b = row_to_batch (leased cfg now row)"
    "db_spool d1 = map (\<lambda>q. if sr_id q = sr_id row then leased cfg now q else q) (db_spool d)" by auto
  have inv1: "spool_inv cfg d1" using spool_operations_inv(2) [OF assms(1), of io now] assms(2) by simp
  have "leased cfg now row \<in> set (db_spool d1)" using row(1) by (auto simp: row(3))
  with inv1 have "sr_id (leased cfg now row) \<le> db_seq d1" by (simp add: spool_inv_def)
  then have "kept (b_id b) ?Q d1"
    using row by (auto simp: kept_def row_to_batch_def leased_def split: if_splits)
  moreover have "keeps cfg (b_id b) ?Q op"
    if "case op of OpClaim t \<Rightarrow> t < b_next_attempt_at_ms b | OpRetry i _ \<Rightarrow> i \<noteq> b_id b | _ \<Rightarrow> True" for op
    using that by (cases op) (auto simp: ready_def)
  then have "list_all (keeps cfg (b_id b) ?Q \<circ> snd) ops"
    using assms(3) by (auto simp: list_all_iff)
  ultimately have k: "kept (b_id b) ?Q (storage_run cfg ops d1)" by (rule storage_run_kept)
  have inv2: "spool_inv cfg (storage_run cfg ops d1)"
    using inv1 assms(6) by (induction cfg ops d1 rule: storage_run.induct) (auto intro: storage_exec_inv)
  from claim_oldest_some [OF inv2 assms(4)] obtain row' where
    "row' \<in> set (db_spool (storage_run cfg ops d1))" "ready now' (max_spool_attempts cfg) row'"
    "b' = row_to_batch (leased cfg now' row')" by auto
  with k assms(5) show ?thesis by (auto simp: kept_def ready_def row_to_batch_def leased_def)
qed

lemma run_inv: "spool_inv cfg d \<Longrightarrow> list_all (op_typed \<circ> snd) ops \<Longrightarrow> spool_inv cfg (storage_run cfg ops d)"
  by (induction cfg ops d rule: storage_run.induct) (auto intro: storage_exec_inv)

lemmas history_eval = prune_def prune_body_def beyond_newest_def spool_delete_def sat_i64_def i64_min_def i64_max_def
  claim_eval in_i64I

theorem lease_exclusive_in_every_history_witness:
  "\<exists>b b' d2. claim_oldest no_faults 30 conservative two_batches = (Inr (Some b), snd (claim_oldest no_faults 30 conservative two_batches))
    \<and> claim_oldest no_faults 50 conservative (storage_run conservative [(no_faults, OpPrune 40)]
          (snd (claim_oldest no_faults 30 conservative two_batches))) = (Inr (Some b'), d2)
    \<and> b_id b' \<noteq> b_id b"
proof -
  obtain b' d2 where c: "claim_oldest no_faults 50 conservative (storage_run conservative [(no_faults, OpPrune 40)]
      (snd (claim_oldest no_faults 30 conservative two_batches))) = (Inr (Some b'), d2)"
    unfolding claim_two_batches by (simp add: history_eval)
  from lease_exclusive_in_every_history [OF two_batches_inv claim_two_batches, of "[(no_faults, OpPrune 40)]" no_faults 50 b' d2] c
  show ?thesis unfolding claim_two_batches by simp
qed

text \<open>C13: A batch that was delivered or dropped never comes back: after any further history, no claim
  returns its id.\<close>

theorem removed_batch_never_returns:
  assumes "spool_inv cfg d" "mark_delivered io i now d = (Inr True, d1) \<or> drop_batch io i now d = (Inr True, d1)"
    and "list_all (op_typed \<circ> snd) ops" "claim_oldest io' now' cfg (storage_run cfg ops d1) = (Inr (Some b), d2)"
  shows "b_id b \<noteq> i"
proof -
  from assms(2) obtain key where r: "remove_body io key i now d = Inr (Inr True, d1)"
    by (auto simp: mark_delivered_def drop_batch_def dest!: immediate_Inr)
  from remove_body_ledger [OF assms(1) r] have rows: "db_spool d1 = filter (\<lambda>r. sr_id r \<noteq> i) (db_spool d)"
    and len: "length (db_spool d1) + 1 = length (db_spool d)" by blast+
  have "db_seq d1 = db_seq d"
    using r by (cases "stmt_fault io 0") (auto simp: remove_body_def stmt_def try_bind_Inr_iff spool_delete_def split: if_splits
        dest!: bump_counter_spec)
  moreover obtain r where "r \<in> set (db_spool d)" "sr_id r = i"
    using rows len by (metis (mono_tags, lifting) filter_True less_add_one nat_neq_iff)
  ultimately have "kept i (\<lambda>r. False) d1" using assms(1) by (auto simp: kept_def rows spool_inv_def)
  moreover have "keeps cfg i (\<lambda>r. False) op" for op by (cases op) simp_all
  then have "list_all (keeps cfg i (\<lambda>r. False) \<circ> snd) ops" by (simp add: list_all_iff)
  ultimately have k: "kept i (\<lambda>r. False) (storage_run cfg ops d1)" by (rule storage_run_kept)
  have "spool_inv cfg d1"
    using spool_operations_inv(3,4) [OF assms(1), of io i now] assms(2) by auto
  from claim_oldest_some [OF run_inv [OF this assms(3)] assms(4)] k show ?thesis
    by (auto simp: kept_def row_to_batch_def leased_def)
qed

theorem removed_batch_never_returns_witness:
  "\<exists>b d2. claim_oldest no_faults 40 conservative (storage_run conservative [(no_faults, OpPrune 35)]
      (snd (mark_delivered no_faults 2 30 two_batches))) = (Inr (Some b), d2) \<and> b_id b \<noteq> 2"
proof -
  have m: "mark_delivered no_faults 2 30 two_batches = (Inr True, snd (mark_delivered no_faults 2 30 two_batches))"
    by (simp add: mark_delivered_def remove_body_def bump_counter_def get_kv_i64_def get_kv_def set_kv_def kv_check_def
        history_eval)
  obtain b d2 where c: "claim_oldest no_faults 40 conservative (storage_run conservative [(no_faults, OpPrune 35)]
      (snd (mark_delivered no_faults 2 30 two_batches))) = (Inr (Some b), d2)"
    by (simp add: mark_delivered_def remove_body_def bump_counter_def get_kv_i64_def get_kv_def set_kv_def kv_check_def
        history_eval)
  from removed_batch_never_returns [OF two_batches_inv disjI1 [OF m] _ c] c show ?thesis by simp
qed

text \<open>A batch claimed for its last attempt is never handed out again by any history in which its
  owner does not report the outcome: a crash during the last attempt leaves the batch in the queue
  until it is pruned.\<close>

theorem last_attempt_not_reclaimed:
  assumes "spool_inv cfg d" "claim_oldest io now cfg d = (Inr (Some b), d1)" "b_attempts b = max_spool_attempts cfg"
    and "list_all (\<lambda>(_, op). op_typed op \<and> (case op of OpRetry i _ \<Rightarrow> i \<noteq> b_id b | _ \<Rightarrow> True)) ops"
    and "claim_oldest io' now' cfg (storage_run cfg ops d1) = (Inr (Some b'), d2)"
  shows "b_id b' \<noteq> b_id b"
proof -
  let ?Q = "\<lambda>r. uint (max_spool_attempts cfg) \<le> sr_attempts r"
  from claim_oldest_some [OF assms(1,2)] obtain row where row: "row \<in> set (db_spool d)"
    "ready now (max_spool_attempts cfg) row" "b = row_to_batch (leased cfg now row)"
    "db_spool d1 = map (\<lambda>q. if sr_id q = sr_id row then leased cfg now q else q) (db_spool d)" by auto
  have inv1: "spool_inv cfg d1" using spool_operations_inv(2) [OF assms(1), of io now] assms(2) by simp
  have mem: "leased cfg now row \<in> set (db_spool d1)" using row(1) by (auto simp: row(4))
  with inv1 have seq: "sr_id row \<le> db_seq d1" by (auto simp: spool_inv_def leased_def)
  have "0 \<le> sr_attempts row + 1" "sr_attempts row + 1 \<le> uint (max_spool_attempts cfg)"
    using assms(1) row(1,2) by (auto simp: spool_inv_def spool_check_def ready_def)
  moreover have "uint (max_spool_attempts cfg) < 2 ^ 32"
    using unsigned_less [of "max_spool_attempts cfg", where ?'a = int] by simp
  ultimately have n: "0 \<le> sr_attempts row + 1" "sr_attempts row + 1 < 2 ^ 32" by simp_all
  have u: "uint (word_of_int m :: u32) = m" if "0 \<le> m" "m < 2 ^ 32" for m :: int
    using that by (simp add: unsigned_of_int take_bit_int_eq_self)
  have "uint (word_of_int (sr_attempts row) + 1 :: u32) = sr_attempts row + 1"
    using u [OF n] by simp
  with assms(3) have a: "uint (max_spool_attempts cfg) = sr_attempts row + 1"
    by (simp add: row(3) row_to_batch_def leased_def)
  have "\<forall>q \<in> set (db_spool d). sr_id q = sr_id row \<longrightarrow> sr_attempts q = sr_attempts row"
    using distinct_ids [OF assms(1) _ row(1)] by blast
  then have "kept (b_id b) ?Q d1"
    using seq a by (auto simp: kept_def row(3,4) row_to_batch_def leased_def split: if_splits)
  moreover have "keeps cfg (b_id b) ?Q op" if "case op of OpRetry i _ \<Rightarrow> i \<noteq> b_id b | _ \<Rightarrow> True" for op
    using that by (cases op) (auto simp: ready_def)
  then have "list_all (keeps cfg (b_id b) ?Q \<circ> snd) ops"
    using assms(4) by (auto simp: list_all_iff)
  ultimately have k: "kept (b_id b) ?Q (storage_run cfg ops d1)" by (rule storage_run_kept)
  have "list_all (op_typed \<circ> snd) ops" using assms(4) by (auto simp: list_all_iff)
  from claim_oldest_some [OF run_inv [OF inv1 this] assms(5)] k show ?thesis
    by (auto simp: kept_def ready_def row_to_batch_def leased_def)
qed


definition last_attempt_db :: db where
  "last_attempt_db = empty_db\<lparr>db_seq := 2, db_spool :=
     [\<lparr>sr_id = 1, sr_device = ''d'', sr_created_at_ms = 10, sr_payload = [1], sr_attempts = 4, sr_next_attempt_at_ms = 10\<rparr>,
      \<lparr>sr_id = 2, sr_device = ''d'', sr_created_at_ms = 20, sr_payload = [2], sr_attempts = 0, sr_next_attempt_at_ms = 20\<rparr>]\<rparr>"

theorem last_attempt_not_reclaimed_witness:
  "\<exists>b b' d1 d2. claim_oldest no_faults 30 conservative last_attempt_db = (Inr (Some b), d1) \<and> b_id b = 1
    \<and> claim_oldest no_faults 1000000 conservative (storage_run conservative [(no_faults, OpEnqueue ''d'' [3] 40)] d1)
        = (Inr (Some b'), d2) \<and> b_id b' \<noteq> 1"
proof -
  have inv: "spool_inv conservative last_attempt_db"
    by (simp add: spool_inv_def last_attempt_db_def empty_db_def conservative_def spool_check_def)
  obtain b d1 where c: "claim_oldest no_faults 30 conservative last_attempt_db = (Inr (Some b), d1)"
    and b: "b_id b = 1" "b_attempts b = 5"
    and c2: "\<exists>b' d2. claim_oldest no_faults 1000000 conservative (storage_run conservative [(no_faults, OpEnqueue ''d'' [3] 40)] d1)
        = (Inr (Some b'), d2)"
    by (simp add: last_attempt_db_def enqueue_batch_def enqueue_def spool_insert_def history_eval)
  from c2 obtain b' d2 where c': "claim_oldest no_faults 1000000 conservative
      (storage_run conservative [(no_faults, OpEnqueue ''d'' [3] 40)] d1) = (Inr (Some b'), d2)" by blast
  from last_attempt_not_reclaimed [OF inv c _ _ c'] b have "b_id b' \<noteq> 1" by (simp add: conservative_def)
  with c b c' show ?thesis by blast
qed

text \<open>C11: An acquisition is recorded at most once: after a commit, whatever operations follow, a commit
  of the same device with the same or an older time never writes; it is a no-op or an error, and
  leaves the database as it was.\<close>

theorem acquisition_recorded_once:
  assumes "commit_acquisition io c d = (Inr (Committed i), d1)" "in_i64 (ac_observed_at_ms c)"
    and "list_all (op_typed \<circ> snd) ops"
    and "ac_device c' = ac_device c" "ac_observed_at_ms c' \<le> ac_observed_at_ms c" "in_i64 (ac_observed_at_ms c')"
  shows "snd (commit_acquisition io' c' (storage_run cfg ops d1)) = storage_run cfg ops d1
    \<and> \<not> (\<exists>j. fst (commit_acquisition io' c' (storage_run cfg ops d1)) = Inr (Committed j))"
proof -
  from assms(2) have "last_observed (ac_device c) d1 = Some (ac_observed_at_ms c)"
    by (cases rule: commit_acquisition_cases [where io = io and d = d])
      (use assms(1) in \<open>auto simp: acquired_def\<close>)
  with storage_run_last_observed [OF assms(3), of "ac_device c" d1 cfg] obtain t where
    t: "last_observed (ac_device c) (storage_run cfg ops d1) = Some t" "ac_observed_at_ms c \<le> t"
    by (auto simp: not_older_def split: option.splits)
  show ?thesis
    using assms(6)
  proof (cases rule: commit_acquisition_cases [where io = io' and d = "storage_run cfg ops d1"])
    case (committed j d')
    with t assms(4,5) show ?thesis by (simp add: acquired_def)
  qed auto
qed

theorem acquisition_recorded_once_witness:
  "\<exists>d1. commit_acquisition no_faults sample_commit empty_db = (Inr (Committed 1), d1)
    \<and> snd (commit_acquisition no_faults sample_commit (storage_run conservative [(no_faults, OpClaim 2000)] d1))
        = storage_run conservative [(no_faults, OpClaim 2000)] d1"
proof -
  from commit_acquisition_enabled [OF sample_commit_valid sample_commit_empty(1) _ sample_commit_empty(2)]
  obtain d1 where c: "commit_acquisition no_faults sample_commit empty_db = (Inr (Committed 1), d1)"
    by (auto simp: empty_db_def i64_max_def)
  from acquisition_recorded_once [OF c, of "[(no_faults, OpClaim 2000)]" sample_commit no_faults conservative] c
  show ?thesis by (simp add: sample_commit_def in_i64I)
qed

end
