(* ===== verification/Service_Config.thy ===== *)
theory Service_Config
  imports Domain Scheduler
begin

text \<open>
  \<open>victron-service\<close>, \<open>config.rs\<close> and \<open>model.rs\<close>: the tunables of the orchestration, their validation
  and the device identity derived from them. The lemmas show which names the validation admits, and
  that it admits names that \<open>device\<close> then refuses (the length limit of a device id is not checked).
\<close>

section \<open>Configuration\<close>

record service_config =
  sc_device_name :: string
  sc_instance :: u16
  sc_active_interval :: duration
  sc_idle_interval :: duration
  sc_solar_active_threshold_watts :: f64
  sc_response_timeout :: duration
  sc_phase_timeout :: duration
  sc_maximum_energy_gap :: duration
  sc_spool_claim_ttl :: duration
  sc_spool_max_attempts :: u32
  sc_backoff_base :: duration
  sc_backoff_factor :: u32
  sc_backoff_cap :: duration

definition from_secs :: "nat \<Rightarrow> duration" where
  "from_secs n = n * 1000000000"

definition default_config :: service_config where
  "default_config =
     \<lparr>sc_device_name = ''solar-charger'', sc_instance = 3, sc_active_interval = from_secs 15,
      sc_idle_interval = from_secs 60, sc_solar_active_threshold_watts = f64_lit 5,
      sc_response_timeout = from_secs 8, sc_phase_timeout = from_secs 12,
      sc_maximum_energy_gap = from_secs 300, sc_spool_claim_ttl = from_secs 120, sc_spool_max_attempts = 5,
      sc_backoff_base = from_secs 5, sc_backoff_factor = 2, sc_backoff_cap = from_secs 300\<rparr>"

record device_identity =
  di_device :: device_id
  di_instance :: u16

text \<open>\<open>device()\<close> panics (\<open>expect\<close>) when the name is not a device id: the value \<open>None\<close>.\<close>

definition config_device :: "service_config \<Rightarrow> device_identity option" where
  "config_device c =
     (case device_id_new (sc_device_name c) of
        Inr d \<Rightarrow> Some \<lparr>di_device = d, di_instance = sc_instance c\<rparr>
      | Inl e \<Rightarrow> None)"

definition identity_name :: "device_identity \<Rightarrow> string" where
  "identity_name d = device_name (di_device d)"

definition config_backoff :: "service_config \<Rightarrow> exponential_backoff" where
  "config_backoff c = \<lparr>bo_base = sc_backoff_base c, bo_factor = sc_backoff_factor c, bo_cap = sc_backoff_cap c\<rparr>"

section \<open>Validation\<close>

datatype config_error =
    EmptyDeviceName
  | InvalidDeviceName string
  | InstanceMustBeNonZero
  | IntervalZero string
  | SolarThresholdInvalid f64
  | TimeoutZero string
  | PhaseTimeoutBelowResponseTimeout
  | MaximumEnergyGapTooSmall
  | SpoolClaimTtlZero
  | SpoolMaxAttemptsZero
  | BackoffBaseZero
  | BackoffFactorZero
  | BackoffCapBelowBase

text \<open>The code tests the characters; one outside ASCII fails, as each of its bytes does here.\<close>

definition config_name_char :: "char \<Rightarrow> bool" where
  "config_name_char c = (is_ascii_alphanumeric c \<or> c = CHR ''_'' \<or> c = CHR ''-'')"

definition config_validate :: "service_config \<Rightarrow> config_error + unit" where
  "config_validate c =
     (if str_trim (sc_device_name c) = [] then Inl EmptyDeviceName
      else if \<not> list_all config_name_char (sc_device_name c) then Inl (InvalidDeviceName (sc_device_name c))
      else if sc_instance c = 0 then Inl InstanceMustBeNonZero
      else if sc_active_interval c = 0 then Inl (IntervalZero ''active_interval'')
      else if sc_idle_interval c = 0 then Inl (IntervalZero ''idle_interval'')
      else if \<not> f64_is_finite (sc_solar_active_threshold_watts c)
            \<or> f64_lt (sc_solar_active_threshold_watts c) (f64_lit 0)
      then Inl (SolarThresholdInvalid (sc_solar_active_threshold_watts c))
      else if sc_response_timeout c = 0 then Inl (TimeoutZero ''response_timeout'')
      else if sc_phase_timeout c = 0 then Inl (TimeoutZero ''phase_timeout'')
      else if sc_phase_timeout c < sc_response_timeout c then Inl PhaseTimeoutBelowResponseTimeout
      else if sc_maximum_energy_gap c < from_secs 1 then Inl MaximumEnergyGapTooSmall
      else if sc_spool_claim_ttl c = 0 then Inl SpoolClaimTtlZero
      else if sc_spool_max_attempts c = 0 then Inl SpoolMaxAttemptsZero
      else if sc_backoff_base c = 0 then Inl BackoffBaseZero
      else if sc_backoff_factor c = 0 then Inl BackoffFactorZero
      else if sc_backoff_cap c < sc_backoff_base c then Inl BackoffCapBelowBase
      else Inr ())"

lemma default_config_valid: "config_validate default_config = Inr ()"
proof -
  have t: "str_trim ''solar-charger'' = ''solar-charger''"
    by (rule str_trim_id) (simp_all add: device_id_byte_def is_ascii_alphanumeric_def)
  show ?thesis
    by (simp add: config_validate_def default_config_def t from_secs_def config_name_char_def
        is_ascii_alphanumeric_def f64_eval)
qed

lemma config_name_device_id: "list_all config_name_char name \<Longrightarrow> list_all device_id_byte name"
  by (auto simp: list_all_iff config_name_char_def device_id_byte_def)

lemma config_validate_name:
  "config_validate c = Inr () \<Longrightarrow> sc_device_name c \<noteq> [] \<and> list_all device_id_byte (sc_device_name c)"
  using str_trim_id [of "[]"]
  by (cases "sc_device_name c = []") (auto simp: config_validate_def config_name_device_id split: if_splits)

text \<open>The backoff of a valid configuration is a proper one.\<close>

lemma config_validate_backoff:
  "config_validate c = Inr () \<Longrightarrow>
    0 < bo_base (config_backoff c) \<and> bo_factor (config_backoff c) \<noteq> 0 \<and> bo_base (config_backoff c) \<le> bo_cap (config_backoff c)"
  by (auto simp: config_validate_def config_backoff_def split: if_splits)

section \<open>Properties\<close>

text \<open>With a valid configuration the device identity exists, carrying the configured name and
  instance, exactly when the name has at most 64 bytes; for a longer name, which the validation also
  admits, \<open>device\<close> panics. (The comment in the code says that validation excludes the panic.)\<close>

theorem valid_config_device:
  assumes "config_validate c = Inr ()"
  shows "config_device c =
    (if length (sc_device_name c) \<le> 64
     then Some \<lparr>di_device = \<lparr>device_name = sc_device_name c\<rparr>, di_instance = sc_instance c\<rparr> else None)"
proof (cases "device_id_new (sc_device_name c)")
  case (Inr d)
  with device_id_new_iff [of "sc_device_name c" d] show ?thesis by (simp add: config_device_def)
next
  case (Inl e)
  then have "\<not> length (sc_device_name c) \<le> 64"
    using config_validate_name [OF assms] device_id_new_iff [of "sc_device_name c"] by auto
  with Inl show ?thesis by (simp add: config_device_def)
qed

definition long_name_config :: service_config where
  "long_name_config = default_config\<lparr>sc_device_name := replicate 65 CHR ''a''\<rparr>"

theorem valid_config_device_witness:
  "config_validate long_name_config = Inr () \<and> config_device long_name_config = None
   \<and> config_device default_config \<noteq> None"
proof -
  have b: "list_all device_id_byte (replicate 65 CHR ''a'')" "list_all config_name_char (replicate 65 CHR ''a'')"
    by (simp_all add: list_all_iff device_id_byte_def config_name_char_def is_ascii_alphanumeric_def)
  then have t: "str_trim (replicate 65 CHR ''a'') = replicate 65 CHR ''a''" by (intro str_trim_id) simp_all
  have v: "config_validate long_name_config = Inr ()"
    using default_config_valid b(2)
    by (simp add: config_validate_def long_name_config_def t default_config_def f64_eval from_secs_def)
  from valid_config_device [OF v] valid_config_device [OF default_config_valid] v show ?thesis
    by (simp add: long_name_config_def default_config_def)
qed

end
