(* ===== verification/Service_Ports.thy ===== *)
theory Service_Ports
  imports Service_Config Energy_Policy Health Cycle_State
begin

text \<open>
  \<open>victron-service\<close>, \<open>ports/\<close> and the context of \<open>cycle.rs\<close>: the error types of the ports with their
  classification, and the ports themselves.

  A port is code behind a trait object, so it is a parameter: \<open>'w\<close> is the world outside the service
  (the Bluetooth stack, the database, the metrics server, the clock, the shutdown channel), and every
  port call is a function from the world to its result and the world after it. A Bluetooth phase
  runs under an outer deadline, its last argument; \<open>None\<close> is the deadline passing first. The theory \<open>Storage_Adapter\<close> and
  \<open>Collector_Protocol\<close> give the collector's own implementations.

  An action of the service reads and changes the cycle context and the world, and may fail.
\<close>

section \<open>Errors\<close>

datatype ble_error =
    BleNotFound | BleOutOfRange | BleContention | BlePeerControl u16 | BleAuthentication
  | BleTimeout string | BleDisconnected | BleTransport string | BleOther string | BleNotWired string

fun ble_kind :: "ble_error \<Rightarrow> string" where
  "ble_kind BleNotFound = ''not_found''"
| "ble_kind BleOutOfRange = ''out_of_range''"
| "ble_kind BleContention = ''contention''"
| "ble_kind (BlePeerControl code) = ''peer_control''"
| "ble_kind BleAuthentication = ''authentication''"
| "ble_kind (BleTimeout operation) = ''timeout''"
| "ble_kind BleDisconnected = ''disconnected''"
| "ble_kind (BleTransport m) = ''transport''"
| "ble_kind (BleOther m) = ''other''"
| "ble_kind (BleNotWired m) = ''not_wired''"

definition ble_operation :: "ble_error \<Rightarrow> string option" where
  "ble_operation e = (case e of BleTimeout operation \<Rightarrow> Some operation | _ \<Rightarrow> None)"

definition peer_control_code :: "ble_error \<Rightarrow> u16 option" where
  "peer_control_code e = (case e of BlePeerControl code \<Rightarrow> Some code | _ \<Rightarrow> None)"

datatype port_storage_error =
    PsOpen string | PsIo string | PsSchema string | PsCorrupt | PsPoisoned
  | PsInvalidTimestamp system_time | PsEnergyAnchorConflict | PsNotWired string

fun ps_kind :: "port_storage_error \<Rightarrow> string" where
  "ps_kind (PsOpen m) = ''open''"
| "ps_kind (PsIo m) = ''io''"
| "ps_kind (PsSchema m) = ''schema''"
| "ps_kind PsCorrupt = ''corrupt''"
| "ps_kind PsPoisoned = ''poisoned''"
| "ps_kind (PsInvalidTimestamp t) = ''invalid_timestamp''"
| "ps_kind PsEnergyAnchorConflict = ''energy_anchor_conflict''"
| "ps_kind (PsNotWired m) = ''not_wired''"

datatype delivery_error =
    DeTransport string | DeTimeout | DeHttp u16 | DeMalformedResponse string | DeRejected string | DeNotWired string

fun de_kind :: "delivery_error \<Rightarrow> string" where
  "de_kind (DeTransport m) = ''transport''"
| "de_kind DeTimeout = ''timeout''"
| "de_kind (DeHttp status) = ''http''"
| "de_kind (DeMalformedResponse m) = ''malformed_response''"
| "de_kind (DeRejected m) = ''rejected''"
| "de_kind (DeNotWired m) = ''not_wired''"

definition de_status :: "delivery_error \<Rightarrow> u16 option" where
  "de_status e = (case e of DeHttp status \<Rightarrow> Some status | _ \<Rightarrow> None)"

fun retryable :: "delivery_error \<Rightarrow> bool" where
  "retryable (DeTransport m) = True"
| "retryable DeTimeout = True"
| "retryable (DeHttp status) = (status = 408 \<or> status = 429 \<or> 500 \<le> status \<and> status \<le> 599)"
| "retryable (DeMalformedResponse m) = True"
| "retryable (DeRejected m) = False"
| "retryable (DeNotWired m) = False"

datatype port_protocol_error =
    PpMalformed | PpTruncated | PpBufferExceeded | PpEmptyResponse | PpUnsupportedOpcode u8 | PpUnknownVreg u16
  | PpInvalidValue u16 | PpNotSubscribed | PpContentionResponse int | PpNotWired string

datatype render_error = ReMetric string | ReNotWired string

section \<open>Messages\<close>

record acquire_plan =
  negotiation_frames :: "bytes list"
  subscribe_payload :: bytes
  values_payload :: bytes

record raw_value =
  rv_vreg :: u16
  rv_raw :: bytes

record claimed_batch =
  cb_id :: u64
  cb_payload :: bytes
  cb_attempts :: u32

record port_commit =
  pc_device :: device_id
  pc_observed_at :: system_time
  pc_expected_energy :: "energy_state option"
  pc_next_energy :: energy_state
  pc_payload :: bytes

datatype port_commit_outcome = PortCommitted | PortAlreadyCommitted

record spool_health =
  sh_depth :: nat
  sh_oldest_age :: "duration option"

datatype port_retry_outcome = PortRetried u32 | PortDropped u32

record render_context =
  rc_device :: device_id
  rc_sample :: sample
  rc_resolved_yield_kwh :: f64
  rc_energy_kind :: energy_kind
  rc_ble_up :: "bool option"
  rc_ble_rssi_dbm :: "int option"
  rc_last_success :: "system_time option"
  rc_sample_age :: "duration option"
  rc_health :: health_snapshot
  rc_spool_depth :: nat
  rc_spool_oldest_age :: "duration option"
  rc_energy_gap_skipped_seconds :: u64

section \<open>Ports\<close>

type_synonym ('w, 'e, 'a) port = "'w \<Rightarrow> ('e + 'a) \<times> 'w"

type_synonym ('w, 'a) ble_port = "duration \<Rightarrow> 'w \<Rightarrow> (ble_error + 'a) option \<times> 'w"

record 'w ports =
  ble_discover :: "('w, unit) ble_port"
  ble_connect :: "('w, unit) ble_port"
  ble_negotiate :: "bytes list \<Rightarrow> ('w, unit) ble_port"
  ble_subscribe :: "u16 \<Rightarrow> bytes \<Rightarrow> ('w, unit) ble_port"
  ble_request_values :: "bytes \<Rightarrow> duration \<Rightarrow> ('w, bytes) ble_port"
  ble_finish_cycle :: "('w, unit) ble_port"
  ble_disconnect :: "('w, unit) ble_port"
  proto_vregs :: "u16 list"
  proto_acquire_plan :: "u16 \<Rightarrow> u16 list \<Rightarrow> port_protocol_error + acquire_plan"
  proto_parse_response :: "u16 \<Rightarrow> bytes \<Rightarrow> port_protocol_error + raw_value list"
  proto_translate :: "u16 \<Rightarrow> raw_value list \<Rightarrow> ('w, port_protocol_error, sample) port"
  st_last_success :: "('w, port_storage_error, system_time option) port"
  st_energy_state :: "('w, port_storage_error, energy_state option) port"
  st_commit_acquisition :: "port_commit \<Rightarrow> ('w, port_storage_error, port_commit_outcome) port"
  st_spool_health :: "system_time \<Rightarrow> ('w, port_storage_error, spool_health) port"
  st_spool_claim_next :: "duration \<Rightarrow> system_time \<Rightarrow> ('w, port_storage_error, claimed_batch option) port"
  st_spool_complete :: "claimed_batch \<Rightarrow> ('w, port_storage_error, unit) port"
  st_spool_retry :: "claimed_batch \<Rightarrow> system_time \<Rightarrow> ('w, port_storage_error, port_retry_outcome) port"
  st_spool_drop :: "claimed_batch \<Rightarrow> ('w, port_storage_error, unit) port"
  deliver :: "bytes \<Rightarrow> ('w, delivery_error, unit) port"
  render :: "render_context \<Rightarrow> render_error + bytes"
  clock_now :: "'w \<Rightarrow> system_time \<times> 'w"
  shutdown_set :: "'w \<Rightarrow> bool"
  shutdown_closed :: "'w \<Rightarrow> bool"
  sleep_or_shutdown :: "duration \<Rightarrow> 'w \<Rightarrow> 'w"
  backoff_policy :: "u32 \<Rightarrow> duration"
  interval_policy :: "interval_context \<Rightarrow> interval_kind"

section \<open>Context and actions\<close>

text \<open>\<open>CycleContext\<close>; \<open>cx_seen\<close> and \<open>cx_progress\<close> record what the phase observer was told.\<close>

record cycle_context =
  cx_config :: service_config
  cx_state :: state_machine
  cx_seen :: "cycle_phase list"
  cx_progress :: "cycle_phase list"
  cx_energy :: energy_policy
  cx_health :: health_snapshot

definition context_new :: "service_config \<Rightarrow> cycle_context" where
  "context_new c = \<lparr>cx_config = c, cx_state = sm_new, cx_seen = [], cx_progress = [],
     cx_energy = \<lparr>maximum_gap = sc_maximum_energy_gap c\<rparr>, cx_health = health_new\<rparr>"

type_synonym 'w svc = "cycle_context \<times> 'w"

type_synonym ('w, 'e, 'a) action = "'w svc \<Rightarrow> ('e + 'a) \<times> 'w svc"

definition act_bind :: "('w, 'e, 'a) action \<Rightarrow> ('a \<Rightarrow> ('w, 'e, 'b) action) \<Rightarrow> ('w, 'e, 'b) action" where
  "act_bind m f s = (case m s of (Inl e, s') \<Rightarrow> (Inl e, s') | (Inr x, s') \<Rightarrow> f x s')"

definition act_return :: "'a \<Rightarrow> ('w, 'e, 'a) action" where
  "act_return x s = (Inr x, s)"

definition act_fail :: "'e \<Rightarrow> ('w, 'e, 'a) action" where
  "act_fail e s = (Inl e, s)"

text \<open>A result of a pure function, a port call with its errors mapped, a read and an update of the context.\<close>

definition act_result :: "'e + 'a \<Rightarrow> ('w, 'e, 'a) action" where
  "act_result r s = (r, s)"

definition act_port :: "('f \<Rightarrow> 'e) \<Rightarrow> ('w, 'f, 'a) port \<Rightarrow> ('w, 'e, 'a) action" where
  "act_port h p s = (case p (snd s) of (r, w) \<Rightarrow> (map_err h r, (fst s, w)))"

definition act_get :: "(cycle_context \<Rightarrow> 'a) \<Rightarrow> ('w, 'e, 'a) action" where
  "act_get f s = (Inr (f (fst s)), s)"

definition act_update :: "(cycle_context \<Rightarrow> cycle_context) \<Rightarrow> ('w, 'e, unit) action" where
  "act_update f s = (Inr (), (f (fst s), snd s))"

definition act_now :: "'w ports \<Rightarrow> ('w, 'e, system_time) action" where
  "act_now p s = (case clock_now p (snd s) of (t, w) \<Rightarrow> (Inr t, (fst s, w)))"

section \<open>Properties of actions\<close>

text \<open>\<open>holds P m Q\<close>: from a state with \<open>P\<close>, the action ends with its result and its state in \<open>Q\<close>.\<close>

definition holds :: "('w svc \<Rightarrow> bool) \<Rightarrow> ('w, 'e, 'a) action \<Rightarrow> ('e + 'a \<Rightarrow> 'w svc \<Rightarrow> bool) \<Rightarrow> bool" where
  "holds P m Q \<longleftrightarrow> (\<forall>s. P s \<longrightarrow> Q (fst (m s)) (snd (m s)))"

lemma holdsI: "(\<And>s. P s \<Longrightarrow> Q (fst (m s)) (snd (m s))) \<Longrightarrow> holds P m Q"
  by (simp add: holds_def)

lemma holdsD: "holds P m Q \<Longrightarrow> P s \<Longrightarrow> m s = (r, s') \<Longrightarrow> Q r s'"
  unfolding holds_def by (metis fst_conv snd_conv)

lemma holds_bind:
  assumes "holds P m R" "\<And>x. holds (R (Inr x)) (f x) Q" "\<And>e s. R (Inl e) s \<Longrightarrow> Q (Inl e) s"
  shows "holds P (act_bind m f) Q"
proof (rule holdsI)
  fix s
  assume "P s"
  obtain r s' where m: "m s = (r, s')" by (cases "m s")
  from holdsD [OF assms(1) \<open>P s\<close> m] have R: "R r s'" .
  show "Q (fst (act_bind m f s)) (snd (act_bind m f s))"
  proof (cases r)
    case (Inl e)
    with R assms(3) show ?thesis by (simp add: act_bind_def m)
  next
    case (Inr x)
    obtain r2 s2 where f: "f x s' = (r2, s2)" by (cases "f x s'")
    with holdsD [OF assms(2) [of x] _ f] R Inr show ?thesis by (simp add: act_bind_def m)
  qed
qed

lemma holds_weaken: "holds P m Q \<Longrightarrow> (\<And>s. P' s \<Longrightarrow> P s) \<Longrightarrow> (\<And>r s. Q r s \<Longrightarrow> Q' r s) \<Longrightarrow> holds P' m Q'"
  unfolding holds_def by blast

end
