(* ===== verification/Service_Delivery.thy ===== *)
theory Service_Delivery
  imports Service_Ports
begin

text \<open>
  \<open>victron-service\<close>, \<open>delivery.rs\<close>: what is done with one claimed batch, and the replay of the queue
  before an acquisition. \<open>None\<close> of \<open>drain_spool\<close> is the fuel running out (the loop of the code has no
  bound of its own; the theory \<open>Collector\<close> shows that over the collector's storage it ends).
\<close>

datatype delivery_status =
    Delivered | Queued u32 | DsDropped u32 | DsSkipped | DsFailed port_storage_error

datatype drain_result =
    DrainEmpty | DrainDelivered u32 | StoppedGracefully | DrainError port_storage_error

definition shutdown_requested :: "'w ports \<Rightarrow> 'w \<Rightarrow> bool" where
  "shutdown_requested p w = (if shutdown_set p w then True else shutdown_closed p w)"

definition on_progress :: "cycle_phase \<Rightarrow> cycle_context \<Rightarrow> cycle_context" where
  "on_progress ph c = c\<lparr>cx_progress := cx_progress c @ [ph]\<rparr>"

definition with_health :: "(health_snapshot \<Rightarrow> health_snapshot) \<Rightarrow> cycle_context \<Rightarrow> cycle_context" where
  "with_health f c = c\<lparr>cx_health := f (cx_health c)\<rparr>"

definition drop_claim :: "'w ports \<Rightarrow> claimed_batch \<Rightarrow> 'w svc \<Rightarrow> delivery_status \<times> 'w svc" where
  "drop_claim p claim s =
     (case st_spool_drop p claim (snd s) of
        (Inr _, w) \<Rightarrow> (DsDropped (cb_attempts claim), (with_health record_spool_dropped (fst s), w))
      | (Inl e, w) \<Rightarrow> (DsFailed e, (fst s, w)))"

definition deliver_claim :: "'w ports \<Rightarrow> claimed_batch \<Rightarrow> 'w svc \<Rightarrow> delivery_status \<times> 'w svc" where
  "deliver_claim p claim s =
     (let c1 = on_progress Delivering (fst s);
          (result, w1) = deliver p (cb_payload claim) (snd s);
          c2 = on_progress Delivering c1 in
      case result of
        Inr _ \<Rightarrow>
          (case st_spool_complete p claim w1 of
             (Inr _, w2) \<Rightarrow> (Delivered, (with_health (record_delivery True) c2, w2))
           | (Inl e, w2) \<Rightarrow> (DsFailed e, (with_health (record_delivery True) c2, w2)))
      | Inl e \<Rightarrow>
          (let c3 = with_health (record_delivery False) c2 in
           if retryable e then
             (if cb_attempts claim \<ge> sc_spool_max_attempts (cx_config c3) then drop_claim p claim (c3, w1)
              else
                (let (now, w2) = clock_now p w1 in
                 case st_spool_retry p claim now w2 of
                   (Inr (PortRetried attempts), w3) \<Rightarrow> (Queued attempts, (c3, w3))
                 | (Inr (PortDropped attempts), w3) \<Rightarrow> (DsDropped attempts, (with_health record_spool_dropped c3, w3))
                 | (Inl e2, w3) \<Rightarrow> (DsFailed e2, (c3, w3))))
           else drop_claim p claim (c3, w1)))"

fun drain_loop :: "nat \<Rightarrow> 'w ports \<Rightarrow> u32 \<Rightarrow> 'w svc \<Rightarrow> drain_result option \<times> 'w svc" where
  "drain_loop 0 p delivered s = (None, s)"
| "drain_loop (Suc fuel) p delivered s =
     (if shutdown_requested p (snd s) then (Some StoppedGracefully, s)
      else
        (let c1 = on_progress Delivering (fst s) in
         if shutdown_requested p (snd s) then (Some StoppedGracefully, (c1, snd s))
         else
           (let (now, w1) = clock_now p (snd s) in
            case st_spool_claim_next p (sc_spool_claim_ttl (cx_config c1)) now w1 of
              (Inr None, w2) \<Rightarrow>
                (Some (if delivered > 0 then DrainDelivered delivered else DrainEmpty), (c1, w2))
            | (Inr (Some claim), w2) \<Rightarrow>
                (case deliver_claim p claim (c1, w2) of
                   (Delivered, s3) \<Rightarrow> drain_loop fuel p (delivered + 1) s3
                 | (DsFailed e, s3) \<Rightarrow> (Some (DrainError e), s3)
                 | (_, s3) \<Rightarrow> drain_loop fuel p delivered s3)
            | (Inl e, w2) \<Rightarrow> (Some (DrainError e), (c1, w2)))))"

definition drain_spool :: "nat \<Rightarrow> 'w ports \<Rightarrow> 'w svc \<Rightarrow> drain_result option \<times> 'w svc" where
  "drain_spool fuel p s = drain_loop fuel p 0 s"

section \<open>What delivery leaves alone\<close>

text \<open>Delivery does not touch the state machine, the phases seen, the configuration or the policy, and of
  the health counters it only moves those of deliveries.\<close>

definition same_setup :: "cycle_context \<Rightarrow> cycle_context \<Rightarrow> bool" where
  "same_setup c c' \<longleftrightarrow> cx_config c' = cx_config c \<and> cx_energy c' = cx_energy c
     \<and> h_cycles_total (cx_health c') = h_cycles_total (cx_health c)
     \<and> h_cycles_succeeded (cx_health c') = h_cycles_succeeded (cx_health c)
     \<and> h_last_success (cx_health c') = h_last_success (cx_health c)
     \<and> h_consecutive_failures (cx_health c') = h_consecutive_failures (cx_health c)"

definition same_cycle :: "cycle_context \<Rightarrow> cycle_context \<Rightarrow> bool" where
  "same_cycle c c' \<longleftrightarrow> same_setup c c' \<and> cx_state c' = cx_state c \<and> cx_seen c' = cx_seen c"

lemma same_setup_trans: "same_setup a b \<Longrightarrow> same_setup b c \<Longrightarrow> same_setup a c"
  by (simp add: same_setup_def)

named_theorems delivery_frame \<open>steps that leave the cycle alone\<close>

lemma same_cycle_refl [delivery_frame]: "same_cycle c c"
  by (simp add: same_cycle_def same_setup_def)

lemma same_cycle_trans: "same_cycle a b \<Longrightarrow> same_cycle b c \<Longrightarrow> same_cycle a c"
  by (simp add: same_cycle_def same_setup_def)

lemma same_cycle_steps [delivery_frame]:
  "same_cycle a b \<Longrightarrow> same_cycle a (on_progress ph b)"
  "same_cycle a b \<Longrightarrow> same_cycle a (with_health (record_delivery ok) b)"
  "same_cycle a b \<Longrightarrow> same_cycle a (with_health record_spool_dropped b)"
  by (simp_all add: same_cycle_def same_setup_def on_progress_def with_health_def record_delivery_def record_spool_dropped_def)

lemma drop_claim_frame: "same_cycle a (fst s) \<Longrightarrow> same_cycle a (fst (snd (drop_claim p claim s)))"
  by (auto simp: drop_claim_def intro: delivery_frame split: sum.splits prod.splits)

lemma deliver_claim_frame: "same_cycle a (fst s) \<Longrightarrow> same_cycle a (fst (snd (deliver_claim p claim s)))"
  by (auto simp: deliver_claim_def Let_def intro!: delivery_frame drop_claim_frame
      split: sum.splits prod.splits port_retry_outcome.splits)

lemma drain_loop_frame: "same_cycle a (fst s) \<Longrightarrow> same_cycle a (fst (snd (drain_loop fuel p n s)))"
proof (induction fuel arbitrary: n s)
  case 0
  then show ?case by simp
next
  case (Suc fuel)
  have "same_cycle a (fst s3)" if "deliver_claim p claim (on_progress Delivering (fst s), w) = (r, s3)" for claim w r s3
    using deliver_claim_frame [of a "(on_progress Delivering (fst s), w)" p claim] Suc.prems that
    by (simp add: delivery_frame)
  then show ?case
    using Suc by (auto simp: Let_def intro: delivery_frame split: sum.splits prod.splits option.splits delivery_status.splits)
qed

lemma drain_spool_frame: "same_cycle (fst s) (fst (snd (drain_spool fuel p s)))"
  by (simp add: drain_spool_def drain_loop_frame same_cycle_refl)

section \<open>Outcome and counters\<close>

text \<open>The status of a delivery agrees with what the server said and with the counters.\<close>

lemma drop_claim_cases:
  "drop_claim p claim s = (st, s') \<Longrightarrow>
    (\<exists>e. st = DsFailed e) \<and> cx_health (fst s') = cx_health (fst s)
    \<or> st = DsDropped (cb_attempts claim) \<and> cx_health (fst s') = record_spool_dropped (cx_health (fst s))"
  by (auto simp: drop_claim_def with_health_def split: sum.splits prod.splits)

end
