(* ===== verification/Service_Cycle.thy ===== *)
theory Service_Cycle
  imports Service_Delivery
begin

text \<open>
  \<open>victron-service\<close>, \<open>cycle.rs\<close>: one acquisition cycle, from \<open>Idle\<close> back to \<open>Idle\<close>, or to \<open>Backoff\<close> or
  \<open>ShuttingDown\<close>. The lemmas follow the cycle with the exact list of phases the observer sees: a cycle
  never makes an illegal transition, an error carries the phase it arose in, and each outcome ends in
  its own phase.
\<close>

section \<open>Errors and outcomes\<close>

datatype cycle_error =
    CeDiscover ble_error | CeConnect ble_error | CePlan port_protocol_error | CeNegotiate ble_error
  | CeSubscribe ble_error | CeRequest ble_error | CeParse port_protocol_error | CePersist port_storage_error
  | CeRender render_error | CeDisconnect ble_error | CeState transition_error

fun ce_kind :: "cycle_error \<Rightarrow> string" where
  "ce_kind (CeDiscover e) = ble_kind e"
| "ce_kind (CeConnect e) = ble_kind e"
| "ce_kind (CeNegotiate e) = ble_kind e"
| "ce_kind (CeSubscribe e) = ble_kind e"
| "ce_kind (CeRequest e) = ble_kind e"
| "ce_kind (CeDisconnect e) = ble_kind e"
| "ce_kind (CePlan e) = ''protocol''"
| "ce_kind (CeParse e) = ''protocol''"
| "ce_kind (CePersist e) = ps_kind e"
| "ce_kind (CeRender e) = ''render''"
| "ce_kind (CeState e) = ''state''"

fun ce_operation :: "cycle_error \<Rightarrow> string option" where
  "ce_operation (CeDiscover e) = ble_operation e"
| "ce_operation (CeConnect e) = ble_operation e"
| "ce_operation (CeNegotiate e) = ble_operation e"
| "ce_operation (CeSubscribe e) = ble_operation e"
| "ce_operation (CeRequest e) = ble_operation e"
| "ce_operation (CeDisconnect e) = ble_operation e"
| "ce_operation e = None"

record cycle_result =
  cr_device :: device_identity
  cr_sample :: sample
  cr_resolved_yield_kwh :: f64
  cr_energy :: energy_outcome
  cr_delivery :: delivery_status
  cr_duplicate :: bool

datatype cycle_outcome =
    CycleSuccess cycle_result | CycleFailure cycle_phase cycle_error | CycleShutdown cycle_phase sample

datatype cycle_step = StepDone cycle_result | StepShutdown cycle_phase sample

type_synonym ('w, 'a) cycle_action = "('w, cycle_phase \<times> cycle_error, 'a) action"

section \<open>Phases\<close>

definition goto :: "cycle_phase \<Rightarrow> ('w, transition_error, unit) action" where
  "goto ph s =
     (case sm_transition (cx_state (fst s)) ph of
        (Inl e, m) \<Rightarrow> (Inl e, s)
      | (Inr u, m) \<Rightarrow>
          (Inr (), ((fst s)\<lparr>cx_state := m, cx_seen := observer_on_phase (cx_seen (fst s)) ph\<rparr>, snd s)))"

definition goto_phase :: "cycle_phase \<Rightarrow> ('w, unit) cycle_action" where
  "goto_phase ph s = (case goto ph s of (r, s') \<Rightarrow> (map_err (\<lambda>e. (ph, CeState e)) r, s'))"

definition phase :: "cycle_phase \<Rightarrow> (ble_error \<Rightarrow> cycle_error) \<Rightarrow> ('w, 'a) ble_port \<Rightarrow> ('w, 'a) cycle_action" where
  "phase ph h call s =
     (case call (sc_phase_timeout (cx_config (fst s))) (snd s) of
        (None, w) \<Rightarrow> (Inl (ph, h (BleTimeout ''service-phase'')), (fst s, w))
      | (Some r, w) \<Rightarrow> (map_err (\<lambda>e. (ph, h e)) r, (fst s, w)))"

text \<open>A result of the protocol or of the renderer, and a storage call, as a step of the cycle.\<close>

definition pure_step :: "cycle_phase \<Rightarrow> ('e \<Rightarrow> cycle_error) \<Rightarrow> 'e + 'a \<Rightarrow> ('w, 'a) cycle_action" where
  "pure_step ph h r = act_result (map_err (\<lambda>e. (ph, h e)) r)"

definition port_step :: "cycle_phase \<Rightarrow> ('e \<Rightarrow> cycle_error) \<Rightarrow> ('w, 'e, 'a) port \<Rightarrow> ('w, 'a) cycle_action" where
  "port_step ph h call = act_port (\<lambda>e. (ph, h e)) call"

definition act_then :: "('w, 'e, unit) action \<Rightarrow> ('w, 'e, 'b) action \<Rightarrow> ('w, 'e, 'b) action" where
  "act_then m k = act_bind m (\<lambda>_. k)"

section \<open>The cycle\<close>

text \<open>From \<open>Discovering\<close> to \<open>Collecting\<close>.\<close>

definition acquire_sample :: "'w ports \<Rightarrow> service_config \<Rightarrow> ('w, sample) cycle_action" where
  "acquire_sample p c =
     act_then (goto_phase Discovering) (
     act_then (phase Discovering CeDiscover (ble_discover p)) (
     act_then (goto_phase Connecting) (
     act_then (phase Connecting CeConnect (ble_connect p)) (
     act_then (goto_phase Negotiating) (
     act_bind (pure_step Negotiating CePlan (proto_acquire_plan p (sc_instance c) (proto_vregs p))) (\<lambda>plan.
     act_then (phase Negotiating CeNegotiate (ble_negotiate p (negotiation_frames plan))) (
     act_then (goto_phase Subscribing) (
     act_then (phase Subscribing CeSubscribe (ble_subscribe p (sc_instance c) (subscribe_payload plan))) (
     act_then (goto_phase Requesting) (
     act_bind (phase Requesting CeRequest (ble_request_values p (values_payload plan) (sc_response_timeout c))) (\<lambda>raw.
     act_then (goto_phase Collecting) (
     act_bind (pure_step Collecting CeParse (proto_parse_response p (sc_instance c) raw)) (\<lambda>values.
     act_bind (port_step Collecting CeParse (proto_translate p (sc_instance c) values)) (\<lambda>sample.
       if sample_is_empty sample then act_fail (Collecting, CeParse PpEmptyResponse)
       else act_return sample))))))))))))))"

text \<open>\<open>duration_since(..).ok()\<close>.\<close>

definition duration_since :: "system_time \<Rightarrow> system_time \<Rightarrow> duration option" where
  "duration_since t earlier = (if earlier \<le> t then Some (nat (t - earlier)) else None)"

text \<open>The context of the renderer: the queue as it will be after the commit.\<close>

definition gap_seconds :: "energy_outcome \<Rightarrow> u64" where
  "gap_seconds energy = (case eo_skipped_gap energy of Some d \<Rightarrow> as_secs d | None \<Rightarrow> 0)"

definition render_input ::
  "device_identity \<Rightarrow> sample \<Rightarrow> energy_outcome \<Rightarrow> spool_health \<Rightarrow> system_time \<Rightarrow> health_snapshot \<Rightarrow> render_context" where
  "render_input device sample energy spool now health =
     \<lparr>rc_device = di_device device, rc_sample = sample, rc_resolved_yield_kwh = eo_total_kwh energy,
      rc_energy_kind = eo_kind energy,
      rc_ble_up = map_option (\<lambda>h. h = HealthUp) (s_connection_health sample),
      rc_ble_rssi_dbm = map_option (\<lambda>m. f64_as_i32 (m_value m)) (s_ble_rssi_dbm sample),
      rc_last_success = Some (s_observed_at sample),
      rc_sample_age = duration_since now (s_observed_at sample),
      rc_health = health,
      rc_spool_depth = sh_depth spool + 1,
      rc_spool_oldest_age = (case sh_oldest_age spool of Some a \<Rightarrow> Some a | None \<Rightarrow> Some 0),
      rc_energy_gap_skipped_seconds = h_energy_gap_skipped_seconds health + gap_seconds energy\<rparr>"

definition commit_sample ::
  "'w ports \<Rightarrow> device_identity \<Rightarrow> sample \<Rightarrow> energy_state option \<Rightarrow> energy_outcome \<Rightarrow> ('w, bool) cycle_action" where
  "commit_sample p device sample prev energy =
     act_bind (act_now p) (\<lambda>now.
     act_bind (port_step Persisting CePersist (st_spool_health p now)) (\<lambda>spool.
     act_bind (act_now p) (\<lambda>now2.
     act_bind (act_get cx_health) (\<lambda>health.
     act_bind (pure_step Persisting CeRender (render p (render_input device sample energy spool now2 health))) (\<lambda>payload.
     act_bind (port_step Persisting CePersist (st_commit_acquisition p
         \<lparr>pc_device = di_device device, pc_observed_at = s_observed_at sample, pc_expected_energy = prev,
          pc_next_energy = eo_next_state energy, pc_payload = payload\<rparr>)) (\<lambda>out.
       case out of
         PortCommitted \<Rightarrow>
           act_then (act_update (\<lambda>c. case eo_skipped_gap energy of
                       Some gap \<Rightarrow> with_health (record_energy_gap gap) c | None \<Rightarrow> c))
             (act_return False)
       | PortAlreadyCommitted \<Rightarrow> act_return True))))))"

definition persist_sample :: "'w ports \<Rightarrow> device_identity \<Rightarrow> sample \<Rightarrow> ('w, energy_outcome \<times> bool) cycle_action" where
  "persist_sample p device sample =
     act_then (goto_phase Persisting) (
       if s_observed_at sample \<le> 0
       then act_fail (Persisting, CePersist (PsInvalidTimestamp (s_observed_at sample)))
       else
         act_bind (port_step Persisting CePersist (st_energy_state p)) (\<lambda>prev.
         act_bind (act_get (\<lambda>c. energy_apply (cx_energy c) prev sample)) (\<lambda>energy.
         act_bind (port_step Persisting CePersist (st_last_success p)) (\<lambda>last_success.
           if (case last_success of None \<Rightarrow> False | Some ls \<Rightarrow> s_observed_at sample \<le> ls)
           then act_return (energy, True)
           else act_bind (commit_sample p device sample prev energy) (\<lambda>duplicate. act_return (energy, duplicate))))))"

definition deliver_fresh :: "'w ports \<Rightarrow> service_config \<Rightarrow> system_time \<Rightarrow> ('w, delivery_status) cycle_action" where
  "deliver_fresh p c now s =
     (case st_spool_claim_next p (sc_spool_claim_ttl c) now (snd s) of
        (Inr (Some claim), w) \<Rightarrow> (case deliver_claim p claim (fst s, w) of (st, s') \<Rightarrow> (Inr st, s'))
      | (Inr None, w) \<Rightarrow> (Inr (Queued 0), (fst s, w))
      | (Inl e, w) \<Rightarrow> (Inr (DsFailed e), (fst s, w)))"

definition deliver_sample :: "'w ports \<Rightarrow> service_config \<Rightarrow> bool \<Rightarrow> ('w, delivery_status) cycle_action" where
  "deliver_sample p c duplicate =
     (if duplicate then act_return DsSkipped
      else act_then (goto_phase Delivering) (act_bind (act_now p) (\<lambda>now. deliver_fresh p c now)))"

definition act_shutdown :: "'w ports \<Rightarrow> ('w, 'e, bool) action" where
  "act_shutdown p s = (Inr (shutdown_requested p (snd s)), s)"

definition deliver_and_close ::
  "'w ports \<Rightarrow> service_config \<Rightarrow> device_identity \<Rightarrow> sample \<Rightarrow> energy_outcome \<Rightarrow> bool \<Rightarrow> ('w, cycle_step) cycle_action" where
  "deliver_and_close p c device sample energy duplicate =
     act_bind (deliver_sample p c duplicate) (\<lambda>delivery.
     act_then (goto_phase Disconnecting) (
     act_then (phase Disconnecting CeDisconnect (ble_finish_cycle p)) (
     act_then (goto_phase Idle) (
       act_return (StepDone
         \<lparr>cr_device = device, cr_sample = sample, cr_resolved_yield_kwh = eo_total_kwh energy,
          cr_energy = energy, cr_delivery = delivery, cr_duplicate = duplicate\<rparr>)))))"

definition cycle_states :: "'w ports \<Rightarrow> device_identity \<Rightarrow> ('w, cycle_step) cycle_action" where
  "cycle_states p device =
     act_bind (act_get cx_config) (\<lambda>c.
     act_bind (acquire_sample p c) (\<lambda>sample.
     act_bind (persist_sample p device sample) (\<lambda>(energy, duplicate).
     act_bind (act_shutdown p) (\<lambda>stop.
       if stop then act_return (StepShutdown Delivering sample)
       else deliver_and_close p c device sample energy duplicate))))"

section \<open>Teardown\<close>

text \<open>The disconnect of a teardown: its result is ignored.\<close>

definition hard_disconnect :: "'w ports \<Rightarrow> ('w, cycle_error, unit) action" where
  "hard_disconnect p s = (Inr (), (fst s, snd (ble_disconnect p (sc_phase_timeout (cx_config (fst s))) (snd s))))"

definition goto_state :: "cycle_phase \<Rightarrow> ('w, cycle_error, unit) action" where
  "goto_state ph s = (case goto ph s of (r, s') \<Rightarrow> (map_err CeState r, s'))"

definition teardown_after_failure :: "'w ports \<Rightarrow> ('w, cycle_error, unit) action" where
  "teardown_after_failure p =
     act_bind (act_get (\<lambda>c. sm_current (cx_state c))) (\<lambda>current.
     act_then (if current \<noteq> Disconnecting then goto_state Disconnecting else act_return ()) (
     act_then (hard_disconnect p) (goto_state Backoff)))"

definition teardown_to_shutdown :: "'w ports \<Rightarrow> ('w, cycle_error, unit) action" where
  "teardown_to_shutdown p =
     act_then (goto_state Disconnecting) (act_then (hard_disconnect p) (goto_state ShuttingDown))"

definition finish_gracefully :: "'w ports \<Rightarrow> cycle_phase \<Rightarrow> sample \<Rightarrow> 'w svc \<Rightarrow> cycle_outcome \<times> 'w svc" where
  "finish_gracefully p interrupted_at sample s =
     (case teardown_to_shutdown p s of
        (Inr _, s') \<Rightarrow> (CycleShutdown interrupted_at sample, s')
      | (Inl e, s') \<Rightarrow> (CycleFailure interrupted_at e, s'))"

fun failure_health :: "cycle_error \<Rightarrow> health_snapshot \<Rightarrow> health_snapshot" where
  "failure_health (CeDiscover e) h = record_ble_discover_failure h"
| "failure_health (CeConnect e) h = record_ble_connect_failure h"
| "failure_health (CeNegotiate e) h = record_ble_session_failure h"
| "failure_health (CeSubscribe e) h = record_ble_session_failure h"
| "failure_health (CeRequest e) h = record_ble_session_failure h"
| "failure_health (CeDisconnect e) h = record_ble_session_failure h"
| "failure_health (CePlan e) h = record_protocol_error h"
| "failure_health (CeParse e) h = record_protocol_error h"
| "failure_health (CePersist e) h = record_sample_dropped h"
| "failure_health (CeRender e) h = record_sample_dropped h"
| "failure_health (CeState e) h = h"

definition record_failure_health :: "cycle_error \<Rightarrow> 'w svc \<Rightarrow> 'w svc" where
  "record_failure_health e s = (with_health (failure_health e) (fst s), snd s)"

text \<open>\<open>run_cycle\<close>; \<open>None\<close> is the panic of \<open>config.device()\<close>.\<close>

definition run_cycle :: "'w ports \<Rightarrow> 'w svc \<Rightarrow> cycle_outcome option \<times> 'w svc" where
  "run_cycle p s =
     (case config_device (cx_config (fst s)) of
        None \<Rightarrow> (None, s)
      | Some device \<Rightarrow>
          (case cycle_states p device s of
             (Inr (StepDone r), s1) \<Rightarrow> (Some (CycleSuccess r), s1)
           | (Inr (StepShutdown ph sample), s1) \<Rightarrow>
               (case finish_gracefully p ph sample s1 of (out, s2) \<Rightarrow> (Some out, s2))
           | (Inl (ph, e), s1) \<Rightarrow>
               (case teardown_after_failure p (record_failure_health e s1) of
                  (Inr _, s2) \<Rightarrow> (Some (CycleFailure ph e), s2)
                | (Inl e2, s2) \<Rightarrow> (Some (CycleFailure ph e2), s2))))"

section \<open>Where a cycle is\<close>

text \<open>The phases of a full cycle, and those up to a given one.\<close>

definition stages :: "bool \<Rightarrow> cycle_phase list" where
  "stages duplicate =
     [Discovering, Connecting, Negotiating, Subscribing, Requesting, Collecting, Persisting]
     @ (if duplicate then [] else [Delivering]) @ [Disconnecting, Idle]"

definition walk :: "bool \<Rightarrow> cycle_phase \<Rightarrow> cycle_phase list" where
  "walk duplicate ph = takeWhile (\<lambda>q. q \<noteq> ph) (stages duplicate) @ [ph]"

text \<open>The observer has seen the phases \<open>tr\<close>, legally, and the machine is in the last of them; the
  configuration, the policy and the counters of cycles are those of \<open>c0\<close>.\<close>

definition traced_at :: "cycle_context \<Rightarrow> cycle_phase list \<Rightarrow> cycle_context \<Rightarrow> bool" where
  "traced_at c0 tr c \<longleftrightarrow> cx_seen c = tr \<and> sm_current (cx_state c) = last (Idle # tr) \<and> run (Idle # tr)
     \<and> same_setup c0 c"

definition traced :: "cycle_context \<Rightarrow> cycle_phase list \<Rightarrow> 'w svc \<Rightarrow> bool" where
  "traced c0 tr s \<longleftrightarrow> traced_at c0 tr (fst s)"

lemma traced_pair [simp]: "traced c0 tr (c, w) = traced_at c0 tr c"
  by (simp add: traced_def)

text \<open>The phase an error belongs to; no phase has a state machine error.\<close>

fun error_phase :: "cycle_error \<Rightarrow> cycle_phase option" where
  "error_phase (CeDiscover e) = Some Discovering"
| "error_phase (CeConnect e) = Some Connecting"
| "error_phase (CePlan e) = Some Negotiating"
| "error_phase (CeNegotiate e) = Some Negotiating"
| "error_phase (CeSubscribe e) = Some Subscribing"
| "error_phase (CeRequest e) = Some Requesting"
| "error_phase (CeParse e) = Some Collecting"
| "error_phase (CePersist e) = Some Persisting"
| "error_phase (CeRender e) = Some Persisting"
| "error_phase (CeDisconnect e) = Some Disconnecting"
| "error_phase (CeState e) = None"

text \<open>A step ends in its phase, either with a result or with an error of the phase reached.\<close>

definition ok_in ::
  "cycle_context \<Rightarrow> cycle_phase list \<Rightarrow> ('a \<Rightarrow> 'w svc \<Rightarrow> bool) \<Rightarrow> (cycle_phase \<times> cycle_error) + 'a \<Rightarrow> 'w svc \<Rightarrow> bool" where
  "ok_in c0 tr0 Q r s =
     (case r of
        Inr x \<Rightarrow> Q x s
      | Inl (ph, e) \<Rightarrow> error_phase e = Some ph \<and> (\<exists>dup. traced c0 (tr0 @ walk dup ph) s))"

lemma ok_in_bind:
  assumes "holds P m (ok_in c0 tr0 R)" "\<And>x. holds (R x) (f x) (ok_in c0 tr0 Q)"
  shows "holds P (act_bind m f) (ok_in c0 tr0 Q)"
proof (rule holds_bind [OF assms(1)])
  fix x
  have "ok_in c0 tr0 R (Inr x) = R x" by (auto simp: ok_in_def)
  with assms(2) [of x] show "holds (ok_in c0 tr0 R (Inr x)) (f x) (ok_in c0 tr0 Q)" by simp
qed (simp add: ok_in_def split: prod.splits)

lemma ok_in_then:
  "holds P m (ok_in c0 tr0 (\<lambda>_. R)) \<Longrightarrow> holds R k (ok_in c0 tr0 Q) \<Longrightarrow> holds P (act_then m k) (ok_in c0 tr0 Q)"
  unfolding act_then_def by (rule ok_in_bind)

named_theorems cycle_step \<open>steps of the cycle\<close>

lemma goto_traced:
  assumes "traced c0 tr s" "can_transition_to (last (Idle # tr)) ph"
  shows "\<exists>s'. goto ph s = (Inr (), s') \<and> traced c0 (tr @ [ph]) s'"
  using assms run_step [of "Idle # tr" ph]
  by (auto simp: goto_def sm_transition_def traced_def traced_at_def observer_on_phase_def same_setup_def)

lemma goto_step [cycle_step]:
  "can_transition_to (last (Idle # tr)) ph \<Longrightarrow>
    holds (traced c0 tr) (goto_phase ph) (ok_in c0 tr0 (\<lambda>_. traced c0 (tr @ [ph])))"
proof (rule holdsI)
  fix s :: "'a svc"
  assume "can_transition_to (last (Idle # tr)) ph" "traced c0 tr s"
  from goto_traced [OF this(2,1)] obtain s' where "goto ph s = (Inr (), s')" "traced c0 (tr @ [ph]) s'" by blast
  then show "ok_in c0 tr0 (\<lambda>_. traced c0 (tr @ [ph])) (fst (goto_phase ph s)) (snd (goto_phase ph s))"
    by (simp add: goto_phase_def ok_in_def)
qed

lemma phase_step [cycle_step]:
  "(\<And>e. error_phase (h e) = Some ph) \<Longrightarrow> \<exists>dup. tr = tr0 @ walk dup ph \<Longrightarrow>
    holds (traced c0 tr) (phase ph h call) (ok_in c0 tr0 (\<lambda>_. traced c0 tr))"
  unfolding holds_def phase_def ok_in_def
  by (auto split: prod.splits option.splits sum.splits simp: map_err_def)

lemma pure_step [cycle_step]:
  "(\<And>e. error_phase (h e) = Some ph) \<Longrightarrow> \<exists>dup. tr = tr0 @ walk dup ph \<Longrightarrow>
    holds (traced c0 tr) (pure_step ph h r) (ok_in c0 tr0 (\<lambda>_. traced c0 tr))"
  unfolding holds_def pure_step_def act_result_def ok_in_def
  by (auto split: prod.splits sum.splits simp: map_err_def)

lemma port_step [cycle_step]:
  "(\<And>e. error_phase (h e) = Some ph) \<Longrightarrow> \<exists>dup. tr = tr0 @ walk dup ph \<Longrightarrow>
    holds (traced c0 tr) (port_step ph h call) (ok_in c0 tr0 (\<lambda>_. traced c0 tr))"
  unfolding holds_def port_step_def act_port_def ok_in_def
  by (auto split: prod.splits sum.splits simp: map_err_def)

lemma fail_step [cycle_step]:
  "error_phase e = Some ph \<Longrightarrow> \<exists>dup. tr = tr0 @ walk dup ph \<Longrightarrow>
    holds (traced c0 tr) (act_fail (ph, e)) (ok_in c0 tr0 Q)"
  by (auto simp: holds_def act_fail_def ok_in_def)

lemma return_step [cycle_step]: "(\<And>s. P s \<Longrightarrow> Q x s) \<Longrightarrow> holds P (act_return x) (ok_in c0 tr0 Q)"
  by (simp add: holds_def act_return_def ok_in_def)

lemma now_step [cycle_step]: "holds (traced c0 tr) (act_now p) (ok_in c0 tr0 (\<lambda>_. traced c0 tr))"
  by (auto simp: holds_def act_now_def ok_in_def split: prod.splits)

lemma get_step [cycle_step]:
  "holds (traced c0 tr) (act_get f) (ok_in c0 tr0 (\<lambda>_. traced c0 tr))"
  by (simp add: holds_def act_get_def ok_in_def)

lemma shutdown_step [cycle_step]: "holds (traced c0 tr) (act_shutdown p) (ok_in c0 tr0 (\<lambda>_. traced c0 tr))"
  by (simp add: holds_def act_shutdown_def ok_in_def)

lemma traced_same_cycle: "traced_at c0 tr c \<Longrightarrow> same_cycle c c' \<Longrightarrow> traced_at c0 tr c'"
  by (auto simp: traced_at_def same_cycle_def intro: same_setup_trans)

lemma update_step [cycle_step]:
  "(\<And>c. same_cycle c (f c)) \<Longrightarrow> holds (traced c0 tr) (act_update f) (ok_in c0 tr0 (\<lambda>_. traced c0 tr))"
  by (auto simp: holds_def act_update_def ok_in_def traced_def intro: traced_same_cycle)

lemma deliver_fresh_step [cycle_step]: "holds (traced c0 tr) (deliver_fresh p c now) (ok_in c0 tr0 (\<lambda>_. traced c0 tr))"
proof (rule holdsI)
  fix s :: "'a svc"
  assume "traced c0 tr s"
  then have t: "traced_at c0 tr (fst s)" by (simp add: traced_def)
  have "same_cycle (fst s) (fst s')" if "deliver_claim p claim (fst s, w) = (st, s')" for claim w st s'
    using deliver_claim_frame [of "fst s" "(fst s, w)" p claim] that by (simp add: same_cycle_refl)
  with t show "ok_in c0 tr0 (\<lambda>_. traced c0 tr) (fst (deliver_fresh p c now s)) (snd (deliver_fresh p c now s))"
    by (auto simp: deliver_fresh_def ok_in_def split: prod.splits sum.splits option.splits intro: traced_same_cycle)
qed

lemma if_step: "(b \<Longrightarrow> holds P m Q) \<Longrightarrow> (\<not> b \<Longrightarrow> holds P k Q) \<Longrightarrow> holds P (if b then m else k) Q"
  by simp

lemmas cycle_rules = ok_in_bind ok_in_then if_step

lemmas stage_simps = walk_def stages_def can_transition_to_def ex_bool_eq

lemma acquire_step:
  assumes "last (Idle # tr0) = Idle"
  shows "holds (traced c0 tr0) (acquire_sample p c) (ok_in c0 tr0 (\<lambda>_. traced c0 (tr0 @ walk dup Collecting)))"
  unfolding acquire_sample_def
  by (rule cycle_rules cycle_step | (use assms in \<open>simp add: stage_simps; fail\<close>))+

lemma recorded_step [cycle_step]:
  "holds (traced c0 tr) (case out of
         PortCommitted \<Rightarrow> act_then (act_update (\<lambda>c. case eo_skipped_gap energy of
                       Some gap \<Rightarrow> with_health (record_energy_gap gap) c | None \<Rightarrow> c)) (act_return False)
       | PortAlreadyCommitted \<Rightarrow> act_return True) (ok_in c0 tr0 (\<lambda>_. traced c0 tr))"
  by (cases out; simp; (rule cycle_rules cycle_step | (simp add: same_cycle_def same_setup_def with_health_def record_energy_gap_def split: option.splits; fail))+)

lemma commit_step [cycle_step]:
  assumes "\<exists>dup. tr = tr0 @ walk dup Persisting"
  shows "holds (traced c0 tr) (commit_sample p device sample prev energy) (ok_in c0 tr0 (\<lambda>_. traced c0 tr))"
  unfolding commit_sample_def
  by (rule cycle_rules cycle_step | (use assms in \<open>simp; fail\<close>))+

lemma persist_step:
  assumes "last (Idle # tr0) = Idle" "tr = tr0 @ walk dup Collecting"
  shows "holds (traced c0 tr) (persist_sample p device sample) (ok_in c0 tr0 (\<lambda>_. traced c0 (tr @ [Persisting])))"
  unfolding persist_sample_def
  by (rule cycle_rules cycle_step | (use assms in \<open>auto simp: stage_simps; fail\<close>))+

lemma deliver_step:
  assumes "last (Idle # tr) = Persisting"
  shows "holds (traced c0 tr) (deliver_sample p c duplicate)
    (ok_in c0 tr0 (\<lambda>_. traced c0 (if duplicate then tr else tr @ [Delivering])))"
proof (cases duplicate)
  case True
  then show ?thesis by (simp add: deliver_sample_def return_step)
next
  case False
  show ?thesis
    unfolding deliver_sample_def if_not_P [OF False]
    by (rule cycle_rules cycle_step | (use assms in \<open>auto simp: stage_simps; fail\<close>))+
qed

lemma pair_step: "holds P (f (fst x) (snd x)) Q \<Longrightarrow> holds P (case x of (a, b) \<Rightarrow> f a b) Q"
  by (cases x) simp

text \<open>The whole walk: what the observer has seen at each way out.\<close>

definition step_end :: "cycle_context \<Rightarrow> cycle_phase list \<Rightarrow> cycle_step \<Rightarrow> 'w svc \<Rightarrow> bool" where
  "step_end c0 tr0 st s =
     (case st of
        StepDone r \<Rightarrow> traced c0 (tr0 @ stages (cr_duplicate r)) s
      | StepShutdown ph sample \<Rightarrow> ph = Delivering \<and> traced c0 (tr0 @ walk False Persisting) s)"

lemma walk_Persisting: "walk dup Persisting = [Discovering, Connecting, Negotiating, Subscribing, Requesting, Collecting, Persisting]"
  by (simp add: walk_def stages_def)

lemma close_step:
  fixes p :: "'w ports"
  assumes "last (Idle # tr0) = Idle"
  shows "holds (traced c0 (tr0 @ walk False Persisting)) (deliver_and_close p c device sample energy duplicate)
    (ok_in c0 tr0 (step_end c0 tr0))"
  unfolding deliver_and_close_def
proof (rule ok_in_bind [OF deliver_step])
  show "last (Idle # (tr0 @ walk False Persisting)) = Persisting" by (simp add: walk_Persisting)
next
  let ?tr = "if duplicate then tr0 @ walk False Persisting else (tr0 @ walk False Persisting) @ [Delivering]"
  fix x
  have "holds (traced c0 ?tr)
     (act_then (goto_phase Disconnecting) (
     act_then (phase Disconnecting CeDisconnect (ble_finish_cycle p)) (
     act_then (goto_phase Idle) (act_return st)))) (ok_in c0 tr0 (step_end c0 tr0))"
    if "\<And>s :: 'w svc. traced c0 ((?tr @ [Disconnecting]) @ [Idle]) s \<Longrightarrow> step_end c0 tr0 st s" for st
    by (rule cycle_rules cycle_step | (rule that, assumption) | (cases duplicate; simp add: stage_simps; fail))+
  then show "holds (traced c0 ?tr)
     (act_then (goto_phase Disconnecting) (
     act_then (phase Disconnecting CeDisconnect (ble_finish_cycle p)) (
     act_then (goto_phase Idle) (
       act_return (StepDone
         \<lparr>cr_device = device, cr_sample = sample, cr_resolved_yield_kwh = eo_total_kwh energy,
          cr_energy = energy, cr_delivery = x, cr_duplicate = duplicate\<rparr>))))) (ok_in c0 tr0 (step_end c0 tr0))"
    by (cases duplicate) (simp_all add: step_end_def stage_simps)
qed

lemma cycle_states_step:
  assumes "last (Idle # tr0) = Idle"
  shows "holds (traced c0 tr0) (cycle_states p device) (ok_in c0 tr0 (step_end c0 tr0))"
  unfolding cycle_states_def
proof (rule ok_in_bind [OF get_step], rule ok_in_bind [OF acquire_step [OF assms, where dup = False]],
    rule ok_in_bind [OF persist_step [OF assms refl]], rule pair_step, rule ok_in_bind [OF shutdown_step], rule if_step)
  fix c sample stop and r :: "energy_outcome \<times> bool"
  have tr: "(tr0 @ walk False Collecting) @ [Persisting] = tr0 @ walk False Persisting" by (simp add: stage_simps)
  show "holds (traced c0 ((tr0 @ walk False Collecting) @ [Persisting])) (act_return (StepShutdown Delivering sample))
      (ok_in c0 tr0 (step_end c0 tr0))"
    unfolding tr by (rule return_step) (simp add: step_end_def)
  show "holds (traced c0 ((tr0 @ walk False Collecting) @ [Persisting]))
      (deliver_and_close p c device sample (fst r) (snd r)) (ok_in c0 tr0 (step_end c0 tr0))"
    unfolding tr by (rule close_step [OF assms])
qed

text \<open>The two teardowns.\<close>

lemma goto_state_traced:
  "traced c0 tr s \<Longrightarrow> can_transition_to (last (Idle # tr)) ph \<Longrightarrow>
    \<exists>s'. goto_state ph s = (Inr (), s') \<and> traced c0 (tr @ [ph]) s'"
  using goto_traced [of c0 tr s ph] by (auto simp: goto_state_def)

lemma hard_disconnect_traced:
  "traced c0 tr s \<Longrightarrow> \<exists>s'. hard_disconnect p s = (Inr (), s') \<and> traced c0 tr s'"
  by (simp add: hard_disconnect_def traced_def)

lemma teardown_to_shutdown_traced:
  assumes "traced c0 tr s" "last (Idle # tr) = Persisting"
  shows "\<exists>s'. teardown_to_shutdown p s = (Inr (), s') \<and> traced c0 (tr @ [Disconnecting, ShuttingDown]) s'"
proof -
  from goto_state_traced [OF assms(1), of Disconnecting] assms(2) obtain s1
    where 1: "goto_state Disconnecting s = (Inr (), s1)" "traced c0 (tr @ [Disconnecting]) s1"
    by (auto simp: can_transition_to_def)
  from hard_disconnect_traced [OF 1(2)] obtain s2
    where 2: "hard_disconnect p s1 = (Inr (), s2)" "traced c0 (tr @ [Disconnecting]) s2" by blast
  from goto_state_traced [OF 2(2), of ShuttingDown] obtain s3
    where 3: "goto_state ShuttingDown s2 = (Inr (), s3)" "traced c0 (tr @ [Disconnecting, ShuttingDown]) s3"
    by (auto simp: can_transition_to_def)
  with 1 2 show ?thesis by (simp add: teardown_to_shutdown_def act_then_def act_bind_def)
qed

definition torn_down :: "cycle_phase list \<Rightarrow> cycle_phase list" where
  "torn_down tr = (if last (Idle # tr) = Disconnecting then tr else tr @ [Disconnecting]) @ [Backoff]"

lemma teardown_after_failure_traced:
  assumes "traced c0 tr s" "last (Idle # tr) = Disconnecting \<or> can_transition_to (last (Idle # tr)) Disconnecting"
  shows "\<exists>s'. teardown_after_failure p s = (Inr (), s') \<and> traced c0 (torn_down tr) s'"
proof -
  let ?tr = "if last (Idle # tr) = Disconnecting then tr else tr @ [Disconnecting]"
  have cur: "sm_current (cx_state (fst s)) = last (Idle # tr)" using assms(1) by (simp add: traced_def traced_at_def)
  let ?m = "if sm_current (cx_state (fst s)) \<noteq> Disconnecting then goto_state Disconnecting else act_return ()"
  obtain s1 where 1: "?m s = (Inr (), s1)" "traced c0 ?tr s1"
    using assms goto_state_traced [OF assms(1), of Disconnecting] unfolding cur
    by (cases "last (Idle # tr) = Disconnecting") (auto simp: act_return_def)
  from hard_disconnect_traced [OF 1(2)] obtain s2 where 2: "hard_disconnect p s1 = (Inr (), s2)" "traced c0 ?tr s2" by blast
  have "last (Idle # ?tr) = Disconnecting" by simp
  then have "can_transition_to (last (Idle # ?tr)) Backoff" by (simp only: can_transition_to_def) simp
  from goto_state_traced [OF 2(2) this] obtain s3
    where 3: "goto_state Backoff s2 = (Inr (), s3)" "traced c0 (?tr @ [Backoff]) s3" by blast
  have "teardown_after_failure p s = (Inr (), s3)"
    unfolding teardown_after_failure_def act_then_def act_bind_def act_get_def
    using 1(1) 2(1) 3(1) by simp
  with 3(2) show ?thesis by (simp add: torn_down_def)
qed

lemma record_failure_traced: "traced c0 tr s \<Longrightarrow> traced c0 tr (record_failure_health e s)"
  unfolding record_failure_health_def traced_pair traced_def
  by (rule traced_same_cycle, assumption, cases e)
    (simp_all add: same_cycle_def same_setup_def with_health_def record_ble_discover_failure_def
      record_ble_connect_failure_def record_ble_session_failure_def record_protocol_error_def record_sample_dropped_def)

lemma walk_can_disconnect:
  "error_phase e = Some ph \<Longrightarrow> last (Idle # tr0 @ walk dup ph) = ph \<and> (ph = Disconnecting \<or> can_transition_to ph Disconnecting)"
  by (cases e) (auto simp: walk_def can_transition_to_def)

text \<open>The outcome of a cycle and the phases that were seen.\<close>

definition outcome_end :: "cycle_context \<Rightarrow> cycle_phase list \<Rightarrow> cycle_outcome \<Rightarrow> 'w svc \<Rightarrow> bool" where
  "outcome_end c0 tr0 out s =
     (case out of
        CycleSuccess r \<Rightarrow> traced c0 (tr0 @ stages (cr_duplicate r)) s
      | CycleShutdown ph sample \<Rightarrow> ph = Delivering \<and> traced c0 (tr0 @ walk False Persisting @ [Disconnecting, ShuttingDown]) s
      | CycleFailure ph e \<Rightarrow> error_phase e = Some ph \<and> (\<exists>dup. traced c0 (torn_down (tr0 @ walk dup ph)) s))"

lemma run_cycle_end:
  assumes "last (Idle # tr0) = Idle" "traced c0 tr0 s" "run_cycle p s = (Some out, s')"
  shows "outcome_end c0 tr0 out s'"
proof -
  obtain device where dev: "config_device (cx_config (fst s)) = Some device"
    using assms(3) by (auto simp: run_cycle_def split: option.splits)
  obtain r s1 where r: "cycle_states p device s = (r, s1)" by (cases "cycle_states p device s")
  have ok: "ok_in c0 tr0 (step_end c0 tr0) r s1"
    by (rule holdsD [OF cycle_states_step [OF assms(1)] assms(2) r])
  show ?thesis
  proof (cases r)
    case (Inl pe)
    obtain ph e where pe: "pe = (ph, e)" by (cases pe)
    from ok Inl pe obtain dup where f: "error_phase e = Some ph" "traced c0 (tr0 @ walk dup ph) s1"
      by (auto simp: ok_in_def)
    have "traced c0 (tr0 @ walk dup ph) (record_failure_health e s1)"
      by (rule record_failure_traced [OF f(2)])
    moreover have "last (Idle # tr0 @ walk dup ph) = Disconnecting \<or> can_transition_to (last (Idle # tr0 @ walk dup ph)) Disconnecting"
      using walk_can_disconnect [OF f(1), of tr0 dup] by metis
    ultimately obtain s2 where "teardown_after_failure p (record_failure_health e s1) = (Inr (), s2)" "traced c0 (torn_down (tr0 @ walk dup ph)) s2"
      using teardown_after_failure_traced by blast
    with f(1) assms(3) r Inl pe dev show ?thesis by (auto simp: run_cycle_def outcome_end_def)
  next
    case (Inr st)
    show ?thesis
    proof (cases st)
      case (StepDone res)
      with ok Inr assms(3) r dev show ?thesis by (auto simp: run_cycle_def outcome_end_def ok_in_def step_end_def)
    next
      case (StepShutdown ph sample)
      with ok Inr have t: "ph = Delivering" "traced c0 (tr0 @ walk False Persisting) s1" by (simp_all add: ok_in_def step_end_def)
      have "last (Idle # (tr0 @ walk False Persisting)) = Persisting" by (simp add: walk_Persisting)
      from teardown_to_shutdown_traced [OF t(2) this] obtain s2
        where "teardown_to_shutdown p s1 = (Inr (), s2)" "traced c0 (tr0 @ walk False Persisting @ [Disconnecting, ShuttingDown]) s2"
        by (metis append.assoc)
      with t(1) assms(3) r dev Inr StepShutdown show ?thesis
        by (auto simp: run_cycle_def finish_gracefully_def outcome_end_def)
    qed
  qed
qed

section \<open>Properties\<close>

text \<open>A radio that never answers: every phase runs into its deadline.\<close>

definition silent_ports :: "unit ports" where
  "silent_ports =
     \<lparr>ble_discover = (\<lambda>d w. (None, w)), ble_connect = (\<lambda>d w. (None, w)), ble_negotiate = (\<lambda>f d w. (None, w)),
      ble_subscribe = (\<lambda>i b d w. (None, w)), ble_request_values = (\<lambda>b t d w. (None, w)),
      ble_finish_cycle = (\<lambda>d w. (None, w)), ble_disconnect = (\<lambda>d w. (None, w)),
      proto_vregs = [], proto_acquire_plan = (\<lambda>i v. Inl PpMalformed), proto_parse_response = (\<lambda>i b. Inl PpMalformed),
      proto_translate = (\<lambda>i v w. (Inl PpMalformed, w)),
      st_last_success = (\<lambda>w. (Inr None, w)), st_energy_state = (\<lambda>w. (Inr None, w)),
      st_commit_acquisition = (\<lambda>c w. (Inr PortCommitted, w)),
      st_spool_health = (\<lambda>t w. (Inr \<lparr>sh_depth = 0, sh_oldest_age = None\<rparr>, w)),
      st_spool_claim_next = (\<lambda>d t w. (Inr None, w)), st_spool_complete = (\<lambda>c w. (Inr (), w)),
      st_spool_retry = (\<lambda>c t w. (Inr (PortRetried 1), w)), st_spool_drop = (\<lambda>c w. (Inr (), w)),
      deliver = (\<lambda>b w. (Inr (), w)), render = (\<lambda>c. Inr []), clock_now = (\<lambda>w. (0, w)),
      shutdown_set = (\<lambda>w. False), shutdown_closed = (\<lambda>w. False), sleep_or_shutdown = (\<lambda>d w. w),
      backoff_policy = (\<lambda>n. 0), interval_policy = (\<lambda>c. IntervalActive)\<rparr>"

lemma silent_cycle:
  "\<exists>c'. run_cycle silent_ports (context_new default_config, ())
    = (Some (CycleFailure Discovering (CeDiscover (BleTimeout ''service-phase''))), (c', ()))"
proof -
  have "device_id_new (sc_device_name default_config) = Inr \<lparr>device_name = sc_device_name default_config\<rparr>"
    using config_validate_name [OF default_config_valid] unfolding device_id_new_iff by (simp add: default_config_def)
  then have "config_device default_config \<noteq> None" by (simp add: config_device_def)
  then obtain d where d: "config_device (cx_config (context_new default_config)) = Some d" by (auto simp: context_new_def)
  let ?s0 = "(context_new default_config, ())"
  obtain s1 where g: "goto_phase Discovering ?s0 = (Inr (), s1)" "traced (context_new default_config) [Discovering] s1"
    using goto_traced [of "context_new default_config" "[]" ?s0 Discovering]
    by (auto simp: goto_phase_def traced_at_def context_new_def sm_new_def run_start can_transition_to_def same_setup_def)
  have f: "phase Discovering CeDiscover (ble_discover silent_ports) s1
      = (Inl (Discovering, CeDiscover (BleTimeout ''service-phase'')), s1)"
    by (cases s1) (simp add: phase_def silent_ports_def)
  have "acquire_sample silent_ports c ?s0 = (Inl (Discovering, CeDiscover (BleTimeout ''service-phase'')), s1)" for c
    unfolding acquire_sample_def act_then_def act_bind_def [of "goto_phase Discovering"]
      act_bind_def [of "phase Discovering CeDiscover (ble_discover silent_ports)"] by (simp add: g(1) f)
  then have "cycle_states silent_ports d ?s0 = (Inl (Discovering, CeDiscover (BleTimeout ''service-phase'')), s1)"
    unfolding cycle_states_def by (simp add: act_bind_def [of "act_get _"] act_get_def act_bind_def [of "acquire_sample _ _"])
  moreover
  have "traced (context_new default_config) [Discovering] (record_failure_health (CeDiscover (BleTimeout ''service-phase'')) s1)"
    by (rule record_failure_traced [OF g(2)])
  from teardown_after_failure_traced [OF this, of silent_ports] obtain s2 where
    "teardown_after_failure silent_ports (record_failure_health (CeDiscover (BleTimeout ''service-phase'')) s1) = (Inr (), s2)"
    by (auto simp: can_transition_to_def)
  ultimately show ?thesis using d by (cases s2) (simp add: run_cycle_def)
qed

text \<open>C8: A cycle that starts in \<open>Idle\<close> makes only legal transitions and the observer sees exactly the
  stages in order: all of them for a success (without delivery when the sample was a duplicate), the
  stages up to the failing one followed by the teardown and \<open>Backoff\<close> for a failure, everything up to
  persistence followed by \<open>ShuttingDown\<close> for a shutdown. The error of a failure belongs to the phase it
  is reported for and is never a state machine error.\<close>

theorem cycle_walks_its_stages:
  assumes "run (Idle # cx_seen c)" "sm_current (cx_state c) = Idle" "last (Idle # cx_seen c) = Idle"
    and "run_cycle p (c, w) = (Some out, (c', w'))"
  shows "run (Idle # cx_seen c') \<and> sm_current (cx_state c') = last (Idle # cx_seen c') \<and>
    (case out of
       CycleSuccess r \<Rightarrow> cx_seen c' = cx_seen c @
         [Discovering, Connecting, Negotiating, Subscribing, Requesting, Collecting, Persisting]
         @ (if cr_duplicate r then [] else [Delivering]) @ [Disconnecting, Idle]
     | CycleShutdown ph sample \<Rightarrow> ph = Delivering \<and> cx_seen c' = cx_seen c @
         [Discovering, Connecting, Negotiating, Subscribing, Requesting, Collecting, Persisting, Disconnecting, ShuttingDown]
     | CycleFailure ph e \<Rightarrow> error_phase e = Some ph \<and>
         (\<exists>dup. cx_seen c' = torn_down (cx_seen c @ takeWhile (\<lambda>q. q \<noteq> ph) (stages dup) @ [ph])))"
proof -
  have "traced c (cx_seen c) (c, w)" using assms by (simp add: traced_at_def same_setup_def)
  from run_cycle_end [OF assms(3) this assms(4)] have e: "outcome_end c (cx_seen c) out (c', w')" .
  then have "\<exists>tr. traced_at c tr c'" by (auto simp: outcome_end_def split: cycle_outcome.splits)
  then have "run (Idle # cx_seen c') \<and> sm_current (cx_state c') = last (Idle # cx_seen c')" by (auto simp: traced_at_def)
  moreover have "case out of
       CycleSuccess r \<Rightarrow> cx_seen c' = cx_seen c @ stages (cr_duplicate r)
     | CycleShutdown ph sample \<Rightarrow> ph = Delivering \<and> cx_seen c' = cx_seen c @ walk False Persisting @ [Disconnecting, ShuttingDown]
     | CycleFailure ph e \<Rightarrow> error_phase e = Some ph \<and> (\<exists>dup. cx_seen c' = torn_down (cx_seen c @ walk dup ph))"
    using e unfolding outcome_end_def traced_pair traced_at_def by (cases out) auto
  ultimately show ?thesis unfolding stages_def walk_Persisting walk_def by (cases out) simp_all
qed

theorem cycle_walks_its_stages_witness:
  "\<exists>c'. run_cycle silent_ports (context_new default_config, ())
      = (Some (CycleFailure Discovering (CeDiscover (BleTimeout ''service-phase''))), (c', ()))
    \<and> cx_seen c' = [Discovering, Disconnecting, Backoff] \<and> run (Idle # cx_seen c')"
proof -
  from silent_cycle obtain c' where c: "run_cycle silent_ports (context_new default_config, ())
      = (Some (CycleFailure Discovering (CeDiscover (BleTimeout ''service-phase''))), (c', ()))" by auto
  have "cx_seen (context_new default_config) = []" by (simp add: context_new_def)
  with cycle_walks_its_stages [OF _ _ _ c] obtain dup where r: "run (Idle # cx_seen c')"
    and t: "cx_seen c' = torn_down (takeWhile (\<lambda>q. q \<noteq> Discovering) (stages dup) @ [Discovering])"
    by (auto simp: run_start context_new_def sm_new_def)
  from t have "cx_seen c' = [Discovering, Disconnecting, Backoff]" by (simp add: stages_def torn_down_def)
  with c r show ?thesis by blast
qed

end
