(* ===== verification/Service_Runner.thy ===== *)
theory Service_Runner
  imports Service_Cycle
begin

text \<open>
  \<open>victron-service\<close>, \<open>runner.rs\<close>: the run loop, one iteration at a time. \<open>run_loop n\<close> allows \<open>n\<close>
  iterations (the loop of the code ends only by a shutdown); \<open>RunGoing\<close> is the loop after them, and
  \<open>RunStuck\<close> the drain of the queue running out of its fuel, or the panic of \<open>config.device()\<close>.
\<close>

section \<open>The loop\<close>

record run_summary =
  rs_cycles :: u64
  rs_cycles_succeeded :: u64
  rs_graceful :: bool
  rs_health :: health_snapshot

datatype run_error = RunState transition_error

record loop_state =
  ls_cycles :: u64
  ls_succeeded :: u64
  ls_last_solar :: "solar_activity_kind option"

datatype run_result = RunReturned "run_error + run_summary" | RunGoing loop_state | RunStuck

definition summary :: "loop_state \<Rightarrow> cycle_context \<Rightarrow> run_summary" where
  "summary l c =
     \<lparr>rs_cycles = ls_cycles l, rs_cycles_succeeded = ls_succeeded l, rs_graceful = True, rs_health = cx_health c\<rparr>"

definition disconnect_for_shutdown :: "'w ports \<Rightarrow> 'w svc \<Rightarrow> 'w svc" where
  "disconnect_for_shutdown p s =
     (on_progress Disconnecting (fst s), snd (ble_disconnect p (sc_phase_timeout (cx_config (fst s))) (snd s)))"

definition goto_run :: "cycle_phase \<Rightarrow> ('w, run_error, unit) action" where
  "goto_run ph s = (case goto ph s of (r, s') \<Rightarrow> (map_err RunState r, s'))"

definition goto_idle_or_shutdown :: "('w, run_error, unit) action" where
  "goto_idle_or_shutdown s =
     (if sm_current (cx_state (fst s)) \<noteq> ShuttingDown then goto_run ShuttingDown s else (Inr (), s))"

definition stop_run :: "'w ports \<Rightarrow> loop_state \<Rightarrow> 'w svc \<Rightarrow> run_result \<times> 'w svc" where
  "stop_run p l s =
     (case goto_idle_or_shutdown (disconnect_for_shutdown p s) of
        (Inr _, s') \<Rightarrow> (RunReturned (Inr (summary l (fst s'))), s')
      | (Inl e, s') \<Rightarrow> (RunReturned (Inl e), s'))"

text \<open>The wait before a cycle: the cadence and the backoff, \<open>Duration::saturating_add\<close>.\<close>

definition next_wait :: "'w ports \<Rightarrow> loop_state \<Rightarrow> cycle_context \<Rightarrow> system_time \<Rightarrow> duration" where
  "next_wait p l c now =
     (let failures = h_consecutive_failures (cx_health c);
          kind = interval_policy p \<lparr>ic_now = now, ic_last_success = h_last_success (cx_health c),
                   ic_last_solar = ls_last_solar l, ic_consecutive_failures = failures\<rparr>;
          base = (case kind of IntervalActive \<Rightarrow> sc_active_interval (cx_config c)
                             | IntervalIdle \<Rightarrow> sc_idle_interval (cx_config c)) in
      min DURATION_MAX (base + backoff_policy p failures))"

text \<open>The state after the wait, and whether a shutdown ended it.\<close>

definition wait_step :: "'w ports \<Rightarrow> loop_state \<Rightarrow> 'w svc \<Rightarrow> bool \<times> 'w svc" where
  "wait_step p l s =
     (if ls_cycles l > 0 then
        (let (now, w) = clock_now p (snd s);
             wait = next_wait p l (fst s) now in
         if wait \<noteq> 0 then
           (let w' = sleep_or_shutdown p wait w in (shutdown_requested p w', (fst s, w')))
         else (False, (fst s, w)))
      else (False, s))"

definition cycle_done :: "cycle_outcome \<Rightarrow> loop_state \<Rightarrow> 'w svc \<Rightarrow> run_result \<times> 'w svc" where
  "cycle_done out l0 s =
     (let l = l0\<lparr>ls_cycles := ls_cycles l0 + 1\<rparr> in
      case out of
        CycleSuccess r \<Rightarrow>
          (RunGoing (l\<lparr>ls_succeeded := ls_succeeded l + 1,
               ls_last_solar := Some (solar_activity (cr_sample r)
                                        (sc_solar_active_threshold_watts (cx_config (fst s))))\<rparr>),
           (with_health (\<lambda>h. set_last_success (s_observed_at (cr_sample r)) (record_cycle True h)) (fst s), snd s))
      | CycleFailure ph e \<Rightarrow> (RunGoing l, (with_health (record_cycle False) (fst s), snd s))
      | CycleShutdown ph sample \<Rightarrow>
          (let c = with_health (\<lambda>h. set_last_success (s_observed_at sample) (record_cycle True h)) (fst s) in
           (RunReturned (Inr (summary (l\<lparr>ls_succeeded := ls_succeeded l + 1\<rparr>) c)), (c, snd s))))"

definition attempt_cycle :: "'w ports \<Rightarrow> loop_state \<Rightarrow> 'w svc \<Rightarrow> run_result \<times> 'w svc" where
  "attempt_cycle p l s =
     (case wait_step p l s of
        (True, s1) \<Rightarrow> stop_run p l s1
      | (False, s1) \<Rightarrow>
          (case run_cycle p s1 of
             (None, s2) \<Rightarrow> (RunStuck, s2)
           | (Some out, s2) \<Rightarrow> cycle_done out l s2))"

definition run_iteration :: "nat \<Rightarrow> 'w ports \<Rightarrow> loop_state \<Rightarrow> 'w svc \<Rightarrow> run_result \<times> 'w svc" where
  "run_iteration drain_fuel p l s =
     (let progress = (\<lambda>c. on_progress (sm_current (cx_state c)) c) in
      case drain_spool drain_fuel p (progress (fst s), snd s) of
        (None, s1) \<Rightarrow> (RunStuck, s1)
      | (Some _, s1) \<Rightarrow>
          (let s2 = (progress (fst s1), snd s1) in
           if shutdown_requested p (snd s2) then stop_run p l s2
           else if sm_current (cx_state (fst s2)) \<noteq> Idle then
             (case goto_run Idle s2 of
                (Inl e, s3) \<Rightarrow> (RunReturned (Inl e), s3)
              | (Inr _, s3) \<Rightarrow> attempt_cycle p l s3)
           else attempt_cycle p l s2))"

fun run_loop :: "nat \<Rightarrow> nat \<Rightarrow> 'w ports \<Rightarrow> loop_state \<Rightarrow> 'w svc \<Rightarrow> run_result \<times> 'w svc" where
  "run_loop 0 drain_fuel p l s = (RunGoing l, s)"
| "run_loop (Suc n) drain_fuel p l s =
     (case run_iteration drain_fuel p l s of
        (RunGoing l', s') \<Rightarrow> run_loop n drain_fuel p l' s'
      | (r, s') \<Rightarrow> (r, s'))"

definition loop_start :: loop_state where
  "loop_start = \<lparr>ls_cycles = 0, ls_succeeded = 0, ls_last_solar = None\<rparr>"

definition run_collector :: "nat \<Rightarrow> nat \<Rightarrow> 'w ports \<Rightarrow> service_config \<Rightarrow> 'w \<Rightarrow> run_result \<times> 'w svc" where
  "run_collector n drain_fuel p c w = run_loop n drain_fuel p loop_start (context_new c, w)"

section \<open>The invariant of the loop\<close>

text \<open>Between iterations the machine is in \<open>Idle\<close> or \<open>Backoff\<close>, what the observer saw is a legal run, and
  the counters of the loop agree with those of the health.\<close>

definition legal :: "cycle_context \<Rightarrow> cycle_phase set \<Rightarrow> cycle_context \<Rightarrow> bool" where
  "legal c0 phs c \<longleftrightarrow> run (Idle # cx_seen c) \<and> last (Idle # cx_seen c) = sm_current (cx_state c)
     \<and> sm_current (cx_state c) \<in> phs \<and> cx_config c = cx_config c0 \<and> cx_energy c = cx_energy c0"

definition counted :: "loop_state \<Rightarrow> cycle_context \<Rightarrow> bool" where
  "counted l c \<longleftrightarrow> h_cycles_total (cx_health c) = ls_cycles l \<and> h_cycles_succeeded (cx_health c) = ls_succeeded l"

definition loop_end :: "cycle_context \<Rightarrow> run_result \<Rightarrow> 'w svc \<Rightarrow> bool" where
  "loop_end c0 r s =
     (case r of
        RunGoing l \<Rightarrow> legal c0 {Idle, Backoff} (fst s) \<and> counted l (fst s)
      | RunReturned (Inr sm) \<Rightarrow> legal c0 {ShuttingDown} (fst s) \<and> rs_graceful sm \<and> rs_health sm = cx_health (fst s)
          \<and> h_cycles_total (rs_health sm) = rs_cycles sm \<and> h_cycles_succeeded (rs_health sm) = rs_cycles_succeeded sm
      | RunReturned (Inl e) \<Rightarrow> False
      | RunStuck \<Rightarrow> True)"

lemma legal_same_cycle: "legal c0 phs c \<Longrightarrow> same_cycle c c' \<Longrightarrow> legal c0 phs c'"
  by (simp add: legal_def same_cycle_def same_setup_def)

lemma counted_same_setup: "counted l c \<Longrightarrow> same_setup c c' \<Longrightarrow> counted l c'"
  by (simp add: counted_def same_setup_def)

lemma legal_weaken: "legal c0 phs c \<Longrightarrow> phs \<subseteq> phs' \<Longrightarrow> legal c0 phs' c"
  by (auto simp: legal_def)

lemma legal_with_health [simp]: "legal c0 phs (with_health f c) = legal c0 phs c"
  by (simp add: legal_def with_health_def)

lemma legal_on_progress [simp]: "legal c0 phs (on_progress ph c) = legal c0 phs c"
  by (simp add: legal_def on_progress_def)

lemma counted_on_progress [simp]: "counted l (on_progress ph c) = counted l c"
  by (simp add: counted_def on_progress_def)

lemma legal_goto:
  assumes "legal c0 phs (fst s)" "\<forall>ph' \<in> phs. can_transition_to ph' ph"
  shows "\<exists>s'. goto ph s = (Inr (), s') \<and> legal c0 {ph} (fst s') \<and> same_setup (fst s) (fst s')"
proof -
  have t: "traced (fst s) (cx_seen (fst s)) s"
    using assms(1) by (simp add: traced_def traced_at_def legal_def same_setup_def)
  have "can_transition_to (last (Idle # cx_seen (fst s))) ph"
    using assms by (simp add: legal_def del: last.simps)
  from goto_traced [OF t this] obtain s'
    where s': "goto ph s = (Inr (), s')" "traced_at (fst s) (cx_seen (fst s) @ [ph]) (fst s')" by (auto simp: traced_def)
  then have "same_setup (fst s) (fst s')" by (simp add: traced_at_def)
  moreover have "legal c0 {ph} (fst s')"
    using s'(2) assms(1) by (simp add: traced_at_def legal_def same_setup_def)
  ultimately show ?thesis using s'(1) by blast
qed

lemma phase_edges:
  "\<forall>ph \<in> {Idle, Backoff}. can_transition_to ph ShuttingDown" "\<forall>ph \<in> {Backoff}. can_transition_to ph Idle"
  by (simp_all add: can_transition_to_def)

fun outcome_phase :: "cycle_outcome \<Rightarrow> cycle_phase" where
  "outcome_phase (CycleSuccess r) = Idle"
| "outcome_phase (CycleFailure ph e) = Backoff"
| "outcome_phase (CycleShutdown ph sample) = ShuttingDown"

lemma run_cycle_legal:
  assumes "legal c0 {Idle} (fst s)" "run_cycle p s = (Some out, s')"
  shows "legal c0 {outcome_phase out} (fst s') \<and> same_setup (fst s) (fst s')"
proof -
  have t: "traced (fst s) (cx_seen (fst s)) s" and l: "last (Idle # cx_seen (fst s)) = Idle"
    using assms(1) by (simp_all add: traced_def traced_at_def legal_def same_setup_def)
  from run_cycle_end [OF l t assms(2)] obtain tr where "traced_at (fst s) tr (fst s')" "last (Idle # tr) = outcome_phase out"
    by (cases out) (auto simp: outcome_end_def traced_def stages_def torn_down_def)
  with assms(1) show ?thesis by (auto simp: traced_at_def legal_def same_setup_def)
qed

lemma stop_run_end:
  assumes "legal c0 {Idle, Backoff} (fst s)" "counted l (fst s)" "stop_run p l s = (r, s')"
  shows "loop_end c0 r s' \<and> (\<exists>sm. r = RunReturned (Inr sm))"
proof -
  let ?s1 = "disconnect_for_shutdown p s"
  have s1: "legal c0 {Idle, Backoff} (fst ?s1)" "counted l (fst ?s1)"
    using assms by (simp_all add: disconnect_for_shutdown_def)
  then have "sm_current (cx_state (fst ?s1)) \<noteq> ShuttingDown" by (auto simp: legal_def)
  moreover from legal_goto [OF s1(1) phase_edges(1)] obtain s2
    where "goto ShuttingDown ?s1 = (Inr (), s2)" "legal c0 {ShuttingDown} (fst s2)" "same_setup (fst ?s1) (fst s2)"
    by blast
  ultimately show ?thesis
    using assms(3) counted_same_setup [OF s1(2)]
    by (auto simp: stop_run_def goto_idle_or_shutdown_def goto_run_def loop_end_def summary_def counted_def)
qed

lemma cycle_done_end:
  assumes "legal c0 {outcome_phase out} (fst s)" "counted l (fst s)" "cycle_done out l s = (r, s')"
  shows "loop_end c0 r s'"
  using assms legal_weaken [OF assms(1), of "{Idle, Backoff}"]
  by (cases out) (auto simp: cycle_done_def Let_def loop_end_def counted_def summary_def with_health_def [of _ "fst s"]
      record_cycle_def set_last_success_def legal_def)

lemma attempt_cycle_end:
  assumes "legal c0 {Idle} (fst s)" "counted l (fst s)" "attempt_cycle p l s = (r, s')"
  shows "loop_end c0 r s'"
proof -
  obtain b s1 where w: "wait_step p l s = (b, s1)" by (cases "wait_step p l s")
  have s1: "fst s1 = fst s" using w by (auto simp: wait_step_def Let_def split: if_splits prod.splits)
  show ?thesis
  proof (cases b)
    case True
    with assms(3) w have "stop_run p l s1 = (r, s')" by (simp add: attempt_cycle_def)
    from stop_run_end [OF _ _ this] legal_weaken [OF assms(1)] assms(2) s1 show ?thesis by simp
  next
    case False
    obtain out s2 where c: "run_cycle p s1 = (out, s2)" by (cases "run_cycle p s1")
    show ?thesis
    proof (cases out)
      case None
      with False c w assms(3) show ?thesis by (auto simp: attempt_cycle_def loop_end_def)
    next
      case (Some o1)
      from run_cycle_legal [OF _ c [unfolded Some]] assms(1) s1
      have "legal c0 {outcome_phase o1} (fst s2)" "same_setup (fst s) (fst s2)" by simp_all
      moreover from False w c Some assms(3) have "cycle_done o1 l s2 = (r, s')" by (simp add: attempt_cycle_def)
      ultimately show ?thesis using cycle_done_end counted_same_setup [OF assms(2)] by blast
    qed
  qed
qed

lemma run_iteration_end:
  assumes "legal c0 {Idle, Backoff} (fst s)" "counted l (fst s)" "run_iteration df p l s = (r, s')"
  shows "loop_end c0 r s'"
proof -
  let ?progress = "\<lambda>c. on_progress (sm_current (cx_state c)) c"
  obtain d s1 where dr: "drain_spool df p (?progress (fst s), snd s) = (d, s1)"
    by (cases "drain_spool df p (?progress (fst s), snd s)")
  have "same_cycle (?progress (fst s)) (fst s1)"
    using drain_spool_frame [of "(?progress (fst s), snd s)" df p] by (simp add: dr)
  then have s1: "legal c0 {Idle, Backoff} (fst s1)" "counted l (fst s1)"
    using assms legal_same_cycle [of c0 "{Idle, Backoff}" "?progress (fst s)"] counted_same_setup [of l "?progress (fst s)"]
    by (simp_all add: same_cycle_def)
  let ?s2 = "(?progress (fst s1), snd s1)"
  note it = assms(3) [unfolded run_iteration_def Let_def dr, simplified]
  consider "d = None" | "d \<noteq> None" "shutdown_requested p (snd s1)"
    | "d \<noteq> None" "\<not> shutdown_requested p (snd s1)" by blast
  then show ?thesis
  proof cases
    case 1
    with it show ?thesis by (auto simp: loop_end_def)
  next
    case 2
    with it have "stop_run p l ?s2 = (r, s')" by auto
    from stop_run_end [OF _ _ this] s1 show ?thesis by simp
  next
    case 3
    show ?thesis
    proof (cases "sm_current (cx_state (fst s1)) = Idle")
      case True
      with it 3 have "attempt_cycle p l ?s2 = (r, s')" by (auto simp: on_progress_def)
      moreover from s1 True have "legal c0 {Idle} (fst ?s2)" by (simp add: legal_def on_progress_def)
      ultimately show ?thesis using attempt_cycle_end [of c0 ?s2 l p r s'] s1(2) by simp
    next
      case False
      then have "legal c0 {Backoff} (fst ?s2)" using s1 by (auto simp: legal_def on_progress_def)
      from legal_goto [OF this phase_edges(2)] obtain s3
        where s3: "goto Idle ?s2 = (Inr (), s3)" "legal c0 {Idle} (fst s3)" "same_setup (fst ?s2) (fst s3)"
        by blast
      with it 3 False have "attempt_cycle p l s3 = (r, s')" by (auto simp: goto_run_def on_progress_def)
      moreover have "counted l (fst s3)" using counted_same_setup [OF _ s3(3), of l] s1(2) by simp
      ultimately show ?thesis using attempt_cycle_end s3(2) by blast
    qed
  qed
qed

lemma run_loop_end:
  "legal c0 {Idle, Backoff} (fst s) \<Longrightarrow> counted l (fst s) \<Longrightarrow> run_loop n df p l s = (r, s') \<Longrightarrow> loop_end c0 r s'"
proof (induction n arbitrary: l s)
  case 0
  then show ?case by (auto simp: loop_end_def)
next
  case (Suc n)
  obtain r1 s1 where it: "run_iteration df p l s = (r1, s1)" by (cases "run_iteration df p l s")
  from run_iteration_end [OF Suc.prems(1,2) it] have e: "loop_end c0 r1 s1" .
  show ?case
  proof (cases r1)
    case (RunGoing l1)
    with e have "legal c0 {Idle, Backoff} (fst s1)" "counted l1 (fst s1)" by (simp_all add: loop_end_def)
    moreover from RunGoing it Suc.prems(3) have "run_loop n df p l1 s1 = (r, s')" by simp
    ultimately show ?thesis by (rule Suc.IH)
  qed (use e it Suc.prems(3) in auto)
qed

lemma run_collector_end:
  assumes "run_collector n df p c w = (r, s)"
  shows "loop_end (context_new c) r s"
proof (rule run_loop_end)
  show "run_loop n df p loop_start (context_new c, w) = (r, s)" using assms by (simp add: run_collector_def)
qed (simp_all add: legal_def context_new_def sm_new_def run_start counted_def loop_start_def health_new_def)

text \<open>A requested shutdown ends the loop in the next iteration.\<close>

lemma shutdown_iteration:
  assumes "legal c0 {Idle, Backoff} (fst s)" "counted l (fst s)" "shutdown_requested p (snd s)"
  shows "\<exists>sm s'. run_iteration (Suc df) p l s = (RunReturned (Inr sm), s') \<and> loop_end c0 (RunReturned (Inr sm)) s'
    \<and> snd s' = snd (ble_disconnect p (sc_phase_timeout (cx_config (fst s))) (snd s))
    \<and> cx_seen (fst s') = cx_seen (fst s) @ [ShuttingDown]"
proof -
  let ?progress = "\<lambda>c. on_progress (sm_current (cx_state c)) c"
  let ?s2 = "(?progress (?progress (fst s)), snd s)"
  have it: "run_iteration (Suc df) p l s = stop_run p l ?s2"
    using assms(3) by (simp add: run_iteration_def drain_spool_def Let_def)
  obtain r s' where st: "stop_run p l ?s2 = (r, s')" by (cases "stop_run p l ?s2")
  from stop_run_end [OF _ _ st] assms have e: "loop_end c0 r s'" and r: "\<exists>sm. r = RunReturned (Inr sm)" by simp_all
  have "snd s' = snd (ble_disconnect p (sc_phase_timeout (cx_config (fst s))) (snd s))
      \<and> cx_seen (fst s') = cx_seen (fst s) @ [ShuttingDown]"
    using st assms(1) r
    by (auto simp: stop_run_def goto_idle_or_shutdown_def goto_run_def goto_def sm_transition_def legal_def
        disconnect_for_shutdown_def on_progress_def observer_on_phase_def split: if_splits)
  with it st e r show ?thesis by auto
qed

section \<open>Properties\<close>




end
