(* ===== verification/Service_Steps.thy ===== *)
theory Service_Steps
  imports Service_Runner
begin

text \<open>
  What a run of the collector does to the world. The locale \<open>port_steps\<close> is the interface to the ports
  for a reflexive and transitive relation that every port call respects: then so does every
  composition of the service. The locale \<open>bounded_queue\<close> is a queue whose claims use up a measure:
  its replay ends.
\<close>

section \<open>Relations the ports respect\<close>

locale port_steps =
  fixes p :: "'w ports" and R :: "'w \<Rightarrow> 'w \<Rightarrow> bool"
  assumes R_refl: "R w w"
    and R_trans: "R w w1 \<Longrightarrow> R w1 w2 \<Longrightarrow> R w w2"
    and R_ble: "ble_discover p d w = (r1, w') \<Longrightarrow> R w w'" "ble_connect p d w = (r1, w') \<Longrightarrow> R w w'"
      "ble_negotiate p fs d w = (r1, w') \<Longrightarrow> R w w'" "ble_subscribe p i b d w = (r1, w') \<Longrightarrow> R w w'"
      "ble_request_values p b t d w = (r2, w') \<Longrightarrow> R w w'" "ble_finish_cycle p d w = (r1, w') \<Longrightarrow> R w w'"
      "ble_disconnect p d w = (r1, w') \<Longrightarrow> R w w'"
    and R_protocol: "proto_translate p i vs w = (r3, w') \<Longrightarrow> R w w'"
    and R_storage: "st_last_success p w = (r4, w') \<Longrightarrow> R w w'" "st_energy_state p w = (r5, w') \<Longrightarrow> R w w'"
      "st_commit_acquisition p c w = (r6, w') \<Longrightarrow> R w w'" "st_spool_health p now w = (r7, w') \<Longrightarrow> R w w'"
      "st_spool_claim_next p ttl now w = (r8, w') \<Longrightarrow> R w w'" "st_spool_complete p claim w = (r9, w') \<Longrightarrow> R w w'"
      "st_spool_retry p claim now w = (r10, w') \<Longrightarrow> R w w'" "st_spool_drop p claim w = (r9, w') \<Longrightarrow> R w w'"
    and R_deliver: "deliver p b w = (r11, w') \<Longrightarrow> R w w'"
    and R_clock: "clock_now p w = (now, w') \<Longrightarrow> R w w'" "R w (sleep_or_shutdown p t w)"
begin

lemmas R_ports = R_ble R_protocol R_storage R_deliver R_clock

text \<open>Each step from a world reached so far.\<close>

lemmas R_step = R_ports [THEN R_trans [rotated]]

definition stays :: "('w, 'e, 'a) action \<Rightarrow> bool" where
  "stays m \<longleftrightarrow> (\<forall>s r s'. m s = (r, s') \<longrightarrow> R (snd s) (snd s'))"

lemma staysI: "(\<And>s r s'. m s = (r, s') \<Longrightarrow> R (snd s) (snd s')) \<Longrightarrow> stays m"
  by (simp add: stays_def)

lemma staysD: "stays m \<Longrightarrow> m s = (r, s') \<Longrightarrow> R (snd s) (snd s')"
  unfolding stays_def by blast

lemma stays_bind: "stays m \<Longrightarrow> (\<And>x. stays (f x)) \<Longrightarrow> stays (act_bind m f)"
  unfolding act_bind_def
  by (rule staysI) (auto split: prod.splits sum.splits dest!: staysD intro: R_trans)

lemma stays_then: "stays m \<Longrightarrow> stays k \<Longrightarrow> stays (act_then m k)"
  unfolding act_then_def by (rule stays_bind)

lemma stays_if: "stays m \<Longrightarrow> stays k \<Longrightarrow> stays (if b then m else k)"
  by simp

lemma stays_pair: "(\<And>a b. stays (f a b)) \<Longrightarrow> stays (case x of (a, b) \<Rightarrow> f a b)"
  by (cases x) simp

lemma stays_basic:
  "stays (act_return x)" "stays (act_fail e)" "stays (act_get g)" "stays (act_update h)" "stays (act_result r)"
  "stays (act_now p)" "stays (act_shutdown p)"
  by (auto simp: stays_def act_return_def act_fail_def act_get_def act_update_def act_result_def act_now_def
      act_shutdown_def R_refl split: prod.splits intro: R_clock)

lemma stays_goto: "stays (goto_phase ph)" "stays (goto_state ph)" "stays (goto_run ph)"
  by (auto simp: stays_def goto_phase_def goto_state_def goto_run_def goto_def R_refl split: prod.splits sum.splits)

lemma stays_phase: "(\<And>d w r w'. call d w = (r, w') \<Longrightarrow> R w w') \<Longrightarrow> stays (phase ph h call)"
  by (rule staysI) (auto simp: phase_def split: prod.splits option.splits)

lemma stays_port: "(\<And>w r w'. call w = (r, w') \<Longrightarrow> R w w') \<Longrightarrow> stays (port_step ph h call)"
  by (rule staysI) (auto simp: port_step_def act_port_def split: prod.splits)

lemma stays_pure: "stays (pure_step ph h r)"
  by (simp add: pure_step_def stays_basic)

lemma drop_claim_R: "drop_claim p claim s = (st, s') \<Longrightarrow> R (snd s) (snd s')"
  by (auto simp: drop_claim_def split: prod.splits sum.splits intro: R_storage)

lemma deliver_claim_R:
  assumes "deliver_claim p claim s = (st, s')"
  shows "R (snd s) (snd s')"
proof -
  obtain result w1 where d: "deliver p (cb_payload claim) (snd s) = (result, w1)"
    by (cases "deliver p (cb_payload claim) (snd s)")
  from R_deliver [OF d] have 1: "R (snd s) w1" .
  have "R w1 (snd s')"
  proof (cases result)
    case (Inr u)
    with assms d show ?thesis
      by (auto simp: deliver_claim_def Let_def split: prod.splits sum.splits intro: R_storage)
  next
    case (Inl e)
    let ?c = "with_health (record_delivery False) (on_progress Delivering (on_progress Delivering (fst s)))"
    consider "drop_claim p claim (?c, w1) = (st, s')" | now w2 x w3 where
        "clock_now p w1 = (now, w2)" "st_spool_retry p claim now w2 = (x, w3)" "snd s' = w3"
      using assms d Inl
      by (auto simp: deliver_claim_def Let_def split: prod.splits sum.splits if_splits port_retry_outcome.splits)
    then show ?thesis
    proof cases
      case 1
      from drop_claim_R [OF this] show ?thesis by simp
    next
      case 2
      from R_clock(1) [OF 2(1)] R_storage(7) [OF 2(2)] 2(3) show ?thesis by (auto intro: R_trans)
    qed
  qed
  with 1 show ?thesis by (rule R_trans)
qed

lemma drain_loop_R: "drain_loop fuel p n s = (r, s') \<Longrightarrow> R (snd s) (snd s')"
proof (induction fuel arbitrary: n s)
  case 0
  then show ?case by (auto simp: R_refl)
next
  case (Suc fuel)
  obtain now w1 where c: "clock_now p (snd s) = (now, w1)" by (cases "clock_now p (snd s)")
  let ?c1 = "on_progress Delivering (fst s)"
  obtain x w2 where cl: "st_spool_claim_next p (sc_spool_claim_ttl (cx_config ?c1)) now w1 = (x, w2)"
    by (cases "st_spool_claim_next p (sc_spool_claim_ttl (cx_config ?c1)) now w1")
  have 2: "R (snd s) w2" by (rule R_trans [OF R_clock(1) [OF c] R_storage(5) [OF cl]])
  show ?case
  proof (cases "shutdown_requested p (snd s)")
    case True
    with Suc.prems show ?thesis by (auto simp: R_refl)
  next
    case False
    note it = Suc.prems [unfolded drain_loop.simps Let_def, simplified c False, simplified cl, simplified]
    show ?thesis
    proof (cases "\<exists>claim. x = Inr (Some claim)")
      case True
      then obtain claim where x: "x = Inr (Some claim)" by blast
      obtain st s3 where dc: "deliver_claim p claim (?c1, w2) = (st, s3)" by (cases "deliver_claim p claim (?c1, w2)")
      from deliver_claim_R [OF dc] 2 have 3: "R (snd s) (snd s3)" by (auto intro: R_trans)
      have "(\<exists>m. drain_loop fuel p m s3 = (r, s')) \<or> s' = s3"
        using it x by (cases st) (auto simp: dc cl)
      with Suc.IH 3 show ?thesis by (metis R_trans)
    next
      case False
      then have "s' = (?c1, w2)" using it by (auto simp: cl split: sum.splits option.splits)
      with 2 show ?thesis by simp
    qed
  qed
qed

text \<open>The cycle and the loop.\<close>

lemmas stays_rules = stays_bind stays_then stays_if stays_pair stays_basic stays_goto stays_phase stays_port stays_pure

lemma stays_acquire: "stays (acquire_sample p c)"
  unfolding acquire_sample_def by (rule stays_rules | erule R_ports)+

lemma stays_commit: "stays (commit_sample p device sample prev energy)"
proof -
  have o: "stays (case out of
         PortCommitted \<Rightarrow> act_then (act_update (\<lambda>c. case eo_skipped_gap energy of
                       Some gap \<Rightarrow> with_health (record_energy_gap gap) c | None \<Rightarrow> c)) (act_return False)
       | PortAlreadyCommitted \<Rightarrow> act_return True)" for out
    by (cases out; simp; (rule stays_rules)+)
  show ?thesis unfolding commit_sample_def by (rule stays_rules o | erule R_ports)+
qed

lemma stays_persist: "stays (persist_sample p device sample)"
  unfolding persist_sample_def by (rule stays_rules stays_commit | erule R_ports)+

lemma stays_deliver: "stays (deliver_sample p c duplicate)"
proof -
  have f: "stays (deliver_fresh p c now)" for now
    by (rule staysI) (auto simp: deliver_fresh_def split: prod.splits sum.splits option.splits
        dest!: deliver_claim_R intro: R_storage R_trans)
  show ?thesis unfolding deliver_sample_def by (rule stays_rules f | erule R_ports)+
qed

lemma stays_states: "stays (cycle_states p device)"
  unfolding cycle_states_def deliver_and_close_def
  by (rule stays_rules stays_acquire stays_persist stays_deliver | erule R_ports)+

lemma stays_teardown: "stays (teardown_after_failure p)" "stays (teardown_to_shutdown p)"
proof -
  have d: "stays (hard_disconnect p)"
    by (rule staysI) (auto simp: hard_disconnect_def intro: R_ble(7) prod.collapse [symmetric])
  show "stays (teardown_after_failure p)" "stays (teardown_to_shutdown p)"
    unfolding teardown_after_failure_def teardown_to_shutdown_def by (rule stays_rules d)+
qed

lemma run_cycle_R: "run_cycle p s = (out, s') \<Longrightarrow> R (snd s) (snd s')"
  by (auto simp: run_cycle_def finish_gracefully_def record_failure_health_def R_refl
      split: option.splits prod.splits sum.splits cycle_step.splits
      dest!: staysD [OF stays_states] staysD [OF stays_teardown(1)] staysD [OF stays_teardown(2)] intro: R_trans)

lemma stop_run_R: "stop_run p l s = (r, s') \<Longrightarrow> R (snd s) (snd s')"
  using staysD [OF stays_goto(3), of ShuttingDown "disconnect_for_shutdown p s"]
    R_ble(7) [of "sc_phase_timeout (cx_config (fst s))" "snd s"]
  by (cases "ble_disconnect p (sc_phase_timeout (cx_config (fst s))) (snd s)")
    (auto simp: stop_run_def goto_idle_or_shutdown_def disconnect_for_shutdown_def split: prod.splits sum.splits if_splits
      intro: R_trans)

lemma attempt_cycle_R:
  assumes "attempt_cycle p l s = (r, s')"
  shows "R (snd s) (snd s')"
proof -
  obtain b s1 where w: "wait_step p l s = (b, s1)" by (cases "wait_step p l s")
  have 1: "R (snd s) (snd s1)"
    using w by (auto simp: wait_step_def Let_def R_refl split: if_splits prod.splits
        intro: R_clock R_trans [OF R_clock(1) R_clock(2)])
  have "R (snd s1) (snd s')"
  proof (cases b)
    case True
    with assms w stop_run_R show ?thesis by (simp add: attempt_cycle_def)
  next
    case False
    obtain out s2 where c: "run_cycle p s1 = (out, s2)" by (cases "run_cycle p s1")
    have "snd s' = snd s2"
      using assms w False c
      by (auto simp: attempt_cycle_def cycle_done_def Let_def split: option.splits cycle_outcome.splits)
    with run_cycle_R [OF c] show ?thesis by simp
  qed
  with 1 show ?thesis by (rule R_trans)
qed

lemma run_iteration_R:
  assumes "run_iteration df p l s = (r, s')"
  shows "R (snd s) (snd s')"
proof -
  let ?progress = "\<lambda>c. on_progress (sm_current (cx_state c)) c"
  obtain d s1 where dr: "drain_spool df p (?progress (fst s), snd s) = (d, s1)"
    by (cases "drain_spool df p (?progress (fst s), snd s)")
  have 1: "R (snd s) (snd s1)" using drain_loop_R dr unfolding drain_spool_def by fastforce
  let ?s2 = "(?progress (fst s1), snd s1)"
  note it = assms [unfolded run_iteration_def Let_def dr, simplified]
  consider "s' = s1" | "stop_run p l ?s2 = (r, s')" | "attempt_cycle p l ?s2 = (r, s')"
    | x s3 where "goto_run Idle ?s2 = (x, s3)" "s' = s3 \<or> attempt_cycle p l s3 = (r, s')"
    using it by (cases d; cases "goto_run Idle ?s2"; cases "fst (goto_run Idle ?s2)") (auto split: if_splits)
  then have "R (snd s1) (snd s')"
  proof cases
    case 2
    from stop_run_R [OF this] show ?thesis by simp
  next
    case 3
    from attempt_cycle_R [OF this] show ?thesis by simp
  next
    case 4
    from staysD [OF stays_goto(3) 4(1)] have "R (snd s1) (snd s3)" by simp
    with 4(2) attempt_cycle_R show ?thesis by (metis R_trans)
  qed (simp add: R_refl)
  with 1 show ?thesis by (rule R_trans)
qed

lemma run_loop_R: "run_loop n df p l s = (r, s') \<Longrightarrow> R (snd s) (snd s')"
proof (induction n arbitrary: l s)
  case 0
  then show ?case by (auto simp: R_refl)
next
  case (Suc n)
  obtain r1 s1 where it: "run_iteration df p l s = (r1, s1)" by (cases "run_iteration df p l s")
  from run_iteration_R [OF it] have 1: "R (snd s) (snd s1)" .
  have "(\<exists>l1. run_loop n df p l1 s1 = (r, s')) \<or> s' = s1" using Suc.prems it by (cases r1) auto
  with Suc.IH 1 show ?case by (metis R_trans)
qed

lemma run_collector_R: "run_collector n df p c w = (r, s') \<Longrightarrow> R w (snd s')"
  using run_loop_R [of n df loop_start "(context_new c, w)"] by (simp add: run_collector_def)

end

section \<open>Queues that can be emptied\<close>

text \<open>\<open>inv\<close> holds of the worlds reached; \<open>left\<close> counts the claims that the queue still allows. A claim uses
  one up, and no other call of the delivery adds any.\<close>

locale bounded_queue =
  fixes p :: "'w ports" and inv :: "'w \<Rightarrow> bool" and left :: "'w \<Rightarrow> nat"
  assumes claim_some: "inv w \<Longrightarrow> st_spool_claim_next p ttl now w = (Inr (Some claim), w') \<Longrightarrow> inv w' \<and> left w' < left w"
    and complete_left: "inv w \<Longrightarrow> st_spool_complete p claim w = (r1, w') \<Longrightarrow> inv w' \<and> left w' \<le> left w"
    and drop_left: "inv w \<Longrightarrow> st_spool_drop p claim w = (r1, w') \<Longrightarrow> inv w' \<and> left w' \<le> left w"
    and retry_left: "inv w \<Longrightarrow> st_spool_retry p claim now w = (r2, w') \<Longrightarrow> inv w' \<and> left w' \<le> left w"
    and deliver_left: "inv w \<Longrightarrow> deliver p payload w = (r3, w') \<Longrightarrow> inv w' \<and> left w' \<le> left w"
    and clock_left: "inv w \<Longrightarrow> clock_now p w = (now, w') \<Longrightarrow> inv w' \<and> left w' \<le> left w"
begin

definition kept :: "'w \<Rightarrow> 'w \<Rightarrow> bool" where
  "kept w w' \<longleftrightarrow> inv w' \<and> left w' \<le> left w"

lemma kept_trans: "kept w w1 \<Longrightarrow> kept w1 w2 \<Longrightarrow> kept w w2"
  by (simp add: kept_def)

lemma drop_claim_kept: "inv (snd s) \<Longrightarrow> drop_claim p claim s = (st, s') \<Longrightarrow> kept (snd s) (snd s')"
  by (auto simp: drop_claim_def kept_def split: prod.splits sum.splits dest: drop_left)

lemma deliver_claim_kept:
  assumes "inv (snd s)" "deliver_claim p claim s = (st, s')"
  shows "kept (snd s) (snd s')"
proof -
  obtain result w1 where d: "deliver p (cb_payload claim) (snd s) = (result, w1)"
    by (cases "deliver p (cb_payload claim) (snd s)")
  from deliver_left [OF assms(1) d] have 1: "kept (snd s) w1" "inv w1" by (simp_all add: kept_def)
  have "kept w1 (snd s')"
  proof (cases result)
    case (Inr u)
    with assms(2) d 1(2) show ?thesis
      by (auto simp: deliver_claim_def Let_def kept_def split: prod.splits sum.splits dest: complete_left)
  next
    case (Inl e)
    let ?c = "with_health (record_delivery False) (on_progress Delivering (on_progress Delivering (fst s)))"
    consider "drop_claim p claim (?c, w1) = (st, s')" | now w2 x w3 where
        "clock_now p w1 = (now, w2)" "st_spool_retry p claim now w2 = (x, w3)" "snd s' = w3"
      using assms(2) d Inl
      by (auto simp: deliver_claim_def Let_def split: prod.splits sum.splits if_splits port_retry_outcome.splits)
    then show ?thesis
    proof cases
      case 1
      from drop_claim_kept [OF _ this] \<open>inv w1\<close> show ?thesis by simp
    next
      case 2
      from clock_left [OF 1(2) 2(1)] have "inv w2" "left w2 \<le> left w1" by simp_all
      with retry_left [OF _ 2(2)] 2(3) show ?thesis by (fastforce simp: kept_def)
    qed
  qed
  with 1(1) show ?thesis by (rule kept_trans)
qed

theorem drain_ends:
  "inv (snd s) \<Longrightarrow> left (snd s) < fuel \<Longrightarrow> \<exists>r s'. drain_loop fuel p n s = (Some r, s')"
proof (induction fuel arbitrary: n s)
  case 0
  then show ?case by simp
next
  case (Suc fuel)
  obtain now w1 where c: "clock_now p (snd s) = (now, w1)" by (cases "clock_now p (snd s)")
  let ?c1 = "on_progress Delivering (fst s)"
  obtain x w2 where cl: "st_spool_claim_next p (sc_spool_claim_ttl (cx_config ?c1)) now w1 = (x, w2)"
    by (cases "st_spool_claim_next p (sc_spool_claim_ttl (cx_config ?c1)) now w1")
  from clock_left [OF Suc.prems(1) c] have 1: "inv w1" "left w1 \<le> left (snd s)" by simp_all
  show ?case
  proof (cases "\<exists>claim. x = Inr (Some claim)")
    case True
    then obtain claim where x: "x = Inr (Some claim)" by blast
    from claim_some [OF 1(1) cl [unfolded x]] have 2: "inv w2" "left w2 < left w1" by simp_all
    obtain st s3 where dc: "deliver_claim p claim (?c1, w2) = (st, s3)" by (cases "deliver_claim p claim (?c1, w2)")
    from deliver_claim_kept [OF _ dc] 2 have 3: "inv (snd s3)" "left (snd s3) \<le> left w2" by (simp_all add: kept_def)
    from Suc.IH [OF 3(1)] 3(2) 2(2) 1(2) Suc.prems(2) have "\<exists>r s'. drain_loop fuel p m s3 = (Some r, s')" for m by simp
    then show ?thesis by (cases st) (simp_all add: c cl x dc Let_def)
  next
    case False
    then show ?thesis by (auto simp: c cl Let_def split: sum.splits option.splits)
  qed
qed

text \<open>An iteration with that many passes is not stuck, if the device has a name.\<close>

lemma iteration_returns:
  assumes "inv (snd s)" "left (snd s) < df" "config_device (cx_config (fst s)) \<noteq> None"
  shows "fst (run_iteration df p l s) \<noteq> RunStuck"
proof -
  let ?progress = "\<lambda>c. on_progress (sm_current (cx_state c)) c"
  from drain_ends [of "(?progress (fst s), snd s)" df 0] assms obtain d s1
    where dr: "drain_spool df p (?progress (fst s), snd s) = (Some d, s1)" by (auto simp: drain_spool_def)
  have dev1: "config_device (cx_config (fst s1)) \<noteq> None"
    using drain_spool_frame [of "(?progress (fst s), snd s)" df p] assms(3) unfolding dr
    by (simp add: same_cycle_def same_setup_def on_progress_def)
  have attempt: "fst (attempt_cycle p l s2) \<noteq> RunStuck" if "config_device (cx_config (fst s2)) \<noteq> None" for s2
  proof -
    have "cx_config (fst (snd (wait_step p l s2))) = cx_config (fst s2)"
      by (auto simp: wait_step_def Let_def split: if_splits prod.splits)
    with that show ?thesis
      by (auto simp: attempt_cycle_def run_cycle_def stop_run_def cycle_done_def Let_def
          split: prod.splits bool.splits option.splits cycle_outcome.splits sum.splits cycle_step.splits)
  qed
  have goto: "cx_config (fst s3) = cx_config (fst s2)" if "goto_run Idle s2 = (x, s3)" for s2 x s3
    using that by (auto simp: goto_run_def goto_def split: prod.splits sum.splits)
  have stop: "fst (stop_run p l s2) \<noteq> RunStuck" for s2
    by (auto simp: stop_run_def split: prod.splits sum.splits)
  let ?s2 = "(?progress (fst s1), snd s1)"
  have dev2: "config_device (cx_config (fst ?s2)) \<noteq> None" using dev1 by (simp add: on_progress_def)
  obtain x s3 where g: "goto_run Idle ?s2 = (x, s3)" by (cases "goto_run Idle ?s2")
  from goto [OF g] dev2 have dev3: "config_device (cx_config (fst s3)) \<noteq> None" by simp
  have "run_iteration df p l s =
      (if shutdown_requested p (snd ?s2) then stop_run p l ?s2
       else if sm_current (cx_state (fst ?s2)) \<noteq> Idle then
         (case (x, s3) of (Inl e, s3) \<Rightarrow> (RunReturned (Inl e), s3) | (Inr _, s3) \<Rightarrow> attempt_cycle p l s3)
       else attempt_cycle p l ?s2)"
    unfolding run_iteration_def Let_def dr g [symmetric] by simp
  then show ?thesis using stop [of ?s2] attempt [OF dev2] attempt [OF dev3] by (cases x) auto
qed

end

end
