(* ===== verification/Service_Durable.thy ===== *)
theory Service_Durable
  imports Service_Steps
begin

text \<open>
  What a storage has to promise for the cycle to be durable, as a locale: a commit that is acknowledged,
  and a last success that is at or after a time, both mean that the time is recorded, and what is
  recorded stays so. Then a cycle that reports success, and one that a shutdown interrupts after its
  commit, has its sample recorded.
\<close>

lemma act_bind_InrE:
  assumes "act_bind m f s = (Inr y, s')"
  obtains x s1 where "m s = (Inr x, s1)" "f x s1 = (Inr y, s')"
  using assms by (auto simp: act_bind_def split: prod.splits sum.splits)

lemma act_then_InrE:
  assumes "act_then m k s = (Inr y, s')"
  obtains s1 where "m s = (Inr (), s1)" "k s1 = (Inr y, s')"
  using assms by (auto simp: act_then_def elim: act_bind_InrE)

lemma port_step_Inr: "port_step ph h call s = (Inr x, s') \<longleftrightarrow> (\<exists>w. call (snd s) = (Inr x, w) \<and> s' = (fst s, w))"
  by (cases "call (snd s)"; cases "fst (call (snd s))") (auto simp: port_step_def act_port_def)

lemma pure_step_Inr: "pure_step ph h r s = (Inr x, s') \<longleftrightarrow> r = Inr x \<and> s' = s"
  by (cases r) (auto simp: pure_step_def act_result_def)

locale durable_storage = port_steps p R
  for p :: "'w ports" and R :: "'w \<Rightarrow> 'w \<Rightarrow> bool" +
  fixes device :: device_id and recorded :: "system_time \<Rightarrow> 'w \<Rightarrow> bool"
  assumes recorded_stays: "R w w' \<Longrightarrow> recorded t w \<Longrightarrow> recorded t w'"
    and recorded_commit: "st_commit_acquisition p c w = (Inr out, w') \<Longrightarrow> pc_device c = device \<Longrightarrow>
      recorded (pc_observed_at c) w'"
    and recorded_last: "st_last_success p w = (Inr (Some ls), w') \<Longrightarrow> t \<le> ls \<Longrightarrow> recorded t w'"
begin

lemma commit_recorded:
  assumes "commit_sample p dev sample prev energy s = (Inr dup, s')" "di_device dev = device"
  shows "recorded (s_observed_at sample) (snd s')"
proof -
  from assms(1) obtain payload s1 out s2 where
    c: "port_step Persisting CePersist (st_commit_acquisition p
         \<lparr>pc_device = di_device dev, pc_observed_at = s_observed_at sample, pc_expected_energy = prev,
          pc_next_energy = eo_next_state energy, pc_payload = payload\<rparr>) s1 = (Inr out, s2)"
    and k: "(case out of
         PortCommitted \<Rightarrow> act_then (act_update (\<lambda>c. case eo_skipped_gap energy of
                       Some gap \<Rightarrow> with_health (record_energy_gap gap) c | None \<Rightarrow> c)) (act_return False)
       | PortAlreadyCommitted \<Rightarrow> act_return True) s2 = (Inr dup :: cycle_phase \<times> cycle_error + bool, s')"
    unfolding commit_sample_def by (elim act_bind_InrE) blast
  from k have "snd s' = snd s2"
    by (cases out) (auto simp: act_then_def act_bind_def act_update_def act_return_def)
  with c recorded_commit assms(2) show ?thesis by (fastforce simp: port_step_Inr)
qed

lemma persist_recorded:
  assumes "persist_sample p dev sample s = (Inr x, s')" "di_device dev = device"
  shows "recorded (s_observed_at sample) (snd s')"
proof (cases "s_observed_at sample \<le> 0")
  case True
  with assms(1) show ?thesis by (auto simp: persist_sample_def act_fail_def elim!: act_then_InrE)
next
  case False
  with assms(1) obtain prev energy s2 last_success s3 where
    l: "port_step Persisting CePersist (st_last_success p) s2 = (Inr last_success, s3)"
    and b: "(if (case last_success of None \<Rightarrow> False | Some ls \<Rightarrow> s_observed_at sample \<le> ls)
           then act_return (energy, True)
           else act_bind (commit_sample p dev sample prev energy) (\<lambda>duplicate. act_return (energy, duplicate))) s3 = (Inr x, s')"
    unfolding persist_sample_def if_not_P [OF False] by (elim act_then_InrE act_bind_InrE) blast
  show ?thesis
  proof (cases "case last_success of None \<Rightarrow> False | Some ls \<Rightarrow> s_observed_at sample \<le> ls")
    case True
    then obtain ls where "last_success = Some ls" "s_observed_at sample \<le> ls" by (cases last_success) auto
    with l b True recorded_last show ?thesis by (fastforce simp: port_step_Inr act_return_def)
  next
    case False
    with b have "act_bind (commit_sample p dev sample prev energy) (\<lambda>duplicate. act_return (energy, duplicate)) s3 = (Inr x, s')"
      by simp
    then obtain dup s4 where "commit_sample p dev sample prev energy s3 = (Inr dup, s4)" "snd s' = snd s4"
      by (elim act_bind_InrE) (simp add: act_return_def)
    with commit_recorded assms(2) show ?thesis by metis
  qed
qed

fun outcome_sample :: "cycle_outcome \<Rightarrow> sample option" where
  "outcome_sample (CycleSuccess r) = Some (cr_sample r)"
| "outcome_sample (CycleShutdown ph sample) = Some sample"
| "outcome_sample (CycleFailure ph e) = None"

lemma states_recorded:
  assumes "cycle_states p dev s = (Inr st, s')" "di_device dev = device"
  shows "\<exists>sample. recorded (s_observed_at sample) (snd s')
    \<and> (case st of StepDone r \<Rightarrow> cr_sample r = sample | StepShutdown ph x \<Rightarrow> x = sample)"
proof -
  from assms(1) obtain c sample s1 x s2 stop s3 where
    p: "persist_sample p dev sample s1 = (Inr x, s2)" and sd: "act_shutdown p s2 = (Inr stop :: cycle_phase \<times> cycle_error + bool, s3)"
    and k: "(if stop then act_return (StepShutdown Delivering sample)
       else deliver_and_close p c dev sample (fst x) (snd x)) s3 = (Inr st, s')"
    unfolding cycle_states_def by (elim act_bind_InrE, simp only: split_beta, elim act_bind_InrE, blast)
  have 1: "recorded (s_observed_at sample) (snd s3)"
    using persist_recorded [OF p assms(2)] sd by (auto simp: act_shutdown_def)
  show ?thesis
  proof (cases stop)
    case True
    with k 1 show ?thesis by (auto simp: act_return_def)
  next
    case False
    then have d: "deliver_and_close p c dev sample (fst x) (snd x) s3 = (Inr st, s')" using k by simp
    have "stays (deliver_and_close p c dev sample (fst x) (snd x))"
      unfolding deliver_and_close_def by (rule stays_rules stays_deliver | erule R_ports)+
    from staysD [OF this d] 1 have "recorded (s_observed_at sample) (snd s')" by (rule recorded_stays)
    moreover have "\<exists>r. st = StepDone r \<and> cr_sample r = sample"
      using d unfolding deliver_and_close_def
      by (elim act_bind_InrE act_then_InrE) (auto simp: act_return_def)
    ultimately show ?thesis by auto
  qed
qed

lemma cycle_recorded:
  assumes "run_cycle p s = (Some out, s')" "outcome_sample out = Some sample"
    and "\<exists>dev. config_device (cx_config (fst s)) = Some dev \<and> di_device dev = device"
  shows "recorded (s_observed_at sample) (snd s')"
proof -
  from assms(3) obtain dev where dev: "config_device (cx_config (fst s)) = Some dev" "di_device dev = device" by blast
  obtain r s1 where r: "cycle_states p dev s = (r, s1)" by (cases "cycle_states p dev s")
  show ?thesis
  proof (cases r)
    case (Inl e)
    with assms(1,2) dev r show ?thesis
      by (auto simp: run_cycle_def split: prod.splits sum.splits)
  next
    case (Inr st)
    from states_recorded [OF r [unfolded Inr] dev(2)] obtain x where x: "recorded (s_observed_at x) (snd s1)"
      "case st of StepDone r \<Rightarrow> cr_sample r = x | StepShutdown ph y \<Rightarrow> y = x" by blast
    show ?thesis
    proof (cases st)
      case (StepDone res)
      with x assms(1,2) dev r Inr show ?thesis by (auto simp: run_cycle_def)
    next
      case (StepShutdown ph y)
      obtain t s2 where t: "teardown_to_shutdown p s1 = (t, s2)" by (cases "teardown_to_shutdown p s1")
      from staysD [OF stays_teardown(2) t] x(1) have "recorded (s_observed_at x) (snd s2)" by (rule recorded_stays)
      with x(2) assms(1,2) dev r Inr StepShutdown t show ?thesis
        by (auto simp: run_cycle_def finish_gracefully_def split: sum.splits)
    qed
  qed
qed

end

end
