(* ===== verification/Metric_Model.thy ===== *)
theory Metric_Model
  imports Domain "HOL-Library.List_Lexorder" "HOL-Library.Product_Lexorder" "HOL-Library.Char_ord"
begin

text \<open>
  \<open>victron-metrics\<close>: \<open>names.rs\<close>, \<open>error.rs\<close> and \<open>metric.rs\<close>. Metric names, label pairs and points with their
  validation, and the batch builder. Text is UTF-8 bytes; the checks of the source on characters only
  accept ASCII, and on bytes they are the same. A builder method returns its result and the builder.
\<close>

section \<open>The names of the contract\<close>

definition PV_VOLTAGE_VOLTS :: string where "PV_VOLTAGE_VOLTS = ''victron_pv_voltage_volts''"
definition PV_CURRENT_AMPERES :: string where "PV_CURRENT_AMPERES = ''victron_pv_current_amperes''"
definition PV_POWER_WATTS :: string where "PV_POWER_WATTS = ''victron_pv_power_watts''"
definition BATTERY_VOLTAGE_VOLTS :: string where "BATTERY_VOLTAGE_VOLTS = ''victron_battery_voltage_volts''"
definition BATTERY_CURRENT_AMPERES :: string where
  "BATTERY_CURRENT_AMPERES = ''victron_battery_current_amperes''"
definition LOAD_POWER_WATTS :: string where "LOAD_POWER_WATTS = ''victron_load_power_watts''"
definition LOAD_CURRENT_AMPERES :: string where "LOAD_CURRENT_AMPERES = ''victron_load_current_amperes''"
definition YIELD_TOTAL :: string where "YIELD_TOTAL = ''victron_yield_total_kwh''"
definition YIELD_TODAY :: string where "YIELD_TODAY = ''victron_yield_today_kwh''"
definition CHARGER_STATE :: string where "CHARGER_STATE = ''victron_charger_state''"
definition BLE_UP :: string where "BLE_UP = ''victron_ble_up''"
definition BLE_RSSI :: string where "BLE_RSSI = ''victron_ble_rssi_dbm''"
definition LAST_SUCCESS_UNIXTIME :: string where "LAST_SUCCESS_UNIXTIME = ''victron_last_success_unixtime''"
definition SAMPLE_AGE_SECONDS :: string where "SAMPLE_AGE_SECONDS = ''victron_sample_age_seconds''"
definition BLE_CONNECT_FAILURES_TOTAL :: string where
  "BLE_CONNECT_FAILURES_TOTAL = ''victron_ble_connect_failures_total''"
definition PROTOCOL_ERRORS_TOTAL :: string where "PROTOCOL_ERRORS_TOTAL = ''victron_protocol_errors_total''"
definition SAMPLES_DROPPED_TOTAL :: string where "SAMPLES_DROPPED_TOTAL = ''victron_samples_dropped_total''"
definition ENERGY_INTEGRATION_GAP_SECONDS_TOTAL :: string where
  "ENERGY_INTEGRATION_GAP_SECONDS_TOTAL = ''victron_energy_integration_gap_seconds_total''"
definition SPOOL_BATCHES :: string where "SPOOL_BATCHES = ''victron_spool_batches''"
definition SPOOL_OLDEST_AGE_SECONDS :: string where
  "SPOOL_OLDEST_AGE_SECONDS = ''victron_spool_oldest_age_seconds''"
definition DEVICE_LABEL :: string where "DEVICE_LABEL = ''device''"
definition STATE_LABEL :: string where "STATE_LABEL = ''state''"

lemmas metric_names = PV_VOLTAGE_VOLTS_def PV_CURRENT_AMPERES_def PV_POWER_WATTS_def BATTERY_VOLTAGE_VOLTS_def
  BATTERY_CURRENT_AMPERES_def LOAD_POWER_WATTS_def LOAD_CURRENT_AMPERES_def YIELD_TOTAL_def YIELD_TODAY_def
  CHARGER_STATE_def BLE_UP_def BLE_RSSI_def LAST_SUCCESS_UNIXTIME_def SAMPLE_AGE_SECONDS_def
  BLE_CONNECT_FAILURES_TOTAL_def PROTOCOL_ERRORS_TOTAL_def SAMPLES_DROPPED_TOTAL_def
  ENERGY_INTEGRATION_GAP_SECONDS_TOTAL_def SPOOL_BATCHES_def SPOOL_OLDEST_AGE_SECONDS_def

section \<open>Errors\<close>

datatype metric_error =
    MeEmptyName | MeNameTooLong nat | MeInvalidName string | MeReservedName string
  | MeCounterNameMissingSuffix string | MeEmptyLabelName | MeLabelNameTooLong nat | MeInvalidLabelName string
  | MeReservedLabelName string | MeEmptyLabelValue | MeLabelValueTooLong nat | MeInvalidLabelValue string
  | MeInvalidStateLabel string | MeTooManyLabels nat | MeDuplicateLabel string | MeNonFiniteValue
  | MeInvalidTimestamp int | MeTimestampNotSet | MeTimestampError string

definition MAX_LABELS_PER_SERIES :: nat where
  "MAX_LABELS_PER_SERIES = 8"

text \<open>\<open>Display\<close>; \<open>dbg\<close> is the library's \<open>Debug\<close> text of a string.\<close>

fun metric_error_fmt :: "(string \<Rightarrow> string) \<Rightarrow> metric_error \<Rightarrow> string" where
  "metric_error_fmt dbg MeEmptyName = ''metric name is empty''"
| "metric_error_fmt dbg (MeNameTooLong n) = ''metric name exceeds 128 bytes (got '' @ nat_to_dec n @ '')''"
| "metric_error_fmt dbg (MeInvalidName s) = ''invalid metric name '' @ dbg s"
| "metric_error_fmt dbg (MeReservedName s) = ''metric name '' @ dbg s @ '' uses reserved __ prefix''"
| "metric_error_fmt dbg (MeCounterNameMissingSuffix s) = ''counter '' @ dbg s @ '' must end in _total''"
| "metric_error_fmt dbg MeEmptyLabelName = ''label name is empty''"
| "metric_error_fmt dbg (MeLabelNameTooLong n) = ''label name exceeds 64 bytes (got '' @ nat_to_dec n @ '')''"
| "metric_error_fmt dbg (MeInvalidLabelName s) = ''invalid label name '' @ dbg s"
| "metric_error_fmt dbg (MeReservedLabelName s) = ''label name '' @ dbg s @ '' uses reserved __ prefix''"
| "metric_error_fmt dbg (MeLabelValueTooLong n) = ''label value exceeds 128 bytes (got '' @ nat_to_dec n @ '')''"
| "metric_error_fmt dbg MeEmptyLabelValue = ''label value is empty''"
| "metric_error_fmt dbg (MeInvalidLabelValue s) = ''label value contains a control byte: '' @ dbg s"
| "metric_error_fmt dbg (MeInvalidStateLabel s) =
     ''state label value '' @ dbg s @ '' violates bounded [a-z0-9_] rule (max 32 bytes)''"
| "metric_error_fmt dbg (MeTooManyLabels n) =
     ''more than '' @ nat_to_dec MAX_LABELS_PER_SERIES @ '' labels on one series (got '' @ nat_to_dec n @ '')''"
| "metric_error_fmt dbg (MeDuplicateLabel s) = ''duplicate label '' @ dbg s @ '' on one series''"
| "metric_error_fmt dbg MeNonFiniteValue = ''metric value must be finite (NaN and infinities are never encoded)''"
| "metric_error_fmt dbg (MeInvalidTimestamp t) =
     ''timestamp must be strictly positive Unix milliseconds (got '' @ int_to_dec t @ '')''"
| "metric_error_fmt dbg MeTimestampNotSet =
     ''batch timestamp not set: call with_timestamp_ms or now before adding points''"
| "metric_error_fmt dbg (MeTimestampError s) = ''timestamp conversion failed: '' @ s"

section \<open>Validation\<close>

definition is_ascii_alphabetic :: "char \<Rightarrow> bool" where
  "is_ascii_alphabetic c = (let n = (of_char c :: nat) in 65 \<le> n \<and> n \<le> 90 \<or> 97 \<le> n \<and> n \<le> 122)"

definition starts_with :: "string \<Rightarrow> string \<Rightarrow> bool" where
  "starts_with p s = (take (length p) s = p)"

definition ends_with :: "string \<Rightarrow> string \<Rightarrow> bool" where
  "ends_with p s = (length p \<le> length s \<and> drop (length s - length p) s = p)"

definition validate_metric_name :: "string \<Rightarrow> metric_error + unit" where
  "validate_metric_name name =
     (case name of
        [] \<Rightarrow> Inl MeEmptyName
      | first # chars \<Rightarrow>
          if length name > 128 then Inl (MeNameTooLong (length name))
          else if \<not> (is_ascii_alphabetic first \<or> first = CHR ''_'' \<or> first = CHR '':'') then Inl (MeInvalidName name)
          else if \<not> list_all (\<lambda>c. is_ascii_alphanumeric c \<or> c = CHR ''_'' \<or> c = CHR '':'') chars
          then Inl (MeInvalidName name)
          else if starts_with ''__'' name then Inl (MeReservedName name)
          else Inr ())"

definition validate_label_name :: "string \<Rightarrow> metric_error + unit" where
  "validate_label_name name =
     (case name of
        [] \<Rightarrow> Inl MeEmptyLabelName
      | first # chars \<Rightarrow>
          if length name > 64 then Inl (MeLabelNameTooLong (length name))
          else if \<not> (is_ascii_alphabetic first \<or> first = CHR ''_'') then Inl (MeInvalidLabelName name)
          else if \<not> list_all (\<lambda>c. is_ascii_alphanumeric c \<or> c = CHR ''_'') chars then Inl (MeInvalidLabelName name)
          else if starts_with ''__'' name then Inl (MeReservedLabelName name)
          else Inr ())"

definition control_byte :: "char \<Rightarrow> bool" where
  "control_byte b = (let n = (of_char b :: nat) in n < 32 \<and> n \<noteq> 10 \<or> n = 127)"

definition validate_label_value :: "string \<Rightarrow> metric_error + unit" where
  "validate_label_value value =
     (if length value > 128 then Inl (MeLabelValueTooLong (length value))
      else if list_ex control_byte value then Inl (MeInvalidLabelValue value)
      else Inr ())"

fun check_labels :: "(string \<times> string) list \<Rightarrow> string list \<Rightarrow> metric_error + unit" where
  "check_labels [] seen = Inr ()"
| "check_labels ((k, v) # labels) seen =
     try_bind (validate_label_name k) (\<lambda>_.
     try_bind (validate_label_value v) (\<lambda>_.
       if k \<in> set seen then Inl (MeDuplicateLabel k) else check_labels labels (seen @ [k])))"

definition validate_labels :: "(string \<times> string) list \<Rightarrow> metric_error + (string \<times> string) list" where
  "validate_labels labels =
     (if length labels > MAX_LABELS_PER_SERIES then Inl (MeTooManyLabels (length labels))
      else try_bind (check_labels labels []) (\<lambda>_. Inr (sort_key fst labels)))"

section \<open>Points\<close>

datatype metric_kind = Gauge | Counter

definition is_counter :: "metric_kind \<Rightarrow> bool" where
  "is_counter k = (k = Counter)"

record metric_point =
  mp_name :: string
  mp_labels :: "(string \<times> string) list"
  mp_value :: f64
  mp_timestamp_ms :: int
  mp_kind :: metric_kind

definition metric_name_new :: "string \<Rightarrow> metric_error + string" where
  "metric_name_new name = try_bind (validate_metric_name name) (\<lambda>_. Inr name)"

definition point_new ::
  "string \<Rightarrow> (string \<times> string) list \<Rightarrow> f64 \<Rightarrow> int \<Rightarrow> metric_kind \<Rightarrow> metric_error + metric_point" where
  "point_new name labels value timestamp_ms kind =
     (if \<not> f64_is_finite value then Inl MeNonFiniteValue
      else if timestamp_ms \<le> 0 then Inl (MeInvalidTimestamp timestamp_ms)
      else
        try_bind (metric_name_new name) (\<lambda>name.
          if kind = Counter \<and> \<not> ends_with ''_total'' name then Inl (MeCounterNameMissingSuffix name)
          else
            try_bind (validate_labels labels) (\<lambda>labels.
              Inr \<lparr>mp_name = name, mp_labels = labels, mp_value = value, mp_timestamp_ms = timestamp_ms,
                   mp_kind = kind\<rparr>)))"

definition point_gauge :: "string \<Rightarrow> (string \<times> string) list \<Rightarrow> f64 \<Rightarrow> int \<Rightarrow> metric_error + metric_point" where
  "point_gauge name labels value timestamp_ms = point_new name labels value timestamp_ms Gauge"

definition point_counter :: "string \<Rightarrow> (string \<times> string) list \<Rightarrow> f64 \<Rightarrow> int \<Rightarrow> metric_error + metric_point" where
  "point_counter name labels value timestamp_ms = point_new name labels value timestamp_ms Counter"

section \<open>The batch builder\<close>

record batch_builder =
  mb_device :: string
  mb_timestamp_ms :: "int option"
  mb_points :: "metric_point list"

definition mb_new :: "string \<Rightarrow> metric_error + batch_builder" where
  "mb_new device =
     (if device = [] then Inl MeEmptyLabelValue
      else try_bind (validate_label_value device) (\<lambda>_.
             Inr \<lparr>mb_device = device, mb_timestamp_ms = None, mb_points = []\<rparr>))"

definition with_timestamp_ms :: "int \<Rightarrow> batch_builder \<Rightarrow> metric_error + batch_builder" where
  "with_timestamp_ms timestamp_ms b =
     (if timestamp_ms \<le> 0 then Inl (MeInvalidTimestamp timestamp_ms)
      else Inr (b\<lparr>mb_timestamp_ms := Some timestamp_ms\<rparr>))"

text \<open>\<open>as_millis() as i64\<close> keeps the low 64 bits.\<close>

definition system_time_to_ms :: "system_time \<Rightarrow> metric_error + int" where
  "system_time_to_ms t =
     (if t < 0 then Inl (MeTimestampError ''second time provided was later than self'')
      else Inr (wrap_i64 (t div 1000000)))"

text \<open>\<open>now\<close> stores the time of the clock without the check of \<open>with_timestamp_ms\<close>.\<close>

definition mb_now :: "system_time \<Rightarrow> batch_builder \<Rightarrow> metric_error + batch_builder" where
  "mb_now now b = try_bind (system_time_to_ms now) (\<lambda>ms. Inr (b\<lparr>mb_timestamp_ms := Some ms\<rparr>))"

definition push_point :: "metric_point \<Rightarrow> batch_builder \<Rightarrow> batch_builder" where
  "push_point p b = b\<lparr>mb_points := mb_points b @ [p]\<rparr>"

definition mb_clear :: "batch_builder \<Rightarrow> batch_builder" where
  "mb_clear b = b\<lparr>mb_points := []\<rparr>"

definition mb_is_empty :: "batch_builder \<Rightarrow> bool" where
  "mb_is_empty b = (mb_points b = [])"

definition mb_add ::
  "string \<Rightarrow> (string \<times> string) list \<Rightarrow> f64 \<Rightarrow> metric_kind \<Rightarrow> batch_builder \<Rightarrow> (metric_error + bool) \<times> batch_builder" where
  "mb_add name extra value kind b =
     (if \<not> f64_is_finite value then (Inr False, b)
      else
        case mb_timestamp_ms b of
          None \<Rightarrow> (Inl MeTimestampNotSet, b)
        | Some timestamp_ms \<Rightarrow>
            (case point_new name ((DEVICE_LABEL, mb_device b) # extra) value timestamp_ms kind of
               Inl e \<Rightarrow> (Inl e, b)
             | Inr p \<Rightarrow> (Inr True, push_point p b)))"

definition mb_gauge :: "string \<Rightarrow> f64 \<Rightarrow> batch_builder \<Rightarrow> (metric_error + bool) \<times> batch_builder" where
  "mb_gauge name value = mb_add name [] value Gauge"

definition mb_gauge_with ::
  "string \<Rightarrow> (string \<times> string) list \<Rightarrow> f64 \<Rightarrow> batch_builder \<Rightarrow> (metric_error + bool) \<times> batch_builder" where
  "mb_gauge_with name labels value = mb_add name labels value Gauge"

definition mb_counter :: "string \<Rightarrow> f64 \<Rightarrow> batch_builder \<Rightarrow> (metric_error + bool) \<times> batch_builder" where
  "mb_counter name value = mb_add name [] value Counter"

definition mb_counter_with ::
  "string \<Rightarrow> (string \<times> string) list \<Rightarrow> f64 \<Rightarrow> batch_builder \<Rightarrow> (metric_error + bool) \<times> batch_builder" where
  "mb_counter_with name labels value = mb_add name labels value Counter"

definition is_valid_state_value :: "string \<Rightarrow> bool" where
  "is_valid_state_value state =
     (state \<noteq> [] \<and> length state \<le> 32
      \<and> list_all (\<lambda>b. let n = (of_char b :: nat) in 97 \<le> n \<and> n \<le> 122 \<or> 48 \<le> n \<and> n \<le> 57 \<or> b = CHR ''_'') state)"

definition mb_state :: "string \<Rightarrow> string \<Rightarrow> batch_builder \<Rightarrow> (metric_error + bool) \<times> batch_builder" where
  "mb_state name state b =
     (if \<not> is_valid_state_value state then (Inl (MeInvalidStateLabel state), b)
      else mb_add name [(STATE_LABEL, state)] (F64_Fin 1) Gauge b)"

section \<open>Valid points\<close>

text \<open>What the constructor promises: a valid name, sorted valid labels without duplicates, a finite
  value and a positive time.\<close>

definition point_ok :: "metric_point \<Rightarrow> bool" where
  "point_ok p \<longleftrightarrow>
     validate_metric_name (mp_name p) = Inr ()
     \<and> (\<forall>(k, v) \<in> set (mp_labels p). validate_label_name k = Inr () \<and> validate_label_value v = Inr ())
     \<and> sorted (map fst (mp_labels p)) \<and> distinct (map fst (mp_labels p))
     \<and> length (mp_labels p) \<le> MAX_LABELS_PER_SERIES
     \<and> f64_is_finite (mp_value p) \<and> 0 < mp_timestamp_ms p
     \<and> (mp_kind p = Counter \<longrightarrow> ends_with ''_total'' (mp_name p))"

lemma check_labels_iff:
  "check_labels labels seen = Inr () \<longleftrightarrow>
     (\<forall>(k, v) \<in> set labels. validate_label_name k = Inr () \<and> validate_label_value v = Inr ())
     \<and> distinct (map fst labels) \<and> set (map fst labels) \<inter> set seen = {}"
proof (induction labels arbitrary: seen)
  case Nil
  then show ?case by simp
next
  case (Cons l labels)
  obtain k v where l: "l = (k, v)" by (cases l)
  show ?case by (auto simp: l Cons.IH try_bind_Inr_iff)
qed

lemma point_new_ok: "point_new name labels value ts kind = Inr p \<Longrightarrow> point_ok p"
  by (auto simp: point_new_def metric_name_new_def validate_labels_def point_ok_def try_bind_Inr_iff
      check_labels_iff distinct_map distinct_sort split: if_splits)

end
