(* ===== verification/Http_Text.thy ===== *)
theory Http_Text
  imports Metric_Model
begin

text \<open>
  The operations of the Rust library on text that the HTTP client uses: searching and splitting, unsigned
  numbers, ASCII case, lossy UTF-8. Text is UTF-8 bytes.
\<close>

section \<open>Searching and splitting\<close>

fun find_at :: "string \<Rightarrow> string \<Rightarrow> nat option" where
  "find_at p [] = (if p = [] then Some 0 else None)"
| "find_at p (c # cs) =
     (if take (length p) (c # cs) = p then Some 0 else map_option Suc (find_at p cs))"

definition contains :: "string \<Rightarrow> string \<Rightarrow> bool" where
  "contains p s = (find_at p s \<noteq> None)"

definition split_once :: "string \<Rightarrow> string \<Rightarrow> (string \<times> string) option" where
  "split_once sep s = map_option (\<lambda>i. (take i s, drop (i + length sep) s)) (find_at sep s)"

lemma find_at_iff:
  "find_at p s = Some i \<longleftrightarrow>
     i \<le> length s \<and> take (length p) (drop i s) = p \<and> (\<forall>j < i. take (length p) (drop j s) \<noteq> p)"
proof (induction s arbitrary: i)
  case Nil
  then show ?case by auto
next
  case (Cons c cs)
  show ?case
  proof (cases i)
    case 0
    then show ?thesis by auto
  next
    case (Suc k)
    have "(\<forall>j < Suc k. take (length p) (drop j (c # cs)) \<noteq> p) \<longleftrightarrow>
        take (length p) (c # cs) \<noteq> p \<and> (\<forall>j < k. take (length p) (drop j cs) \<noteq> p)"
      by (auto simp: All_less_Suc2)
    then show ?thesis using Cons.IH [of k] by (auto simp: Suc)
  qed
qed

lemma find_at_bound: "find_at p s = Some i \<Longrightarrow> i + length p \<le> length s"
proof -
  assume "find_at p s = Some i"
  then have i: "i \<le> length s" "take (length p) (drop i s) = p" by (simp_all add: find_at_iff)
  from i(2) have "length p = min (length p) (length s - i)" by (metis length_drop length_take min.commute)
  with i(1) show ?thesis by simp
qed

lemma find_at_Some: "find_at p s = Some i \<Longrightarrow> s = take i s @ p @ drop (i + length p) s"
  unfolding find_at_iff by (metis add.commute append_take_drop_id drop_drop)

text \<open>The first occurrence in a text and in a longer one.\<close>

lemma find_at_prefix: "find_at p a = Some i \<Longrightarrow> find_at p (a @ b) = Some i"
proof -
  assume i: "find_at p a = Some i"
  note len = find_at_bound [OF i]
  have "take (length p) (drop j (a @ b)) = take (length p) (drop j a)" if "j \<le> i" for j
    using that len by simp
  with i len show ?thesis by (simp add: find_at_iff)
qed

lemma find_at_shorter: "find_at p (a @ b) = Some i \<Longrightarrow> find_at p a = None \<Longrightarrow> length a < i + length p"
proof (rule ccontr)
  assume i: "find_at p (a @ b) = Some i" and n: "find_at p a = None" and "\<not> length a < i + length p"
  then have len: "i + length p \<le> length a" by simp
  have "take (length p) (drop j (a @ b)) = take (length p) (drop j a)" if "j \<le> i" for j
    using that len by simp
  with i len have "find_at p a = Some i" by (simp add: find_at_iff)
  with n show False by simp
qed

lemma split_once_Some: "split_once sep s = Some (a, b) \<Longrightarrow> s = a @ sep @ b"
  using find_at_Some by (auto simp: split_once_def)

function split_all :: "string \<Rightarrow> string \<Rightarrow> string list" where
  "split_all sep s =
     (if sep = [] then [s]
      else case split_once sep s of None \<Rightarrow> [s] | Some (a, b) \<Rightarrow> a # split_all sep b)"
  by pat_completeness auto
termination
  by (relation "measure (\<lambda>(sep, s). length s)") (auto dest!: split_once_Some)

declare split_all.simps [simp del]

text \<open>\<open>rsplit_once\<close> of a character.\<close>

definition rsplit_once :: "char \<Rightarrow> string \<Rightarrow> (string \<times> string) option" where
  "rsplit_once c s =
     (if c \<notin> set s then None
      else Some (rev (drop 1 (dropWhile (\<lambda>x. x \<noteq> c) (rev s))), rev (takeWhile (\<lambda>x. x \<noteq> c) (rev s))))"

text \<open>The first occurrence of a separator in a text that begins with a part free of it.\<close>

lemma find_at_append:
  assumes "\<forall>i \<le> length a. i < length a \<longrightarrow> take (length p) (drop i (a @ p @ b)) \<noteq> p"
  shows "find_at p (a @ p @ b) = Some (length a)"
  using assms
proof (induction a)
  case Nil
  have "find_at p s = Some 0" if "take (length p) s = p" for s
    using that by (cases s) auto
  from this [of "p @ b"] show ?case by simp
next
  case (Cons c a)
  have "take (length p) (c # a @ p @ b) \<noteq> p" using Cons.prems [rule_format, of 0] by simp
  moreover have "find_at p (a @ p @ b) = Some (length a)"
  proof (rule Cons.IH, intro allI impI)
    fix i assume "i \<le> length a" "i < length a"
    then show "take (length p) (drop i (a @ p @ b)) \<noteq> p" using Cons.prems [rule_format, of "Suc i"] by simp
  qed
  ultimately show ?case by simp
qed

text \<open>A separator whose first character does not occur in the part before it.\<close>

lemma split_once_free:
  assumes "c \<notin> set a"
  shows "split_once (c # p) (a @ (c # p) @ b) = Some (a, b)"
proof -
  have "take (length (c # p)) (drop i (a @ (c # p) @ b)) \<noteq> c # p" if "i < length a" for i
  proof -
    from that have "drop i (a @ (c # p) @ b) = a ! i # drop (Suc i) (a @ (c # p) @ b)"
      by (simp add: Cons_nth_drop_Suc nth_append flip: Cons_nth_drop_Suc)
    moreover have "a ! i \<noteq> c" using that assms by auto
    ultimately show ?thesis by simp
  qed
  then have "find_at (c # p) (a @ (c # p) @ b) = Some (length a)" by (intro find_at_append) blast
  then show ?thesis by (simp add: split_once_def)
qed

lemma find_at_absent: "c \<notin> set s \<Longrightarrow> find_at (c # p) s = None"
  by (induction s) auto

lemma split_once_absent: "c \<notin> set s \<Longrightarrow> split_once (c # p) s = None"
  by (simp add: split_once_def find_at_absent)

lemma split_all_absent: "c \<notin> set s \<Longrightarrow> split_all (c # p) s = [s]"
  by (subst split_all.simps) (simp add: split_once_absent)

lemma split_all_free: "c \<notin> set a \<Longrightarrow> split_all (c # p) (a @ (c # p) @ b) = a # split_all (c # p) b"
  using split_once_free [of c a p b] by (subst split_all.simps) simp

lemma find_at_skip:
  "c \<notin> set a \<Longrightarrow> find_at (c # p) (a @ s) = map_option (\<lambda>i. length a + i) (find_at (c # p) s)"
  by (induction a) (cases "find_at (c # p) s"; auto)+

section \<open>Lines\<close>

definition CRLF :: string where
  "CRLF = [CHR 0x0D, CHR 0x0A]"

fun join_lines :: "string list \<Rightarrow> string" where
  "join_lines [] = []"
| "join_lines [l] = l"
| "join_lines (l # ls) = l @ CRLF @ join_lines ls"

definition line_ok :: "string \<Rightarrow> bool" where
  "line_ok l \<longleftrightarrow> l \<noteq> [] \<and> CHR 0x0D \<notin> set l"

lemma split_all_lines: "ls \<noteq> [] \<Longrightarrow> list_all line_ok ls \<Longrightarrow> split_all CRLF (join_lines ls) = ls"
proof (induction ls rule: join_lines.induct)
  case (2 l)
  then show ?case by (simp add: line_ok_def CRLF_def split_all_absent)
next
  case (3 l l' ls)
  then show ?case using split_all_free [of "CHR 0x0D" l "[CHR 0x0A]" "join_lines (l' # ls)"]
    by (simp add: line_ok_def CRLF_def)
qed simp

lemma join_lines_head: "ls \<noteq> [] \<Longrightarrow> list_all line_ok ls \<Longrightarrow> \<exists>c cs. join_lines ls = c # cs \<and> c \<noteq> CHR 0x0D"
proof (induction ls rule: join_lines.induct)
  case (2 l)
  then show ?case by (cases l) (auto simp: line_ok_def)
next
  case (3 l l' ls)
  then show ?case by (cases l) (auto simp: line_ok_def)
qed simp

lemma find_blank_line:
  "ls \<noteq> [] \<Longrightarrow> list_all line_ok ls \<Longrightarrow>
    find_at (CRLF @ CRLF) (join_lines ls @ CRLF @ CRLF @ b) = Some (length (join_lines ls))"
proof (induction ls rule: join_lines.induct)
  case (2 l)
  then have "CHR 0x0D \<notin> set l" by (simp add: line_ok_def)
  from find_at_skip [OF this, of "[CHR 0x0A, CHR 0x0D, CHR 0x0A]" "CRLF @ CRLF @ b"] show ?case
    by (simp add: CRLF_def)
next
  case (3 l l' ls)
  then have "CHR 0x0D \<notin> set l" by (simp add: line_ok_def)
  note skip = find_at_skip [OF this, of "[CHR 0x0A, CHR 0x0D, CHR 0x0A]"]
  obtain c cs where j: "join_lines (l' # ls) = c # cs" "c \<noteq> CHR 0x0D" using join_lines_head [of "l' # ls"] 3(3) by auto
  have IH: "find_at (CRLF @ CRLF) (join_lines (l' # ls) @ CRLF @ CRLF @ b) = Some (length (join_lines (l' # ls)))"
    using 3 by simp
  have "find_at (CRLF @ CRLF) (CRLF @ join_lines (l' # ls) @ CRLF @ CRLF @ b)
      = map_option (\<lambda>i. 2 + i) (find_at (CRLF @ CRLF) (join_lines (l' # ls) @ CRLF @ CRLF @ b))"
    unfolding j(1) using j(2) by (simp add: CRLF_def option.map_comp comp_def)
  with IH skip show ?case by (simp add: CRLF_def)
qed simp

lemma split_blank_line:
  "ls \<noteq> [] \<Longrightarrow> list_all line_ok ls \<Longrightarrow> split_once (CRLF @ CRLF) (join_lines ls @ CRLF @ CRLF @ b) = Some (join_lines ls, b)"
  by (simp add: split_once_def find_blank_line)

section \<open>Numbers and case\<close>

definition digit_of :: "char \<Rightarrow> nat" where
  "digit_of c =
     (let n = (of_char c :: nat) in
      if 48 \<le> n \<and> n \<le> 57 then n - 48
      else if 97 \<le> n \<and> n \<le> 122 then n - 87
      else if 65 \<le> n \<and> n \<le> 90 then n - 55 else 36)"

text \<open>\<open>from_str_radix\<close> of an unsigned type with the given maximum: one \<open>+\<close> may come first.\<close>

definition parse_unsigned :: "nat \<Rightarrow> nat \<Rightarrow> string \<Rightarrow> nat option" where
  "parse_unsigned radix maximum s =
     (let ds = (case s of c # cs \<Rightarrow> if c = CHR ''+'' then cs else s | [] \<Rightarrow> []);
          v = foldl (\<lambda>a c. radix * a + digit_of c) 0 ds in
      if ds = [] \<or> \<not> list_all (\<lambda>c. digit_of c < radix) ds \<or> maximum < v then None else Some v)"

definition ascii_lower :: "char \<Rightarrow> char" where
  "ascii_lower c = (let n = (of_char c :: nat) in if 65 \<le> n \<and> n \<le> 90 then char_of (n + 32) else c)"

definition to_ascii_lowercase :: "string \<Rightarrow> string" where
  "to_ascii_lowercase s = map ascii_lower s"

definition eq_ignore_ascii_case :: "string \<Rightarrow> string \<Rightarrow> bool" where
  "eq_ignore_ascii_case a b = (to_ascii_lowercase a = to_ascii_lowercase b)"

lemma digit_of_digit: "is_digit c \<Longrightarrow> digit_of c = digit_val c" "is_digit c \<Longrightarrow> digit_val c < 10"
  by (auto simp: digit_of_def is_digit_def digit_val_def)

lemma parse_unsigned_nat_to_dec: "n \<le> m \<Longrightarrow> parse_unsigned 10 m (nat_to_dec n) = Some n"
proof -
  assume n: "n \<le> m"
  obtain c cs where s: "nat_to_dec n = c # cs" by (cases "nat_to_dec n") auto
  with nat_to_dec_head have plus: "c \<noteq> CHR ''+''" by blast
  have ds: "list_all is_digit (c # cs)" using nat_to_dec_digits [of n] by (simp add: s)
  have eq: "foldl (\<lambda>a c. 10 * a + digit_of c) z xs = foldl (\<lambda>a c. 10 * a + digit_val c) z xs"
    if "list_all is_digit xs" for z xs
    using that by (induction xs arbitrary: z) (simp_all add: digit_of_digit)
  have "foldl (\<lambda>a c. 10 * a + digit_of c) 0 (c # cs) = n"
    using eq [OF ds] foldl_nat_to_dec [of n] by (simp only: s)
  moreover have "list_all (\<lambda>c. digit_of c < 10) (c # cs)" using ds digit_of_digit by (auto simp: list_all_iff)
  ultimately show ?thesis using n plus by (simp add: parse_unsigned_def s del: foldl_Cons)
qed

section \<open>UTF-8\<close>

definition byte_in :: "nat \<Rightarrow> nat \<Rightarrow> nat \<Rightarrow> string \<Rightarrow> bool" where
  "byte_in i lo hi s = (case get_at s i of None \<Rightarrow> False | Some c \<Rightarrow> lo \<le> of_char c \<and> (of_char c :: nat) \<le> hi)"

text \<open>One character at the start of a text that is not empty: whether it is well-formed, and how many
  bytes it has; of an ill-formed one, the bytes that a single replacement character stands for.\<close>

definition utf8_step :: "string \<Rightarrow> bool \<times> nat" where
  "utf8_step s =
     (let three = (\<lambda>lo hi. if \<not> byte_in 1 lo hi s then (False, 1) else if byte_in 2 128 191 s then (True, 3) else (False, 2));
          four = (\<lambda>lo hi. if \<not> byte_in 1 lo hi s then (False, 1) else if \<not> byte_in 2 128 191 s then (False, 2)
                    else if byte_in 3 128 191 s then (True, 4) else (False, 3)) in
      if byte_in 0 0 127 s then (True, 1)
      else if byte_in 0 194 223 s then (if byte_in 1 128 191 s then (True, 2) else (False, 1))
      else if byte_in 0 224 224 s then three 160 191
      else if byte_in 0 237 237 s then three 128 159
      else if byte_in 0 225 239 s then three 128 191
      else if byte_in 0 240 240 s then four 144 191
      else if byte_in 0 244 244 s then four 128 143
      else if byte_in 0 241 243 s then four 128 191
      else (False, 1))"

definition replacement :: string where
  "replacement = utf8 [239, 191, 189]"

lemma utf8_step_pos: "0 < snd (utf8_step s)"
  by (simp add: utf8_step_def Let_def)

function utf8_lossy :: "string \<Rightarrow> string" where
  "utf8_lossy [] = []"
| "utf8_lossy (c # cs) =
     (let (ok, n) = utf8_step (c # cs) in
      (if ok then take n (c # cs) else replacement) @ utf8_lossy (drop n (c # cs)))"
  by pat_completeness auto
termination
  by (relation "measure length") (use utf8_step_pos in \<open>auto simp: prod_eq_iff dest!: sym\<close>)

function utf8_valid :: "string \<Rightarrow> bool" where
  "utf8_valid [] = True"
| "utf8_valid (c # cs) = (let (ok, n) = utf8_step (c # cs) in ok \<and> utf8_valid (drop n (c # cs)))"
  by pat_completeness auto
termination
  by (relation "measure length") (use utf8_step_pos in \<open>auto simp: prod_eq_iff dest!: sym\<close>)

declare utf8_lossy.simps(2) [simp del] utf8_valid.simps(2) [simp del]

definition ascii :: "string \<Rightarrow> bool" where
  "ascii s = list_all (\<lambda>c. (of_char c :: nat) < 128) s"

lemma ascii_step: "ascii (c # cs) \<Longrightarrow> utf8_step (c # cs) = (True, 1)"
  by (simp add: ascii_def utf8_step_def byte_in_def)

lemma utf8_lossy_ascii [simp]: "ascii s \<Longrightarrow> utf8_lossy s = s"
  by (induction s) (simp_all add: utf8_lossy.simps(2) ascii_step, simp add: ascii_def)

lemma utf8_valid_ascii: "ascii s \<Longrightarrow> utf8_valid s"
  by (induction s) (simp_all add: utf8_valid.simps(2) ascii_step, simp add: ascii_def)

text \<open>The lossy conversion keeps exactly the valid text.\<close>

lemma utf8_lossy_valid: "utf8_valid s \<Longrightarrow> utf8_lossy s = s"
  by (induction s rule: utf8_valid.induct)
    (auto simp: utf8_lossy.simps(2) utf8_valid.simps(2) split: prod.splits)

text \<open>The characters of a valid text: a byte with the continuation bytes after it.\<close>

definition is_continuation :: "char \<Rightarrow> bool" where
  "is_continuation c = (128 \<le> (of_char c :: nat) \<and> (of_char c :: nat) < 192)"

function utf8_chars :: "string \<Rightarrow> string list" where
  "utf8_chars [] = []"
| "utf8_chars (c # cs) = (c # takeWhile is_continuation cs) # utf8_chars (dropWhile is_continuation cs)"
  by pat_completeness auto
termination
  by (relation "measure length") (auto simp: less_Suc_eq_le length_dropWhile_le)

end
