(* ===== verification/Http_Request.thy ===== *)
theory Http_Request
  imports Http_Text
begin

text \<open>
  \<open>victron-metrics\<close>, \<open>http_url.rs\<close>: the URL of the server and the request of an import. What is accepted as a
  URL is characterised, and a request built from it says what was meant and nothing else.
\<close>

section \<open>The URL\<close>

datatype client_config_error =
    CcUnsupportedScheme string | CcMissingHost | CcInvalidPort string | CcUnsupportedHost string
  | CcInvalidHost string | CcInvalidPath string | CcQueryOrFragment string

text \<open>\<open>Display\<close>; \<open>dbg\<close> is the library's \<open>Debug\<close> text of a string.\<close>

fun client_config_error_fmt :: "(string \<Rightarrow> string) \<Rightarrow> client_config_error \<Rightarrow> string" where
  "client_config_error_fmt dbg (CcUnsupportedScheme s) =
     ''unsupported scheme '' @ dbg s @ '': only http:// is compiled in (no TLS for the internal endpoint)''"
| "client_config_error_fmt dbg CcMissingHost = ''URL has no host''"
| "client_config_error_fmt dbg (CcInvalidPort p) = ''invalid port '' @ dbg p"
| "client_config_error_fmt dbg (CcUnsupportedHost h) =
     ''unsupported host '' @ dbg h @ '' (IPv6/brackets not supported)''"
| "client_config_error_fmt dbg (CcInvalidHost h) =
     ''invalid host '' @ dbg h
     @ '': must be a plain IPv4 address or DNS name without userinfo, whitespace, or control characters''"
| "client_config_error_fmt dbg (CcInvalidPath p) =
     ''invalid path '' @ dbg p @ '': must start with '' @ [CHR 0x27] @ ''/'' @ [CHR 0x27]
     @ '' and contain only safe request-line bytes (no control characters, whitespace, or reserved delimiters)''"
| "client_config_error_fmt dbg (CcQueryOrFragment u) =
     ''URL '' @ dbg u @ '' contains a query or fragment; the import client never sends one''"

definition DEFAULT_IMPORT_PATH :: string where
  "DEFAULT_IMPORT_PATH = ''/api/v1/import/prometheus''"

definition host_byte :: "char \<Rightarrow> bool" where
  "host_byte b = (is_ascii_alphanumeric b \<or> b \<in> {CHR ''-'', CHR ''.'', CHR ''_''})"

definition is_valid_host :: "string \<Rightarrow> bool" where
  "is_valid_host host = (host \<noteq> [] \<and> length host \<le> 253 \<and> list_all host_byte host)"

definition validate_host :: "string \<Rightarrow> client_config_error + unit" where
  "validate_host host = (if is_valid_host host then Inr () else Inl (CcInvalidHost host))"

definition path_byte :: "char \<Rightarrow> bool" where
  "path_byte b =
     (0x21 \<le> (of_char b :: nat) \<and> (of_char b :: nat) \<le> 0x7e
      \<and> b \<notin> set ('' '' @ [CHR 0x22] @ ''<>'' @ [CHR 0x5C] @ ''^`{|}#?''))"

definition is_valid_path :: "string \<Rightarrow> bool" where
  "is_valid_path path = (starts_with ''/'' path \<and> list_all path_byte path)"

definition validate_path :: "string \<Rightarrow> client_config_error + unit" where
  "validate_path path = (if is_valid_path path then Inr () else Inl (CcInvalidPath path))"

definition split_authority :: "string \<Rightarrow> client_config_error + (string \<times> nat)" where
  "split_authority authority =
     (if authority = [] then Inl CcMissingHost
      else if CHR ''@'' \<in> set authority then Inl (CcInvalidHost authority)
      else
        case rsplit_once CHR '':'' authority of
          Some (host, port) \<Rightarrow>
            if host = [] then Inl CcMissingHost
            else if CHR '':'' \<in> set host \<or> starts_with ''['' host then Inl (CcUnsupportedHost host)
            else
              (case parse_unsigned 10 65535 port of
                 Some p \<Rightarrow> if p \<noteq> 0 then Inr (host, p) else Inl (CcInvalidPort port)
               | None \<Rightarrow> Inl (CcInvalidPort port))
        | None \<Rightarrow> Inr (authority, 80))"

definition parse_http_url :: "string \<Rightarrow> client_config_error + (string \<times> nat \<times> string)" where
  "parse_http_url url =
     (if starts_with ''http://'' url then
        (let rest = drop 7 url in
         if CHR ''?'' \<in> set rest \<or> CHR ''#'' \<in> set rest then Inl (CcQueryOrFragment url)
         else
           (let (authority, path) =
              (case find_at ''/'' rest of
                 Some index \<Rightarrow> (take index rest, drop index rest) | None \<Rightarrow> (rest, DEFAULT_IMPORT_PATH)) in
            try_bind (split_authority authority) (\<lambda>(host, port).
            try_bind (validate_host host) (\<lambda>_.
            try_bind (validate_path path) (\<lambda>_. Inr (host, port, path))))))
      else if starts_with ''https://'' url then Inl (CcUnsupportedScheme ''https'')
      else Inl (CcUnsupportedScheme (hd (split_all '':'' url))))"

section \<open>The request\<close>

definition build_request :: "string \<Rightarrow> nat \<Rightarrow> string \<Rightarrow> string \<Rightarrow> string" where
  "build_request host port path body =
     ''POST '' @ path @ '' HTTP/1.1'' @ CRLF @ ''Host: '' @ host
     @ (if port \<noteq> 80 then '':'' @ nat_to_dec port else [])
     @ CRLF @ ''Content-Type: text/plain; version=0.0.4'' @ CRLF @ ''Content-Length: '' @ nat_to_dec (length body)
     @ CRLF @ ''Connection: close'' @ CRLF @ CRLF @ body"

section \<open>What is accepted\<close>

text \<open>The grammar of the accepted URLs: a host, an optional port and an optional path.\<close>

definition url_text :: "string \<Rightarrow> string option \<Rightarrow> string option \<Rightarrow> string" where
  "url_text host port path =
     ''http://'' @ host @ (case port of Some p \<Rightarrow> '':'' @ p | None \<Rightarrow> []) @ (case path of Some p \<Rightarrow> p | None \<Rightarrow> [])"

definition url_port :: "string option \<Rightarrow> nat option" where
  "url_port port = (case port of None \<Rightarrow> Some 80 | Some p \<Rightarrow> parse_unsigned 10 65535 p)"

lemma starts_with_iff: "starts_with p s \<longleftrightarrow> (\<exists>r. s = p @ r)"
  unfolding starts_with_def by (metis append_eq_conv_conj append_take_drop_id)

lemma find_at_char: "find_at [c] s = (if c \<in> set s then Some (length (takeWhile (\<lambda>x. x \<noteq> c) s)) else None)"
  by (induction s) auto

lemma take_drop_While:
  "take (length (takeWhile P s)) s = takeWhile P s" "drop (length (takeWhile P s)) s = dropWhile P s"
  by (metis takeWhile_eq_take) (metis dropWhile_eq_drop)

lemma rsplit_once_Some:
  "rsplit_once c s = Some (a, b) \<longleftrightarrow> s = a @ c # b \<and> c \<notin> set b"
proof
  assume r: "rsplit_once c s = Some (a, b)"
  then have c: "c \<in> set (rev s)" by (simp add: rsplit_once_def split: if_splits)
  let ?d = "dropWhile (\<lambda>x. x \<noteq> c) (rev s)"
  have ne: "?d \<noteq> []" using c by (auto simp: dropWhile_eq_Nil_conv)
  have "hd ?d = c" using hd_dropWhile [OF ne] by simp
  with ne have d: "?d = c # drop 1 ?d" by (cases ?d) simp_all
  have ab: "a = rev (drop 1 ?d)" "b = rev (takeWhile (\<lambda>x. x \<noteq> c) (rev s))"
    using r c by (simp_all add: rsplit_once_def)
  have "rev s = takeWhile (\<lambda>x. x \<noteq> c) (rev s) @ ?d" by simp
  also have "\<dots> = rev b @ c # rev a" unfolding ab rev_rev_ident using d by (rule arg_cong)
  finally have "rev s = rev b @ c # rev a" .
  then have "rev (rev s) = rev (rev b @ c # rev a)" by (rule arg_cong)
  then have "s = a @ c # b" by simp
  moreover have "c \<notin> set b" unfolding ab by (auto dest: set_takeWhileD)
  ultimately show "s = a @ c # b \<and> c \<notin> set b" by blast
next
  assume s: "s = a @ c # b \<and> c \<notin> set b"
  then have "takeWhile (\<lambda>x. x \<noteq> c) (rev s) = rev b" "dropWhile (\<lambda>x. x \<noteq> c) (rev s) = c # rev a"
    by (auto simp: takeWhile_append dropWhile_append)
  with s show "rsplit_once c s = Some (a, b)" by (simp add: rsplit_once_def)
qed

lemma rsplit_once_None: "rsplit_once c s = None \<longleftrightarrow> c \<notin> set s"
  by (simp add: rsplit_once_def)

lemma host_byte_not:
  "host_byte b \<Longrightarrow> b \<notin> {CHR '':'', CHR ''/'', CHR ''@'', CHR ''['', CHR ''?'', CHR ''#'', CHR 0x0D, CHR 0x0A, CHR '' ''}"
  by (auto simp: host_byte_def is_ascii_alphanumeric_def)

lemma path_byte_not: "path_byte b \<Longrightarrow> b \<notin> {CHR ''?'', CHR ''#'', CHR 0x0D, CHR 0x0A, CHR '' ''}"
proof -
  have "\<not> path_byte CHR ''?''" "\<not> path_byte CHR ''#''" "\<not> path_byte CHR 0x0D" "\<not> path_byte CHR 0x0A"
    "\<not> path_byte CHR '' ''"
    by (simp_all add: path_byte_def)
  then show "path_byte b \<Longrightarrow> b \<notin> {CHR ''?'', CHR ''#'', CHR 0x0D, CHR 0x0A, CHR '' ''}" by blast
qed

lemma parse_unsigned_chars:
  "parse_unsigned 10 m p = Some n \<Longrightarrow> c \<in> set p \<Longrightarrow> is_digit c \<or> c = CHR ''+''"
proof -
  assume p: "parse_unsigned 10 m p = Some n" "c \<in> set p"
  have "is_digit c" if "digit_of c < 10" for c
    using that by (auto simp: digit_of_def is_digit_def Let_def split: if_splits)
  with p show ?thesis by (cases p) (auto simp: parse_unsigned_def Let_def list_all_iff split: if_splits)
qed

text \<open>Authority and path of a text with a valid authority.\<close>

definition authority_text :: "string \<Rightarrow> string option \<Rightarrow> string" where
  "authority_text host port = host @ (case port of Some p \<Rightarrow> '':'' @ p | None \<Rightarrow> [])"

lemma split_authority_iff:
  assumes "is_valid_host host"
  shows "split_authority a = Inr (host, n) \<longleftrightarrow> (\<exists>pt. a = authority_text host pt \<and> url_port pt = Some n \<and> n \<noteq> 0)"
proof
  assume s: "split_authority a = Inr (host, n)"
  then show "\<exists>pt. a = authority_text host pt \<and> url_port pt = Some n \<and> n \<noteq> 0"
  proof (cases "rsplit_once CHR '':'' a")
    case None
    with s have "a = authority_text host None \<and> n = 80"
      by (auto simp: split_authority_def authority_text_def split: if_splits)
    then show ?thesis by (intro exI [of _ None]) (simp add: url_port_def)
  next
    case (Some hp)
    obtain h p where hp: "hp = (h, p)" by (cases hp)
    with Some s have "h = host \<and> parse_unsigned 10 65535 p = Some n \<and> n \<noteq> 0"
      by (auto simp: split_authority_def split: if_splits option.splits)
    moreover from Some hp have "a = h @ CHR '':'' # p" by (simp add: rsplit_once_Some)
    ultimately show ?thesis by (intro exI [of _ "Some p"]) (simp add: url_port_def authority_text_def)
  qed
next
  assume "\<exists>pt. a = authority_text host pt \<and> url_port pt = Some n \<and> n \<noteq> 0"
  then obtain pt where a: "a = authority_text host pt" and n: "url_port pt = Some n" "n \<noteq> 0" by blast
  have host: "host \<noteq> []" "\<And>c. c \<in> set host \<Longrightarrow> host_byte c"
    using assms by (auto simp: is_valid_host_def list_all_iff)
  then have free: "CHR '':'' \<notin> set host" "CHR ''@'' \<notin> set host" "\<not> starts_with ''['' host"
    using host_byte_not by (fastforce simp: starts_with_iff)+
  show "split_authority a = Inr (host, n)"
  proof (cases pt)
    case None
    with free have "rsplit_once CHR '':'' a = None" by (simp add: a authority_text_def rsplit_once_None)
    with None n host free show ?thesis by (simp add: split_authority_def a authority_text_def url_port_def)
  next
    case (Some p)
    with n have p: "parse_unsigned 10 65535 p = Some n" by (simp add: url_port_def)
    have "CHR '':'' \<notin> set p" "CHR ''@'' \<notin> set p"
      using parse_unsigned_chars [OF p, of "CHR '':''"] parse_unsigned_chars [OF p, of "CHR ''@''"]
      by (auto simp: is_digit_def)
    then have "rsplit_once CHR '':'' a = Some (host, p)" "CHR ''@'' \<notin> set a"
      using free by (simp_all add: rsplit_once_Some a authority_text_def Some)
    with n p host free show ?thesis by (simp add: split_authority_def) (simp add: a authority_text_def)
  qed
qed

lemma authority_chars:
  assumes "is_valid_host host" "url_port pt = Some n" "c \<in> set (authority_text host pt)"
  shows "c \<notin> {CHR ''/'', CHR ''?'', CHR ''#''}"
proof (cases "c \<in> set host")
  case True
  with assms(1) have "host_byte c" by (simp add: is_valid_host_def list_all_iff)
  with host_byte_not show ?thesis by blast
next
  case False
  with assms(3) obtain p where p: "pt = Some p" "c = CHR '':'' \<or> c \<in> set p"
    by (auto simp: authority_text_def split: option.splits)
  with assms(2) parse_unsigned_chars [of 65535 p n c] show ?thesis by (auto simp: url_port_def is_digit_def)
qed

text \<open>A text without a slash and, if there is one, a path.\<close>

definition path_of :: "string option \<Rightarrow> string" where
  "path_of pa = (case pa of Some p \<Rightarrow> p | None \<Rightarrow> DEFAULT_IMPORT_PATH)"

definition cut_path :: "string \<Rightarrow> string \<times> string" where
  "cut_path rest =
     (case find_at ''/'' rest of
        Some index \<Rightarrow> (take index rest, drop index rest) | None \<Rightarrow> (rest, DEFAULT_IMPORT_PATH))"

lemma cut_path_iff:
  "cut_path rest = (a, path) \<longleftrightarrow>
     (\<exists>pa. rest = a @ (case pa of Some p \<Rightarrow> p | None \<Rightarrow> []) \<and> CHR ''/'' \<notin> set a \<and> path = path_of pa
        \<and> (\<forall>p. pa = Some p \<longrightarrow> starts_with ''/'' p))" (is "?l = ?r")
proof
  assume l: ?l
  show ?r
  proof (cases "CHR ''/'' \<in> set rest")
    case True
    let ?P = "\<lambda>x. x \<noteq> CHR ''/''"
    have a: "a = takeWhile ?P rest" "path = dropWhile ?P rest"
      using l True by (simp_all add: cut_path_def find_at_char take_drop_While)
    have ne: "dropWhile ?P rest \<noteq> []" using True by (auto simp: dropWhile_eq_Nil_conv)
    with hd_dropWhile [OF ne] have "starts_with ''/'' path"
      by (cases "dropWhile ?P rest") (auto simp: a starts_with_iff)
    then show ?r by (intro exI [of _ "Some path"]) (auto simp: a path_of_def dest: set_takeWhileD)
  next
    case False
    with l show ?r by (intro exI [of _ None]) (auto simp: cut_path_def find_at_char path_of_def)
  qed
next
  assume ?r
  then obtain pa where pa: "rest = a @ (case pa of Some p \<Rightarrow> p | None \<Rightarrow> [])" "CHR ''/'' \<notin> set a" "path = path_of pa"
    "\<forall>p. pa = Some p \<longrightarrow> starts_with ''/'' p" by blast
  show ?l
  proof (cases pa)
    case None
    with pa show ?l by (simp add: cut_path_def find_at_char path_of_def)
  next
    case (Some p)
    with pa obtain q where p: "p = CHR ''/'' # q" by (auto simp: starts_with_iff)
    have "\<forall>x \<in> set a. x \<noteq> CHR ''/''" using pa(2) by blast
    then have "takeWhile (\<lambda>x. x \<noteq> CHR ''/'') rest = a" "CHR ''/'' \<in> set rest"
      by (simp_all add: pa(1) Some p takeWhile_append2)
    then show ?l using pa(1,3) Some by (simp add: cut_path_def find_at_char path_of_def)
  qed
qed

lemma parse_http_url_parts:
  "parse_http_url (''http://'' @ rest) =
     (if CHR ''?'' \<in> set rest \<or> CHR ''#'' \<in> set rest then Inl (CcQueryOrFragment (''http://'' @ rest))
      else case cut_path rest of (authority, path) \<Rightarrow>
        try_bind (split_authority authority) (\<lambda>(host, port).
        try_bind (validate_host host) (\<lambda>_. try_bind (validate_path path) (\<lambda>_. Inr (host, port, path)))))"
  by (simp add: parse_http_url_def starts_with_def cut_path_def Let_def)

lemma parse_http_url_iff:
  "parse_http_url url = Inr (host, port, path) \<longleftrightarrow>
     (\<exists>pt pa. url = url_text host pt pa \<and> is_valid_host host \<and> url_port pt = Some port \<and> port \<noteq> 0
        \<and> path = (case pa of Some p \<Rightarrow> p | None \<Rightarrow> DEFAULT_IMPORT_PATH) \<and> is_valid_path path)" (is "?l = ?r")
proof
  assume l: ?l
  then obtain rest where url: "url = ''http://'' @ rest"
    by (auto simp: parse_http_url_def starts_with_iff split: if_splits)
  obtain a pth where cut: "cut_path rest = (a, pth)" by (cases "cut_path rest")
  with l have parts: "split_authority a = Inr (host, port)" "is_valid_host host" "is_valid_path pth" "pth = path"
    unfolding url parse_http_url_parts
    by (auto simp: try_bind_Inr_iff validate_host_def validate_path_def split: if_splits)
  from split_authority_iff [OF parts(2)] parts(1) obtain pt where
    pt: "a = authority_text host pt" "url_port pt = Some port" "port \<noteq> 0" by blast
  from cut [unfolded cut_path_iff] obtain pa where
    pa: "rest = a @ (case pa of Some p \<Rightarrow> p | None \<Rightarrow> [])" "pth = path_of pa" by blast
  from url pt pa parts show ?r
    by (intro exI [of _ pt] exI [of _ pa]) (simp add: url_text_def authority_text_def path_of_def)
next
  assume ?r
  then obtain pt pa where r: "url = url_text host pt pa" "is_valid_host host" "url_port pt = Some port" "port \<noteq> 0"
    "path = path_of pa" "is_valid_path path" unfolding path_of_def by blast
  let ?rest = "authority_text host pt @ (case pa of Some p \<Rightarrow> p | None \<Rightarrow> [])"
  have url: "url = ''http://'' @ ?rest" by (simp add: r(1) url_text_def authority_text_def)
  have "CHR ''/'' \<notin> set (authority_text host pt)" using authority_chars [OF r(2,3)] by blast
  moreover have "\<forall>p. pa = Some p \<longrightarrow> starts_with ''/'' p" using r(5,6) by (auto simp: path_of_def is_valid_path_def)
  ultimately have cut: "cut_path ?rest = (authority_text host pt, path)"
    unfolding cut_path_iff using r(5) by blast
  have "c \<notin> {CHR ''?'', CHR ''#''}" if "c \<in> set ?rest" for c
  proof (cases "c \<in> set (authority_text host pt)")
    case True
    then show ?thesis using authority_chars [OF r(2,3)] by blast
  next
    case False
    with that r(5,6) have "path_byte c" by (auto simp: path_of_def is_valid_path_def list_all_iff split: option.splits)
    then show ?thesis using path_byte_not by blast
  qed
  then have "CHR ''?'' \<notin> set ?rest" "CHR ''#'' \<notin> set ?rest" by blast+
  moreover have "split_authority (authority_text host pt) = Inr (host, port)"
    using split_authority_iff [OF r(2)] r(3,4) by blast
  ultimately show ?l
    unfolding url parse_http_url_parts cut using r(2,6) by (simp add: validate_host_def validate_path_def)
qed

lemma http_url_parts: "parse_http_url url = Inr (host, port, path) \<Longrightarrow> is_valid_host host \<and> is_valid_path path"
  unfolding parse_http_url_iff by blast

lemma accepted_example:
  "parse_http_url ''http://100.64.0.2:8429'' = Inr (''100.64.0.2'', 8429, DEFAULT_IMPORT_PATH)"
  unfolding parse_http_url_iff
  by (rule exI [of _ "Some ''8429''"], rule exI [of _ None])
    (simp add: url_text_def is_valid_host_def host_byte_def is_ascii_alphanumeric_def url_port_def
      parse_unsigned_def digit_of_def DEFAULT_IMPORT_PATH_def is_valid_path_def path_byte_def starts_with_def)

section \<open>Properties\<close>

text \<open>Exactly these URLs are accepted: \<open>http://\<close>, a host of 1 to 253 letters, digits, dots, dashes and
  underscores, possibly a port from 1 to 65535, possibly a path of safe bytes; without a port it is 80,
  without a path the import path.\<close>

theorem http_url_exact:
  "parse_http_url url = Inr (host, port, path) \<longleftrightarrow>
     (\<exists>pt pa. url = url_text host pt pa \<and> is_valid_host host \<and> url_port pt = Some port \<and> port \<noteq> 0
        \<and> path = (case pa of Some p \<Rightarrow> p | None \<Rightarrow> DEFAULT_IMPORT_PATH) \<and> is_valid_path path)"
  by (rule parse_http_url_iff)

text \<open>C25: The request built for an accepted URL is one POST of the body: up to the first blank line it has the five
  lines that were meant, with the path, the host and the length of the body, and after it comes the body.
  Neither the URL nor the body can add a line or another request.\<close>

theorem request_exact:
  assumes "parse_http_url url = Inr (host, port, path)"
  shows "\<exists>head. split_once (CRLF @ CRLF) (build_request host port path body) = Some (head, body)
    \<and> split_all CRLF head =
        [''POST '' @ path @ '' HTTP/1.1'',
         ''Host: '' @ host @ (if port = 80 then [] else '':'' @ nat_to_dec port),
         ''Content-Type: text/plain; version=0.0.4'',
         ''Content-Length: '' @ nat_to_dec (length body),
         ''Connection: close'']"
proof -
  from assms have v: "is_valid_host host" "is_valid_path path" using http_url_parts by blast+
  have digits: "CHR 0x0D \<notin> set (nat_to_dec n)" for n
    using nat_to_dec_digits [of n] by (auto simp: list_all_iff is_digit_def)
  have host: "CHR 0x0D \<notin> set host" and path: "CHR 0x0D \<notin> set path"
    using v host_byte_not path_byte_not by (fastforce simp: is_valid_host_def is_valid_path_def list_all_iff)+
  let ?lines = "[''POST '' @ path @ '' HTTP/1.1'',
         ''Host: '' @ host @ (if port = 80 then [] else '':'' @ nat_to_dec port),
         ''Content-Type: text/plain; version=0.0.4'',
         ''Content-Length: '' @ nat_to_dec (length body),
         ''Connection: close'']"
  have ok: "list_all line_ok ?lines" using digits host path by (simp add: line_ok_def)
  have "build_request host port path body = join_lines ?lines @ CRLF @ CRLF @ body"
    by (simp add: build_request_def)
  with split_blank_line [OF _ ok, of body] split_all_lines [OF _ ok] show ?thesis by simp
qed

theorem request_exact_witness:
  "\<exists>head. split_once (CRLF @ CRLF) (build_request ''100.64.0.2'' 8429 DEFAULT_IMPORT_PATH ''m 1'') = Some (head, ''m 1'')
    \<and> split_all CRLF head =
        [''POST '' @ DEFAULT_IMPORT_PATH @ '' HTTP/1.1'',
         ''Host: '' @ ''100.64.0.2'' @ (if (8429 :: nat) = 80 then [] else '':'' @ nat_to_dec 8429),
         ''Content-Type: text/plain; version=0.0.4'',
         ''Content-Length: '' @ nat_to_dec (length ''m 1''),
         ''Connection: close'']"
proof (rule request_exact)
  show "parse_http_url ''http://100.64.0.2:8429'' = Inr (''100.64.0.2'', 8429, DEFAULT_IMPORT_PATH)"
    by (rule accepted_example)
qed

end
