(* ===== verification/Http_Response.thy ===== *)
theory Http_Response
  imports Http_Text
begin

text \<open>
  \<open>victron-metrics\<close>, \<open>response.rs\<close>: reading a response from the connection. What the peer sends is a list of
  events: bytes that arrive together, an error of the socket, or silence until the deadline; at the end of
  the list the peer has closed. A read takes at most what has arrived together. Every loop ends because
  each read takes from the events. The lemmas show that what is read does not depend on how the bytes are
  split into arrivals.
\<close>

section \<open>The connection\<close>

datatype failure_category = FcNetwork | FcTimeout | FcHttp | FcMalformedResponse

type_synonym read_error = "failure_category \<times> string"

datatype net_event = Arrived string | ReadFails string | Stalls

type_synonym conn = "string \<times> net_event list"

fun timed_read :: "nat \<Rightarrow> net_event list \<Rightarrow> (read_error + string) \<times> net_event list" where
  "timed_read n [] = (Inr [], [])"
| "timed_read n (Arrived bs # es) =
     (if bs = [] then timed_read n es
      else if length bs \<le> n then (Inr bs, es)
      else (Inr (take n bs), Arrived (drop n bs) # es))"
| "timed_read n (ReadFails m # es) = (Inl (FcNetwork, ''read error: '' @ m), es)"
| "timed_read n (Stalls # es) = (Inl (FcTimeout, ''read timed out''), es)"

definition read_more :: "nat \<Rightarrow> conn \<Rightarrow> read_error + conn" where
  "read_more n c =
     (case timed_read (max n 256) (snd c) of
        (Inl e, es) \<Rightarrow> Inl e
      | (Inr bs, es) \<Rightarrow>
          if bs = [] then Inl (FcNetwork, ''connection closed prematurely'') else Inr (fst c @ bs, es))"

fun event_size :: "net_event \<Rightarrow> nat" where
  "event_size (Arrived bs) = Suc (length bs)"
| "event_size (ReadFails m) = 1"
| "event_size Stalls = 1"

definition input_size :: "net_event list \<Rightarrow> nat" where
  "input_size es = sum_list (map event_size es)"

definition pending :: "conn \<Rightarrow> nat" where
  "pending c = length (fst c) + input_size (snd c)"

lemma timed_read_size:
  "timed_read n es = (Inr bs, es') \<Longrightarrow> 0 < n \<Longrightarrow> length bs + input_size es' \<le> input_size es"
  by (induction n es rule: timed_read.induct) (auto simp: input_size_def split: if_splits)

lemma read_more_size:
  assumes "read_more n c = Inr c'"
  shows "input_size (snd c') < input_size (snd c)" "pending c' \<le> pending c" "length (fst c) < length (fst c')"
proof -
  from assms obtain bs es where r: "timed_read (max n 256) (snd c) = (Inr bs, es)" "bs \<noteq> []" "c' = (fst c @ bs, es)"
    by (auto simp: read_more_def split: prod.splits sum.splits if_splits)
  have "length bs + input_size es \<le> input_size (snd c)" "0 < length bs"
    using timed_read_size [OF r(1)] r(2) by simp_all
  then show "input_size (snd c') < input_size (snd c)" "pending c' \<le> pending c"
    "length (fst c) < length (fst c')"
    by (simp_all add: r(3) pending_def del: length_greater_0_conv)
qed

lemma timed_read_less: "(Inr bs, es') = timed_read n es \<Longrightarrow> 0 < n \<Longrightarrow> bs \<noteq> [] \<Longrightarrow> input_size es' < input_size es"
  using timed_read_size [OF sym, of bs es' n es] by (cases bs) auto

section \<open>Heads and lines\<close>

definition find_double_crlf :: "string \<Rightarrow> nat option" where
  "find_double_crlf buf = find_at (CRLF @ CRLF) buf"

function read_head :: "nat \<Rightarrow> conn \<Rightarrow> read_error + ((string \<times> string) \<times> conn)" where
  "read_head mx c =
     (case find_double_crlf (fst c) of
        Some end_at \<Rightarrow>
          (let head = utf8_lossy (take end_at (fst c));
               parts = (case split_once CRLF head of Some (status_line, rest) \<Rightarrow> (status_line, rest) | None \<Rightarrow> (head, [])) in
           Inr (parts, (drop (end_at + 4) (fst c), snd c)))
      | None \<Rightarrow>
          if length (fst c) > mx then Inl (FcMalformedResponse, ''response headers too large'')
          else case read_more 512 c of Inl e \<Rightarrow> Inl e | Inr c' \<Rightarrow> read_head mx c')"
  by pat_completeness auto
termination
  by (relation "measure (\<lambda>(mx, c). input_size (snd c))") (auto dest: read_more_size)

definition trim_eol :: "string \<Rightarrow> string" where
  "trim_eol line = rev (dropWhile (\<lambda>b. b = CHR 0x0A \<or> b = CHR 0x0D) (rev line))"

function read_line :: "nat \<Rightarrow> conn \<Rightarrow> read_error + (string \<times> conn)" where
  "read_line mx c =
     (case find_at [CHR 0x0A] (fst c) of
        Some pos \<Rightarrow> Inr (utf8_lossy (trim_eol (take (Suc pos) (fst c))), (drop (Suc pos) (fst c), snd c))
      | None \<Rightarrow>
          if length (fst c) > mx then Inl (FcMalformedResponse, ''line too long'')
          else case read_more 256 c of Inl e \<Rightarrow> Inl e | Inr c' \<Rightarrow> read_line mx c')"
  by pat_completeness auto
termination
  by (relation "measure (\<lambda>(mx, c). input_size (snd c))") (auto dest: read_more_size)

text \<open>\<open>while buffer.len() < n { read_more(k) }\<close>, then the first \<open>n\<close> bytes.\<close>

function read_bytes :: "nat \<Rightarrow> nat \<Rightarrow> conn \<Rightarrow> read_error + (string \<times> conn)" where
  "read_bytes k n c =
     (if length (fst c) < n
      then case read_more k c of Inl e \<Rightarrow> Inl e | Inr c' \<Rightarrow> read_bytes k n c'
      else Inr (take n (fst c), (drop n (fst c), snd c)))"
  by pat_completeness auto
termination
  by (relation "measure (\<lambda>(k, n, c). input_size (snd c))") (auto dest: read_more_size)

definition read_exact :: "nat \<Rightarrow> conn \<Rightarrow> read_error + (string \<times> conn)" where
  "read_exact n c = read_bytes n n c"

declare read_head.simps [simp del] read_line.simps [simp del] read_bytes.simps [simp del]

lemma find_at_newline_less: "find_at [x] s = Some i \<Longrightarrow> i < length s"
  by (induction s arbitrary: i) (auto split: if_splits)

lemma read_line_pending: "read_line mx c = Inr (l, c') \<Longrightarrow> pending c' < pending c"
proof (induction mx c rule: read_line.induct)
  case (1 mx c)
  show ?case
  proof (cases "find_at [CHR 0x0A] (fst c)")
    case (Some pos)
    with 1(2) have "c' = (drop (Suc pos) (fst c), snd c)" by (simp add: read_line.simps [of mx c])
    with find_at_newline_less [OF Some] show ?thesis by (simp add: pending_def)
  next
    case None
    with 1(2) obtain c1 where c1: "\<not> length (fst c) > mx" "read_more 256 c = Inr c1" "read_line mx c1 = Inr (l, c')"
      by (auto simp: read_line.simps [of mx c] split: if_splits sum.splits)
    from 1(1) [OF None c1(1,2,3)] read_more_size(2) [OF c1(2)] show ?thesis by simp
  qed
qed

lemma read_bytes_pending: "read_bytes k n c = Inr (l, c') \<Longrightarrow> pending c' \<le> pending c"
proof (induction k n c rule: read_bytes.induct)
  case (1 k n c)
  show ?case
  proof (cases "length (fst c) < n")
    case False
    with 1(2) show ?thesis by (auto simp: read_bytes.simps [of k n c] pending_def)
  next
    case True
    with 1(2) obtain c1 where c1: "read_more k c = Inr c1" "read_bytes k n c1 = Inr (l, c')"
      by (auto simp: read_bytes.simps [of k n c] split: sum.splits)
    from 1(1) [OF True c1] read_more_size(2) [OF c1(1)] show ?thesis by simp
  qed
qed

section \<open>Bodies\<close>

text \<open>The trailers after the last chunk, up to an empty line.\<close>

function read_trailers :: "conn \<Rightarrow> read_error + conn" where
  "read_trailers c =
     (case read_line 128 c of
        Inl e \<Rightarrow> Inl e
      | Inr (t, c') \<Rightarrow> if t = [] then Inr c' else read_trailers c')"
  by pat_completeness auto
termination
  by (relation "measure pending") (auto dest: read_line_pending)

text \<open>\<open>usize::MAX\<close> of a 64-bit target.\<close>

definition usize_max :: nat where
  "usize_max = 2 ^ 64 - 1"

definition chunk_size :: "string \<Rightarrow> nat option" where
  "chunk_size line = parse_unsigned 16 usize_max (str_trim (hd (split_all '';'' line)))"

function read_chunks :: "(string \<Rightarrow> string) \<Rightarrow> nat \<Rightarrow> string \<Rightarrow> conn \<Rightarrow> read_error + (string \<times> conn)" where
  "read_chunks dbg mx body c =
     (case read_line 128 c of
        Inl e \<Rightarrow> Inl e
      | Inr (line, c1) \<Rightarrow>
          (case chunk_size line of
             None \<Rightarrow> Inl (FcMalformedResponse, ''bad chunk size '' @ dbg line)
           | Some len \<Rightarrow>
               if len = 0 then map_sum id (\<lambda>c2. (body, c2)) (read_trailers c1)
               else
                 (case read_bytes 4096 (min len (mx + 1 - length body)) c1 of
                    Inl e \<Rightarrow> Inl e
                  | Inr (data, c2) \<Rightarrow>
                      if length (body @ data) > mx then Inr (body @ data, c2)
                      else
                        (case read_exact 2 c2 of
                           Inl e \<Rightarrow> Inl e
                         | Inr (crlf, c3) \<Rightarrow>
                             if crlf \<noteq> CRLF then Inl (FcMalformedResponse, ''missing CRLF after chunk'')
                             else read_chunks dbg mx (body @ data) c3))))"
  by pat_completeness auto
termination
  by (relation "measure (\<lambda>(dbg, mx, body, c). pending c)")
    (auto simp: read_exact_def dest!: read_line_pending read_bytes_pending)

definition read_chunked :: "(string \<Rightarrow> string) \<Rightarrow> nat \<Rightarrow> conn \<Rightarrow> read_error + (string \<times> conn)" where
  "read_chunked dbg mx c = map_sum id (\<lambda>(body, c'). (take mx body, c')) (read_chunks dbg mx [] c)"

text \<open>A body that ends with the connection.\<close>

function read_to_close :: "nat \<Rightarrow> string \<Rightarrow> net_event list \<Rightarrow> read_error + (string \<times> net_event list)" where
  "read_to_close mx body es =
     (if length body > mx then Inr (body, es)
      else
        case timed_read 4096 es of
          (Inl e, es') \<Rightarrow> Inl e
        | (Inr bs, es') \<Rightarrow> if bs = [] then Inr (body, es') else read_to_close mx (body @ bs) es')"
  by pat_completeness auto
termination
  by (relation "measure (\<lambda>(mx, body, es). input_size es)") (auto dest: timed_read_less)

declare read_trailers.simps [simp del] read_chunks.simps [simp del] read_to_close.simps [simp del]

type_synonym headers = "(string \<times> string) list"

definition is_chunked :: "headers \<Rightarrow> bool" where
  "is_chunked hs =
     list_ex (\<lambda>(k, v). eq_ignore_ascii_case k ''transfer-encoding'' \<and> contains ''chunked'' (to_ascii_lowercase v)) hs"

definition content_length :: "headers \<Rightarrow> nat option" where
  "content_length hs =
     (case List.find (\<lambda>(k, _). eq_ignore_ascii_case k ''content-length'') hs of
        None \<Rightarrow> None
      | Some (_, v) \<Rightarrow> parse_unsigned 10 usize_max (str_trim v))"

definition read_body :: "(string \<Rightarrow> string) \<Rightarrow> nat \<Rightarrow> headers \<Rightarrow> nat \<Rightarrow> conn \<Rightarrow> read_error + (string \<times> conn)" where
  "read_body dbg code hs mx c =
     (if code = 204 \<or> code = 304 then Inr ([], c)
      else if is_chunked hs then read_chunked dbg mx c
      else
        case content_length hs of
          Some n \<Rightarrow> map_sum id (\<lambda>(body, c'). (take mx body, c')) (read_bytes 4096 (min n (mx + 1)) c)
        | None \<Rightarrow> map_sum id (\<lambda>(body, es). (take mx body, ([], es))) (read_to_close mx (fst c) (snd c)))"

section \<open>Status line and headers\<close>

definition parse_status_line :: "string \<Rightarrow> (nat \<times> string) option" where
  "parse_status_line line =
     (let (version, r) = (case split_once '' '' line of Some (v, r) \<Rightarrow> (v, Some r) | None \<Rightarrow> (line, None)) in
      if \<not> starts_with ''HTTP/'' version then None
      else
        case r of
          None \<Rightarrow> None
        | Some r \<Rightarrow>
            (let (code, reason) = (case split_once '' '' r of Some (c, x) \<Rightarrow> (c, x) | None \<Rightarrow> (r, [])) in
             map_option (\<lambda>n. (n, reason)) (parse_unsigned 10 65535 code)))"

definition parse_headers :: "string \<Rightarrow> headers" where
  "parse_headers block =
     map (\<lambda>(k, v). (str_trim k, str_trim v))
       (List.map_filter (\<lambda>l. split_once '':'' l) (filter (\<lambda>l. l \<noteq> []) (split_all CRLF block)))"

section \<open>However the bytes arrive\<close>

text \<open>The peer sends the text \<open>t\<close>, in any pieces, and closes; a part of it may be in the buffer already.\<close>

definition stream :: "conn \<Rightarrow> string \<Rightarrow> bool" where
  "stream c t \<longleftrightarrow> (\<exists>segs. snd c = map Arrived segs \<and> fst c @ concat segs = t)"

lemma timed_read_empty: "concat segs = [] \<Longrightarrow> timed_read n (map Arrived segs) = (Inr [], [])"
  by (induction segs) auto

lemma timed_read_segs:
  "concat segs \<noteq> [] \<Longrightarrow> 0 < n \<Longrightarrow>
    \<exists>bs segs'. timed_read n (map Arrived segs) = (Inr bs, map Arrived segs') \<and> bs \<noteq> [] \<and> concat segs = bs @ concat segs'"
proof (induction segs)
  case Nil
  then show ?case by simp
next
  case (Cons s segs)
  show ?case
  proof (cases "s = []")
    case True
    with Cons show ?thesis by simp
  next
    case False
    show ?thesis
    proof (cases "length s \<le> n")
      case True
      with False show ?thesis by (intro exI [of _ s] exI [of _ segs]) simp
    next
      case len: False
      with False Cons.prems show ?thesis by (intro exI [of _ "take n s"] exI [of _ "drop n s # segs"]) simp
    qed
  qed
qed

lemma read_more_stream:
  assumes "stream c t" "length (fst c) < length t"
  shows "\<exists>c'. read_more n c = Inr c' \<and> stream c' t"
proof -
  from assms(1) obtain segs where c: "snd c = map Arrived segs" "fst c @ concat segs = t" by (auto simp: stream_def)
  then have "concat segs \<noteq> []" using assms(2) by (metis append_Nil2 less_irrefl)
  moreover have "0 < max n 256" by simp
  ultimately obtain bs segs' where
    "timed_read (max n 256) (map Arrived segs) = (Inr bs, map Arrived segs')" "bs \<noteq> []" "concat segs = bs @ concat segs'"
    using timed_read_segs by blast
  with c show ?thesis by (intro exI [of _ "(fst c @ bs, map Arrived segs')"]) (auto simp: read_more_def stream_def)
qed

lemma stream_take: "stream c t \<Longrightarrow> n \<le> length (fst c) \<Longrightarrow> take n (fst c) = take n t \<and> stream (drop n (fst c), snd c) (drop n t)"
  by (auto simp: stream_def)

lemma stream_prefix: "stream c t \<Longrightarrow> \<exists>r. t = fst c @ r"
  by (auto simp: stream_def)

lemma read_bytes_stream:
  "stream c t \<Longrightarrow> n \<le> length t \<Longrightarrow> \<exists>c'. read_bytes k n c = Inr (take n t, c') \<and> stream c' (drop n t)"
proof (induction k n c rule: read_bytes.induct)
  case (1 k n c)
  show ?case
  proof (cases "length (fst c) < n")
    case False
    with stream_take [OF 1(2)] show ?thesis by (simp add: read_bytes.simps [of k n c])
  next
    case True
    with read_more_stream [OF 1(2)] 1(3) obtain c' where c': "read_more k c = Inr c'" "stream c' t" by fastforce
    from 1(1) [OF True c'(1) c'(2) 1(3)] True c'(1) show ?thesis by (simp add: read_bytes.simps [of k n c])
  qed
qed

lemma find_at_stream:
  assumes "stream c t" "find_at p t = Some pos"
  shows "find_at p (fst c) = Some pos \<or> find_at p (fst c) = None \<and> length (fst c) < pos + length p"
proof -
  from stream_prefix [OF assms(1)] obtain r where t: "t = fst c @ r" ..
  show ?thesis
  proof (cases "find_at p (fst c)")
    case None
    with find_at_shorter [of p "fst c" r pos] assms(2) t show ?thesis by simp
  next
    case (Some i)
    with find_at_prefix [OF Some, of r] assms(2) t show ?thesis by simp
  qed
qed

lemma read_line_stream:
  "stream c t \<Longrightarrow> find_at [CHR 0x0A] t = Some pos \<Longrightarrow> pos \<le> mx \<Longrightarrow>
    \<exists>c'. read_line mx c = Inr (utf8_lossy (trim_eol (take (Suc pos) t)), c') \<and> stream c' (drop (Suc pos) t)"
proof (induction mx c rule: read_line.induct)
  case (1 mx c)
  from find_at_stream [OF 1(2,3)] show ?case
  proof (elim disjE conjE)
    assume f: "find_at [CHR 0x0A] (fst c) = Some pos"
    with stream_take [OF 1(2), of "Suc pos"] find_at_bound [OF f] show ?thesis by (simp add: read_line.simps [of mx c])
  next
    assume f: "find_at [CHR 0x0A] (fst c) = None" "length (fst c) < pos + length [CHR 0x0A]"
    then have len: "\<not> length (fst c) > mx" using 1(4) by simp
    have "length (fst c) < length t" using f(2) find_at_bound [OF 1(3)] by simp
    from read_more_stream [OF 1(2) this] obtain c' where c': "read_more 256 c = Inr c'" "stream c' t" by blast
    from 1(1) [OF f(1) len c'(1) c'(2) 1(3,4)] f(1) len c'(1) show ?thesis by (simp add: read_line.simps [of mx c])
  qed
qed

lemma read_head_stream:
  "stream c t \<Longrightarrow> find_at (CRLF @ CRLF) t = Some pos \<Longrightarrow> pos + 3 \<le> mx \<Longrightarrow>
    \<exists>c'. read_head mx c = Inr ((case split_once CRLF (utf8_lossy (take pos t)) of
             Some (status_line, rest) \<Rightarrow> (status_line, rest) | None \<Rightarrow> (utf8_lossy (take pos t), [])), c')
      \<and> stream c' (drop (pos + 4) t)"
proof (induction mx c rule: read_head.induct)
  case (1 mx c)
  have four: "length (CRLF @ CRLF) = 4" by (simp add: CRLF_def)
  from find_at_stream [OF 1(2,3)] show ?case
  proof (elim disjE conjE)
    assume f: "find_at (CRLF @ CRLF) (fst c) = Some pos"
    have "pos + 4 \<le> length (fst c)" using find_at_bound [OF f] four by simp
    then have "take pos (fst c) = take pos t \<and> stream (drop (pos + 4) (fst c), snd c) (drop (pos + 4) t)"
      using stream_take [OF 1(2), of pos] stream_take [OF 1(2), of "pos + 4"] by simp
    with f show ?thesis by (simp add: read_head.simps [of mx c] find_double_crlf_def Let_def)
  next
    assume f: "find_at (CRLF @ CRLF) (fst c) = None" "length (fst c) < pos + length (CRLF @ CRLF)"
    then have len: "\<not> length (fst c) > mx" using 1(4) four by simp
    have "length (fst c) < length t" using f(2) find_at_bound [OF 1(3)] by simp
    from read_more_stream [OF 1(2) this] obtain c' where c': "read_more 512 c = Inr c'" "stream c' t" by blast
    have n: "find_double_crlf (fst c) = None" using f(1) by (simp add: find_double_crlf_def)
    from 1(1) [OF n len c'(1) c'(2) 1(3,4)] n len c'(1) show ?thesis by (simp add: read_head.simps [of mx c])
  qed
qed

lemma read_to_close_stream:
  "\<exists>body' es. read_to_close mx body (map Arrived segs) = Inr (body', es) \<and> take mx body' = take mx (body @ concat segs)"
proof (induction "input_size (map Arrived segs)" arbitrary: body segs rule: less_induct)
  case less
  consider "length body > mx" | "length body \<le> mx" "concat segs = []" | "length body \<le> mx" "concat segs \<noteq> []"
    by linarith
  then show ?case
  proof cases
    case 1
    then show ?thesis by (simp add: read_to_close.simps [of mx body])
  next
    case 2
    then show ?thesis by (simp add: read_to_close.simps [of mx body] timed_read_empty)
  next
    case 3
    from timed_read_segs [OF 3(2), of 4096] obtain bs segs' where
      r: "timed_read 4096 (map Arrived segs) = (Inr bs, map Arrived segs')" "bs \<noteq> []" "concat segs = bs @ concat segs'"
      by auto
    from less [OF timed_read_less [OF sym [OF r(1)] _ r(2)], of "body @ bs"] r 3(1) show ?thesis
      by (simp add: read_to_close.simps [of mx body])
  qed
qed

text \<open>A chunked body: for each chunk a line with its size, possibly with an extension, and its data, then a
  line with size 0 and an empty line.\<close>

definition size_line_ok :: "string \<Rightarrow> nat \<Rightarrow> bool" where
  "size_line_ok l n \<longleftrightarrow> ascii l \<and> CHR 0x0A \<notin> set l \<and> CHR 0x0D \<notin> set l \<and> l \<noteq> [] \<and> length l < 128 \<and> chunk_size l = Some n"

definition chunk_text :: "string \<times> string \<Rightarrow> string" where
  "chunk_text ch = fst ch @ CRLF @ snd ch @ CRLF"

definition chunks_text :: "(string \<times> string) list \<Rightarrow> string \<Rightarrow> string" where
  "chunks_text chs final = concat (map chunk_text chs) @ final @ CRLF @ CRLF"

lemma trim_eol_line: "CHR 0x0A \<notin> set l \<Longrightarrow> CHR 0x0D \<notin> set l \<Longrightarrow> trim_eol (l @ CRLF) = l"
proof -
  assume l: "CHR 0x0A \<notin> set l" "CHR 0x0D \<notin> set l"
  then have "dropWhile (\<lambda>b. b = CHR 0x0A \<or> b = CHR 0x0D) (rev l) = rev l" by (cases "rev l") (auto dest: arg_cong [of _ _ set])
  then show ?thesis by (simp add: trim_eol_def CRLF_def)
qed

lemma find_at_lf: "CHR 0x0A \<notin> set l \<Longrightarrow> find_at [CHR 0x0A] (l @ CRLF @ r) = Some (Suc (length l))"
  using find_at_skip [of "CHR 0x0A" l "[]" "CRLF @ r"] by (simp add: CRLF_def)

lemma read_line_text:
  assumes "stream c (l @ CRLF @ r)" "ascii l" "CHR 0x0A \<notin> set l" "CHR 0x0D \<notin> set l" "length l < 128"
  shows "\<exists>c'. read_line 128 c = Inr (l, c') \<and> stream c' r"
proof -
  have "Suc (Suc (length l)) = length (l @ CRLF)" by (simp add: CRLF_def)
  then have td: "take (Suc (Suc (length l))) (l @ CRLF @ r) = l @ CRLF" "drop (Suc (Suc (length l))) (l @ CRLF @ r) = r"
    by (metis append_assoc append_eq_conv_conj)+
  have "Suc (length l) \<le> 128" using assms(5) by simp
  from read_line_stream [OF assms(1) find_at_lf [OF assms(3)] this] obtain c' where
    "read_line 128 c = Inr (utf8_lossy (trim_eol (l @ CRLF)), c')" "stream c' r"
    unfolding td by blast
  then show ?thesis using trim_eol_line [OF assms(3,4)] assms(2) by simp
qed

lemma read_trailers_text:
  assumes "stream c CRLF"
  shows "\<exists>c'. read_trailers c = Inr c'"
proof -
  from read_line_text [of c "[]" "[]"] assms obtain c' where "read_line 128 c = Inr ([], c')"
    by (auto simp: ascii_def)
  then show ?thesis by (simp add: read_trailers.simps [of c])
qed

lemma read_chunks_stream:
  "stream c (chunks_text chs final) \<Longrightarrow> length body \<le> mx \<Longrightarrow> size_line_ok final 0
    \<Longrightarrow> \<forall>(l, d) \<in> set chs. d \<noteq> [] \<and> size_line_ok l (length d) \<Longrightarrow>
    \<exists>b c'. read_chunks dbg mx body c = Inr (b, c') \<and> take mx b = take mx (body @ concat (map snd chs))"
proof (induction chs arbitrary: c body)
  case Nil
  from Nil(3) have f: "ascii final" "CHR 0x0A \<notin> set final" "CHR 0x0D \<notin> set final" "length final < 128" "chunk_size final = Some 0"
    by (simp_all add: size_line_ok_def)
  from Nil(1) have "stream c (final @ CRLF @ CRLF)" by (simp add: chunks_text_def)
  from read_line_text [OF this f(1-4)] obtain c1 where c1: "read_line 128 c = Inr (final, c1)" "stream c1 CRLF" by blast
  from read_trailers_text [OF c1(2)] obtain c2 where "read_trailers c1 = Inr c2" ..
  with c1 f(5) show ?case by (simp add: read_chunks.simps [of dbg mx body c])
next
  case (Cons ch chs)
  obtain l d where ch: "ch = (l, d)" by (cases ch)
  from Cons(5) ch have d: "d \<noteq> []" and f: "ascii l" "CHR 0x0A \<notin> set l" "CHR 0x0D \<notin> set l" "length l < 128"
    "chunk_size l = Some (length d)"
    by (simp_all add: size_line_ok_def)
  let ?rest = "chunks_text chs final"
  from Cons(2) have "stream c (l @ CRLF @ d @ CRLF @ ?rest)" by (simp add: chunks_text_def chunk_text_def ch)
  from read_line_text [OF this f(1-4)] obtain c1 where c1: "read_line 128 c = Inr (l, c1)" "stream c1 (d @ CRLF @ ?rest)"
    by blast
  let ?n = "min (length d) (mx + 1 - length body)"
  have n: "?n \<le> length (d @ CRLF @ ?rest)" by (simp add: min_le_iff_disj)
  have tk: "take ?n (d @ CRLF @ ?rest) = take ?n d" by simp
  from read_bytes_stream [OF c1(2) n, of 4096] obtain c2 where
    c2: "read_bytes 4096 ?n c1 = Inr (take ?n d, c2)" "stream c2 (drop ?n (d @ CRLF @ ?rest))" unfolding tk by blast
  note step = read_chunks.simps [of dbg mx body c]
  show ?case
  proof (cases "length (body @ take ?n d) > mx")
    case True
    have "take mx (body @ take ?n d) = take mx (body @ concat (map snd (ch # chs)))"
      using Cons(3) True by (auto simp: ch min_def split: if_splits)
    moreover have "read_chunks dbg mx body c = Inr (body @ take ?n d, c2)"
      unfolding step c1(1) sum.case prod.case f(5) option.case c2(1) using True d by (simp only: if_True if_False length_0_conv)
    ultimately show ?thesis by blast
  next
    case False
    then have n: "?n = length d" "length (body @ d) \<le> mx" using Cons(3) by (auto simp: min_def split: if_splits)
    with c2(2) have "stream c2 (CRLF @ ?rest)" by simp
    from read_bytes_stream [OF this, of 2 2] obtain c3 where c3: "read_exact 2 c2 = Inr (CRLF, c3)" "stream c3 ?rest"
      by (auto simp: read_exact_def CRLF_def)
    from Cons.IH [OF c3(2) n(2) Cons(4)] Cons(5) obtain b c' where
      b: "read_chunks dbg mx (body @ d) c3 = Inr (b, c')" "take mx b = take mx ((body @ d) @ concat (map snd chs))" by auto
    have "read_chunks dbg mx body c = read_chunks dbg mx (body @ d) c3"
      using False n d c1(1) f(5) c2(1) c3(1) by (simp add: step)
    with b show ?thesis by (simp add: ch)
  qed
qed

end
