(* ===== verification/Metric_Encode.thy ===== *)
theory Metric_Encode
  imports Metric_Model
begin

text \<open>
  \<open>victron-metrics\<close>, \<open>encode.rs\<close>: the Prometheus text of a list of points. The text is read back by a reader
  of the format, which gives the points sorted by series and time, the last of each series and time.
\<close>

section \<open>Numbers\<close>

text \<open>
  \<open>Display\<close> of an \<open>f64\<close> writes the shortest decimal that reads back as the value, without an exponent: the
  least number of places at which one of the two neighbouring decimals does, and of two the nearer, with
  ties upward. No double needs more than 1074 places, and none reaches \<open>10 ^ 309\<close>.
\<close>

definition pow10 :: "int \<Rightarrow> rat" where
  "pow10 p = (if 0 \<le> p then 10 ^ nat p else 1 / 10 ^ nat (- p))"

definition decimal_at :: "int \<Rightarrow> rat \<Rightarrow> int option" where
  "decimal_at p x =
     (let f = \<lfloor>x * pow10 p\<rfloor>;
          down = rnd_pos (of_int f / pow10 p) = x;
          up = rnd_pos (of_int (f + 1) / pow10 p) = x in
      if down \<and> (\<not> up \<or> x * pow10 p - of_int f < 1 / 2) then Some f
      else if up then Some (f + 1) else None)"

fun shortest_from :: "nat \<Rightarrow> int \<Rightarrow> rat \<Rightarrow> int \<times> int" where
  "shortest_from 0 p x = (\<lfloor>x * pow10 p\<rfloor>, p)"
| "shortest_from (Suc n) p x =
     (case decimal_at p x of Some d \<Rightarrow> (d, p) | None \<Rightarrow> shortest_from n (p + 1) x)"

definition shortest :: "rat \<Rightarrow> int \<times> int" where
  "shortest x = shortest_from 1383 (- 309) x"

definition pad_zeros :: "nat \<Rightarrow> string \<Rightarrow> string" where
  "pad_zeros n s = replicate (n - length s) CHR ''0'' @ s"

definition decimal_text :: "nat \<Rightarrow> int \<Rightarrow> string" where
  "decimal_text d p =
     (if p \<le> 0 then nat_to_dec (d * 10 ^ nat (- p))
      else nat_to_dec (d div 10 ^ nat p) @ ''.'' @ pad_zeros (nat p) (nat_to_dec (d mod 10 ^ nat p)))"

definition positive_text :: "rat \<Rightarrow> string" where
  "positive_text x = (case shortest x of (d, p) \<Rightarrow> decimal_text (nat d) p)"

definition format_value :: "f64 \<Rightarrow> string" where
  "format_value v =
     (case v of
        F64_NaN \<Rightarrow> ''NaN''
      | F64_Inf neg \<Rightarrow> if neg then ''-inf'' else ''inf''
      | F64_NegZero \<Rightarrow> ''-0''
      | F64_Fin q \<Rightarrow>
          if q = 0 then ''0'' else if q < 0 then ''-'' @ positive_text (- q) else positive_text q)"

section \<open>Lines\<close>

fun escape_char :: "char \<Rightarrow> string" where
  "escape_char c =
     (if c = CHR 0x5C then [CHR 0x5C, CHR 0x5C]
      else if c = CHR 0x22 then [CHR 0x5C, CHR 0x22]
      else if c = CHR 0x0A then [CHR 0x5C, CHR ''n'']
      else [c])"

definition escape_label_value :: "string \<Rightarrow> string" where
  "escape_label_value value = concat (map escape_char value)"

definition label_text :: "string \<times> string \<Rightarrow> string" where
  "label_text kv = fst kv @ [CHR ''='', CHR 0x22] @ escape_label_value (snd kv) @ [CHR 0x22]"

fun labels_text :: "(string \<times> string) list \<Rightarrow> string" where
  "labels_text [] = []"
| "labels_text [l] = label_text l"
| "labels_text (l # ls) = label_text l @ '','' @ labels_text ls"

definition write_line :: "metric_point \<Rightarrow> string" where
  "write_line p =
     mp_name p @ ''{'' @ labels_text (mp_labels p) @ ''} '' @ format_value (mp_value p) @ '' ''
     @ int_to_dec (mp_timestamp_ms p) @ [CHR 0x0A]"

section \<open>The text of a batch\<close>

type_synonym series_key = "string \<times> (string \<times> string) list \<times> int"

definition series_key :: "metric_point \<Rightarrow> series_key" where
  "series_key p = (mp_name p, mp_labels p, mp_timestamp_ms p)"

definition encodable :: "metric_point \<Rightarrow> bool" where
  "encodable p = (f64_is_finite (mp_value p) \<and> mp_timestamp_ms p > 0)"

text \<open>Of each run of equal series and time the last one is kept.\<close>

function last_of_runs :: "metric_point list \<Rightarrow> metric_point list" where
  "last_of_runs [] = []"
| "last_of_runs (p # ps) =
     last (p # takeWhile (\<lambda>q. series_key q = series_key p) ps)
     # last_of_runs (dropWhile (\<lambda>q. series_key q = series_key p) ps)"
  by pat_completeness auto
termination
  by (relation "measure length") (auto simp: less_Suc_eq_le length_dropWhile_le)

definition encoded_points :: "metric_point list \<Rightarrow> metric_point list" where
  "encoded_points points = last_of_runs (sort_key series_key (filter encodable points))"

definition encode_into :: "metric_point list \<Rightarrow> string \<Rightarrow> string" where
  "encode_into points out = out @ concat (map write_line (encoded_points points))"

definition encode :: "metric_point list \<Rightarrow> string" where
  "encode points = encode_into points []"

definition mb_encode :: "batch_builder \<Rightarrow> string" where
  "mb_encode b = encode (mb_points b)"

section \<open>The points that are written\<close>

lemma run_of_sorted:
  "sorted (map f (p # ps)) \<Longrightarrow>
    takeWhile (\<lambda>q. f q = f p) ps = filter (\<lambda>q. f q = f p) ps
    \<and> dropWhile (\<lambda>q. f q = f p) ps = filter (\<lambda>q. f q \<noteq> f p) ps"
proof (induction ps)
  case Nil
  then show ?case by simp
next
  case (Cons q ps)
  show ?case
  proof (cases "f q = f p")
    case True
    with Cons show ?thesis by simp
  next
    case False
    with Cons.prems have "f r \<noteq> f p" if "r \<in> set ps" for r using that by fastforce
    with False show ?thesis by (simp add: filter_id_conv filter_empty_conv)
  qed
qed

lemma last_of_runs_spec:
  "sorted (map series_key ps) \<Longrightarrow>
    sorted_wrt (<) (map series_key (last_of_runs ps))
    \<and> (\<forall>q. q \<in> set (last_of_runs ps) \<longleftrightarrow>
          (\<exists>rs. filter (\<lambda>r. series_key r = series_key q) ps = rs @ [q]))"
proof (induction ps rule: last_of_runs.induct)
  case 1
  then show ?case by simp
next
  case (2 p ps)
  let ?same = "\<lambda>q. series_key q = series_key p"
  let ?run = "p # filter ?same ps" and ?rest = "filter (\<lambda>q. \<not> ?same q) ps"
  note run = run_of_sorted [OF 2(2)]
  have sorted: "sorted (map series_key ?rest)" using 2(2) by (simp add: sorted_filter)
  note IH = 2(1) [unfolded conjunct2 [OF run], OF sorted]
  have eq: "last_of_runs (p # ps) = last ?run # last_of_runs ?rest" using run by simp
  have key: "series_key (last ?run) = series_key p"
    by (cases "filter ?same ps = []") (use last_in_set [of "filter ?same ps"] in auto)
  have in_rest: "q \<in> set ?rest" if q: "q \<in> set (last_of_runs ?rest)" for q
  proof -
    from q IH obtain rs where "filter (\<lambda>r. series_key r = series_key q) ?rest = rs @ [q]" by blast
    then have "q \<in> set (filter (\<lambda>r. series_key r = series_key q) ?rest)" by simp
    then show ?thesis by simp
  qed
  have above: "series_key p < series_key q" if q: "q \<in> set (last_of_runs ?rest)" for q
    using in_rest [OF q] 2(2) by (auto simp: order_less_le)
  have mem: "q \<in> set (last_of_runs (p # ps)) \<longleftrightarrow> (\<exists>rs. filter (\<lambda>r. series_key r = series_key q) (p # ps) = rs @ [q])" for q
  proof (cases "?same q")
    case True
    then have "q \<notin> set (last_of_runs ?rest)" using above [of q] by auto
    moreover have "filter (\<lambda>r. series_key r = series_key q) (p # ps) = ?run" using True by simp
    moreover have "(\<exists>rs. ?run = rs @ [q]) \<longleftrightarrow> q = last ?run"
      by (metis append_butlast_last_id last_snoc list.distinct(1))
    ultimately show ?thesis unfolding eq by simp
  next
    case False
    then have f: "filter (\<lambda>r. series_key r = series_key q) (p # ps) = filter (\<lambda>r. series_key r = series_key q) ?rest"
      by (auto intro: filter_cong)
    have "q \<noteq> last ?run" using False key by auto
    with IH show ?thesis unfolding eq f by simp
  qed
  have "sorted_wrt (<) (series_key (last ?run) # map series_key (last_of_runs ?rest))"
    unfolding key using IH above by simp
  then have "sorted_wrt (<) (map series_key (last_of_runs (p # ps)))" unfolding eq by (simp only: list.map)
  with mem show ?case by blast
qed

text \<open>Of each series and time the last encodable point is written, in the order of the keys.\<close>

lemma encoded_points_spec:
  "sorted_wrt (<) (map series_key (encoded_points points))"
  "q \<in> set (encoded_points points) \<longleftrightarrow>
     (\<exists>rs. filter (\<lambda>r. encodable r \<and> series_key r = series_key q) points = rs @ [q])"
  using last_of_runs_spec [of "sort_key series_key (filter encodable points)"]
  by (simp_all add: encoded_points_def sort_key_stable conj_commute)

lemma encoded_points_in: "q \<in> set (encoded_points points) \<Longrightarrow> q \<in> set points \<and> encodable q"
proof -
  assume "q \<in> set (encoded_points points)"
  then obtain rs where "filter (\<lambda>r. encodable r \<and> series_key r = series_key q) points = rs @ [q]"
    using encoded_points_spec(2) by blast
  then have "q \<in> set (filter (\<lambda>r. encodable r \<and> series_key r = series_key q) points)" by simp
  then show ?thesis by simp
qed

end
