(* ===== verification/Metric_Read.thy ===== *)
theory Metric_Read
  imports Metric_Encode
begin

text \<open>
  A reader of the Prometheus text format, as the receiver of a batch has it, and the proof that it gives
  back what \<open>encode\<close> was given. A number is read as the nearest \<open>f64\<close> to the decimal it writes.
\<close>

section \<open>Numbers read back\<close>

definition digits_value :: "string \<Rightarrow> nat" where
  "digits_value s = foldl (\<lambda>a c. 10 * a + digit_val c) 0 s"

definition read_decimal :: "string \<Rightarrow> rat option" where
  "read_decimal s =
     (let a = takeWhile is_digit s; r = dropWhile is_digit s in
      if a = [] then None
      else case r of
             [] \<Rightarrow> Some (of_nat (digits_value a))
           | c # b \<Rightarrow>
               if c = CHR ''.'' \<and> b \<noteq> [] \<and> list_all is_digit b
               then Some (of_nat (digits_value (a @ b)) / 10 ^ length b) else None)"

definition read_value :: "string \<Rightarrow> f64 option" where
  "read_value s =
     (case s of
        [] \<Rightarrow> None
      | c # r \<Rightarrow>
          if c = CHR ''-'' then map_option (\<lambda>q. f64_round True (- q)) (read_decimal r)
          else map_option (f64_round False) (read_decimal s))"

lemma foldl_digits_acc:
  "foldl (\<lambda>a c. 10 * a + digit_val c) acc s = acc * 10 ^ length s + foldl (\<lambda>a c. 10 * a + digit_val c) 0 s"
proof (induction s arbitrary: acc)
  case Nil
  then show ?case by simp
next
  case (Cons c s)
  show ?case using Cons [of "10 * acc + digit_val c"] Cons [of "digit_val c"] by (simp add: algebra_simps)
qed

lemma digits_value_append: "digits_value (a @ b) = digits_value a * 10 ^ length b + digits_value b"
  using foldl_digits_acc [of "digits_value a" b] by (simp add: digits_value_def)

lemma digits_value_nat_to_dec [simp]: "digits_value (nat_to_dec n) = n"
  by (simp add: digits_value_def foldl_nat_to_dec)

lemma digit_val_zero: "digit_val CHR ''0'' = 0"
  by (simp add: digit_val_def)

lemma digits_value_pad: "digits_value (pad_zeros n s) = digits_value s"
proof -
  have "digits_value (replicate k CHR ''0'') = 0" for k
    by (induction k) (simp_all add: digits_value_def digit_val_zero)
  then show ?thesis by (simp add: pad_zeros_def digits_value_append)
qed

lemma length_nat_to_dec: "n < 10 ^ k \<Longrightarrow> 0 < k \<Longrightarrow> length (nat_to_dec n) \<le> k"
proof (induction n arbitrary: k rule: nat_to_dec.induct)
  case (1 n)
  show ?case
  proof (cases "n < 10")
    case True
    with 1(3) show ?thesis by (simp add: nat_to_dec.simps [of n])
  next
    case False
    with 1(2) have k: "1 < k" by (cases "k = 1") (use 1(3) in auto)
    then obtain j where j: "k = Suc j" "0 < j" by (cases k) auto
    have "n div 10 < 10 ^ j" using 1(2) j by (simp add: less_mult_imp_div_less mult.commute)
    from 1(1) [OF False this j(2)] False j show ?thesis by (simp add: nat_to_dec.simps [of n])
  qed
qed

lemma length_pad: "m < 10 ^ n \<Longrightarrow> 0 < n \<Longrightarrow> length (pad_zeros n (nat_to_dec m)) = n"
  using length_nat_to_dec [of m n] by (simp add: pad_zeros_def)

lemma pad_digits: "list_all is_digit (pad_zeros n (nat_to_dec m))"
  using nat_to_dec_digits [of m] by (auto simp: pad_zeros_def list_all_iff is_digit_def in_set_replicate)

lemma read_digits: "list_all is_digit a \<Longrightarrow> \<not> is_digit c \<Longrightarrow>
    takeWhile is_digit (a @ c # b) = a \<and> dropWhile is_digit (a @ c # b) = c # b"
  by (induction a) auto

lemma pow10_pos [simp]: "0 < pow10 p"
  by (simp add: pow10_def)

lemma pow10_nonzero [simp]: "pow10 p \<noteq> 0"
  by (simp add: pow10_def)

lemma pow10_nonneg [simp]: "0 \<le> pow10 p"
  by (simp add: pow10_def)

lemma read_decimal_text: "read_decimal (decimal_text d p) = Some (of_nat d / pow10 p)"
proof (cases "p \<le> 0")
  case True
  let ?n = "d * 10 ^ nat (- p)"
  have "\<forall>c \<in> set (nat_to_dec ?n). is_digit c" using nat_to_dec_digits by (simp add: list_all_iff)
  then have tw: "takeWhile is_digit (nat_to_dec ?n) = nat_to_dec ?n" "dropWhile is_digit (nat_to_dec ?n) = []"
    by (auto simp: takeWhile_eq_all_conv)
  have "of_nat d / pow10 p = of_nat ?n" using True by (auto simp: pow10_def)
  then show ?thesis using True by (simp add: decimal_text_def read_decimal_def Let_def tw del: of_nat_mult)
next
  case False
  let ?k = "nat p"
  let ?a = "nat_to_dec (d div 10 ^ ?k)" and ?b = "pad_zeros ?k (nat_to_dec (d mod 10 ^ ?k))"
  have b: "length ?b = ?k" "list_all is_digit ?b"
    using False by (auto intro: length_pad pad_digits)
  have "\<not> is_digit CHR ''.''" by (simp add: is_digit_def)
  from read_digits [OF nat_to_dec_digits this, of "d div 10 ^ ?k" ?b]
  have "read_decimal (decimal_text d p) = Some (of_nat (digits_value (?a @ ?b)) / 10 ^ ?k)"
    using False b by (auto simp: decimal_text_def read_decimal_def Let_def)
  also have "digits_value (?a @ ?b) = d"
    by (simp only: digits_value_append digits_value_pad digits_value_nat_to_dec b(1) div_mult_mod_eq)
  finally show ?thesis using False by (simp add: pow10_def)
qed

lemma scaled_integral:
  assumes "- int N \<le> e"
  shows "\<exists>k. of_int m * pow2 e * 10 ^ N = of_int k"
proof -
  have "(10 :: rat) ^ N = pow2 (int N) * 5 ^ N"
    by (simp add: pow2_of_nat flip: power_mult_distrib)
  then have "of_int m * pow2 e * 10 ^ N = of_int m * pow2 (e + int N) * 5 ^ N" by (simp add: pow2_add)
  also have "\<dots> = of_int (m * 2 ^ nat (e + int N) * 5 ^ N)" using assms by (simp add: pow2_nat)
  finally show ?thesis by blast
qed

lemma decimal_at_None_iff:
  "decimal_at p x = None \<longleftrightarrow>
     rnd_pos (of_int \<lfloor>x * pow10 p\<rfloor> / pow10 p) \<noteq> x \<and> rnd_pos (of_int (\<lfloor>x * pow10 p\<rfloor> + 1) / pow10 p) \<noteq> x"
  unfolding decimal_at_def Let_def by (simp only: split: if_split) blast

lemma decimal_at_Some:
  "decimal_at p x = Some d \<Longrightarrow>
     (d = \<lfloor>x * pow10 p\<rfloor> \<or> d = \<lfloor>x * pow10 p\<rfloor> + 1) \<and> rnd_pos (of_int d / pow10 p) = x"
  unfolding decimal_at_def Let_def by (simp only: option.inject option.distinct split: if_splits) blast+

lemma decimal_at_reads:
  assumes "decimal_at p x = Some d" "0 < x"
  shows "0 \<le> d" "rnd_pos (of_int d / pow10 p) = x"
proof -
  have "0 \<le> x * pow10 p" using assms(2) by (intro mult_nonneg_nonneg) simp_all
  then have "0 \<le> \<lfloor>x * pow10 p\<rfloor>" by simp
  with decimal_at_Some [OF assms(1)] show "0 \<le> d" by linarith
  show "rnd_pos (of_int d / pow10 p) = x" using decimal_at_Some [OF assms(1)] by blast
qed

lemma shortest_from_reads:
  assumes x: "0 < x" "rnd_pos x = x" "x * 10 ^ N = of_int k"
  shows "p + int n = int N \<Longrightarrow> shortest_from n p x = (d, q) \<Longrightarrow> 0 \<le> d \<and> rnd_pos (of_int d / pow10 q) = x"
proof (induction n arbitrary: p)
  case 0
  from 0(1) have pN: "p = int N" by simp
  have p10: "pow10 p = 10 ^ N" unfolding pN by (simp add: pow10_def)
  with 0(2) have p: "pow10 p = 10 ^ N" "q = p" "d = \<lfloor>x * 10 ^ N\<rfloor>" by simp_all
  have "d = k" unfolding p(3) x(3) by simp
  moreover have "0 \<le> x * 10 ^ N" using x(1) by (intro mult_nonneg_nonneg) simp_all
  then have "0 \<le> d" unfolding p(3) by simp
  moreover have "of_int k / pow10 p = x" unfolding p(1) x(3) [symmetric] by simp
  ultimately show ?case using p x(2) by simp
next
  case (Suc n)
  show ?case
  proof (cases "decimal_at p x")
    case None
    with Suc.prems have "p + 1 + int n = int N" "shortest_from n (p + 1) x = (d, q)" by simp_all
    then show ?thesis by (rule Suc.IH)
  next
    case (Some d')
    with Suc.prems(2) have "d = d'" "q = p" by simp_all
    with decimal_at_reads [OF Some x(1)] show ?thesis by simp
  qed
qed

text \<open>No decimal with fewer places reads back as the value.\<close>

lemma rnd_pos_below: "0 \<le> a \<Longrightarrow> a \<le> b \<Longrightarrow> b \<le> x \<Longrightarrow> rnd_pos a = x \<Longrightarrow> rnd_pos x = x \<Longrightarrow> rnd_pos b = x"
  using rnd_pos_mono [of a b] rnd_pos_mono [of b x] by simp

lemma rnd_pos_above: "0 \<le> x \<Longrightarrow> x \<le> b \<Longrightarrow> b \<le> a \<Longrightarrow> rnd_pos a = x \<Longrightarrow> rnd_pos x = x \<Longrightarrow> rnd_pos b = x"
  using rnd_pos_mono [of x b] rnd_pos_mono [of b a] by simp

lemma decimal_at_None:
  assumes "decimal_at p x = None" "0 < x" "rnd_pos x = x"
  shows "rnd_pos (of_nat k / pow10 p) \<noteq> x"
proof
  assume k: "rnd_pos (of_nat k / pow10 p) = x"
  let ?y = "x * pow10 p"
  have y: "of_int \<lfloor>?y\<rfloor> / pow10 p \<le> x" "x \<le> of_int (\<lfloor>?y\<rfloor> + 1) / pow10 p"
  proof -
    have x: "?y / pow10 p = x" by simp
    have "of_int \<lfloor>?y\<rfloor> \<le> ?y" "?y \<le> of_int (\<lfloor>?y\<rfloor> + 1)" by linarith+
    from divide_right_mono [OF this(1), of "pow10 p"] divide_right_mono [OF this(2), of "pow10 p"]
    show "of_int \<lfloor>?y\<rfloor> / pow10 p \<le> x" "x \<le> of_int (\<lfloor>?y\<rfloor> + 1) / pow10 p"
      unfolding x by simp_all
  qed
  note not = assms(1) [unfolded decimal_at_None_iff]
  show False
  proof (cases "int k \<le> \<lfloor>?y\<rfloor>")
    case True
    then have "(of_int (int k) :: rat) \<le> of_int \<lfloor>?y\<rfloor>" by (simp only: of_int_le_iff)
    then have "(of_nat k :: rat) \<le> of_int \<lfloor>?y\<rfloor>" by (simp only: of_int_of_nat_eq)
    then have "of_nat k / pow10 p \<le> of_int \<lfloor>?y\<rfloor> / pow10 p" by (intro divide_right_mono) simp_all
    with rnd_pos_below [OF _ this y(1) k assms(3)] not show False by simp
  next
    case False
    then have "\<lfloor>?y\<rfloor> + 1 \<le> int k" by simp
    then have "(of_int (\<lfloor>?y\<rfloor> + 1) :: rat) \<le> of_int (int k)" by (simp only: of_int_le_iff)
    then have "(of_int (\<lfloor>?y\<rfloor> + 1) :: rat) \<le> of_nat k" by (simp only: of_int_of_nat_eq)
    then have "of_int (\<lfloor>?y\<rfloor> + 1) / pow10 p \<le> of_nat k / pow10 p" by (intro divide_right_mono) simp_all
    with rnd_pos_above [OF _ y(2) this k assms(3)] not assms(2) show False by simp
  qed
qed

lemma shortest_from_least:
  assumes "0 < x" "rnd_pos x = x" "shortest_from n p x = (d, q)"
  shows "p \<le> q \<and> (\<forall>r k. p \<le> r \<and> r < q \<longrightarrow> rnd_pos (of_nat k / pow10 r) \<noteq> x)"
  using assms(3)
proof (induction n arbitrary: p)
  case 0
  then show ?case by simp
next
  case (Suc n)
  show ?case
  proof (cases "decimal_at p x")
    case None
    with Suc have IH: "p + 1 \<le> q \<and> (\<forall>r k. p + 1 \<le> r \<and> r < q \<longrightarrow> rnd_pos (of_nat k / pow10 r) \<noteq> x)" by simp
    have "rnd_pos (of_nat k / pow10 r) \<noteq> x" if "p \<le> r" "r < q" for r k
      using decimal_at_None [OF None assms(1,2)] IH that by (cases "r = p") auto
    with IH show ?thesis by auto
  next
    case (Some d')
    with Suc.prems show ?thesis by simp
  qed
qed

lemma positive_wf:
  assumes "f64_wf (F64_Fin q)" "0 < q"
  shows "rnd_pos q = q" "\<exists>k. q * 10 ^ 1074 = of_int k"
proof -
  show r: "rnd_pos q = q" using assms by (simp add: f64_wf_def rnd_def)
  from assms(2) rnd_pos_dyadic53 [of q] r obtain m e where "q = of_int m * pow2 e" "- int 1074 \<le> e"
    by (auto simp: dyadic53_def)
  with scaled_integral show "\<exists>k. q * 10 ^ 1074 = of_int k" by blast
qed

lemma shortest_spec:
  assumes "f64_wf (F64_Fin q)" "0 < q" "shortest q = (d, p)"
  shows "0 \<le> d" "rnd_pos (of_int d / pow10 p) = q"
    "\<And>r k. - 309 \<le> r \<Longrightarrow> r < p \<Longrightarrow> rnd_pos (of_nat k / pow10 r) \<noteq> q"
proof -
  note q = positive_wf [OF assms(1,2)]
  from q(2) obtain k where k: "q * 10 ^ 1074 = of_int k" by blast
  have "- 309 + int 1383 = int 1074" by simp
  from shortest_from_reads [OF assms(2) q(1) k this assms(3) [unfolded shortest_def]]
  show "0 \<le> d" "rnd_pos (of_int d / pow10 p) = q" by blast+
  show "rnd_pos (of_nat k / pow10 r) \<noteq> q" if "- 309 \<le> r" "r < p" for r k
    using shortest_from_least [OF assms(2) q(1) assms(3) [unfolded shortest_def]] that by blast
qed

lemma decimal_text_head: "\<exists>c cs. decimal_text d p = c # cs \<and> c \<noteq> CHR ''-''"
proof -
  have "\<exists>c cs. nat_to_dec n = c # cs \<and> c \<noteq> CHR ''-''" for n
    by (cases "nat_to_dec n") (auto dest: nat_to_dec_head)
  from this [of "d * 10 ^ nat (- p)"] this [of "d div 10 ^ nat p"] show ?thesis
    by (auto simp: decimal_text_def)
qed

lemma read_positive_text:
  assumes "f64_wf (F64_Fin q)" "0 < q"
  obtains r where "read_decimal (positive_text q) = Some r" "0 \<le> r" "rnd_pos r = q"
    "\<exists>c cs. positive_text q = c # cs \<and> c \<noteq> CHR ''-''"
proof -
  obtain d p where s: "shortest q = (d, p)" by (cases "shortest q")
  note d = shortest_spec [OF assms s]
  show ?thesis
  proof (rule that)
    show "read_decimal (positive_text q) = Some (of_nat (nat d) / pow10 p)"
      by (simp add: positive_text_def s read_decimal_text)
    show "0 \<le> of_nat (nat d) / pow10 p" by (simp add: less_imp_le)
    show "rnd_pos (of_nat (nat d) / pow10 p) = q" using d(1,2) by simp
    show "\<exists>c cs. positive_text q = c # cs \<and> c \<noteq> CHR ''-''"
      unfolding positive_text_def s prod.case by (rule decimal_text_head)
  qed
qed

lemma read_format_value:
  assumes "f64_wf v" "f64_is_finite v"
  shows "read_value (format_value v) = Some v"
proof (cases v)
  case F64_NegZero
  have "read_decimal ''0'' = Some 0" by (simp add: read_decimal_def is_digit_def digits_value_def digit_val_def)
  then show ?thesis by (simp add: F64_NegZero format_value_def read_value_def f64_round_def)
next
  case (F64_Fin q)
  consider "q = 0" | "0 < q" | "q < 0" by linarith
  then show ?thesis
  proof cases
    case 1
    have "read_decimal ''0'' = Some 0" by (simp add: read_decimal_def is_digit_def digits_value_def digit_val_def)
    then show ?thesis by (simp add: F64_Fin 1 format_value_def read_value_def f64_round_def)
  next
    case 2
    with assms(1) obtain r where r: "read_decimal (positive_text q) = Some r" "0 \<le> r" "rnd_pos r = q"
      "\<exists>c cs. positive_text q = c # cs \<and> c \<noteq> CHR ''-''"
      using read_positive_text [of q] F64_Fin by blast
    then have "f64_round False r = F64_Fin q"
      using 2 assms(1) by (simp add: f64_round_def rnd_def F64_Fin f64_wf_def)
    with r 2 show ?thesis by (auto simp: F64_Fin format_value_def read_value_def)
  next
    case 3
    from assms(1) have "f64_wf (F64_Fin (- q))" by (simp add: F64_Fin f64_wf_def rnd_minus)
    with 3 obtain r where r: "read_decimal (positive_text (- q)) = Some r" "0 \<le> r" "rnd_pos r = - q"
      using read_positive_text [of "- q"] by auto
    then have "rnd (- r) = q" by (cases "r = 0") (simp_all add: rnd_def rnd_pos_def [of 0])
    then have "f64_round True (- r) = F64_Fin q"
      using 3 assms(1) by (simp add: f64_round_def F64_Fin f64_wf_def)
    with r 3 show ?thesis by (simp add: F64_Fin format_value_def read_value_def)
  qed
qed (use assms in simp_all)

section \<open>Lines read back\<close>

text \<open>The text up to the first \<open>c\<close> and the rest after it.\<close>

fun read_upto :: "char \<Rightarrow> string \<Rightarrow> (string \<times> string) option" where
  "read_upto c [] = None"
| "read_upto c (x # xs) =
     (if x = c then Some ([], xs) else map_option (\<lambda>(a, r). (x # a, r)) (read_upto c xs))"

text \<open>A quoted value up to its closing quote.\<close>

fun unescape :: "string \<Rightarrow> (string \<times> string) option" where
  "unescape [] = None"
| "unescape (c # cs) =
     (if c = CHR 0x22 then Some ([], cs)
      else if c = CHR 0x5C then
        (case cs of
           [] \<Rightarrow> None
         | d # ds \<Rightarrow> map_option (\<lambda>(v, r). ((if d = CHR ''n'' then CHR 0x0A else d) # v, r)) (unescape ds))
      else map_option (\<lambda>(v, r). (c # v, r)) (unescape cs))"

definition read_label :: "string \<Rightarrow> ((string \<times> string) \<times> string) option" where
  "read_label s =
     (case read_upto CHR ''='' s of
        Some (k, q # r) \<Rightarrow>
          if q = CHR 0x22 then map_option (\<lambda>(v, r'). ((k, v), r')) (unescape r) else None
      | _ \<Rightarrow> None)"

text \<open>Labels up to the closing brace, at most \<open>n\<close>.\<close>

fun read_labels :: "nat \<Rightarrow> string \<Rightarrow> ((string \<times> string) list \<times> string) option" where
  "read_labels n [] = None"
| "read_labels n (c # cs) =
     (if c = CHR ''}'' then Some ([], cs)
      else
        case n of
          0 \<Rightarrow> None
        | Suc m \<Rightarrow>
            (case read_label (c # cs) of
               Some (l, d # r) \<Rightarrow>
                 if d = CHR '','' then map_option (\<lambda>(ls, r'). (l # ls, r')) (read_labels m r)
                 else if d = CHR ''}'' then Some ([l], r) else None
             | _ \<Rightarrow> None))"

text \<open>What a line says: the series, the value and the time.\<close>

record text_sample =
  ts_name :: string
  ts_labels :: "(string \<times> string) list"
  ts_value :: f64
  ts_time :: int

definition read_number :: "string \<Rightarrow> ((f64 \<times> int) \<times> string) option" where
  "read_number s =
     (case read_upto CHR '' '' s of
        None \<Rightarrow> None
      | Some (v, r) \<Rightarrow>
          (case read_upto CHR 0x0A r of
             None \<Rightarrow> None
           | Some (t, r') \<Rightarrow>
               (case (read_value v, parse_i64 t) of (Some x, Some i) \<Rightarrow> Some ((x, i), r') | _ \<Rightarrow> None)))"

definition read_metric :: "string \<Rightarrow> (text_sample \<times> string) option" where
  "read_metric s =
     (case read_upto CHR ''{'' s of
        None \<Rightarrow> None
      | Some (name, r) \<Rightarrow>
          (case read_labels MAX_LABELS_PER_SERIES r of
             Some (ls, c # r') \<Rightarrow>
               if c = CHR '' '' then
                 map_option (\<lambda>((x, i), r''). (\<lparr>ts_name = name, ts_labels = ls, ts_value = x, ts_time = i\<rparr>, r''))
                   (read_number r')
               else None
           | _ \<Rightarrow> None))"

fun read_many :: "(string \<Rightarrow> ('a \<times> string) option) \<Rightarrow> nat \<Rightarrow> string \<Rightarrow> 'a list option" where
  "read_many rd n [] = Some []"
| "read_many rd 0 (c # cs) = None"
| "read_many rd (Suc n) (c # cs) =
     (case rd (c # cs) of Some (x, r) \<Rightarrow> map_option (\<lambda>xs. x # xs) (read_many rd n r) | None \<Rightarrow> None)"

definition read_text :: "string \<Rightarrow> text_sample list option" where
  "read_text s = read_many read_metric (length s) s"

section \<open>Texts with a reader\<close>

text \<open>A text of items from which a reader takes the first one, and what is left.\<close>

locale text_format =
  fixes item_text :: "'a \<Rightarrow> string" and rd :: "string \<Rightarrow> ('b \<times> string) option"
    and view :: "'a \<Rightarrow> 'b" and good :: "'a \<Rightarrow> bool"
  assumes item_nonempty: "good x \<Longrightarrow> item_text x \<noteq> []"
    and item_read: "good x \<Longrightarrow> rd (item_text x @ r) = Some (view x, r)"
begin

lemma read_many_texts:
  "list_all good xs \<Longrightarrow> length xs \<le> n \<Longrightarrow> read_many rd n (concat (map item_text xs)) = Some (map view xs)"
proof (induction xs arbitrary: n)
  case Nil
  then show ?case by simp
next
  case (Cons x xs)
  then obtain m where n: "n = Suc m" "length xs \<le> m" by (cases n) auto
  from Cons.prems(1) have x: "good x" by simp
  obtain c cs where t: "item_text x = c # cs" using item_nonempty [OF x] by (cases "item_text x") auto
  have "rd (c # cs @ concat (map item_text xs)) = Some (view x, concat (map item_text xs))"
    using item_read [OF x] by (simp add: t)
  with Cons n t show ?case by simp
qed

lemma length_texts: "list_all good xs \<Longrightarrow> length xs \<le> length (concat (map item_text xs))"
proof (induction xs)
  case (Cons x xs)
  then have "length xs \<le> length (concat (map item_text xs))" "1 \<le> length (item_text x)"
    using item_nonempty [of x] by (auto simp: Suc_le_eq)
  then show ?case by simp
qed simp

lemma read_all_texts:
  "list_all good xs \<Longrightarrow>
    read_many rd (length (concat (map item_text xs))) (concat (map item_text xs)) = Some (map view xs)"
  by (rule read_many_texts) (auto intro: length_texts)

end

lemma read_upto_append: "c \<notin> set a \<Longrightarrow> read_upto c (a @ c # r) = Some (a, r)"
  by (induction a) auto

lemma unescape_escape: "unescape (escape_label_value v @ CHR 0x22 # r) = Some (v, r)"
  by (induction v) (auto simp: escape_label_value_def)

lemma read_label_text: "CHR ''='' \<notin> set (fst l) \<Longrightarrow> read_label (label_text l @ r) = Some (l, r)"
  using read_upto_append [of "CHR ''=''" "fst l" "CHR 0x22 # escape_label_value (snd l) @ CHR 0x22 # r"]
  by (simp add: read_label_def label_text_def unescape_escape)

interpretation label: text_format label_text read_label "\<lambda>l. l" "\<lambda>l. CHR ''='' \<notin> set (fst l)"
  by unfold_locales (auto simp: label_text_def intro: read_label_text [unfolded label_text_def, simplified])

definition label_name_ok :: "string \<Rightarrow> bool" where
  "label_name_ok k \<longleftrightarrow> k \<noteq> [] \<and> hd k \<noteq> CHR ''}'' \<and> CHR ''='' \<notin> set k"

lemma read_labels_text:
  "list_all (\<lambda>l. label_name_ok (fst l)) ls \<Longrightarrow> length ls \<le> n \<Longrightarrow> read_labels n (labels_text ls @ CHR ''}'' # r) = Some (ls, r)"
proof (induction ls arbitrary: n rule: labels_text.induct)
  case 1
  then show ?case by (cases n) simp_all
next
  case (2 l)
  then obtain m where n: "n = Suc m" by (cases n) auto
  obtain c cs where t: "label_text l = c # cs" "c \<noteq> CHR ''}''"
    using 2 by (cases "fst l") (auto simp: label_text_def label_name_ok_def)
  have "read_label (c # cs @ CHR ''}'' # r) = Some (l, CHR ''}'' # r)"
    using label.item_read [of l "CHR ''}'' # r"] 2 t by (simp add: label_name_ok_def)
  then show ?case using t n by simp
next
  case (3 l l' ls)
  then obtain m where n: "n = Suc m" "length (l' # ls) \<le> m" by (cases n) auto
  obtain c cs where t: "label_text l = c # cs" "c \<noteq> CHR ''}''"
    using 3 by (cases "fst l") (auto simp: label_text_def label_name_ok_def)
  let ?r = "labels_text (l' # ls) @ CHR ''}'' # r"
  have "read_label (c # cs @ '','' @ ?r) = Some (l, '','' @ ?r)"
    using label.item_read [of l "'','' @ ?r"] 3 t by (simp add: label_name_ok_def)
  moreover have "read_labels m ?r = Some (l' # ls, r)" using 3 n by simp
  ultimately show ?case using t n by simp
qed

lemma nat_to_dec_chars: "c \<in> set (nat_to_dec n) \<Longrightarrow> is_digit c"
  using nat_to_dec_digits [of n] by (simp add: list_all_iff)

lemma decimal_text_chars: "c \<in> set (decimal_text d p) \<Longrightarrow> is_digit c \<or> c = CHR ''.''"
  by (auto simp: decimal_text_def pad_zeros_def is_digit_def [of "CHR ''0''"] split: if_splits dest: nat_to_dec_chars)

lemma format_value_chars:
  "f64_is_finite v \<Longrightarrow> c \<in> set (format_value v) \<Longrightarrow> is_digit c \<or> c = CHR ''.'' \<or> c = CHR ''-''"
  by (cases v)
    (auto simp: format_value_def positive_text_def is_digit_def [of "CHR ''0''"] split: if_splits prod.splits
      dest: decimal_text_chars)

lemma int_to_dec_chars: "c \<in> set (int_to_dec i) \<Longrightarrow> is_digit c \<or> c = CHR ''-''"
  by (auto simp: int_to_dec_def split: if_splits dest: nat_to_dec_chars)

lemma read_number_text:
  assumes "f64_wf v" "f64_is_finite v" "in_i64 t"
  shows "read_number (format_value v @ CHR '' '' # int_to_dec t @ CHR 0x0A # r) = Some ((v, t), r)"
proof -
  have "CHR '' '' \<notin> set (format_value v)" "CHR 0x0A \<notin> set (int_to_dec t)"
    by (auto dest!: format_value_chars [OF assms(2)] int_to_dec_chars simp: is_digit_def)
  with assms show ?thesis
    by (simp add: read_number_def read_upto_append read_format_value parse_i64_int_to_dec)
qed

lemma validate_metric_name_chars: "validate_metric_name n = Inr () \<Longrightarrow> CHR ''{'' \<notin> set n"
  by (cases n)
    (auto simp: validate_metric_name_def is_ascii_alphabetic_def is_ascii_alphanumeric_def list_all_iff Let_def
      split: if_splits)

lemma validate_label_name_chars: "validate_label_name n = Inr () \<Longrightarrow> label_name_ok n"
  by (cases n)
    (auto simp: validate_label_name_def is_ascii_alphabetic_def is_ascii_alphanumeric_def list_all_iff Let_def
      label_name_ok_def split: if_splits)

definition sample_of :: "metric_point \<Rightarrow> text_sample" where
  "sample_of p = \<lparr>ts_name = mp_name p, ts_labels = mp_labels p, ts_value = mp_value p, ts_time = mp_timestamp_ms p\<rparr>"

definition writable :: "metric_point \<Rightarrow> bool" where
  "writable p \<longleftrightarrow> point_ok p \<and> f64_wf (mp_value p) \<and> in_i64 (mp_timestamp_ms p)"

lemma read_metric_text:
  assumes "writable p"
  shows "read_metric (write_line p @ r) = Some (sample_of p, r)"
proof -
  have labels: "list_all (\<lambda>l. label_name_ok (fst l)) (mp_labels p)" "length (mp_labels p) \<le> MAX_LABELS_PER_SERIES"
    using assms by (fastforce simp: writable_def point_ok_def list_all_iff dest: validate_label_name_chars)+
  have "CHR ''{'' \<notin> set (mp_name p)"
    using assms by (simp add: writable_def point_ok_def validate_metric_name_chars)
  from read_upto_append [OF this] read_labels_text [OF labels]
    read_number_text [of "mp_value p" "mp_timestamp_ms p" r] assms
  show ?thesis
    by (simp add: read_metric_def write_line_def sample_of_def writable_def point_ok_def)
qed

interpretation line: text_format write_line read_metric sample_of writable
  by unfold_locales (simp_all add: read_metric_text, simp add: write_line_def)

lemma read_text_encode:
  assumes "list_all writable points"
  shows "read_text (encode points) = Some (map sample_of (encoded_points points))"
proof -
  have "list_all writable (encoded_points points)"
    using assms by (auto simp: list_all_iff dest: encoded_points_in)
  from line.read_all_texts [OF this] show ?thesis by (simp add: read_text_def encode_def encode_into_def)
qed

section \<open>Properties\<close>

definition sample_key :: "text_sample \<Rightarrow> series_key" where
  "sample_key s = (ts_name s, ts_labels s, ts_time s)"

lemma sample_key_of [simp]: "sample_key (sample_of p) = series_key p"
  by (simp add: sample_key_def sample_of_def series_key_def)

text \<open>C23: A reader of the text format gets from an encoded batch exactly the last point of each series and
  time, with its name, labels, value and time, in strictly increasing order of series and time: escaping,
  formatting and collapsing lose and confuse nothing.\<close>

theorem encode_reads_back:
  assumes "\<forall>p \<in> set points. point_ok p \<and> f64_wf (mp_value p) \<and> in_i64 (mp_timestamp_ms p)"
  shows "\<exists>ss. read_text (encode points) = Some ss \<and> sorted_wrt (<) (map sample_key ss)
    \<and> (\<forall>s. s \<in> set ss \<longleftrightarrow>
          (\<exists>p rs. filter (\<lambda>r. series_key r = series_key p) points = rs @ [p] \<and> s = sample_of p))"
proof (intro exI conjI)
  have w: "list_all writable points" using assms by (simp add: list_all_iff writable_def)
  show "read_text (encode points) = Some (map sample_of (encoded_points points))" by (rule read_text_encode [OF w])
  show "sorted_wrt (<) (map sample_key (map sample_of (encoded_points points)))"
    using encoded_points_spec(1) [of points] by (simp add: sorted_wrt_map)
  have f: "filter (\<lambda>r. encodable r \<and> series_key r = series_key q) points = filter (\<lambda>r. series_key r = series_key q) points" for q
    using w by (intro filter_cong refl) (auto simp: list_all_iff writable_def point_ok_def encodable_def)
  have "q \<in> set (encoded_points points) \<longleftrightarrow> (\<exists>rs. filter (\<lambda>r. series_key r = series_key q) points = rs @ [q])" for q
    unfolding encoded_points_spec(2) f by (rule refl)
  then show "\<forall>s. s \<in> set (map sample_of (encoded_points points)) \<longleftrightarrow>
      (\<exists>p rs. filter (\<lambda>r. series_key r = series_key p) points = rs @ [p] \<and> s = sample_of p)"
    unfolding set_map image_iff by blast
qed

definition two_points :: "metric_point list" where
  "two_points =
     [\<lparr>mp_name = ''m'', mp_labels = [(''a'', [CHR 0x22, CHR 0x0A])], mp_value = F64_Fin 1, mp_timestamp_ms = 42, mp_kind = Gauge\<rparr>,
      \<lparr>mp_name = ''m'', mp_labels = [(''a'', [CHR 0x22, CHR 0x0A])], mp_value = F64_NegZero, mp_timestamp_ms = 42, mp_kind = Gauge\<rparr>]"

theorem encode_reads_back_witness:
  "\<exists>ss. read_text (encode two_points) = Some ss \<and> sorted_wrt (<) (map sample_key ss)
    \<and> (\<forall>s. s \<in> set ss \<longleftrightarrow>
          (\<exists>p rs. filter (\<lambda>r. series_key r = series_key p) two_points = rs @ [p] \<and> s = sample_of p))"
proof (rule encode_reads_back)
  have "rnd_pos 1 = 1" using rnd_pos_small_int [of 1] by simp
  then show "\<forall>p \<in> set two_points. point_ok p \<and> f64_wf (mp_value p) \<and> in_i64 (mp_timestamp_ms p)"
    by (simp add: two_points_def point_ok_def validate_metric_name_def validate_label_name_def
        validate_label_value_def is_ascii_alphabetic_def control_byte_def starts_with_def
        MAX_LABELS_PER_SERIES_def f64_wf_def rnd_def in_i64_def i64_max_def i64_min_def)
qed

text \<open>The text of a finite number reads back as the number, bit for bit, and for a positive one no decimal
  with fewer places does (no decimal with more than 309 digits before the point is a number).\<close>

theorem value_text_exact:
  assumes "f64_wf v" "f64_is_finite v"
  shows "read_value (format_value v) = Some v
    \<and> (case v of
         F64_Fin q \<Rightarrow> 0 < q \<longrightarrow> (\<forall>r k. - 309 \<le> r \<and> r < snd (shortest q) \<longrightarrow> rnd_pos (of_nat k / pow10 r) \<noteq> q)
       | _ \<Rightarrow> True)"
proof -
  have "rnd_pos (of_nat k / pow10 r) \<noteq> q" if "v = F64_Fin q" "0 < q" "- 309 \<le> r" "r < snd (shortest q)" for q r k
    using shortest_spec(3) [of q "fst (shortest q)" "snd (shortest q)" r k] assms(1) that by simp
  then show ?thesis using read_format_value [OF assms] by (auto split: f64.split)
qed

theorem value_text_exact_witness:
  "read_value (format_value (F64_Fin (1 / 2))) = Some (F64_Fin (1 / 2))
    \<and> (case F64_Fin (1 / 2) of
         F64_Fin q \<Rightarrow> 0 < q \<longrightarrow> (\<forall>r k. - 309 \<le> r \<and> r < snd (shortest q) \<longrightarrow> rnd_pos (of_nat k / pow10 r) \<noteq> q)
       | _ \<Rightarrow> True)"
proof (rule value_text_exact)
  have "dyadic53 (1 / 2)" unfolding dyadic53_def by (intro exI [of _ 1] exI [of _ "- 1"]) (simp add: pow2_def)
  then have "rnd_pos (1 / 2) = 1 / 2" by (rule rnd_pos_dyadic)
  moreover have "(1 / 2 :: rat) < 2 ^ 1024" by (rule less_le_trans [of _ 1]) simp_all
  ultimately show "f64_wf (F64_Fin (1 / 2))" by (simp add: f64_wf_def rnd_def)
qed simp

end
