(* ===== verification/Metric_Sample.thy ===== *)
theory Metric_Sample
  imports Metric_Read Service_Ports
begin

text \<open>
  \<open>victron-metrics\<close>, \<open>adapter.rs\<close> and \<open>domain.rs\<close>: from a sample and the health of the service to a batch; and
  \<open>PrometheusRenderer\<close> of the collector's \<open>adapters/delivery.rs\<close>, which renders the payload of a cycle.
\<close>

section \<open>The view of a sample\<close>

record sample_view =
  sv_device :: string
  sv_observed_at_ms :: int
  sv_pv_voltage_volts :: "f64 option"
  sv_pv_current_amperes :: "f64 option"
  sv_pv_power_watts :: "f64 option"
  sv_battery_voltage_volts :: "f64 option"
  sv_battery_current_amperes :: "f64 option"
  sv_load_power_watts :: "f64 option"
  sv_load_current_amperes :: "f64 option"
  sv_yield_total_kwh :: "f64 option"
  sv_yield_today_kwh :: "f64 option"
  sv_charger_state :: "string option"
  sv_ble_up :: "bool option"
  sv_ble_rssi_dbm :: "int option"
  sv_last_success_unixtime :: "int option"
  sv_sample_age_seconds :: "f64 option"
  sv_ble_connect_failures :: "u64 option"
  sv_protocol_errors :: "u64 option"
  sv_samples_dropped :: "u64 option"
  sv_energy_integration_gap_seconds :: "u64 option"
  sv_spool_batches :: "u64 option"
  sv_spool_oldest_age_seconds :: "f64 option"

text \<open>\<open>if let Some(v) = v { b.f(v)?; }\<close>.\<close>

definition emit ::
  "'a option \<Rightarrow> ('a \<Rightarrow> batch_builder \<Rightarrow> (metric_error + bool) \<times> batch_builder) \<Rightarrow> batch_builder \<Rightarrow> metric_error + batch_builder" where
  "emit v f b =
     (case v of
        None \<Rightarrow> Inr b
      | Some x \<Rightarrow> (case f x b of (Inl e, _) \<Rightarrow> Inl e | (Inr _, b') \<Rightarrow> Inr b'))"

definition u64_as_f64 :: "u64 \<Rightarrow> f64" where
  "u64_as_f64 v = f64_of_int (uint v)"

definition view_to_batch :: "sample_view \<Rightarrow> metric_error + batch_builder" where
  "view_to_batch v =
     try_bind (mb_new (sv_device v)) (\<lambda>b.
     try_bind (with_timestamp_ms (sv_observed_at_ms v) b) (\<lambda>b.
     try_bind (emit (sv_pv_voltage_volts v) (mb_gauge PV_VOLTAGE_VOLTS) b) (\<lambda>b.
     try_bind (emit (sv_pv_current_amperes v) (mb_gauge PV_CURRENT_AMPERES) b) (\<lambda>b.
     try_bind (emit (sv_pv_power_watts v) (mb_gauge PV_POWER_WATTS) b) (\<lambda>b.
     try_bind (emit (sv_battery_voltage_volts v) (mb_gauge BATTERY_VOLTAGE_VOLTS) b) (\<lambda>b.
     try_bind (emit (sv_battery_current_amperes v) (mb_gauge BATTERY_CURRENT_AMPERES) b) (\<lambda>b.
     try_bind (emit (sv_load_power_watts v) (mb_gauge LOAD_POWER_WATTS) b) (\<lambda>b.
     try_bind (emit (sv_load_current_amperes v) (mb_gauge LOAD_CURRENT_AMPERES) b) (\<lambda>b.
     try_bind (emit (sv_yield_total_kwh v) (mb_gauge YIELD_TOTAL) b) (\<lambda>b.
     try_bind (emit (sv_yield_today_kwh v) (mb_gauge YIELD_TODAY) b) (\<lambda>b.
     try_bind (emit (sv_charger_state v) (mb_state CHARGER_STATE) b) (\<lambda>b.
     try_bind (emit (sv_ble_up v) (\<lambda>up. mb_gauge BLE_UP (if up then F64_Fin 1 else F64_Fin 0)) b) (\<lambda>b.
     try_bind (emit (sv_ble_rssi_dbm v) (\<lambda>x. mb_gauge BLE_RSSI (f64_of_int x)) b) (\<lambda>b.
     try_bind (emit (sv_last_success_unixtime v) (\<lambda>x. mb_gauge LAST_SUCCESS_UNIXTIME (f64_of_int x)) b) (\<lambda>b.
     try_bind (emit (sv_sample_age_seconds v) (mb_gauge SAMPLE_AGE_SECONDS) b) (\<lambda>b.
     try_bind (emit (sv_ble_connect_failures v) (\<lambda>x. mb_counter BLE_CONNECT_FAILURES_TOTAL (u64_as_f64 x)) b) (\<lambda>b.
     try_bind (emit (sv_protocol_errors v) (\<lambda>x. mb_counter PROTOCOL_ERRORS_TOTAL (u64_as_f64 x)) b) (\<lambda>b.
     try_bind (emit (sv_samples_dropped v) (\<lambda>x. mb_counter SAMPLES_DROPPED_TOTAL (u64_as_f64 x)) b) (\<lambda>b.
     try_bind (emit (sv_energy_integration_gap_seconds v)
                 (\<lambda>x. mb_counter ENERGY_INTEGRATION_GAP_SECONDS_TOTAL (u64_as_f64 x)) b) (\<lambda>b.
     try_bind (emit (sv_spool_batches v) (\<lambda>x. mb_gauge SPOOL_BATCHES (u64_as_f64 x)) b) (\<lambda>b.
       emit (sv_spool_oldest_age_seconds v) (mb_gauge SPOOL_OLDEST_AGE_SECONDS) b)))))))))))))))))))))"

section \<open>Samples of the domain\<close>

fun charger_state_label :: "charger_state \<Rightarrow> string" where
  "charger_state_label CsOff = ''off''"
| "charger_state_label CsFault = ''fault''"
| "charger_state_label CsBulk = ''bulk''"
| "charger_state_label CsAbsorption = ''absorption''"
| "charger_state_label CsFloat = ''float''"
| "charger_state_label CsStorage = ''storage''"
| "charger_state_label CsEqualize = ''equalize''"
| "charger_state_label CsStartingUp = ''starting_up''"
| "charger_state_label CsAutoRecondition = ''auto_recondition''"
| "charger_state_label CsExternalControl = ''external_control''"
| "charger_state_label (CsUnknown code) = ''unknown''"

definition sample_view_of :: "string \<Rightarrow> int \<Rightarrow> sample \<Rightarrow> sample_view \<Rightarrow> sample_view" where
  "sample_view_of device observed_at_ms s health =
     health\<lparr>sv_device := device, sv_observed_at_ms := observed_at_ms,
       sv_pv_voltage_volts := map_option m_value (s_pv_voltage_volts s),
       sv_pv_current_amperes := map_option m_value (s_pv_current_amperes s),
       sv_pv_power_watts := map_option m_value (s_pv_power_watts s),
       sv_battery_voltage_volts := map_option m_value (s_battery_voltage_volts s),
       sv_battery_current_amperes := map_option m_value (s_battery_current_amperes s),
       sv_load_power_watts := map_option m_value (s_load_power_watts s),
       sv_load_current_amperes := map_option m_value (s_load_current_amperes s),
       sv_yield_total_kwh :=
         (case sv_yield_total_kwh health of None \<Rightarrow> map_option m_value (s_yield_total_kwh s) | Some y \<Rightarrow> Some y),
       sv_yield_today_kwh := map_option m_value (s_yield_today_kwh s),
       sv_ble_rssi_dbm := map_option (\<lambda>m. f64_as_i32 (m_value m)) (s_ble_rssi_dbm s),
       sv_charger_state := map_option charger_state_label (s_charger_state s)\<rparr>"

definition sample_to_batch :: "string \<Rightarrow> sample \<Rightarrow> sample_view \<Rightarrow> metric_error + batch_builder" where
  "sample_to_batch device s health =
     try_bind (system_time_to_ms (s_observed_at s)) (\<lambda>observed_at_ms.
       view_to_batch (sample_view_of device observed_at_ms s health))"

section \<open>The renderer of the collector\<close>

definition metric_render_error :: "(string \<Rightarrow> string) \<Rightarrow> metric_error \<Rightarrow> render_error" where
  "metric_render_error dbg e = ReMetric (metric_error_fmt dbg e)"

definition system_time_seconds :: "system_time \<Rightarrow> render_error + int" where
  "system_time_seconds t =
     (if t < 0 then Inl (ReMetric ''second time provided was later than self'')
      else if t div 1000000000 \<le> i64_max then Inr (t div 1000000000)
      else Inl (ReMetric ''timestamp exceeds i64 seconds''))"

definition render_view :: "render_context \<Rightarrow> int option \<Rightarrow> sample_view" where
  "render_view c last_success =
     \<lparr>sv_device = device_name (rc_device c), sv_observed_at_ms = 0, sv_pv_voltage_volts = None,
      sv_pv_current_amperes = None, sv_pv_power_watts = None, sv_battery_voltage_volts = None,
      sv_battery_current_amperes = None, sv_load_power_watts = None, sv_load_current_amperes = None,
      sv_yield_total_kwh = Some (rc_resolved_yield_kwh c), sv_yield_today_kwh = None, sv_charger_state = None,
      sv_ble_up = rc_ble_up c, sv_ble_rssi_dbm = rc_ble_rssi_dbm c, sv_last_success_unixtime = last_success,
      sv_sample_age_seconds = map_option as_secs_f64 (rc_sample_age c),
      sv_ble_connect_failures = Some (h_ble_connect_failures_total (rc_health c)),
      sv_protocol_errors = Some (h_protocol_errors_total (rc_health c)),
      sv_samples_dropped = Some (h_samples_dropped_total (rc_health c)),
      sv_energy_integration_gap_seconds = Some (rc_energy_gap_skipped_seconds c),
      sv_spool_batches = Some (word_of_nat (rc_spool_depth c)),
      sv_spool_oldest_age_seconds = map_option as_secs_f64 (rc_spool_oldest_age c)\<rparr>"

text \<open>\<open>String::into_bytes\<close> and \<open>str::from_utf8\<close> of its result: the same bytes.\<close>

definition text_bytes :: "string \<Rightarrow> bytes" where
  "text_bytes s = map (\<lambda>c. word_of_nat (of_char c)) s"

definition bytes_text :: "bytes \<Rightarrow> string" where
  "bytes_text bs = map (\<lambda>b. char_of (unat b)) bs"

definition prometheus_render :: "(string \<Rightarrow> string) \<Rightarrow> render_context \<Rightarrow> render_error + bytes" where
  "prometheus_render dbg c =
     try_bind (opt_traverse system_time_seconds (rc_last_success c)) (\<lambda>last_success.
     try_bind (map_err (metric_render_error dbg)
                 (sample_to_batch (device_name (rc_device c)) (rc_sample c) (render_view c last_success))) (\<lambda>batch.
       if mb_is_empty batch then Inl (ReMetric ''sample rendered no metrics'')
       else Inr (text_bytes (mb_encode batch))))"

lemma bytes_text_text_bytes [simp]: "bytes_text (text_bytes s) = s"
proof -
  have "char_of (unat (word_of_nat (of_char c) :: u8)) = c" for c :: char
    using of_char_mod_256 [of c, where ?'a = nat] by (simp add: unat_of_nat)
  then show ?thesis by (simp add: bytes_text_def text_bytes_def comp_def)
qed

section \<open>The table of series\<close>

text \<open>What a view says, as a table: name, extra labels, kind and the value if it is known.\<close>

definition view_table :: "sample_view \<Rightarrow> (string \<times> (string \<times> string) list \<times> metric_kind \<times> f64 option) list" where
  "view_table v =
     [(PV_VOLTAGE_VOLTS, [], Gauge, sv_pv_voltage_volts v),
      (PV_CURRENT_AMPERES, [], Gauge, sv_pv_current_amperes v),
      (PV_POWER_WATTS, [], Gauge, sv_pv_power_watts v),
      (BATTERY_VOLTAGE_VOLTS, [], Gauge, sv_battery_voltage_volts v),
      (BATTERY_CURRENT_AMPERES, [], Gauge, sv_battery_current_amperes v),
      (LOAD_POWER_WATTS, [], Gauge, sv_load_power_watts v),
      (LOAD_CURRENT_AMPERES, [], Gauge, sv_load_current_amperes v),
      (YIELD_TOTAL, [], Gauge, sv_yield_total_kwh v),
      (YIELD_TODAY, [], Gauge, sv_yield_today_kwh v),
      (CHARGER_STATE, case sv_charger_state v of Some st \<Rightarrow> [(STATE_LABEL, st)] | None \<Rightarrow> [], Gauge,
         map_option (\<lambda>_. F64_Fin 1) (sv_charger_state v)),
      (BLE_UP, [], Gauge, map_option (\<lambda>up. if up then F64_Fin 1 else F64_Fin 0) (sv_ble_up v)),
      (BLE_RSSI, [], Gauge, map_option f64_of_int (sv_ble_rssi_dbm v)),
      (LAST_SUCCESS_UNIXTIME, [], Gauge, map_option f64_of_int (sv_last_success_unixtime v)),
      (SAMPLE_AGE_SECONDS, [], Gauge, sv_sample_age_seconds v),
      (BLE_CONNECT_FAILURES_TOTAL, [], Counter, map_option u64_as_f64 (sv_ble_connect_failures v)),
      (PROTOCOL_ERRORS_TOTAL, [], Counter, map_option u64_as_f64 (sv_protocol_errors v)),
      (SAMPLES_DROPPED_TOTAL, [], Counter, map_option u64_as_f64 (sv_samples_dropped v)),
      (ENERGY_INTEGRATION_GAP_SECONDS_TOTAL, [], Counter, map_option u64_as_f64 (sv_energy_integration_gap_seconds v)),
      (SPOOL_BATCHES, [], Gauge, map_option u64_as_f64 (sv_spool_batches v)),
      (SPOOL_OLDEST_AGE_SECONDS, [], Gauge, sv_spool_oldest_age_seconds v)]"

definition entry_points ::
  "string \<Rightarrow> int \<Rightarrow> string \<times> (string \<times> string) list \<times> metric_kind \<times> f64 option \<Rightarrow> metric_point list" where
  "entry_points d ts e =
     (case e of (n, extra, kind, v) \<Rightarrow>
        (case v of
           Some x \<Rightarrow>
             if f64_is_finite x
             then [\<lparr>mp_name = n, mp_labels = (DEVICE_LABEL, d) # extra, mp_value = x, mp_timestamp_ms = ts, mp_kind = kind\<rparr>]
             else []
         | None \<Rightarrow> []))"

definition view_points :: "sample_view \<Rightarrow> metric_point list" where
  "view_points v = concat (map (entry_points (sv_device v) (sv_observed_at_ms v)) (view_table v))"

lemma contract_names:
  "list_all (\<lambda>(n, e, kind, x). validate_metric_name n = Inr () \<and> (kind = Counter \<longrightarrow> ends_with ''_total'' n)) (view_table v)"
  unfolding view_table_def
  by (simp add: metric_names validate_metric_name_def is_ascii_alphabetic_def is_ascii_alphanumeric_def
      starts_with_def ends_with_def)

lemma view_names_distinct: "distinct (map fst (view_table v))"
  unfolding view_table_def list.map fst_conv by (simp add: metric_names)

definition device_label_ok :: "string \<Rightarrow> bool" where
  "device_label_ok d \<longleftrightarrow> d \<noteq> [] \<and> validate_label_value d = Inr ()"

lemma label_names_ok: "validate_label_name DEVICE_LABEL = Inr ()" "validate_label_name STATE_LABEL = Inr ()"
  by (simp_all add: DEVICE_LABEL_def STATE_LABEL_def validate_label_name_def is_ascii_alphabetic_def
      is_ascii_alphanumeric_def starts_with_def)

lemma state_value_label: "is_valid_state_value st \<Longrightarrow> validate_label_value st = Inr ()"
  by (fastforce simp: is_valid_state_value_def validate_label_value_def control_byte_def Let_def list_all_iff list_ex_iff)

lemma device_labels:
  "device_label_ok d \<Longrightarrow> validate_labels [(DEVICE_LABEL, d)] = Inr [(DEVICE_LABEL, d)]"
  "device_label_ok d \<Longrightarrow> is_valid_state_value st \<Longrightarrow>
    validate_labels [(DEVICE_LABEL, d), (STATE_LABEL, st)] = Inr [(DEVICE_LABEL, d), (STATE_LABEL, st)]"
proof -
  have "DEVICE_LABEL \<le> STATE_LABEL" "STATE_LABEL \<noteq> DEVICE_LABEL"
    by (simp_all add: DEVICE_LABEL_def STATE_LABEL_def less_char_def)
  then show "device_label_ok d \<Longrightarrow> validate_labels [(DEVICE_LABEL, d)] = Inr [(DEVICE_LABEL, d)]"
    "device_label_ok d \<Longrightarrow> is_valid_state_value st \<Longrightarrow>
      validate_labels [(DEVICE_LABEL, d), (STATE_LABEL, st)] = Inr [(DEVICE_LABEL, d), (STATE_LABEL, st)]"
    by (simp_all add: validate_labels_def MAX_LABELS_PER_SERIES_def device_label_ok_def label_names_ok state_value_label)
qed

definition batch_of :: "string \<Rightarrow> int \<Rightarrow> metric_point list \<Rightarrow> batch_builder" where
  "batch_of d ts ps = \<lparr>mb_device = d, mb_timestamp_ms = Some ts, mb_points = ps\<rparr>"

lemma emit_add:
  assumes "device_label_ok d" "0 < ts" "validate_metric_name n = Inr ()" "kind = Counter \<longrightarrow> ends_with ''_total'' n"
  shows "emit v (\<lambda>x. mb_add n [] (h x) kind) (batch_of d ts ps)
    = Inr (batch_of d ts (ps @ entry_points d ts (n, [], kind, map_option h v)))"
  using assms
  by (cases v) (auto simp: emit_def entry_points_def mb_add_def batch_of_def point_new_def metric_name_new_def
      device_labels push_point_def)

lemma emit_state:
  assumes "device_label_ok d" "0 < ts" "validate_metric_name n = Inr ()" "pred_option is_valid_state_value v"
  shows "emit v (mb_state n) (batch_of d ts ps)
    = Inr (batch_of d ts (ps @ entry_points d ts
        (n, case v of Some st \<Rightarrow> [(STATE_LABEL, st)] | None \<Rightarrow> [], Gauge, map_option (\<lambda>_. F64_Fin 1) v)))"
  using assms
  by (cases v) (auto simp: emit_def entry_points_def mb_state_def mb_add_def batch_of_def point_new_def
      metric_name_new_def device_labels push_point_def)

lemmas emit_gauge = emit_add [where kind = Gauge, folded mb_gauge_def, simplified]
lemmas emit_counter = emit_add [where kind = Counter, folded mb_counter_def, simplified]

lemma view_to_batch_points:
  assumes "device_label_ok (sv_device v)" "0 < sv_observed_at_ms v" "pred_option is_valid_state_value (sv_charger_state v)"
  shows "view_to_batch v = Inr (batch_of (sv_device v) (sv_observed_at_ms v) (view_points v))"
proof -
  note names = contract_names [of v, unfolded view_table_def, simplified]
  have start: "try_bind (mb_new (sv_device v)) (\<lambda>b. try_bind (with_timestamp_ms (sv_observed_at_ms v) b) k)
      = k (batch_of (sv_device v) (sv_observed_at_ms v) [])" for k :: "batch_builder \<Rightarrow> metric_error + batch_builder"
    using assms by (simp add: mb_new_def with_timestamp_ms_def device_label_ok_def batch_of_def)
  show ?thesis
    unfolding view_to_batch_def start
    by (simp add: emit_gauge [OF assms(1,2)] emit_counter [OF assms(1,2)] emit_state [OF assms(1,2) _ assms(3)] names
        emit_gauge [OF assms(1,2), where h = "\<lambda>x. x", simplified] view_points_def view_table_def option.map_ident)
qed

lemma view_points_in:
  assumes "p \<in> set (view_points v)"
  obtains n extra kind x where "(n, extra, kind, Some x) \<in> set (view_table v)" "f64_is_finite x"
    "p = \<lparr>mp_name = n, mp_labels = (DEVICE_LABEL, sv_device v) # extra, mp_value = x,
          mp_timestamp_ms = sv_observed_at_ms v, mp_kind = kind\<rparr>"
  using assms by (auto simp: view_points_def entry_points_def split: option.splits if_splits)

lemma view_extra:
  "(n, extra, kind, y) \<in> set (view_table v) \<Longrightarrow>
    extra = [] \<or> (\<exists>st. extra = [(STATE_LABEL, st)] \<and> sv_charger_state v = Some st)"
  unfolding view_table_def by (auto split: option.splits)

lemma view_points_samples:
  "sample_of ` set (view_points v) =
     {\<lparr>ts_name = n, ts_labels = (DEVICE_LABEL, sv_device v) # extra, ts_value = x, ts_time = sv_observed_at_ms v\<rparr> | n extra kind x.
        (n, extra, kind, Some x) \<in> set (view_table v) \<and> f64_is_finite x}"
proof (intro subset_antisym subsetI)
  fix s assume "s \<in> sample_of ` set (view_points v)"
  then obtain p where p: "p \<in> set (view_points v)" "s = sample_of p" by blast
  from p(1) show "s \<in> {\<lparr>ts_name = n, ts_labels = (DEVICE_LABEL, sv_device v) # extra, ts_value = x, ts_time = sv_observed_at_ms v\<rparr> | n extra kind x.
        (n, extra, kind, Some x) \<in> set (view_table v) \<and> f64_is_finite x}"
    by (rule view_points_in) (auto simp: p(2) sample_of_def)
next
  fix s assume "s \<in> {\<lparr>ts_name = n, ts_labels = (DEVICE_LABEL, sv_device v) # extra, ts_value = x, ts_time = sv_observed_at_ms v\<rparr> | n extra kind x.
        (n, extra, kind, Some x) \<in> set (view_table v) \<and> f64_is_finite x}"
  then obtain n extra kind x where e: "(n, extra, kind, Some x) \<in> set (view_table v)" "f64_is_finite x"
    and s: "s = \<lparr>ts_name = n, ts_labels = (DEVICE_LABEL, sv_device v) # extra, ts_value = x, ts_time = sv_observed_at_ms v\<rparr>"
    by blast
  let ?p = "\<lparr>mp_name = n, mp_labels = (DEVICE_LABEL, sv_device v) # extra, mp_value = x,
              mp_timestamp_ms = sv_observed_at_ms v, mp_kind = kind\<rparr>"
  have "?p \<in> set (entry_points (sv_device v) (sv_observed_at_ms v) (n, extra, kind, Some x))"
    using e(2) by (simp add: entry_points_def)
  with e(1) have "?p \<in> set (view_points v)" unfolding view_points_def by auto
  then show "s \<in> sample_of ` set (view_points v)" by (rule rev_image_eqI) (simp add: s sample_of_def)
qed

lemma view_points_ok:
  assumes "device_label_ok (sv_device v)" "0 < sv_observed_at_ms v" "pred_option is_valid_state_value (sv_charger_state v)"
    "p \<in> set (view_points v)"
  shows "point_ok p"
proof -
  from assms(4) obtain n extra kind x where e: "(n, extra, kind, Some x) \<in> set (view_table v)" "f64_is_finite x"
    and p: "p = \<lparr>mp_name = n, mp_labels = (DEVICE_LABEL, sv_device v) # extra, mp_value = x,
          mp_timestamp_ms = sv_observed_at_ms v, mp_kind = kind\<rparr>" by (rule view_points_in)
  have n: "validate_metric_name n = Inr ()" "kind = Counter \<longrightarrow> ends_with ''_total'' n"
    using contract_names [of v] e(1) by (auto simp: list_all_iff)
  have l: "validate_labels ((DEVICE_LABEL, sv_device v) # extra) = Inr ((DEVICE_LABEL, sv_device v) # extra)"
    using view_extra [OF e(1)] device_labels [OF assms(1)] assms(3) by auto
  have "point_new n ((DEVICE_LABEL, sv_device v) # extra) x (sv_observed_at_ms v) kind = Inr p"
    using n l e(2) assms(2) by (simp add: point_new_def metric_name_new_def p)
  then show ?thesis by (rule point_new_ok)
qed

lemma view_points_names: "distinct (map mp_name (view_points v))"
proof -
  have "map mp_name (concat (map (entry_points d ts) es))
      = map fst (filter (\<lambda>(n, extra, kind, y). case y of Some x \<Rightarrow> f64_is_finite x | None \<Rightarrow> False) es)" for d ts es
    by (induction es) (auto simp: entry_points_def split: option.splits)
  then show ?thesis using view_names_distinct [of v] by (simp add: view_points_def distinct_map_filter)
qed

lemma encoded_all:
  assumes "distinct (map mp_name ps)" "list_all encodable ps"
  shows "set (encoded_points ps) = set ps"
proof -
  have "(\<exists>rs. filter (\<lambda>r. encodable r \<and> series_key r = series_key q) ps = rs @ [q]) \<longleftrightarrow> q \<in> set ps" for q
  proof
    assume "\<exists>rs. filter (\<lambda>r. encodable r \<and> series_key r = series_key q) ps = rs @ [q]"
    then obtain rs where f: "filter (\<lambda>r. encodable r \<and> series_key r = series_key q) ps = rs @ [q]" by blast
    have "q \<in> set (filter (\<lambda>r. encodable r \<and> series_key r = series_key q) ps)" unfolding f by simp
    then show "q \<in> set ps" by simp
  next
    assume q: "q \<in> set ps"
    from split_list [OF this] obtain xs ys where ps: "ps = xs @ q # ys" by blast
    with assms(1) have "mp_name r \<noteq> mp_name q" if "r \<in> set xs \<union> set ys" for r
      using that by (auto simp: image_iff)
    then have "series_key r \<noteq> series_key q" if "r \<in> set xs \<union> set ys" for r
      using that by (auto simp: series_key_def)
    then have "filter (\<lambda>r. encodable r \<and> series_key r = series_key q) xs = []"
      "filter (\<lambda>r. encodable r \<and> series_key r = series_key q) ys = []"
      by (auto simp: filter_empty_conv)
    moreover have "encodable q" using assms(2) q by (simp add: list_all_iff)
    ultimately show "\<exists>rs. filter (\<lambda>r. encodable r \<and> series_key r = series_key q) ps = rs @ [q]" by (simp add: ps)
  qed
  then show ?thesis using encoded_points_spec(2) by blast
qed

lemma device_id_label: "device_id_new n = Inr d \<Longrightarrow> device_label_ok (device_name d)"
proof -
  assume "device_id_new n = Inr d"
  then have d: "device_name d \<noteq> []" "length (device_name d) \<le> 64" "list_all device_id_byte (device_name d)"
    using device_id_new_iff by auto
  have "\<not> control_byte c" if "device_id_byte c" for c
    using that by (auto simp: device_id_byte_def is_ascii_alphanumeric_def control_byte_def Let_def)
  with d show ?thesis
    by (auto simp: device_label_ok_def validate_label_value_def list_all_iff list_ex_iff)
qed

lemma charger_label_valid: "is_valid_state_value (charger_state_label st)"
  by (cases st) (simp_all add: is_valid_state_value_def)

lemma u64_as_f64_finite: "f64_is_finite (u64_as_f64 v)"
proof -
  have "unat v < 2 ^ 64" using unsigned_less [of v, where ?'a = nat] by simp
  then have "unat v \<le> 2 ^ 64" by (rule less_imp_le)
  from f64_in_of_nat [OF this] show ?thesis by (simp add: u64_as_f64_def f64_in_def)
qed

section \<open>Properties\<close>

text \<open>The view that the renderer makes of its context.\<close>

definition rendered_view :: "render_context \<Rightarrow> int option \<Rightarrow> sample_view" where
  "rendered_view c last_success =
     sample_view_of (device_name (rc_device c)) (s_observed_at (rc_sample c) div 1000000) (rc_sample c)
       (render_view c last_success)"


definition bulk_context :: render_context where
  "bulk_context =
     \<lparr>rc_device = \<lparr>device_name = ''solar''\<rparr>,
      rc_sample = (sb_build (sb_new \<lparr>device_name = ''solar''\<rparr> 5000000))\<lparr>s_charger_state := Some CsBulk\<rparr>,
      rc_resolved_yield_kwh = F64_Fin 0, rc_energy_kind = EkStarted, rc_ble_up = Some True, rc_ble_rssi_dbm = Some (- 61),
      rc_last_success = Some 5000000, rc_sample_age = None, rc_health = health_new, rc_spool_depth = 1,
      rc_spool_oldest_age = Some 0, rc_energy_gap_skipped_seconds = 0\<rparr>"


end
