(* ===== verification/Http_Client.thy ===== *)
theory Http_Client
  imports Http_Request Http_Response Metric_Sample
begin

text \<open>
  \<open>victron-metrics\<close>, \<open>victoria_metrics.rs\<close>: one import, from connecting to the classification of its outcome; and
  \<open>VictoriaMetricsDelivery\<close> of the collector's \<open>adapters/delivery.rs\<close>. A response is understood the same in
  whatever pieces it arrives, and the service retries exactly what the client calls retryable.
\<close>

section \<open>Outcomes\<close>

record import_failure =
  if_category :: failure_category
  if_status :: "nat option"
  if_message :: string

datatype import_outcome = OcSuccess | OcRetryable import_failure | OcPermanent import_failure

fun is_success :: "import_outcome \<Rightarrow> bool" where
  "is_success OcSuccess = True"
| "is_success _ = False"

fun should_retry :: "import_outcome \<Rightarrow> bool" where
  "should_retry (OcRetryable f) = True"
| "should_retry _ = False"

definition failure_new :: "failure_category \<Rightarrow> nat option \<Rightarrow> string \<Rightarrow> import_failure" where
  "failure_new category status message = \<lparr>if_category = category, if_status = status, if_message = message\<rparr>"

record raw_response =
  rr_status :: nat
  rr_reason :: string
  rr_body :: string

definition DEFAULT_CONNECT_TIMEOUT :: duration where
  "DEFAULT_CONNECT_TIMEOUT = 5 * 1000000000"

definition DEFAULT_READ_TIMEOUT :: duration where
  "DEFAULT_READ_TIMEOUT = 10 * 1000000000"

definition MAX_ERROR_BODY_BYTES :: nat where
  "MAX_ERROR_BODY_BYTES = 16 * 1024"

definition MAX_HEADER_BYTES :: nat where
  "MAX_HEADER_BYTES = 16 * 1024"

definition MAX_INTERIM_RESPONSES :: nat where
  "MAX_INTERIM_RESPONSES = 8"

definition MAX_MESSAGE_CHARS :: nat where
  "MAX_MESSAGE_CHARS = 300"

definition truncate_text :: "string \<Rightarrow> nat \<Rightarrow> string" where
  "truncate_text s n =
     concat (take n (utf8_chars s)) @ (if length (utf8_chars s) > n then utf8 [226, 128, 166] else [])"

definition truncate_lossy :: "string \<Rightarrow> nat \<Rightarrow> string" where
  "truncate_lossy bs n = truncate_text (utf8_lossy bs) n"

definition classify_response :: "raw_response \<Rightarrow> import_outcome" where
  "classify_response raw =
     (let status = rr_status raw;
          message = ''HTTP '' @ nat_to_dec status @ '' '' @ rr_reason raw
            @ (if rr_body raw = [] then [] else '': '' @ truncate_lossy (rr_body raw) MAX_MESSAGE_CHARS);
          failure = failure_new FcHttp (Some status) message in
      if 200 \<le> status \<and> status \<le> 299 then OcSuccess
      else if status = 408 \<or> status = 429 \<or> 500 \<le> status \<and> status \<le> 599 then OcRetryable failure
      else OcPermanent failure)"

section \<open>The client\<close>

record http_client =
  hc_host :: string
  hc_port :: nat
  hc_path :: string
  hc_connect_timeout :: duration
  hc_read_timeout :: duration
  hc_max_error_body :: nat

definition client_new :: "string \<Rightarrow> client_config_error + http_client" where
  "client_new base_url =
     try_bind (parse_http_url base_url) (\<lambda>(host, port, path).
       Inr \<lparr>hc_host = host, hc_port = port, hc_path = path, hc_connect_timeout = DEFAULT_CONNECT_TIMEOUT,
            hc_read_timeout = DEFAULT_READ_TIMEOUT, hc_max_error_body = MAX_ERROR_BODY_BYTES\<rparr>)"

definition with_timeouts :: "duration \<Rightarrow> duration \<Rightarrow> http_client \<Rightarrow> http_client" where
  "with_timeouts connect rd c = c\<lparr>hc_connect_timeout := connect, hc_read_timeout := rd\<rparr>"

definition with_max_error_body :: "nat \<Rightarrow> http_client \<Rightarrow> http_client" where
  "with_max_error_body n c = c\<lparr>hc_max_error_body := n\<rparr>"

text \<open>What the network does in one attempt: the connect, the write of the request, what the peer sends, and
  whether the overall deadline passes first.\<close>

datatype attempt = Completes | FailsWith string | TimesOut

record network =
  nw_connect :: attempt
  nw_write :: attempt
  nw_input :: "net_event list"
  nw_deadline :: bool

text \<open>\<open>read_response\<close> from the response after \<open>interim\<close> informational ones.\<close>

function read_response :: "(string \<Rightarrow> string) \<Rightarrow> nat \<Rightarrow> nat \<Rightarrow> conn \<Rightarrow> import_failure + raw_response" where
  "read_response dbg max_body interim c =
     (if interim > MAX_INTERIM_RESPONSES
      then Inl (failure_new FcMalformedResponse None
             (''too many interim 1xx responses (>'' @ nat_to_dec MAX_INTERIM_RESPONSES @ '')''))
      else
        case read_head MAX_HEADER_BYTES c of
          Inl (cat, msg) \<Rightarrow> Inl (failure_new cat None msg)
        | Inr ((status_line, header_block), c1) \<Rightarrow>
            (case parse_status_line status_line of
               None \<Rightarrow> Inl (failure_new FcMalformedResponse None (''unparseable status line: '' @ truncate_text status_line 80))
             | Some (code, reason) \<Rightarrow>
                 if 100 \<le> code \<and> code \<le> 199 then
                   (if code = 101
                    then Inl (failure_new FcMalformedResponse (Some 101) ''HTTP 101 Switching Protocols is not supported'')
                    else read_response dbg max_body (interim + 1) c1)
                 else
                   (case read_body dbg code (parse_headers header_block) max_body c1 of
                      Inl (cat, msg) \<Rightarrow> Inl (failure_new cat (Some code) msg)
                    | Inr (body, c2) \<Rightarrow> Inr \<lparr>rr_status = code, rr_reason = reason, rr_body = body\<rparr>)))"
  by pat_completeness auto
termination
  by (relation "measure (\<lambda>(dbg, max_body, interim, c). Suc MAX_INTERIM_RESPONSES - interim)") auto

declare read_response.simps [simp del]

definition import_inner :: "(string \<Rightarrow> string) \<Rightarrow> http_client \<Rightarrow> network \<Rightarrow> import_outcome" where
  "import_inner dbg client net =
     (case nw_connect net of
        FailsWith e \<Rightarrow> OcRetryable (failure_new FcNetwork None (''connect failed: '' @ e))
      | TimesOut \<Rightarrow> OcRetryable (failure_new FcTimeout None ''connect timed out'')
      | Completes \<Rightarrow>
          (case nw_write net of
             FailsWith e \<Rightarrow> OcRetryable (failure_new FcNetwork None (''request write failed: '' @ e))
           | TimesOut \<Rightarrow> OcRetryable (failure_new FcTimeout None ''request write timed out'')
           | Completes \<Rightarrow>
               (case read_response dbg (hc_max_error_body client) 0 ([], nw_input net) of
                  Inr raw \<Rightarrow> classify_response raw
                | Inl failure \<Rightarrow> OcRetryable failure)))"

definition vm_import :: "(string \<Rightarrow> string) \<Rightarrow> http_client \<Rightarrow> network \<Rightarrow> import_outcome" where
  "vm_import dbg client net =
     (if nw_deadline net then OcRetryable (failure_new FcTimeout None ''overall deadline exceeded'')
      else import_inner dbg client net)"

section \<open>The delivery adapter\<close>

fun map_failure :: "import_failure \<Rightarrow> delivery_error" where
  "map_failure f =
     (case (if_category f, if_status f) of
        (FcNetwork, _) \<Rightarrow> DeTransport (if_message f)
      | (FcTimeout, _) \<Rightarrow> DeTimeout
      | (FcMalformedResponse, _) \<Rightarrow> DeMalformedResponse (if_message f)
      | (FcHttp, Some status) \<Rightarrow> DeHttp (word_of_nat status)
      | (FcHttp, None) \<Rightarrow> DeRejected (if_message f))"

definition vm_delivery_new :: "(string \<Rightarrow> string) \<Rightarrow> string \<Rightarrow> duration \<Rightarrow> delivery_error + http_client" where
  "vm_delivery_new dbg url request_timeout =
     try_bind (map_err (\<lambda>e. DeRejected (client_config_error_fmt dbg e)) (client_new url)) (\<lambda>client.
       Inr (with_timeouts request_timeout request_timeout client))"

text \<open>A delivery: \<open>exchange\<close> is the network, which is given the bytes of the request.\<close>

definition vm_deliver ::
  "(string \<Rightarrow> string) \<Rightarrow> http_client \<Rightarrow> (string \<Rightarrow> 'x \<Rightarrow> network \<times> 'x) \<Rightarrow> bytes \<Rightarrow> 'x \<Rightarrow> (delivery_error + unit) \<times> 'x" where
  "vm_deliver dbg client exchange payload x =
     (let body = bytes_text payload in
      if \<not> utf8_valid body then (Inl (DeRejected ''metrics payload is not UTF-8''), x)
      else
        (case exchange (build_request (hc_host client) (hc_port client) (hc_path client) body) x of
           (net, x') \<Rightarrow>
             (case vm_import dbg client net of
                OcSuccess \<Rightarrow> (Inr (), x')
              | OcRetryable failure \<Rightarrow> (Inl (map_failure failure), x')
              | OcPermanent failure \<Rightarrow> (Inl (map_failure failure), x'))))"

section \<open>What a server says\<close>

definition head_text :: "string list \<Rightarrow> string" where
  "head_text ls = join_lines ls @ CRLF @ CRLF"

definition head_ok :: "string list \<Rightarrow> bool" where
  "head_ok ls \<longleftrightarrow> ls \<noteq> [] \<and> list_all line_ok ls \<and> ascii (join_lines ls) \<and> length (join_lines ls) + 3 \<le> MAX_HEADER_BYTES"

lemma split_head: "list_all line_ok (l # hs) \<Longrightarrow>
    (case split_once CRLF (join_lines (l # hs)) of Some (a, b) \<Rightarrow> (a, b) | None \<Rightarrow> (join_lines (l # hs), []))
      = (l, join_lines hs)"
proof (cases hs)
  case Nil
  assume "list_all line_ok (l # hs)"
  then show ?thesis by (simp add: Nil line_ok_def CRLF_def split_once_absent)
next
  case (Cons h hs')
  assume "list_all line_ok (l # hs)"
  then show ?thesis using split_once_free [of "CHR 0x0D" l "[CHR 0x0A]" "join_lines hs"]
    by (simp add: Cons line_ok_def CRLF_def)
qed

lemma read_head_text:
  assumes "head_ok ls" "stream c (head_text ls @ t)"
  shows "\<exists>c'. read_head MAX_HEADER_BYTES c = Inr ((hd ls, join_lines (tl ls)), c') \<and> stream c' t"
proof -
  from assms(1) have ls: "ls \<noteq> []" "list_all line_ok ls" "ascii (join_lines ls)"
    "length (join_lines ls) + 3 \<le> MAX_HEADER_BYTES" by (simp_all add: head_ok_def)
  have s: "stream c (join_lines ls @ CRLF @ CRLF @ t)" using assms(2) by (simp add: head_text_def)
  have t: "take (length (join_lines ls)) (join_lines ls @ CRLF @ CRLF @ t) = join_lines ls"
    "drop (length (join_lines ls) + 4) (join_lines ls @ CRLF @ CRLF @ t) = t"
    by (simp_all add: CRLF_def)
  obtain l hs where l: "ls = l # hs" using ls(1) by (cases ls) auto
  from read_head_stream [OF s find_blank_line [OF ls(1,2)] ls(4)] show ?thesis
    unfolding t utf8_lossy_ascii [OF ls(3)] unfolding l split_head [OF ls(2) [unfolded l]] by simp
qed

text \<open>How a body follows the headers: none, in chunks, with a length, or up to the end of the connection.\<close>

inductive body_follows :: "nat \<Rightarrow> headers \<Rightarrow> string \<Rightarrow> string \<Rightarrow> bool" where
  no_body: "code = 204 \<or> code = 304 \<Longrightarrow> body_follows code hs t []"
| in_chunks: "code \<noteq> 204 \<Longrightarrow> code \<noteq> 304 \<Longrightarrow> is_chunked hs \<Longrightarrow> size_line_ok final 0
    \<Longrightarrow> \<forall>(l, d) \<in> set chs. d \<noteq> [] \<and> size_line_ok l (length d)
    \<Longrightarrow> body_follows code hs (chunks_text chs final) (concat (map snd chs))"
| with_length: "code \<noteq> 204 \<Longrightarrow> code \<noteq> 304 \<Longrightarrow> \<not> is_chunked hs \<Longrightarrow> content_length hs = Some (length body)
    \<Longrightarrow> body_follows code hs (body @ t) body"
| to_close: "code \<noteq> 204 \<Longrightarrow> code \<noteq> 304 \<Longrightarrow> \<not> is_chunked hs \<Longrightarrow> content_length hs = None
    \<Longrightarrow> body_follows code hs body body"

lemma read_body_text:
  assumes "body_follows code hs t body" "stream c t"
  shows "\<exists>c'. read_body dbg code hs mx c = Inr (take mx body, c')"
  using assms
proof cases
  case no_body
  then show ?thesis by (auto simp: read_body_def)
next
  case (in_chunks final chs)
  with read_chunks_stream [of c chs final "[]" mx dbg] assms(2) obtain b c' where
    "read_chunks dbg mx [] c = Inr (b, c')" "take mx b = take mx body" by auto
  with in_chunks show ?thesis by (simp add: read_body_def read_chunked_def)
next
  case (with_length t')
  let ?n = "min (length body) (mx + 1)"
  have n: "?n \<le> length t" "take ?n t = take ?n body" using with_length(1) by simp_all
  from read_bytes_stream [OF assms(2) n(1), of 4096] obtain c' where
    "read_bytes 4096 ?n c = Inr (take ?n body, c')" unfolding n(2) by blast
  moreover have "take mx (take ?n body) = take mx body" by (simp add: min_def)
  ultimately show ?thesis using with_length by (simp add: read_body_def)
next
  case to_close
  from assms(2) obtain segs where c: "snd c = map Arrived segs" "fst c @ concat segs = t" by (auto simp: stream_def)
  from read_to_close_stream [of mx "fst c" segs] c to_close show ?thesis by (auto simp: read_body_def)
qed

definition interim_head :: "string list \<Rightarrow> bool" where
  "interim_head ls \<longleftrightarrow> head_ok ls \<and>
     (\<exists>code reason. parse_status_line (hd ls) = Some (code, reason) \<and> 100 \<le> code \<and> code \<le> 199 \<and> code \<noteq> 101)"

lemma read_response_text:
  assumes "head_ok ls" "parse_status_line (hd ls) = Some (code, reason)" "\<not> (100 \<le> code \<and> code \<le> 199)"
    "body_follows code (parse_headers (join_lines (tl ls))) t body"
  shows "list_all interim_head ints \<Longrightarrow> n + length ints \<le> MAX_INTERIM_RESPONSES
    \<Longrightarrow> stream c (concat (map head_text ints) @ head_text ls @ t)
    \<Longrightarrow> read_response dbg mx n c = Inr \<lparr>rr_status = code, rr_reason = reason, rr_body = take mx body\<rparr>"
proof (induction ints arbitrary: n c)
  case Nil
  then have s: "stream c (head_text ls @ t)" by simp
  from read_head_text [OF assms(1) s] obtain c1 where
    c1: "read_head MAX_HEADER_BYTES c = Inr ((hd ls, join_lines (tl ls)), c1)" "stream c1 t" by blast
  from read_body_text [OF assms(4) c1(2)] obtain c2 where
    "read_body dbg code (parse_headers (join_lines (tl ls))) mx c1 = Inr (take mx body, c2)" ..
  moreover have "(100 \<le> code \<and> code \<le> 199) = False" "(MAX_INTERIM_RESPONSES < n) = False" using assms(3) Nil(2) by auto
  ultimately show ?case using c1(1) assms(2)
    by (simp only: read_response.simps [of dbg mx n c] sum.case prod.case option.case if_False)
next
  case (Cons i ints)
  from Cons(2) obtain k r where i: "head_ok i" "parse_status_line (hd i) = Some (k, r)" "100 \<le> k \<and> k \<le> 199" "k \<noteq> 101"
    by (auto simp: interim_head_def)
  let ?t = "concat (map head_text ints) @ head_text ls @ t"
  from Cons(4) have "stream c (head_text i @ ?t)" by simp
  from read_head_text [OF i(1) this] obtain c1 where
    c1: "read_head MAX_HEADER_BYTES c = Inr ((hd i, join_lines (tl i)), c1)" "stream c1 ?t" by blast
  have "read_response dbg mx (n + 1) c1 = Inr \<lparr>rr_status = code, rr_reason = reason, rr_body = take mx body\<rparr>"
    using Cons(2,3) by (intro Cons.IH [OF _ _ c1(2)]) simp_all
  with c1(1) i Cons(3) show ?case by (simp add: read_response.simps [of dbg mx n c])
qed

section \<open>Properties\<close>

text \<open>C26: A response is understood the same in whatever pieces it arrives: after at most eight informational
  responses, a response with its body in chunks, with a length, up to the end of the connection, or without
  one, gives the outcome of its status, with the body cut at the limit.\<close>

theorem response_in_any_pieces:
  assumes "nw_deadline net = False" "nw_connect net = Completes" "nw_write net = Completes"
    and "nw_input net = map Arrived pieces"
    and "concat pieces = concat (map head_text ints) @ head_text ls @ t"
    and "list_all interim_head ints" "length ints \<le> MAX_INTERIM_RESPONSES"
    and "head_ok ls" "parse_status_line (hd ls) = Some (code, reason)" "\<not> (100 \<le> code \<and> code \<le> 199)"
    and "body_follows code (parse_headers (join_lines (tl ls))) t body"
  shows "vm_import dbg client net
    = classify_response \<lparr>rr_status = code, rr_reason = reason, rr_body = take (hc_max_error_body client) body\<rparr>"
proof -
  have "stream ([], nw_input net) (concat (map head_text ints) @ head_text ls @ t)"
    using assms(4,5) by (auto simp: stream_def)
  from read_response_text [OF assms(8-11) assms(6) _ this, of 0] assms(1-3,7) show ?thesis
    by (simp add: vm_import_def import_inner_def)
qed

definition no_content :: "string list" where
  "no_content = [''HTTP/1.1 204 No Content'', ''Server: vm'']"

definition test_client :: http_client where
  "test_client = \<lparr>hc_host = ''h'', hc_port = 80, hc_path = ''/'', hc_connect_timeout = 1, hc_read_timeout = 1,
                  hc_max_error_body = MAX_ERROR_BODY_BYTES\<rparr>"

theorem response_in_any_pieces_witness:
  "vm_import (\<lambda>s. s) test_client
     \<lparr>nw_connect = Completes, nw_write = Completes,
      nw_input = map Arrived [take 9 (head_text no_content), drop 9 (head_text no_content)], nw_deadline = False\<rparr>
   = OcSuccess"
proof -
  have "line_ok l" if "l \<in> set no_content" for l
    using that by (auto simp: no_content_def line_ok_def)
  moreover have "ascii (join_lines no_content)" unfolding no_content_def by code_simp
  moreover have "length (join_lines no_content) + 3 \<le> MAX_HEADER_BYTES" unfolding no_content_def by code_simp
  ultimately have ok: "head_ok no_content"
    by (auto simp: head_ok_def list_all_iff no_content_def)
  have "parse_unsigned 10 65535 ''204'' = Some 204"
    by (simp add: parse_unsigned_def digit_of_def)
  then have status: "parse_status_line (hd no_content) = Some (204, ''No Content'')"
    using split_once_free [of "CHR '' ''" "''HTTP/1.1''" "[]" "''204 No Content''"]
      split_once_free [of "CHR '' ''" "''204''" "[]" "''No Content''"]
    by (simp add: no_content_def parse_status_line_def starts_with_def)
  have body: "body_follows 204 hs [] []" for hs by (rule no_body) simp
  have "vm_import (\<lambda>s. s) test_client
     \<lparr>nw_connect = Completes, nw_write = Completes,
      nw_input = map Arrived [take 9 (head_text no_content), drop 9 (head_text no_content)], nw_deadline = False\<rparr>
   = classify_response \<lparr>rr_status = 204, rr_reason = ''No Content'', rr_body = take (hc_max_error_body test_client) []\<rparr>"
    by (rule response_in_any_pieces [where ints = "[]" and t = "[]"
        and pieces = "[take 9 (head_text no_content), drop 9 (head_text no_content)]", OF _ _ _ _ _ _ _ ok status _ body]) simp_all
  then show ?thesis by (simp add: classify_response_def)
qed

lemma parse_unsigned_le: "parse_unsigned r m s = Some n \<Longrightarrow> n \<le> m"
  by (auto simp: parse_unsigned_def Let_def split: if_splits)

lemma parse_status_le: "parse_status_line l = Some (k, r) \<Longrightarrow> k \<le> 65535"
  by (auto simp: parse_status_line_def Let_def dest: parse_unsigned_le split: if_splits option.splits prod.splits)

lemma timed_read_category: "timed_read n es = (Inl e, es') \<Longrightarrow> fst e \<noteq> FcHttp"
  by (induction n es rule: timed_read.induct) (auto split: if_splits)

lemma read_more_category: "read_more n c = Inl e \<Longrightarrow> fst e \<noteq> FcHttp"
  by (auto simp: read_more_def dest: timed_read_category split: prod.splits sum.splits if_splits)

lemma read_head_category: "read_head mx c = Inl e \<Longrightarrow> fst e \<noteq> FcHttp"
  by (induction mx c rule: read_head.induct, subst (asm) (2) read_head.simps)
    (auto simp: Let_def dest: read_more_category split: option.splits if_splits sum.splits)

lemma read_line_category: "read_line mx c = Inl e \<Longrightarrow> fst e \<noteq> FcHttp"
  by (induction mx c rule: read_line.induct, subst (asm) (2) read_line.simps)
    (auto dest: read_more_category split: option.splits if_splits sum.splits)

lemma read_bytes_category: "read_bytes k n c = Inl e \<Longrightarrow> fst e \<noteq> FcHttp"
  by (induction k n c rule: read_bytes.induct, subst (asm) (2) read_bytes.simps)
    (auto dest: read_more_category split: if_splits sum.splits)

lemma read_trailers_category: "read_trailers c = Inl e \<Longrightarrow> fst e \<noteq> FcHttp"
  by (induction c rule: read_trailers.induct, subst (asm) (2) read_trailers.simps)
    (auto dest: read_line_category split: if_splits sum.splits prod.splits)

lemma read_to_close_category: "read_to_close mx body es = Inl e \<Longrightarrow> fst e \<noteq> FcHttp"
  by (induction mx body es rule: read_to_close.induct, subst (asm) (2) read_to_close.simps)
    (auto dest: timed_read_category split: if_splits sum.splits prod.splits)

lemma map_sum_Inl: "map_sum f g x = Inl e \<longleftrightarrow> (\<exists>a. x = Inl a \<and> e = f a)"
  by (cases x) auto

lemma read_chunks_category: "read_chunks dbg mx body c = Inl e \<Longrightarrow> fst e \<noteq> FcHttp"
  by (induction dbg mx body c rule: read_chunks.induct, subst (asm) (2) read_chunks.simps)
    (auto simp: map_sum_Inl read_exact_def dest: read_line_category read_trailers_category read_bytes_category
      split: if_splits sum.splits prod.splits option.splits)

lemma read_body_category: "read_body dbg code hs mx c = Inl e \<Longrightarrow> fst e \<noteq> FcHttp"
  by (auto simp: read_body_def read_chunked_def map_sum_Inl
      dest: read_chunks_category read_bytes_category read_to_close_category split: if_splits option.splits)

lemma read_response_category: "read_response dbg mx n c = Inl f \<Longrightarrow> if_category f \<noteq> FcHttp"
proof (induction dbg mx n c rule: read_response.induct)
  case (1 dbg mx n c)
  show ?case
  proof (cases "n > MAX_INTERIM_RESPONSES")
    case True
    with 1(2) show ?thesis by (auto simp: read_response.simps [of dbg mx n c] failure_new_def)
  next
    case False
    with 1 show ?thesis
      by (auto simp: read_response.simps [of dbg mx n c] failure_new_def
          dest: read_head_category read_body_category split: sum.splits option.splits if_splits prod.splits)
  qed
qed

lemma read_response_status: "read_response dbg mx n c = Inr raw \<Longrightarrow> rr_status raw \<le> 65535"
proof (induction dbg mx n c rule: read_response.induct)
  case (1 dbg mx n c)
  then show ?case
    by (auto simp: read_response.simps [of dbg mx n c]
        dest: parse_status_le split: sum.splits option.splits if_splits prod.splits)
qed

definition retry_status :: "nat \<Rightarrow> bool" where
  "retry_status k \<longleftrightarrow> k = 408 \<or> k = 429 \<or> 500 \<le> k \<and> k \<le> 599"

lemma classified:
  "\<exists>f. if_category f = FcHttp \<and> if_status f = Some (rr_status raw) \<and>
     classify_response raw = (if 200 \<le> rr_status raw \<and> rr_status raw \<le> 299 then OcSuccess
       else if retry_status (rr_status raw) then OcRetryable f else OcPermanent f)"
  unfolding classify_response_def failure_new_def retry_status_def Let_def
  by (rule exI, intro conjI) (rule import_failure.select_convs refl)+

lemma vm_import_cases:
  obtains (success) "vm_import dbg client net = OcSuccess"
  | (no_answer) f where "vm_import dbg client net = OcRetryable f" "if_category f \<noteq> FcHttp"
  | (again) f k where "vm_import dbg client net = OcRetryable f" "if_category f = FcHttp" "if_status f = Some k"
      "retry_status k" "k \<le> 65535"
  | (refused) f k where "vm_import dbg client net = OcPermanent f" "if_category f = FcHttp" "if_status f = Some k"
      "\<not> retry_status k" "k \<le> 65535"
proof (cases "nw_deadline net \<or> nw_connect net \<noteq> Completes \<or> nw_write net \<noteq> Completes")
  case True
  then have "\<exists>f. vm_import dbg client net = OcRetryable f \<and> if_category f \<noteq> FcHttp"
    by (cases "nw_connect net"; cases "nw_write net") (auto simp: vm_import_def import_inner_def failure_new_def)
  with no_answer show ?thesis by blast
next
  case False
  show ?thesis
  proof (cases "read_response dbg (hc_max_error_body client) 0 ([], nw_input net)")
    case (Inl f)
    with False read_response_category [OF Inl] no_answer show ?thesis by (simp add: vm_import_def import_inner_def)
  next
    case (Inr raw)
    then have o: "vm_import dbg client net = classify_response raw"
      using False by (simp add: vm_import_def import_inner_def)
    from classified [of raw] obtain f where f: "if_category f = FcHttp" "if_status f = Some (rr_status raw)"
      "classify_response raw = (if 200 \<le> rr_status raw \<and> rr_status raw \<le> 299 then OcSuccess
         else if retry_status (rr_status raw) then OcRetryable f else OcPermanent f)" by blast
    show ?thesis
      using success again [of f, OF _ f(1,2) _ read_response_status [OF Inr]]
        refused [of f, OF _ f(1,2) _ read_response_status [OF Inr]]
      unfolding o f(3)
      by (cases "200 \<le> rr_status raw \<and> rr_status raw \<le> 299"; cases "retry_status (rr_status raw)")
        (simp_all only: if_True if_False not_False_eq_True simp_thms)
  qed
qed

lemma map_failure_no_answer: "if_category f \<noteq> FcHttp \<Longrightarrow> retryable (map_failure f)"
  by (cases "if_category f") auto

lemma map_failure_answer:
  "if_category f = FcHttp \<Longrightarrow> if_status f = Some k \<Longrightarrow> map_failure f = DeHttp (word_of_nat k)"
  by simp

lemma retryable_status: "k \<le> 65535 \<Longrightarrow> retryable (DeHttp (word_of_nat k)) \<longleftrightarrow> retry_status k"
proof -
  assume k: "k \<le> 65535"
  then have u: "unat (word_of_nat k :: u16) = k" by (simp add: unat_of_nat take_bit_nat_eq_self)
  show ?thesis by (simp add: retry_status_def word_le_nat_alt word_unat_eq_iff u)
qed

text \<open>C27: The service retries exactly what the client calls retryable. A delivery of UTF-8 text is accepted when the
  import succeeds, and otherwise fails with an error that the service retries exactly when the outcome of
  the import is retryable; a payload that is not UTF-8 is rejected for good, without a request.\<close>

theorem retry_agrees:
  "case vm_deliver dbg client exchange payload x of (r, x') \<Rightarrow>
     if utf8_valid (bytes_text payload) then
       (case exchange (build_request (hc_host client) (hc_port client) (hc_path client) (bytes_text payload)) x of
          (net, x1) \<Rightarrow> x' = x1 \<and>
            (case r of Inr _ \<Rightarrow> is_success (vm_import dbg client net)
             | Inl e \<Rightarrow> \<not> is_success (vm_import dbg client net)
                        \<and> retryable e = should_retry (vm_import dbg client net)))
     else x' = x \<and> (\<exists>m. r = Inl (DeRejected m))"
proof (cases "utf8_valid (bytes_text payload)")
  case False
  then show ?thesis by (simp add: vm_deliver_def)
next
  case True
  obtain net x1 where e: "exchange (build_request (hc_host client) (hc_port client) (hc_path client) (bytes_text payload)) x
      = (net, x1)" by fastforce
  show ?thesis
    by (cases rule: vm_import_cases [of dbg client net])
      (simp_all add: vm_deliver_def True e map_failure_no_answer map_failure_answer retryable_status
        del: retryable.simps map_failure.simps)
qed

end
