(* ===== verification/Ble_Transport.thy ===== *)
theory Ble_Transport
  imports Prelude
begin

text \<open>
  \<open>victron-bluez\<close>, \<open>error.rs\<close>, \<open>transport.rs\<close> and \<open>timeout.rs\<close>: the errors of the transport with their classes and
  texts, and the transport as the client sees it.

  A transport is code behind a trait, so it is a record of functions over a state \<open>'t\<close> of its own and of
  the world behind it. An asynchronous call ends with its result, or it is dropped: the deadline that the
  caller of the whole operation set has passed while it was waiting, and nothing after it is done. Loops
  that have no bound of their own count the notifications they take; \<open>Unfinished\<close> is the end of the count.
\<close>

section \<open>Errors\<close>

datatype error_class = EcTimeout | EcAuth | EcContention | EcNotFound | EcDbus | EcOther

datatype transport_error =
    TeAdapterNotFound string
  | TeAdapterNotPowered string
  | TeAdapterPowerFailed string
  | TeDeviceNotFound string
  | TeNotBonded string
  | TeNoVictronEvidence string
  | TeGattNotFound string
  | TeMissingFlag string string
  | TeTimeout string
  | TeAuth string
  | TeContention string
  | TeNotificationStopped
  | TeDbus string
  | TePayloadTooLarge nat nat
  | TeNotSupported string
  | TeInvalidState string
  | TeInvalidConfig string
  | TeOther string

fun te_class :: "transport_error \<Rightarrow> error_class" where
  "te_class (TeTimeout operation) = EcTimeout"
| "te_class (TeAuth detail) = EcAuth"
| "te_class (TeContention detail) = EcContention"
| "te_class (TeAdapterNotFound requested) = EcNotFound"
| "te_class (TeAdapterNotPowered adapter) = EcNotFound"
| "te_class (TeDeviceNotFound selector) = EcNotFound"
| "te_class (TeNotBonded selector) = EcNotFound"
| "te_class (TeNoVictronEvidence selector) = EcNotFound"
| "te_class (TeGattNotFound element) = EcNotFound"
| "te_class (TeMissingFlag element required) = EcNotFound"
| "te_class (TeAdapterPowerFailed adapter) = EcOther"
| "te_class (TeDbus detail) = EcDbus"
| "te_class TeNotificationStopped = EcOther"
| "te_class (TePayloadTooLarge len maximum) = EcOther"
| "te_class (TeNotSupported operation) = EcOther"
| "te_class (TeInvalidState operation) = EcOther"
| "te_class (TeInvalidConfig detail) = EcOther"
| "te_class (TeOther detail) = EcOther"

fun te_fmt :: "transport_error \<Rightarrow> string" where
  "te_fmt (TeAdapterNotFound requested) = ''adapter not found: '' @ [CHR 0x27] @ requested @ [CHR 0x27]"
| "te_fmt (TeAdapterNotPowered adapter) =
     ''adapter '' @ [CHR 0x27] @ adapter @ [CHR 0x27]
     @ '' is powered off; enable it manually (bluetoothctl power on) or opt into PowerPolicy::EnableIfOff''"
| "te_fmt (TeAdapterPowerFailed adapter) =
     ''adapter '' @ [CHR 0x27] @ adapter @ [CHR 0x27] @ '' could not be powered on''"
| "te_fmt (TeDeviceNotFound selector) = ''bonded device not found: '' @ [CHR 0x27] @ selector @ [CHR 0x27]"
| "te_fmt (TeNotBonded selector) =
     ''device '' @ [CHR 0x27] @ selector @ [CHR 0x27] @ '' is not paired; pair once via bluetoothctl''"
| "te_fmt (TeNoVictronEvidence selector) =
     ''device '' @ [CHR 0x27] @ selector @ [CHR 0x27] @ '' matched but shows no Victron advertisement evidence''"
| "te_fmt (TeGattNotFound element) = ''GATT element not found: '' @ element"
| "te_fmt (TeMissingFlag element required) =
     ''GATT characteristic '' @ element @ '' lacks required flag '' @ required"
| "te_fmt (TeTimeout operation) = ''BLE operation timed out: '' @ operation"
| "te_fmt (TeAuth detail) = ''BLE authentication failure: '' @ detail"
| "te_fmt (TeContention detail) = ''BLE contention: '' @ detail"
| "te_fmt TeNotificationStopped = ''BLE notification session stopped unexpectedly''"
| "te_fmt (TeDbus detail) = ''BlueZ D-Bus failure: '' @ detail"
| "te_fmt (TePayloadTooLarge len maximum) =
     ''payload of '' @ nat_to_dec len @ '' bytes exceeds write bound of '' @ nat_to_dec maximum @ '' bytes''"
| "te_fmt (TeNotSupported operation) = ''BLE operation not supported: '' @ operation"
| "te_fmt (TeInvalidState operation) = ''BLE transport in invalid state for: '' @ operation"
| "te_fmt (TeInvalidConfig detail) = ''invalid BLE configuration: '' @ detail"
| "te_fmt (TeOther detail) = ''BLE error: '' @ detail"

section \<open>Calls that may be dropped\<close>

datatype 'a await = Ready 'a | Dropped | Unfinished

fun await_map :: "('a \<Rightarrow> 'b) \<Rightarrow> 'a await \<Rightarrow> 'b await" where
  "await_map f (Ready x) = Ready (f x)"
| "await_map f Dropped = Dropped"
| "await_map f Unfinished = Unfinished"

lemma await_map_Unfinished [simp]: "await_map f r = Unfinished \<longleftrightarrow> r = Unfinished"
  by (cases r) simp_all

text \<open>What the caller's own deadline makes of it.\<close>

fun ready :: "'a await \<Rightarrow> 'a option" where
  "ready (Ready x) = Some x"
| "ready Dropped = None"
| "ready Unfinished = None"

text \<open>A call over a state \<open>'s\<close>, with errors \<open>'e\<close>; the \<open>?\<close> operator after an \<open>await\<close>.\<close>

type_synonym ('s, 'e, 'a) call = "'s \<Rightarrow> ('e + 'a) await \<times> 's"

definition call_bind :: "('s, 'e, 'a) call \<Rightarrow> ('a \<Rightarrow> ('s, 'e, 'b) call) \<Rightarrow> ('s, 'e, 'b) call" where
  "call_bind f k s =
     (case f s of
        (Ready (Inr x), s') \<Rightarrow> k x s'
      | (Ready (Inl e), s') \<Rightarrow> (Ready (Inl e), s')
      | (Dropped, s') \<Rightarrow> (Dropped, s')
      | (Unfinished, s') \<Rightarrow> (Unfinished, s'))"

definition call_return :: "'a \<Rightarrow> ('s, 'e, 'a) call" where
  "call_return x s = (Ready (Inr x), s)"

definition call_fail :: "'e \<Rightarrow> ('s, 'e, 'a) call" where
  "call_fail e s = (Ready (Inl e), s)"

definition call_result :: "'e + 'a \<Rightarrow> ('s, 'e, 'a) call" where
  "call_result r s = (Ready r, s)"

definition call_update :: "('s \<Rightarrow> 's) \<Rightarrow> ('s, 'e, unit) call" where
  "call_update f s = (Ready (Inr ()), f s)"

definition call_get :: "('s \<Rightarrow> 'a) \<Rightarrow> ('s, 'e, 'a) call" where
  "call_get f s = (Ready (Inr (f s)), s)"

abbreviation call_then :: "('s, 'e, 'a) call \<Rightarrow> ('s, 'e, 'b) call \<Rightarrow> ('s, 'e, 'b) call" where
  "call_then f g \<equiv> call_bind f (\<lambda>_. g)"

lemma call_bind_assoc: "call_bind (call_bind f g) h = call_bind f (\<lambda>x. call_bind (g x) h)"
  by (rule ext) (auto simp: call_bind_def split: prod.splits await.splits sum.splits)

section \<open>The transport\<close>

datatype notification_source = NsControl | NsLastData | NsData

record notification =
  n_source :: notification_source
  n_value :: bytes

text \<open>\<open>tp_next d\<close> is a wait for the next notification under \<open>tokio::time::timeout\<close> of \<open>d\<close>; \<open>None\<close> is that time
  passing first. \<open>tp_now\<close> is the monotone clock, in nanoseconds, and \<open>tp_sleep\<close> the timer.\<close>

record 't transport =
  tp_open :: "('t, transport_error, unit) call"
  tp_read_control :: "('t, transport_error, bytes) call"
  tp_write_control :: "bytes \<Rightarrow> ('t, transport_error, unit) call"
  tp_write_data :: "bytes \<Rightarrow> ('t, transport_error, unit) call"
  tp_write_last_data :: "bytes \<Rightarrow> ('t, transport_error, unit) call"
  tp_next :: "nat \<Rightarrow> ('t, transport_error, notification option) call"
  tp_rssi :: "('t, transport_error, int option) call"
  tp_close :: "'t \<Rightarrow> unit await \<times> 't"
  tp_now :: "'t \<Rightarrow> nat"
  tp_sleep :: "nat \<Rightarrow> 't \<Rightarrow> unit await \<times> 't"

text \<open>The transport of a test: the control value is known and the notifications come in order, one tick each;
  then it is silent.\<close>

definition scripted :: "bytes \<Rightarrow> (nat \<times> notification list) transport" where
  "scripted control =
     \<lparr>tp_open = call_return (), tp_read_control = call_return control,
      tp_write_control = (\<lambda>_. call_return ()), tp_write_data = (\<lambda>_. call_return ()),
      tp_write_last_data = (\<lambda>_. call_return ()),
      tp_next = (\<lambda>d (now, ns). case ns of
          [] \<Rightarrow> (Ready (Inr None), (now + d, []))
        | n # ns' \<Rightarrow> (Ready (Inr (Some n)), (now + 1, ns'))),
      tp_rssi = call_return None, tp_close = (\<lambda>t. (Ready (), t)),
      tp_now = fst, tp_sleep = (\<lambda>d (now, ns). (Ready (), (now + d, ns)))\<rparr>"

section \<open>Triples\<close>

text \<open>From a state of \<open>P\<close> a call ends in \<open>Q x\<close> when it gives the value \<open>x\<close>, and in \<open>E\<close> when it fails, is
  dropped, or does not finish.\<close>

fun end_ok :: "('a \<Rightarrow> 's \<Rightarrow> bool) \<Rightarrow> ('s \<Rightarrow> bool) \<Rightarrow> ('e + 'a) await \<Rightarrow> 's \<Rightarrow> bool" where
  "end_ok Q E (Ready (Inr x)) s = Q x s"
| "end_ok Q E (Ready (Inl e)) s = E s"
| "end_ok Q E Dropped s = E s"
| "end_ok Q E Unfinished s = E s"

lemma end_cases:
  obtains (good) x where "r = Ready (Inr x)" | (failed) e where "r = Ready (Inl e)"
  | (dropped) "r = Dropped" | (unfinished) "r = Unfinished"
proof (cases r)
  case (Ready v)
  then show ?thesis using good failed by (cases v) auto
qed (use dropped unfinished in auto)

definition triple :: "('s \<Rightarrow> bool) \<Rightarrow> ('s, 'e, 'a) call \<Rightarrow> ('a \<Rightarrow> 's \<Rightarrow> bool) \<Rightarrow> ('s \<Rightarrow> bool) \<Rightarrow> bool" where
  "triple P f Q E \<longleftrightarrow> (\<forall>s. P s \<longrightarrow> (case f s of (r, s') \<Rightarrow> end_ok Q E r s'))"

lemma tripleI: "(\<And>s r s'. P s \<Longrightarrow> f s = (r, s') \<Longrightarrow> end_ok Q E r s') \<Longrightarrow> triple P f Q E"
  by (auto simp: triple_def split: prod.splits)

lemma tripleD: "triple P f Q E \<Longrightarrow> P s \<Longrightarrow> f s = (r, s') \<Longrightarrow> end_ok Q E r s'"
  by (auto simp: triple_def)

lemma triple_bind:
  assumes "triple P f Q E" "\<And>x. triple (Q x) (k x) R E"
  shows "triple P (call_bind f k) R E"
proof (rule tripleI)
  fix s r s' assume s: "P s" "call_bind f k s = (r, s')"
  obtain q s1 where f: "f s = (q, s1)" by fastforce
  note e = tripleD [OF assms(1) s(1) f]
  show "end_ok R E r s'"
  proof (cases "\<exists>x. q = Ready (Inr x)")
    case True
    then obtain x where x: "q = Ready (Inr x)" ..
    with s(2) f have "k x s1 = (r, s')" by (simp add: call_bind_def)
    from tripleD [OF assms(2) _ this] e x show ?thesis by simp
  next
    case False
    with s(2) f e show ?thesis by (cases q) (auto simp: call_bind_def split: sum.splits)
  qed
qed

lemma end_ok_weaken: "end_ok Q E r s \<Longrightarrow> (\<And>x. Q x s \<Longrightarrow> Q' x s) \<Longrightarrow> (E s \<Longrightarrow> E' s) \<Longrightarrow> end_ok Q' E' r s"
  by (cases "(Q, E, r, s)" rule: end_ok.cases) auto

lemma triple_weaken:
  "triple P f Q E \<Longrightarrow> (\<And>s. P' s \<Longrightarrow> P s) \<Longrightarrow> (\<And>x s. Q x s \<Longrightarrow> Q' x s) \<Longrightarrow> (\<And>s. E s \<Longrightarrow> E' s) \<Longrightarrow> triple P' f Q' E'"
  by (rule tripleI) (blast intro: end_ok_weaken dest: tripleD)

lemma triple_return: "(\<And>s. P s \<Longrightarrow> Q x s) \<Longrightarrow> triple P (call_return x) Q E"
  by (simp add: triple_def call_return_def)

lemma triple_fail: "(\<And>s. P s \<Longrightarrow> E s) \<Longrightarrow> triple P (call_fail e) Q E"
  by (simp add: triple_def call_fail_def)

lemma triple_result: "(\<And>s x. P s \<Longrightarrow> r = Inr x \<Longrightarrow> Q x s) \<Longrightarrow> (\<And>s. P s \<Longrightarrow> E s) \<Longrightarrow> triple P (call_result r) Q E"
  by (cases r) (simp_all add: triple_def call_result_def)

lemma triple_update: "(\<And>s. P s \<Longrightarrow> Q () (f s)) \<Longrightarrow> triple P (call_update f) Q E"
  by (simp add: triple_def call_update_def)

lemma triple_get: "(\<And>s. P s \<Longrightarrow> Q (f s) s) \<Longrightarrow> triple P (call_get f) Q E"
  by (simp add: triple_def call_get_def)

lemma triple_if: "(b \<Longrightarrow> triple P f Q E) \<Longrightarrow> (\<not> b \<Longrightarrow> triple P g Q E) \<Longrightarrow> triple P (if b then f else g) Q E"
  by simp

lemma triple_option:
  "(v = None \<Longrightarrow> triple P f Q E) \<Longrightarrow> (\<And>x. v = Some x \<Longrightarrow> triple P (g x) Q E)
    \<Longrightarrow> triple P (case v of None \<Rightarrow> f | Some x \<Rightarrow> g x) Q E"
  by (cases v) simp_all

lemmas triple_rules = triple_return triple_fail triple_result triple_update triple_get triple_if triple_option

end
