(* ===== verification/Client_Session.thy ===== *)
theory Client_Session
  imports Ble_Transport Control Framing Response Service_Ports
begin

text \<open>
  \<open>victron-client\<close>, \<open>flow.rs\<close> and \<open>session.rs\<close>: one session with the charger over a transport. The session
  negotiates, subscribes, keeps the peer supplied with receive credit, reassembles messages, and answers a
  request for values with a message of the subscribed instance. Counters that only go to the log are left
  out. The loops over notifications count them; theory \<open>Client_Ends\<close> shows how many
  are enough.
\<close>

section \<open>Flow\<close>

definition RECEIVE_CREDIT_THRESHOLD :: u8 where
  "RECEIVE_CREDIT_THRESHOLD = 0x41"

record receive_credit =
  pending_chunks :: u8

definition credit_new :: receive_credit where
  "credit_new = \<lparr>pending_chunks = 0\<rparr>"

definition credit_record :: "receive_credit \<Rightarrow> notification_source \<Rightarrow> bytes option \<times> receive_credit" where
  "credit_record c source =
     (let c' = (if source = NsData \<or> source = NsLastData
                then c\<lparr>pending_chunks := sat_add (pending_chunks c) 1\<rparr> else c) in
      if RECEIVE_CREDIT_THRESHOLD \<le> pending_chunks c'
      then (Some [0xf9, pending_chunks c'], c'\<lparr>pending_chunks := 0\<rparr>)
      else (None, c'))"

definition credit_clear :: "receive_credit \<Rightarrow> receive_credit" where
  "credit_clear c = c\<lparr>pending_chunks := 0\<rparr>"

definition map_protocol_error :: "protocol_error \<Rightarrow> ble_error" where
  "map_protocol_error e = BleOther ''protocol decode failed''"

definition map_reassembly_error :: "reassembly_error \<Rightarrow> ble_error" where
  "map_reassembly_error e = BleOther ''response reassembly failed''"

fun value_of_instance :: "u16 \<Rightarrow> response \<Rightarrow> bool" where
  "value_of_instance instance_id (Value i r d) = (i = ucast instance_id)"
| "value_of_instance instance_id _ = False"

definition payload_has_values :: "minicbor \<Rightarrow> bytes \<Rightarrow> u16 \<Rightarrow> ble_error + bool" where
  "payload_has_values mc payload instance_id =
     try_bind (map_err map_protocol_error (parse_response_stream mc payload)) (\<lambda>responses.
       Inr (list_ex (value_of_instance instance_id) responses))"

fun map_transport_error :: "transport_error \<Rightarrow> ble_error" where
  "map_transport_error e =
     (case te_class e of
        EcTimeout \<Rightarrow> (case e of TeTimeout operation \<Rightarrow> BleTimeout operation | _ \<Rightarrow> BleTimeout ''transport'')
      | EcAuth \<Rightarrow> BleAuthentication
      | EcContention \<Rightarrow> BleContention
      | EcNotFound \<Rightarrow> BleNotFound
      | EcDbus \<Rightarrow> BleTransport (te_fmt e)
      | EcOther \<Rightarrow> (case e of TeNotificationStopped \<Rightarrow> BleDisconnected | _ \<Rightarrow> BleOther (te_fmt e)))"

section \<open>The session\<close>

definition SUBSCRIBE_DRAIN_QUIET :: nat where
  "SUBSCRIBE_DRAIN_QUIET = 500 * 1000000"

definition SUBSCRIBE_DRAIN_BUDGET :: nat where
  "SUBSCRIBE_DRAIN_BUDGET = 2 * 1000000000"

record 't session =
  vs_transport :: 't
  vs_opened :: bool
  vs_negotiated :: bool
  vs_subscribed_instance :: "u16 option"
  vs_pending :: reassembler
  vs_receive_credit :: receive_credit
  vs_fallback_values :: "bytes option"
  vs_reusable :: bool

definition session_new :: "'t \<Rightarrow> 't session" where
  "session_new t = \<lparr>vs_transport = t, vs_opened = False, vs_negotiated = False, vs_subscribed_instance = None,
     vs_pending = ra_new, vs_receive_credit = credit_new, vs_fallback_values = None, vs_reusable = False\<rparr>"

text \<open>A call of the transport, with its own errors and with the errors of the service.\<close>

definition on_transport :: "('t, transport_error, 'a) call \<Rightarrow> ('t session, transport_error, 'a) call" where
  "on_transport f s = (case f (vs_transport s) of (r, t) \<Rightarrow> (r, s\<lparr>vs_transport := t\<rparr>))"

definition transport_call :: "('t, transport_error, 'a) call \<Rightarrow> ('t session, ble_error, 'a) call" where
  "transport_call f s = (case on_transport f s of (r, s') \<Rightarrow> (await_map (map_err map_transport_error) r, s'))"

definition pending_call ::
  "(reassembler \<Rightarrow> (reassembly_error + 'a) \<times> reassembler) \<Rightarrow> ('t session, ble_error, 'a) call" where
  "pending_call f s =
     (case f (vs_pending s) of (r, p) \<Rightarrow> (Ready (map_err map_reassembly_error r), s\<lparr>vs_pending := p\<rparr>))"

definition clear_pending :: "('t session, ble_error, unit) call" where
  "clear_pending = call_update (\<lambda>s. s\<lparr>vs_pending := ra_clear (vs_pending s)\<rparr>)"

fun write_chunks :: "'t transport \<Rightarrow> outbound_chunk list \<Rightarrow> ('t session, ble_error, unit) call" where
  "write_chunks tp [] = call_return ()"
| "write_chunks tp (c # cs) =
     call_then (transport_call (case target c of
         ToData \<Rightarrow> tp_write_data tp (chunk_bytes c)
       | ToLastData \<Rightarrow> tp_write_last_data tp (chunk_bytes c)))
     (write_chunks tp cs)"

definition write_request :: "'t transport \<Rightarrow> bytes \<Rightarrow> ('t session, ble_error, unit) call" where
  "write_request tp payload =
     call_bind (call_result (map_err map_protocol_error (split_request payload 20))) (write_chunks tp)"

definition record_credit :: "notification_source \<Rightarrow> ('t session, ble_error, bytes option) call" where
  "record_credit source s =
     (case credit_record (vs_receive_credit s) source of
        (credit, c) \<Rightarrow> (Ready (Inr credit), s\<lparr>vs_receive_credit := c\<rparr>))"

definition replenish_receive_credit :: "'t transport \<Rightarrow> notification_source \<Rightarrow> ('t session, ble_error, unit) call" where
  "replenish_receive_credit tp source =
     call_bind (record_credit source) (\<lambda>credit.
       case credit of
         None \<Rightarrow> call_return ()
       | Some frame \<Rightarrow> transport_call (tp_write_control tp frame))"

text \<open>One notification of a wait for a message: the message, if it is complete.\<close>

definition handle_notification :: "notification \<Rightarrow> ('t session, ble_error, bytes option) call" where
  "handle_notification n =
     (case n_source n of
        NsControl \<Rightarrow>
          (case cm_parse (n_value n) of
             Inr (CmError code) \<Rightarrow> call_fail (BlePeerControl code)
           | Inr ClearBuffer \<Rightarrow> call_then clear_pending (call_return None)
           | _ \<Rightarrow> call_return None)
      | NsData \<Rightarrow> call_then (pending_call (\<lambda>p. ra_push_data p (n_value n))) (call_return None)
      | NsLastData \<Rightarrow> pending_call (\<lambda>p. ra_push_last_data p (n_value n)))"

fun next_payload :: "nat \<Rightarrow> 't transport \<Rightarrow> nat \<Rightarrow> ('t session, ble_error, bytes) call" where
  "next_payload 0 tp deadline s = (Unfinished, s)"
| "next_payload (Suc fuel) tp deadline s =
     (let now = tp_now tp (vs_transport s) in
      if deadline < now then call_fail (BleTimeout ''response-deadline'') s
      else
        call_bind (transport_call (tp_next tp (deadline - now))) (\<lambda>received.
          case received of
            None \<Rightarrow> call_fail (BleTimeout ''response-deadline'')
          | Some n \<Rightarrow>
              call_then (replenish_receive_credit tp (n_source n)) (
              call_bind (handle_notification n) (\<lambda>payload.
                case payload of
                  None \<Rightarrow> next_payload fuel tp deadline
                | Some p \<Rightarrow> call_return p))) s)"

text \<open>One notification of the drain: a complete message with values of the instance is the fallback.\<close>

definition drain_notification :: "minicbor \<Rightarrow> u16 \<Rightarrow> notification \<Rightarrow> ('t session, ble_error, unit) call" where
  "drain_notification mc instance_id n =
     (case n_source n of
        NsControl \<Rightarrow> if cm_parse (n_value n) = Inr ClearBuffer then clear_pending else call_return ()
      | NsData \<Rightarrow> pending_call (\<lambda>p. ra_push_data p (n_value n))
      | NsLastData \<Rightarrow>
          call_bind (pending_call (\<lambda>p. ra_push_last_data p (n_value n))) (\<lambda>complete.
            case complete of
              None \<Rightarrow> call_return ()
            | Some payload \<Rightarrow>
                if payload_has_values mc payload instance_id = Inr True
                then call_update (\<lambda>s. s\<lparr>vs_fallback_values := Some payload\<rparr>)
                else call_return ()))"

fun drain_loop :: "nat \<Rightarrow> 't transport \<Rightarrow> minicbor \<Rightarrow> u16 \<Rightarrow> nat \<Rightarrow> ('t session, ble_error, unit) call" where
  "drain_loop 0 tp mc instance_id deadline s = (Unfinished, s)"
| "drain_loop (Suc fuel) tp mc instance_id deadline s =
     (let now = tp_now tp (vs_transport s) in
      if deadline < now then call_return () s
      else
        case on_transport (tp_next tp (min (deadline - now) SUBSCRIBE_DRAIN_QUIET)) s of
          (Ready (Inr None), s') \<Rightarrow> (Ready (Inr ()), s')
        | (Ready (Inl (TeTimeout operation)), s') \<Rightarrow> (Ready (Inr ()), s')
        | (Ready (Inl e), s') \<Rightarrow> (Ready (Inl (map_transport_error e)), s')
        | (Ready (Inr (Some n)), s') \<Rightarrow>
            call_then (replenish_receive_credit tp (n_source n)) (
            call_then (drain_notification mc instance_id n) (
            drain_loop fuel tp mc instance_id deadline)) s'
        | (Dropped, s') \<Rightarrow> (Dropped, s')
        | (Unfinished, s') \<Rightarrow> (Unfinished, s'))"

definition drain_completed_payloads ::
  "nat \<Rightarrow> 't transport \<Rightarrow> minicbor \<Rightarrow> u16 \<Rightarrow> ('t session, ble_error, unit) call" where
  "drain_completed_payloads fuel tp mc instance_id =
     call_then clear_pending (
     call_then (call_update (\<lambda>s. s\<lparr>vs_fallback_values := None\<rparr>)) (
     call_bind (call_get (\<lambda>s. tp_now tp (vs_transport s))) (\<lambda>started.
       drain_loop fuel tp mc instance_id (started + SUBSCRIBE_DRAIN_BUDGET))))"

fun wait_for_values :: "nat \<Rightarrow> 't transport \<Rightarrow> minicbor \<Rightarrow> u16 \<Rightarrow> nat \<Rightarrow> ('t session, ble_error, bytes) call" where
  "wait_for_values 0 tp mc instance_id deadline s = (Unfinished, s)"
| "wait_for_values (Suc fuel) tp mc instance_id deadline s =
     call_bind (next_payload (Suc fuel) tp deadline) (\<lambda>payload.
     call_bind (call_result (payload_has_values mc payload instance_id)) (\<lambda>correlated.
       if correlated then call_return payload
       else wait_for_values fuel tp mc instance_id deadline)) s"

section \<open>The port of the service\<close>

definition discover :: "'t transport \<Rightarrow> ('t session, ble_error, unit) call" where
  "discover tp = call_then (transport_call (tp_open tp)) (call_update (\<lambda>s. s\<lparr>vs_opened := True\<rparr>))"

definition connect :: "('t session, ble_error, unit) call" where
  "connect s = (if vs_opened s then call_return () s else call_fail BleDisconnected s)"

fun write_frames :: "'t transport \<Rightarrow> bytes list \<Rightarrow> ('t session, ble_error, unit) call" where
  "write_frames tp [] = call_return ()"
| "write_frames tp (f # fs) = call_then (transport_call (tp_write_control tp f)) (write_frames tp fs)"

definition negotiate :: "'t transport \<Rightarrow> bytes list \<Rightarrow> ('t session, ble_error, unit) call" where
  "negotiate tp frames s =
     (if vs_negotiated s then call_return () s
      else
        call_bind (transport_call (tp_read_control tp)) (\<lambda>control.
        call_bind (call_result (ok_or (BleOther ''invalid control info'') (control_info_parse control))) (\<lambda>info.
        call_then (write_frames tp frames) (
        call_update (\<lambda>s. s\<lparr>vs_negotiated := True, vs_reusable := False\<rparr>)))) s)"

definition subscribe :: "nat \<Rightarrow> 't transport \<Rightarrow> minicbor \<Rightarrow> u16 \<Rightarrow> bytes \<Rightarrow> ('t session, ble_error, unit) call" where
  "subscribe fuel tp mc instance_id payload s =
     (if \<not> vs_negotiated s then call_fail (BleOther ''protocol not negotiated'') s
      else if vs_subscribed_instance s = Some instance_id then drain_completed_payloads fuel tp mc instance_id s
      else
        call_then (write_request tp payload) (
        call_then (drain_completed_payloads fuel tp mc instance_id) (
        call_update (\<lambda>s. s\<lparr>vs_subscribed_instance := Some instance_id\<rparr>))) s)"

definition RETRY_PAUSE :: nat where
  "RETRY_PAUSE = 200 * 1000000"

definition sleep :: "'t transport \<Rightarrow> nat \<Rightarrow> ('t session, ble_error, unit) call" where
  "sleep tp d s =
     (case tp_sleep tp d (vs_transport s) of (r, t) \<Rightarrow> (await_map Inr r, s\<lparr>vs_transport := t\<rparr>))"

text \<open>One attempt of \<open>request_values\<close>; \<open>again\<close> is the next one, if this is the first.\<close>

definition value_attempt ::
  "nat \<Rightarrow> 't transport \<Rightarrow> minicbor \<Rightarrow> u16 \<Rightarrow> bytes \<Rightarrow> nat \<Rightarrow> ('t session, ble_error, bytes) call option
    \<Rightarrow> ('t session, ble_error, bytes) call" where
  "value_attempt fuel tp mc instance_id payload timeout again =
     call_then clear_pending (
     call_then (write_request tp payload) (\<lambda>s.
       case wait_for_values fuel tp mc instance_id (tp_now tp (vs_transport s) + timeout) s of
         (Ready (Inr values), s') \<Rightarrow> (Ready (Inr values), s'\<lparr>vs_reusable := True\<rparr>)
       | (Ready (Inl e), s') \<Rightarrow>
           (case vs_fallback_values s' of
              Some values \<Rightarrow> (Ready (Inr values), s'\<lparr>vs_fallback_values := None, vs_reusable := True\<rparr>)
            | None \<Rightarrow>
                (case (again, e) of
                   (Some retry, BleTimeout operation) \<Rightarrow> call_then (sleep tp RETRY_PAUSE) retry s'
                 | _ \<Rightarrow> (Ready (Inl e), s')))
       | (Dropped, s') \<Rightarrow> (Dropped, s')
       | (Unfinished, s') \<Rightarrow> (Unfinished, s')))"

definition request_values ::
  "nat \<Rightarrow> 't transport \<Rightarrow> minicbor \<Rightarrow> bytes \<Rightarrow> nat \<Rightarrow> ('t session, ble_error, bytes) call" where
  "request_values fuel tp mc payload timeout s =
     (case vs_subscribed_instance s of
        None \<Rightarrow> call_fail (BleOther ''device is not subscribed'') s
      | Some instance_id \<Rightarrow>
          call_then (call_update (\<lambda>s. s\<lparr>vs_reusable := False\<rparr>))
            (value_attempt fuel tp mc instance_id payload timeout
              (Some (value_attempt fuel tp mc instance_id payload timeout None))) s)"

definition disconnect :: "'t transport \<Rightarrow> ('t session, ble_error, unit) call" where
  "disconnect tp s =
     (case tp_close tp (vs_transport s) of
        (Ready _, t) \<Rightarrow>
          (Ready (Inr ()),
           s\<lparr>vs_transport := t, vs_opened := False, vs_negotiated := False, vs_subscribed_instance := None,
             vs_pending := ra_clear (vs_pending s), vs_receive_credit := credit_clear (vs_receive_credit s),
             vs_fallback_values := None, vs_reusable := False\<rparr>)
      | (Dropped, t) \<Rightarrow> (Dropped, s\<lparr>vs_transport := t\<rparr>)
      | (Unfinished, t) \<Rightarrow> (Unfinished, s\<lparr>vs_transport := t\<rparr>))"

definition finish_cycle :: "'t transport \<Rightarrow> ('t session, ble_error, unit) call" where
  "finish_cycle tp s = (if vs_reusable s then call_return () s else disconnect tp s)"

end
