(* ===== verification/Client_Trace.thy ===== *)
theory Client_Trace
  imports Client_Session "HOL-Library.Sublist"
begin

text \<open>
  What a session does over a whole history of calls of its port, on any transport. The transport is wrapped
  so that it records what is written and received; the facts about credit, handshake and messages are facts
  about this record.
\<close>

section \<open>The record\<close>

datatype event = SentControl bytes | SentData bytes | SentLastData bytes | Received notification | Closed

type_synonym 't traced = "'t \<times> event list"

definition traced_write ::
  "(bytes \<Rightarrow> event) \<Rightarrow> (bytes \<Rightarrow> ('t, 'e, unit) call) \<Rightarrow> bytes \<Rightarrow> ('t traced, 'e, unit) call" where
  "traced_write ev w b x = (case w b (fst x) of (r, t) \<Rightarrow> (r, (t, snd x @ [ev b])))"

definition untraced :: "('t \<Rightarrow> 'r \<times> 't) \<Rightarrow> 't traced \<Rightarrow> 'r \<times> 't traced" where
  "untraced f x = (case f (fst x) of (r, t) \<Rightarrow> (r, (t, snd x)))"

definition recorded :: "'t transport \<Rightarrow> 't traced transport" where
  "recorded tp =
     \<lparr>tp_open = untraced (tp_open tp),
      tp_read_control = untraced (tp_read_control tp),
      tp_write_control = traced_write SentControl (tp_write_control tp),
      tp_write_data = traced_write SentData (tp_write_data tp),
      tp_write_last_data = traced_write SentLastData (tp_write_last_data tp),
      tp_next = (\<lambda>d x. case tp_next tp d (fst x) of
          (Ready (Inr (Some n)), t) \<Rightarrow> (Ready (Inr (Some n)), (t, snd x @ [Received n]))
        | (r, t) \<Rightarrow> (r, (t, snd x))),
      tp_rssi = untraced (tp_rssi tp),
      tp_close = (\<lambda>x. case tp_close tp (fst x) of
          (Ready _, t) \<Rightarrow> (Ready (), (t, snd x @ [Closed]))
        | (r, t) \<Rightarrow> (r, (t, snd x))),
      tp_now = (\<lambda>x. tp_now tp (fst x)),
      tp_sleep = (\<lambda>d. untraced (tp_sleep tp d))\<rparr>"

text \<open>The events of the connection that is open now.\<close>

definition current :: "event list \<Rightarrow> event list" where
  "current tr = rev (takeWhile (\<lambda>e. e \<noteq> Closed) (rev tr))"

lemma current_simps [simp]:
  "current [] = []" "current (tr @ [e]) = (if e = Closed then [] else current tr @ [e])"
  by (simp_all add: current_def)

definition is_chunk :: "event \<Rightarrow> bool" where
  "is_chunk e = (case e of Received n \<Rightarrow> n_source n = NsData \<or> n_source n = NsLastData | _ \<Rightarrow> False)"

definition is_credit :: "event \<Rightarrow> bool" where
  "is_credit e = (e = SentControl [0xf9, 0x41])"

definition is_request :: "event \<Rightarrow> bool" where
  "is_request e = (case e of SentData b \<Rightarrow> True | SentLastData b \<Rightarrow> True | _ \<Rightarrow> False)"

definition count :: "(event \<Rightarrow> bool) \<Rightarrow> event list \<Rightarrow> nat" where
  "count p tr = length (filter p tr)"

lemma count_simps [simp]: "count p [] = 0" "count p (tr @ [e]) = count p tr + (if p e then 1 else 0)"
  by (simp_all add: count_def)

fun received :: "event list \<Rightarrow> notification list" where
  "received [] = []"
| "received (Received n # tr) = n # received tr"
| "received (_ # tr) = received tr"

lemma received_append [simp]: "received (a @ b) = received a @ received b"
  by (induction a rule: received.induct) auto

lemma sublist_more: "sublist xs ys \<Longrightarrow> sublist xs (ys @ zs)"
  unfolding sublist_def by (metis append_assoc)

section \<open>Messages of the peer\<close>

definition data_of :: "notification list \<Rightarrow> bytes" where
  "data_of ns = concat (map n_value (filter (\<lambda>n. n_source n \<noteq> NsControl) ns))"

text \<open>Notifications within a message: none ends one or clears the buffer.\<close>

definition inside :: "notification \<Rightarrow> bool" where
  "inside n \<longleftrightarrow> n_source n \<noteq> NsLastData \<and> \<not> (n_source n = NsControl \<and> cm_parse (n_value n) = Inr ClearBuffer)"

definition message :: "notification list \<Rightarrow> bytes \<Rightarrow> bool" where
  "message ns payload \<longleftrightarrow>
     (\<exists>before end. ns = before @ [end] \<and> list_all inside before \<and> n_source end = NsLastData \<and> payload = data_of ns)"

definition sent_by_peer :: "event list \<Rightarrow> bytes \<Rightarrow> bool" where
  "sent_by_peer tr payload \<longleftrightarrow> (\<exists>ns. sublist ns (received tr) \<and> message ns payload)"

lemma sent_by_peer_more: "sent_by_peer tr p \<Longrightarrow> sent_by_peer (tr @ es) p"
  unfolding sent_by_peer_def by (auto intro: sublist_more)

section \<open>Invariants\<close>

abbreviation trace :: "'t traced session \<Rightarrow> event list" where
  "trace s \<equiv> current (snd (vs_transport s))"

text \<open>The chunks received are those credited, those counted, and \<open>d\<close> that are not recorded yet.\<close>

definition credit_off :: "nat \<Rightarrow> 't traced session \<Rightarrow> bool" where
  "credit_off d s \<longleftrightarrow>
     unat (pending_chunks (vs_receive_credit s)) < 65 \<and>
     count is_chunk (trace s) = 65 * count is_credit (trace s) + unat (pending_chunks (vs_receive_credit s)) + d"

text \<open>Requests come after the negotiation of their connection.\<close>

definition negotiated_trace :: "event list \<Rightarrow> bool" where
  "negotiated_trace tr \<longleftrightarrow> sublist (map SentControl NEGOTIATION_WRITES) tr"

definition requests_after :: "event list \<Rightarrow> bool" where
  "requests_after tr \<longleftrightarrow> (\<forall>pre e post. tr = pre @ e # post \<longrightarrow> is_request e \<longrightarrow> negotiated_trace pre)"

definition session_facts :: "minicbor \<Rightarrow> u16 \<Rightarrow> u16 option \<times> bool \<Rightarrow> 't traced session \<Rightarrow> bool" where
  "session_facts mc i g s \<longleftrightarrow>
     g = (vs_subscribed_instance s, vs_negotiated s) \<and> requests_after (trace s) \<and>
     (vs_negotiated s \<longrightarrow> negotiated_trace (trace s)) \<and>
     vs_subscribed_instance s \<in> {None, Some i} \<and> (vs_subscribed_instance s = Some i \<longrightarrow> vs_negotiated s) \<and>
     (vs_reusable s \<longrightarrow> vs_subscribed_instance s = Some i) \<and>
     (\<forall>p. vs_fallback_values s = Some p \<longrightarrow> sent_by_peer (trace s) p \<and> payload_has_values mc p i = Inr True)"

definition session_inv :: "minicbor \<Rightarrow> u16 \<Rightarrow> u16 option \<times> bool \<Rightarrow> 't traced session \<Rightarrow> bool" where
  "session_inv mc i g s \<longleftrightarrow>
     credit_off 0 s \<and> session_facts mc i g s"

text \<open>While a message is read, the buffer holds what came since its start; \<open>got\<close> is the state with a
  notification that is not handled yet.\<close>

definition reading :: "'t traced session \<Rightarrow> bool" where
  "reading s \<longleftrightarrow> (\<exists>ns. suffix ns (received (trace s)) \<and> list_all inside ns \<and> ra_buffer (vs_pending s) = data_of ns)"

definition got :: "notification \<Rightarrow> 't traced session \<Rightarrow> bool" where
  "got n s \<longleftrightarrow>
     (\<exists>ns. suffix (ns @ [n]) (received (trace s)) \<and> list_all inside ns \<and> ra_buffer (vs_pending s) = data_of ns)"

lemma negotiated_trace_more: "negotiated_trace tr \<Longrightarrow> negotiated_trace (tr @ es)"
  unfolding negotiated_trace_def by (rule sublist_more)

lemma requests_after_snoc:
  assumes "requests_after tr" "is_request e \<Longrightarrow> negotiated_trace tr"
  shows "requests_after (tr @ [e])"
  unfolding requests_after_def
proof (intro allI impI)
  fix pre e' post assume eq: "tr @ [e] = pre @ e' # post" and r: "is_request e'"
  show "negotiated_trace pre"
  proof (cases post rule: rev_cases)
    case Nil
    with eq r assms(2) show ?thesis by simp
  next
    case (snoc ys y)
    with eq have "tr = pre @ e' # ys" by simp
    with assms(1) r show ?thesis unfolding requests_after_def by blast
  qed
qed

text \<open>One more event on the record.\<close>

definition logged :: "'t \<Rightarrow> event \<Rightarrow> 't traced session \<Rightarrow> 't traced session" where
  "logged t e s = s\<lparr>vs_transport := (t, snd (vs_transport s) @ [e])\<rparr>"

lemma logged_simps [simp]:
  "vs_opened (logged t e s) = vs_opened s" "vs_negotiated (logged t e s) = vs_negotiated s"
  "vs_subscribed_instance (logged t e s) = vs_subscribed_instance s" "vs_pending (logged t e s) = vs_pending s"
  "vs_receive_credit (logged t e s) = vs_receive_credit s" "vs_fallback_values (logged t e s) = vs_fallback_values s"
  "vs_reusable (logged t e s) = vs_reusable s"
  "trace (logged t e s) = (if e = Closed then [] else trace s @ [e])"
  by (simp_all add: logged_def)

lemma facts_logged:
  assumes "session_facts mc i g s" "e \<noteq> Closed" "is_request e \<Longrightarrow> vs_negotiated s"
  shows "session_facts mc i g (logged t e s)"
  using assms unfolding session_facts_def
  by (auto intro!: requests_after_snoc sent_by_peer_more negotiated_trace_more)

lemma inv_logged:
  assumes "session_inv mc i g s" "\<not> is_chunk e" "\<not> is_credit e" "e \<noteq> Closed" "is_request e \<Longrightarrow> vs_negotiated s"
  shows "session_inv mc i g (logged t e s)"
  using assms facts_logged [of mc i g s e t] by (auto simp: session_inv_def credit_off_def)

section \<open>The calls of the transport\<close>

lemma recorded_simps [simp]:
  "tp_write_control (recorded tp) = traced_write SentControl (tp_write_control tp)"
  "tp_write_data (recorded tp) = traced_write SentData (tp_write_data tp)"
  "tp_write_last_data (recorded tp) = traced_write SentLastData (tp_write_last_data tp)"
  "tp_open (recorded tp) = untraced (tp_open tp)"
  "tp_read_control (recorded tp) = untraced (tp_read_control tp)"
  "tp_sleep (recorded tp) d = untraced (tp_sleep tp d)"
  "tp_now (recorded tp) x = tp_now tp (fst x)"
  by (simp_all add: recorded_def)

lemma on_transport_quiet: "on_transport (untraced f) s = (r, s') \<Longrightarrow>
    \<exists>t. s' = s\<lparr>vs_transport := (t, snd (vs_transport s))\<rparr>"
  by (auto simp: on_transport_def untraced_def split: prod.splits)

lemma end_ok_await_map: "end_ok Q E (await_map (map_err g) r) s = end_ok Q E r s"
  by (cases "(Q, E, r, s)" rule: end_ok.cases) auto

lemma triple_transport:
  assumes "\<And>s r t. P s \<Longrightarrow> f (vs_transport s) = (r, t) \<Longrightarrow> end_ok Q E r (s\<lparr>vs_transport := t\<rparr>)"
  shows "triple P (transport_call f) Q E" "triple P (on_transport f) Q E"
  unfolding transport_call_def on_transport_def using assms
  by (auto intro!: tripleI simp: end_ok_await_map split: prod.splits)

lemma triple_write:
  assumes "\<And>s t. P s \<Longrightarrow> Q () (logged t (ev b) s)" "\<And>s t. P s \<Longrightarrow> E (logged t (ev b) s)"
  shows "triple P (transport_call (traced_write ev w b)) Q E"
proof (rule triple_transport)
  fix s r x assume s: "P s" "traced_write ev w b (vs_transport s) = (r, x)"
  then obtain t where "s\<lparr>vs_transport := x\<rparr> = logged t (ev b) s"
    by (auto simp: traced_write_def logged_def split: prod.splits)
  with s(1) assms show "end_ok Q E r (s\<lparr>vs_transport := x\<rparr>)"
    by (cases "(Q, E, r, s)" rule: end_ok.cases) auto
qed

lemma trace_quiet: "trace (s\<lparr>vs_transport := (t, snd (vs_transport s))\<rparr>) = trace s"
  by simp

text \<open>An assertion that does not look at the transport's own state.\<close>

definition blind :: "('t traced session \<Rightarrow> bool) \<Rightarrow> bool" where
  "blind P \<longleftrightarrow> (\<forall>s t. P s \<longrightarrow> P (s\<lparr>vs_transport := (t, snd (vs_transport s))\<rparr>))"

lemma blindD: "blind P \<Longrightarrow> P s \<Longrightarrow> P (s\<lparr>vs_transport := (t, snd (vs_transport s))\<rparr>)"
  by (simp add: blind_def)

lemma blind_simps [simp]: "blind (session_inv mc i g)" "blind (session_facts mc i g)" "blind reading" "blind (got n)" "blind (credit_off d)"
  by (simp_all add: blind_def session_inv_def session_facts_def credit_off_def reading_def got_def)

lemma blind_conj [intro]: "blind P \<Longrightarrow> blind Q \<Longrightarrow> blind (\<lambda>s. P s \<and> Q s)"
  by (simp add: blind_def)

lemma blind_fields [simp]: "blind (\<lambda>s. vs_negotiated s)" "blind (\<lambda>s. True)" "blind (\<lambda>s. sent_by_peer (trace s) p)"
  by (simp_all add: blind_def)

lemma triple_quiet:
  assumes "blind P" "\<And>x s. P s \<Longrightarrow> Q x s" "\<And>s. P s \<Longrightarrow> E s"
  shows "triple P (transport_call (untraced f)) Q E"
proof (rule triple_transport)
  fix s r x assume s: "P s" "untraced f (vs_transport s) = (r, x)"
  then obtain t where "x = (t, snd (vs_transport s))" by (auto simp: untraced_def split: prod.splits)
  with s(1) assms(1) have "P (s\<lparr>vs_transport := x\<rparr>)" by (simp add: blind_def)
  with assms(2,3) show "end_ok Q E r (s\<lparr>vs_transport := x\<rparr>)"
    by (cases "(Q, E, r, s)" rule: end_ok.cases) auto
qed

lemma triple_sleep:
  assumes "blind P" "\<And>s. P s \<Longrightarrow> Q () s" "\<And>s. P s \<Longrightarrow> E s"
  shows "triple P (sleep (recorded tp) d) Q E"
proof (rule tripleI)
  fix s r s' assume s: "P s" "sleep (recorded tp) d s = (r, s')"
  then obtain t q where x: "s' = s\<lparr>vs_transport := (t, snd (vs_transport s))\<rparr>" "r = await_map Inr q"
    by (auto simp: sleep_def untraced_def split: prod.splits)
  with s(1) assms(1) have "P s'" by (simp add: blind_def)
  with assms(2,3) x(2) show "end_ok Q E r s'" by (cases q) auto
qed

section \<open>Receiving\<close>

lemma next_recorded:
  assumes "tp_next (recorded tp) d x = (r, x')"
  shows "(\<exists>n t. r = Ready (Inr (Some n)) \<and> x' = (t, snd x @ [Received n]))
    \<or> (\<nexists>n. r = Ready (Inr (Some n))) \<and> (\<exists>t. x' = (t, snd x))"
proof -
  obtain q t where q: "tp_next tp d (fst x) = (q, t)" by fastforce
  show ?thesis
  proof (cases "\<exists>n. q = Ready (Inr (Some n))")
    case True
    with assms q show ?thesis by (auto simp: recorded_def)
  next
    case False
    with assms q show ?thesis by (auto simp: recorded_def split: await.splits sum.splits option.splits)
  qed
qed

definition after_receive :: "minicbor \<Rightarrow> u16 \<Rightarrow> u16 option \<times> bool \<Rightarrow> notification option \<Rightarrow> 't traced session \<Rightarrow> bool" where
  "after_receive mc i g inp s \<longleftrightarrow>
     (case inp of
        None \<Rightarrow> session_inv mc i g s \<and> reading s
      | Some n \<Rightarrow> session_facts mc i g s \<and> got n s \<and> credit_off (if n_source n = NsControl then 0 else 1) s)"

lemma received_state:
  assumes "session_inv mc i g s" "reading s"
  shows "after_receive mc i g (Some n) (logged t (Received n) s)"
proof -
  from assms(2) obtain ns where ns: "suffix ns (received (trace s))" "list_all inside ns"
    "ra_buffer (vs_pending s) = data_of ns" by (auto simp: reading_def)
  then have "suffix (ns @ [n]) (received (trace s) @ [n])" by (auto simp: suffix_def)
  with ns have "got n (logged t (Received n) s)" by (auto simp: got_def)
  moreover have "session_facts mc i g (logged t (Received n) s)"
    using assms(1) by (intro facts_logged) (simp_all add: session_inv_def is_request_def)
  moreover have "credit_off (if n_source n = NsControl then 0 else 1) (logged t (Received n) s)"
    using assms(1) by (cases "n_source n") (auto simp: session_inv_def credit_off_def is_chunk_def is_credit_def)
  ultimately show ?thesis by (simp add: after_receive_def)
qed

lemma triple_receive:
  "triple (\<lambda>s. session_inv mc i g s \<and> reading s) (on_transport (tp_next (recorded tp) d)) (after_receive mc i g) (session_inv mc i g)"
proof (rule triple_transport)
  fix s :: "'a traced session" and r x
  assume s: "session_inv mc i g s \<and> reading s" "tp_next (recorded tp) d (vs_transport s) = (r, x)"
  from next_recorded [OF s(2)] show "end_ok (after_receive mc i g) (session_inv mc i g) r (s\<lparr>vs_transport := x\<rparr>)"
  proof (elim disjE exE conjE)
    fix n t assume r: "r = Ready (Inr (Some n))" "x = (t, snd (vs_transport s) @ [Received n])"
    with received_state [of mc i g s n t] s(1) show ?thesis by (simp add: logged_def)
  next
    fix t assume r: "\<nexists>n. r = Ready (Inr (Some n))" "x = (t, snd (vs_transport s))"
    have "blind (\<lambda>s. session_inv mc i g s \<and> reading s)" by auto
    from blindD [OF this s(1), of t] r(2)
    have inv: "session_inv mc i g (s\<lparr>vs_transport := x\<rparr>) \<and> reading (s\<lparr>vs_transport := x\<rparr>)" by simp
    show ?thesis
    proof (cases r rule: end_cases)
      case (good v)
      with r(1) have "v = None" by auto
      with good inv show ?thesis by (simp add: after_receive_def)
    qed (use inv in simp_all)
  qed
qed

text \<open>The credit: at 65 chunks the frame grants 65 more, the count starts again.\<close>

lemma credit_recorded:
  assumes "session_facts mc i g s \<and> got n s \<and> credit_off (if n_source n = NsControl then 0 else 1) s"
    "credit_record (vs_receive_credit s) (n_source n) = (credit, c)"
  shows "session_facts mc i g (s\<lparr>vs_receive_credit := c\<rparr>)" "got n (s\<lparr>vs_receive_credit := c\<rparr>)"
    "credit = None \<and> credit_off 0 (s\<lparr>vs_receive_credit := c\<rparr>)
     \<or> credit = Some [0xf9, 0x41] \<and> credit_off 65 (s\<lparr>vs_receive_credit := c\<rparr>)"
proof -
  show "session_facts mc i g (s\<lparr>vs_receive_credit := c\<rparr>)" "got n (s\<lparr>vs_receive_credit := c\<rparr>)"
    using assms(1) by (simp_all add: session_facts_def got_def)
  let ?p = "pending_chunks (vs_receive_credit s)"
  have p: "unat ?p < 65" using assms(1) by (simp add: credit_off_def)
  then have u: "unat (sat_add ?p 1) = unat ?p + 1" by (simp add: unat_sat_add)
  have le: "(0x41 :: u8) \<le> q \<longleftrightarrow> 65 \<le> unat q" for q by (simp add: word_le_nat_alt)
  have eq: "sat_add ?p 1 = 0x41" if "65 \<le> unat (sat_add ?p 1)"
    using that p u by (simp add: word_unat_eq_iff)
  show "credit = None \<and> credit_off 0 (s\<lparr>vs_receive_credit := c\<rparr>)
     \<or> credit = Some [0xf9, 0x41] \<and> credit_off 65 (s\<lparr>vs_receive_credit := c\<rparr>)"
  proof (cases "n_source n = NsControl")
    case True
    with assms p show ?thesis by (auto simp: credit_record_def RECEIVE_CREDIT_THRESHOLD_def le credit_off_def)
  next
    case False
    then have src: "n_source n = NsData \<or> n_source n = NsLastData" by (cases "n_source n") auto
    show ?thesis
    proof (cases "65 \<le> unat (sat_add ?p 1)")
      case True
      with assms src False u eq show ?thesis
        by (auto simp: credit_record_def RECEIVE_CREDIT_THRESHOLD_def le credit_off_def Let_def)
    next
      case less: False
      with assms src False u show ?thesis
        by (auto simp: credit_record_def RECEIVE_CREDIT_THRESHOLD_def le credit_off_def Let_def)
    qed
  qed
qed

definition before_handling :: "minicbor \<Rightarrow> u16 \<Rightarrow> u16 option \<times> bool \<Rightarrow> notification \<Rightarrow> 't traced session \<Rightarrow> bool" where
  "before_handling mc i g n s \<longleftrightarrow> session_inv mc i g s \<and> got n s"

lemma triple_credit:
  fixes tp :: "'t transport"
  shows "triple (\<lambda>s. session_facts mc i g s \<and> got n s \<and> credit_off (if n_source n = NsControl then 0 else 1) s)
     (replenish_receive_credit (recorded tp) (n_source n)) (\<lambda>_. before_handling mc i g n) (session_inv mc i g)"
  unfolding replenish_receive_credit_def
proof (rule triple_bind)
  let ?Q = "\<lambda>credit (s :: 't traced session). session_facts mc i g s \<and> got n s \<and>
    (credit = None \<and> credit_off 0 s \<or> credit = Some [0xf9, 0x41] \<and> credit_off 65 s)"
  show "triple (\<lambda>s. session_facts mc i g s \<and> got n s \<and> credit_off (if n_source n = NsControl then 0 else 1) s)
      (record_credit (n_source n)) ?Q (session_inv mc i g)"
  proof (rule tripleI)
    fix s :: "'t traced session" and r s'
    assume s: "session_facts mc i g s \<and> got n s \<and> credit_off (if n_source n = NsControl then 0 else 1) s"
      "record_credit (n_source n) s = (r, s')"
    obtain credit c where c: "credit_record (vs_receive_credit s) (n_source n) = (credit, c)" by fastforce
    with s(2) have "r = Ready (Inr credit)" "s' = s\<lparr>vs_receive_credit := c\<rparr>" by (simp_all add: record_credit_def)
    with credit_recorded [OF s(1) c] show "end_ok ?Q (session_inv mc i g) r s'" by simp
  qed
  fix credit
  show "triple (?Q credit)
      (case credit of None \<Rightarrow> call_return () | Some frame \<Rightarrow> transport_call (tp_write_control (recorded tp) frame))
      (\<lambda>_. before_handling mc i g n) (session_inv mc i g)"
  proof (cases credit)
    case None
    then show ?thesis by (auto intro!: triple_return simp: before_handling_def session_inv_def)
  next
    case (Some frame)
    have "before_handling mc i g n (logged t (SentControl frame) s)" if "?Q credit s" for s :: "'t traced session" and t
      using that Some facts_logged [of mc i g s "SentControl frame" t]
      by (auto simp: before_handling_def session_inv_def credit_off_def is_chunk_def is_credit_def is_request_def got_def)
    then show ?thesis using Some by (auto intro!: triple_write simp: before_handling_def)
  qed
qed

section \<open>Handling\<close>

lemma inv_pending: "session_inv mc i g (s\<lparr>vs_pending := p\<rparr>) = session_inv mc i g s"
  by (simp add: session_inv_def session_facts_def credit_off_def)

lemma inv_fallback:
  "session_inv mc i g s \<Longrightarrow> (\<And>p. v = Some p \<Longrightarrow> sent_by_peer (trace s) p \<and> payload_has_values mc p i = Inr True)
    \<Longrightarrow> session_inv mc i g (s\<lparr>vs_fallback_values := v\<rparr>)"
  by (simp add: session_inv_def session_facts_def credit_off_def)

lemma data_of_snoc: "data_of (ns @ [n]) = data_of ns @ (if n_source n = NsControl then [] else n_value n)"
  by (simp add: data_of_def)

lemma clear_pending_reading:
  "session_inv mc i g s \<Longrightarrow> session_inv mc i g (s\<lparr>vs_pending := ra_clear (vs_pending s)\<rparr>)
     \<and> reading (s\<lparr>vs_pending := ra_clear (vs_pending s)\<rparr>)"
  by (auto simp: inv_pending reading_def ra_clear_def data_of_def intro!: exI [of _ "[]"])

text \<open>A notification that neither ends nor clears a message continues it.\<close>

lemma got_inside:
  assumes "got n s" "inside n"
  shows "\<exists>ns. suffix ns (received (trace s)) \<and> list_all inside ns
    \<and> data_of ns = ra_buffer (vs_pending s) @ (if n_source n = NsControl then [] else n_value n)"
proof -
  from assms(1) obtain ns where "suffix (ns @ [n]) (received (trace s))" "list_all inside ns"
    "ra_buffer (vs_pending s) = data_of ns" by (auto simp: got_def)
  with assms(2) show ?thesis by (intro exI [of _ "ns @ [n]"]) (simp add: data_of_snoc)
qed

lemma control_handled:
  assumes "before_handling mc i g n s" "n_source n = NsControl"
  shows "(if cm_parse (n_value n) = Inr ClearBuffer
      then session_inv mc i g (s\<lparr>vs_pending := ra_clear (vs_pending s)\<rparr>) \<and> reading (s\<lparr>vs_pending := ra_clear (vs_pending s)\<rparr>)
      else session_inv mc i g s \<and> reading s)"
proof (cases "cm_parse (n_value n) = Inr ClearBuffer")
  case True
  with assms(1) clear_pending_reading [of mc i g s] show ?thesis by (simp add: before_handling_def)
next
  case False
  with assms got_inside [of n s] show ?thesis
    by (auto simp: before_handling_def reading_def inside_def)
qed

lemma data_handled:
  assumes "before_handling mc i g n s" "n_source n = NsData" "ra_push_data (vs_pending s) (n_value n) = (r, p)"
  shows "session_inv mc i g (s\<lparr>vs_pending := p\<rparr>)" "r = Inr () \<Longrightarrow> reading (s\<lparr>vs_pending := p\<rparr>)"
proof -
  show "session_inv mc i g (s\<lparr>vs_pending := p\<rparr>)" using assms(1) by (simp add: inv_pending before_handling_def)
  assume "r = Inr ()"
  with assms(3) have "ra_buffer p = ra_buffer (vs_pending s) @ n_value n"
    by (auto simp: ra_push_data_def ra_append_def Let_def split: if_splits)
  with assms(1,2) got_inside [of n s] show "reading (s\<lparr>vs_pending := p\<rparr>)"
    by (auto simp: before_handling_def reading_def inside_def)
qed

lemma last_data_handled:
  assumes "before_handling mc i g n s" "n_source n = NsLastData" "ra_push_last_data (vs_pending s) (n_value n) = (r, p)"
  shows "session_inv mc i g (s\<lparr>vs_pending := p\<rparr>)"
    "r = Inr v \<Longrightarrow> reading (s\<lparr>vs_pending := p\<rparr>) \<and> (\<exists>payload. v = Some payload \<and> sent_by_peer (trace s) payload)"
proof -
  show "session_inv mc i g (s\<lparr>vs_pending := p\<rparr>)" using assms(1) by (simp add: inv_pending before_handling_def)
  assume "r = Inr v"
  with assms(3) have v: "v = Some (ra_buffer (vs_pending s) @ n_value n)" "ra_buffer p = []"
    by (auto simp: ra_push_last_data_def ra_append_def ra_take_def Let_def split: if_splits)
  from assms(1) obtain ns where ns: "suffix (ns @ [n]) (received (trace s))" "list_all inside ns"
    "ra_buffer (vs_pending s) = data_of ns" by (auto simp: before_handling_def got_def)
  then have "message (ns @ [n]) (ra_buffer (vs_pending s) @ n_value n)"
    using assms(2) by (auto simp: message_def data_of_snoc)
  moreover have "sublist (ns @ [n]) (received (trace s))" using ns(1) by (rule suffix_imp_sublist)
  ultimately have "sent_by_peer (trace s) (ra_buffer (vs_pending s) @ n_value n)" by (auto simp: sent_by_peer_def)
  moreover have "reading (s\<lparr>vs_pending := p\<rparr>)"
    using v(2) by (auto simp: reading_def data_of_def intro!: exI [of _ "[]"])
  ultimately show "reading (s\<lparr>vs_pending := p\<rparr>) \<and> (\<exists>payload. v = Some payload \<and> sent_by_peer (trace s) payload)"
    using v(1) by simp
qed

definition message_read :: "minicbor \<Rightarrow> u16 \<Rightarrow> u16 option \<times> bool \<Rightarrow> bytes option \<Rightarrow> 't traced session \<Rightarrow> bool" where
  "message_read mc i g v s \<longleftrightarrow> session_inv mc i g s \<and> reading s \<and> (\<forall>p. v = Some p \<longrightarrow> sent_by_peer (trace s) p)"

lemma triple_handle:
  "triple (before_handling mc i g n) (handle_notification n) (message_read mc i g) (session_inv mc i g)"
proof (rule tripleI)
  fix s :: "'t traced session" and r s' assume s: "before_handling mc i g n s" "handle_notification n s = (r, s')"
  have inv: "session_inv mc i g s" using s(1) by (simp add: before_handling_def)
  show "end_ok (message_read mc i g) (session_inv mc i g) r s'"
  proof (cases "n_source n")
    case NsControl
    with s(2) control_handled [OF s(1)] inv show ?thesis
      by (auto simp: handle_notification_def clear_pending_def call_update_def call_return_def call_fail_def call_bind_def
          message_read_def split: sum.splits control_message.splits)
  next
    case NsData
    obtain q p where q: "ra_push_data (vs_pending s) (n_value n) = (q, p)" by fastforce
    with s(2) NsData data_handled [OF s(1) NsData q] show ?thesis
      by (cases q) (auto simp: handle_notification_def pending_call_def call_bind_def call_return_def message_read_def)
  next
    case NsLastData
    obtain q p where q: "ra_push_last_data (vs_pending s) (n_value n) = (q, p)" by fastforce
    with s(2) NsLastData last_data_handled [OF s(1) NsLastData q] show ?thesis
      by (cases q) (auto simp: handle_notification_def pending_call_def message_read_def)
  qed
qed

section \<open>Waiting for a message\<close>

text \<open>Between two notifications.\<close>

abbreviation between :: "minicbor \<Rightarrow> u16 \<Rightarrow> u16 option \<times> bool \<Rightarrow> 't traced session \<Rightarrow> bool" where
  "between mc i g s \<equiv> session_inv mc i g s \<and> reading s"

lemma transport_call_eq: "transport_call f s = (case on_transport f s of (r, s') \<Rightarrow> (await_map (map_err map_transport_error) r, s'))"
  by (simp add: transport_call_def)

lemma triple_next:
  "triple (between mc i g) (transport_call (tp_next (recorded tp) d)) (after_receive mc i g) (session_inv mc i g)"
proof (rule tripleI)
  fix s r s' assume s: "between mc i g s" "transport_call (tp_next (recorded tp) d) s = (r, s')"
  obtain q where q: "on_transport (tp_next (recorded tp) d) s = (q, s')" "r = await_map (map_err map_transport_error) q"
    using s(2) by (auto simp: transport_call_def split: prod.splits)
  with tripleD [OF triple_receive s(1) q(1)] show "end_ok (after_receive mc i g) (session_inv mc i g) r s'"
    by (simp add: end_ok_await_map)
qed

definition wait_step :: "'t transport \<Rightarrow> notification \<Rightarrow> ('t session, ble_error, bytes option) call" where
  "wait_step tp n = call_then (replenish_receive_credit tp (n_source n)) (handle_notification n)"

lemma triple_wait_step:
  "triple (after_receive mc i g (Some n)) (wait_step (recorded tp) n) (message_read mc i g) (session_inv mc i g)"
  unfolding wait_step_def
  by (rule triple_bind [OF triple_weaken [OF triple_credit [of mc i g n tp]] triple_handle])
    (simp_all add: after_receive_def)

definition peer_message :: "minicbor \<Rightarrow> u16 \<Rightarrow> u16 option \<times> bool \<Rightarrow> bytes \<Rightarrow> 't traced session \<Rightarrow> bool" where
  "peer_message mc i g p s \<longleftrightarrow> between mc i g s \<and> sent_by_peer (trace s) p"

lemma triple_next_payload:
  "triple (between mc i g) (next_payload fuel (recorded tp) deadline) (peer_message mc i g) (session_inv mc i g)"
proof (induction fuel)
  case 0
  show ?case by (simp add: triple_def)
next
  case (Suc fuel)
  let ?k = "\<lambda>payload. case payload of None \<Rightarrow> next_payload fuel (recorded tp) deadline | Some p \<Rightarrow> call_return p"
  have handled: "triple (message_read mc i g v) (?k v) (peer_message mc i g) (session_inv mc i g)" for v
  proof (cases v)
    case None
    then show ?thesis by (simp, rule_tac triple_weaken [OF Suc]) (simp_all add: message_read_def)
  next
    case (Some p)
    then show ?thesis by (simp, rule_tac triple_return) (simp add: message_read_def peer_message_def)
  qed
  have n: "triple (after_receive mc i g (Some n)) (call_bind (wait_step (recorded tp) n) ?k) (peer_message mc i g) (session_inv mc i g)" for n
    by (rule triple_bind [OF triple_wait_step handled])
  have body: "triple (between mc i g)
      (call_bind (transport_call (tp_next (recorded tp) d)) (\<lambda>inp. case inp of
          None \<Rightarrow> call_fail (BleTimeout ''response-deadline'')
        | Some n \<Rightarrow> call_bind (wait_step (recorded tp) n) ?k)) (peer_message mc i g) (session_inv mc i g)" for d
    by (rule triple_bind [OF triple_next])
      (auto intro!: triple_option triple_fail n simp: after_receive_def)
  show ?case
  proof (rule tripleI)
    fix s r s' assume s: "between mc i g s" "next_payload (Suc fuel) (recorded tp) deadline s = (r, s')"
    show "end_ok (peer_message mc i g) (session_inv mc i g) r s'"
    proof (cases "deadline < tp_now (recorded tp) (vs_transport s)")
      case True
      with s show ?thesis by (auto simp: call_fail_def Let_def)
    next
      case False
      with s(2) have "call_bind (transport_call (tp_next (recorded tp) (deadline - tp_now (recorded tp) (vs_transport s))))
          (\<lambda>inp. case inp of None \<Rightarrow> call_fail (BleTimeout ''response-deadline'')
            | Some n \<Rightarrow> call_bind (wait_step (recorded tp) n) ?k) s = (r, s')"
        unfolding wait_step_def call_bind_assoc by (simp add: Let_def)
      with tripleD [OF body s(1)] show ?thesis .
    qed
  qed
qed

section \<open>Draining\<close>

lemma triple_drain_notification:
  "triple (before_handling mc i g n) (drain_notification mc i n) (\<lambda>_. between mc i g) (session_inv mc i g)"
proof (rule tripleI)
  fix s :: "'t traced session" and r s'
  assume s: "before_handling mc i g n s" "drain_notification mc i n s = (r, s')"
  have inv: "session_inv mc i g s" using s(1) by (simp add: before_handling_def)
  show "end_ok (\<lambda>_. between mc i g) (session_inv mc i g) r s'"
  proof (cases "n_source n")
    case NsControl
    with s(2) control_handled [OF s(1)] inv show ?thesis
      by (auto simp: drain_notification_def clear_pending_def call_update_def call_return_def split: if_splits)
  next
    case NsData
    obtain q p where q: "ra_push_data (vs_pending s) (n_value n) = (q, p)" by fastforce
    with s(2) NsData data_handled [OF s(1) NsData q] show ?thesis
      by (cases q) (auto simp: drain_notification_def pending_call_def)
  next
    case NsLastData
    obtain q p where q: "ra_push_last_data (vs_pending s) (n_value n) = (q, p)" by fastforce
    note h = last_data_handled [OF s(1) NsLastData q]
    show ?thesis
    proof (cases q)
      case (Inl e)
      with s(2) NsLastData q h show ?thesis by (auto simp: drain_notification_def pending_call_def call_bind_def)
    next
      case (Inr v)
      from h(2) [OF Inr] obtain payload where v: "v = Some payload" "sent_by_peer (trace s) payload"
        and rd: "reading (s\<lparr>vs_pending := p\<rparr>)" by blast
      let ?s = "s\<lparr>vs_pending := p\<rparr>"
      have fb: "session_inv mc i g (?s\<lparr>vs_fallback_values := Some payload\<rparr>)"
        if "payload_has_values mc payload i = Inr True"
        using that v(2) h(1) by (intro inv_fallback) auto
      have rd': "reading (?s\<lparr>vs_fallback_values := Some payload\<rparr>)" using rd by (simp add: reading_def)
      show ?thesis
      proof (cases "payload_has_values mc payload i = Inr True")
        case True
        with s(2) NsLastData q Inr v(1) fb rd' show ?thesis
          by (auto simp: drain_notification_def pending_call_def call_bind_def call_update_def)
      next
        case False
        with s(2) NsLastData q Inr v(1) rd h(1) show ?thesis
          by (auto simp: drain_notification_def pending_call_def call_bind_def call_return_def)
      qed
    qed
  qed
qed

definition drain_step :: "'t transport \<Rightarrow> minicbor \<Rightarrow> u16 \<Rightarrow> notification \<Rightarrow> ('t session, ble_error, unit) call" where
  "drain_step tp mc i n = call_then (replenish_receive_credit tp (n_source n)) (drain_notification mc i n)"

lemma triple_drain_step:
  "triple (after_receive mc i g (Some n)) (drain_step (recorded tp) mc i n) (\<lambda>_. between mc i g) (session_inv mc i g)"
  unfolding drain_step_def
  by (rule triple_bind [OF triple_weaken [OF triple_credit [of mc i g n tp]] triple_drain_notification])
    (simp_all add: after_receive_def)

lemma triple_drain_loop:
  "triple (between mc i g) (drain_loop fuel (recorded tp) mc i deadline) (\<lambda>_. session_inv mc i g) (session_inv mc i g)"
proof (induction fuel)
  case 0
  show ?case by (simp add: triple_def)
next
  case (Suc fuel)
  have step: "triple (after_receive mc i g (Some n)) (call_then (drain_step (recorded tp) mc i n)
      (drain_loop fuel (recorded tp) mc i deadline)) (\<lambda>_. session_inv mc i g) (session_inv mc i g)" for n
    by (rule triple_bind [OF triple_drain_step Suc])
  show ?case
  proof (rule tripleI)
    fix s r s' assume s: "between mc i g s" "drain_loop (Suc fuel) (recorded tp) mc i deadline s = (r, s')"
    let ?now = "tp_now (recorded tp) (vs_transport s)"
    show "end_ok (\<lambda>_. session_inv mc i g) (session_inv mc i g) r s'"
    proof (cases "deadline < ?now")
      case True
      with s show ?thesis by (auto simp: call_return_def Let_def)
    next
      case False
      obtain q s1 where q: "on_transport (tp_next (recorded tp) (min (deadline - ?now) SUBSCRIBE_DRAIN_QUIET)) s = (q, s1)"
        by fastforce
      note e = tripleD [OF triple_receive s(1) q]
      show ?thesis
      proof (cases q rule: end_cases)
        case (good x)
        show ?thesis
        proof (cases x)
          case None
          with good e s(2) False q show ?thesis by (auto simp: Let_def after_receive_def)
        next
          case (Some n)
          with good s(2) False q have "call_then (drain_step (recorded tp) mc i n)
              (drain_loop fuel (recorded tp) mc i deadline) s1 = (r, s')"
            unfolding drain_step_def call_bind_assoc by (simp add: Let_def)
          with tripleD [OF step [of n]] e good Some show ?thesis by simp
        qed
      next
        case (failed err)
        with e s(2) False q show ?thesis by (cases err) (auto simp: Let_def)
      qed (use e s(2) False q in \<open>auto simp: Let_def\<close>)
    qed
  qed
qed

lemma triple_drain:
  "triple (session_inv mc i g) (drain_completed_payloads fuel (recorded tp) mc i) (\<lambda>_. session_inv mc i g) (session_inv mc i g)"
  unfolding drain_completed_payloads_def clear_pending_def
proof (rule triple_bind)
  show "triple (session_inv mc i g) (call_update (\<lambda>s. s\<lparr>vs_pending := ra_clear (vs_pending s)\<rparr>)) (\<lambda>_. between mc i g) (session_inv mc i g)"
    by (rule triple_update) (rule clear_pending_reading)
  show "triple (between mc i g) (call_then (call_update (\<lambda>s. s\<lparr>vs_fallback_values := None\<rparr>))
      (call_bind (call_get (\<lambda>s. tp_now (recorded tp) (vs_transport s))) (\<lambda>started.
        drain_loop fuel (recorded tp) mc i (started + SUBSCRIBE_DRAIN_BUDGET)))) (\<lambda>_. session_inv mc i g) (session_inv mc i g)"
  proof (rule triple_bind)
    show "triple (between mc i g) (call_update (\<lambda>s. s\<lparr>vs_fallback_values := None\<rparr>)) (\<lambda>_. between mc i g) (session_inv mc i g)"
      by (rule triple_update) (auto simp: reading_def intro: inv_fallback)
    show "triple (between mc i g) (call_bind (call_get (\<lambda>s. tp_now (recorded tp) (vs_transport s))) (\<lambda>started.
        drain_loop fuel (recorded tp) mc i (started + SUBSCRIBE_DRAIN_BUDGET))) (\<lambda>_. session_inv mc i g) (session_inv mc i g)"
      by (rule triple_bind [OF triple_get triple_drain_loop]) simp
  qed
qed

section \<open>Requests\<close>

text \<open>Every message that is taken for the answer has a value of the instance.\<close>

definition answered :: "minicbor \<Rightarrow> u16 \<Rightarrow> u16 option \<times> bool \<Rightarrow> bytes \<Rightarrow> bool \<Rightarrow> 't traced session \<Rightarrow> bool" where
  "answered mc i g p c s \<longleftrightarrow> peer_message mc i g p s \<and> payload_has_values mc p i = Inr c"

lemma triple_wait_for_values:
  "triple (between mc i g) (wait_for_values fuel (recorded tp) mc i deadline) (\<lambda>p. answered mc i g p True) (session_inv mc i g)"
proof (induction fuel)
  case 0
  show ?case by (simp add: triple_def)
next
  case (Suc fuel)
  have res: "triple (peer_message mc i g p) (call_result (payload_has_values mc p i)) (answered mc i g p) (session_inv mc i g)" for p
    by (rule triple_result) (simp_all add: peer_message_def answered_def)
  have rest: "triple (answered mc i g p c) (if c then call_return p else wait_for_values fuel (recorded tp) mc i deadline)
      (\<lambda>p. answered mc i g p True) (session_inv mc i g)" for p c
  proof (cases c)
    case True
    then show ?thesis by (simp add: triple_return)
  next
    case False
    have "triple (answered mc i g p c) (wait_for_values fuel (recorded tp) mc i deadline)
      (\<lambda>p. answered mc i g p True) (session_inv mc i g)"
      by (rule triple_weaken [OF Suc]) (simp_all add: answered_def peer_message_def)
    with False show ?thesis by simp
  qed
  from triple_bind [OF triple_next_payload triple_bind [OF res rest]] show ?case
    unfolding triple_def by (simp only: wait_for_values.simps)
qed

definition sending :: "bool \<Rightarrow> minicbor \<Rightarrow> u16 \<Rightarrow> u16 option \<times> bool \<Rightarrow> 't traced session \<Rightarrow> bool" where
  "sending waits mc i g s \<longleftrightarrow> session_inv mc i g s \<and> (waits \<longrightarrow> reading s) \<and> vs_negotiated s"

lemma request_logged:
  "sending waits mc i g s \<Longrightarrow> ev = SentData \<or> ev = SentLastData \<Longrightarrow> sending waits mc i g (logged t (ev b) s)"
  using inv_logged [of mc i g s "ev b" t] by (auto simp: sending_def reading_def is_chunk_def is_credit_def)

lemma triple_request_write:
  assumes "ev = SentData \<or> ev = SentLastData"
  shows "triple (sending waits mc i g) (transport_call (traced_write ev w b)) (\<lambda>_. sending waits mc i g) (session_inv mc i g)"
proof (rule triple_write)
  fix s :: "'a traced session" and t assume "sending waits mc i g s"
  from request_logged [OF this assms] show "sending waits mc i g (logged t (ev b) s)" .
  then show "session_inv mc i g (logged t (ev b) s)" by (simp add: sending_def)
qed

lemma triple_write_chunks:
  "triple (sending waits mc i g) (write_chunks (recorded tp) cs) (\<lambda>_. sending waits mc i g) (session_inv mc i g)"
proof (induction cs)
  case Nil
  show ?case by (simp add: triple_return)
next
  case (Cons c cs)
  show ?case
    unfolding write_chunks.simps
    by (rule triple_bind [OF _ Cons]) (cases "target c"; simp add: triple_request_write)
qed

lemma triple_write_request:
  "triple (sending waits mc i g) (write_request (recorded tp) payload) (\<lambda>_. sending waits mc i g) (session_inv mc i g)"
  unfolding write_request_def
  by (rule triple_bind [OF triple_result triple_write_chunks]) (simp_all add: sending_def)

lemma inv_reusable:
  "session_inv mc i (Some i, n) s \<Longrightarrow> session_inv mc i (Some i, n) (s\<lparr>vs_reusable := b\<rparr>)"
  by (auto simp: session_inv_def session_facts_def credit_off_def)

lemma inv_taken: "session_inv mc i g s \<Longrightarrow> session_inv mc i g (s\<lparr>vs_fallback_values := None\<rparr>)"
  by (rule inv_fallback) simp_all

text \<open>A request of values: the answer is a message of the peer in this connection with a value of the
  instance.\<close>

definition answer :: "minicbor \<Rightarrow> u16 \<Rightarrow> bytes \<Rightarrow> 't traced session \<Rightarrow> bool" where
  "answer mc i p s \<longleftrightarrow>
     session_inv mc i (Some i, True) s \<and> sent_by_peer (trace s) p \<and> payload_has_values mc p i = Inr True"

lemma inv_negotiated: "session_inv mc i (j, n) s \<Longrightarrow> vs_negotiated s = n"
  by (simp add: session_inv_def session_facts_def)

lemma inv_subscribed: "session_inv mc i (j, n) s \<Longrightarrow> vs_subscribed_instance s = j"
  by (simp add: session_inv_def session_facts_def)

lemma inv_fallback_message:
  "session_inv mc i g s \<Longrightarrow> vs_fallback_values s = Some p \<Longrightarrow>
    sent_by_peer (trace s) p \<and> payload_has_values mc p i = Inr True"
  by (auto simp: session_inv_def session_facts_def)

lemma triple_value_attempt:
  assumes "\<And>retry. again = Some retry \<Longrightarrow>
    triple (session_inv mc i (Some i, True)) retry (answer mc i) (session_inv mc i (Some i, True))"
  shows "triple (session_inv mc i (Some i, True)) (value_attempt fuel (recorded tp) mc i payload timeout again)
    (answer mc i) (session_inv mc i (Some i, True))"
  unfolding value_attempt_def
proof (rule triple_bind)
  let ?g = "(Some i, True)"
  show "triple (session_inv mc i ?g) clear_pending (\<lambda>_. sending True mc i ?g) (session_inv mc i ?g)"
    unfolding clear_pending_def
    by (rule triple_update) (simp add: sending_def clear_pending_reading inv_negotiated)
  show "triple (sending True mc i ?g) (call_then (write_request (recorded tp) payload) (\<lambda>s.
       case wait_for_values fuel (recorded tp) mc i (tp_now (recorded tp) (vs_transport s) + timeout) s of
         (Ready (Inr values), s') \<Rightarrow> (Ready (Inr values), s'\<lparr>vs_reusable := True\<rparr>)
       | (Ready (Inl e), s') \<Rightarrow>
           (case vs_fallback_values s' of
              Some values \<Rightarrow> (Ready (Inr values), s'\<lparr>vs_fallback_values := None, vs_reusable := True\<rparr>)
            | None \<Rightarrow>
                (case (again, e) of
                   (Some retry, BleTimeout operation) \<Rightarrow> call_then (sleep (recorded tp) RETRY_PAUSE) retry s'
                 | _ \<Rightarrow> (Ready (Inl e), s')))
       | (Dropped, s') \<Rightarrow> (Dropped, s')
       | (Unfinished, s') \<Rightarrow> (Unfinished, s'))) (answer mc i) (session_inv mc i ?g)"
  proof (rule triple_bind [OF triple_write_request], rule tripleI, goal_cases)
    case (1 u s r s')
    obtain q s1 where w: "wait_for_values fuel (recorded tp) mc i (tp_now (recorded tp) (vs_transport s) + timeout) s = (q, s1)"
      by fastforce
    from 1(1) have "between mc i ?g s" by (simp add: sending_def)
    note e = tripleD [OF triple_wait_for_values this w]
    show ?case
    proof (cases q rule: end_cases)
      case (good vals)
      with 1(2) w e show ?thesis by (auto simp: answer_def answered_def peer_message_def inv_reusable)
    next
      case (failed err)
      with e have inv: "session_inv mc i ?g s1" by simp
      show ?thesis
      proof (cases "vs_fallback_values s1")
        case (Some vals)
        with 1(2) w failed inv_fallback_message [OF inv Some] inv_reusable [OF inv_taken [OF inv]] show ?thesis
          by (auto simp: answer_def)
      next
        case None
        show ?thesis
        proof (cases "\<exists>retry operation. again = Some retry \<and> err = BleTimeout operation")
          case True
          then obtain retry operation where a: "again = Some retry" "err = BleTimeout operation" by blast
          have "triple (session_inv mc i ?g) (call_then (sleep (recorded tp) RETRY_PAUSE) retry) (answer mc i) (session_inv mc i ?g)"
            by (rule triple_bind [OF triple_sleep assms [OF a(1)]]) simp_all
          moreover from 1(2) w failed None a have "call_then (sleep (recorded tp) RETRY_PAUSE) retry s1 = (r, s')" by simp
          ultimately show ?thesis using inv by (blast dest: tripleD)
        next
          case False
          with 1(2) w failed None inv show ?thesis
            by (auto split: option.splits ble_error.splits)
        qed
      qed
    qed (use 1(2) w e in auto)
  qed
qed

end
