(* ===== verification/Client_History.thy ===== *)
theory Client_History
  imports Client_Trace Cbor_Rfc8949
begin

text \<open>
  Histories of calls of the session's port: whatever the transport answers and whenever calls are dropped,
  receive credit is granted for exactly the chunks received, nothing is requested before the connection is
  negotiated, and an answer is a message of the peer.
\<close>

section \<open>Histories\<close>

datatype port_call =
    CallDiscover | CallConnect | CallNegotiate | CallSubscribe bytes | CallRequestValues bytes nat
  | CallFinishCycle | CallDisconnect

fun port_exec :: "nat \<Rightarrow> 't transport \<Rightarrow> minicbor \<Rightarrow> u16 \<Rightarrow> port_call \<Rightarrow> 't session \<Rightarrow> 't session" where
  "port_exec fuel tp mc i CallDiscover s = snd (discover tp s)"
| "port_exec fuel tp mc i CallConnect s = snd (connect s)"
| "port_exec fuel tp mc i CallNegotiate s = snd (negotiate tp NEGOTIATION_WRITES s)"
| "port_exec fuel tp mc i (CallSubscribe payload) s = snd (subscribe fuel tp mc i payload s)"
| "port_exec fuel tp mc i (CallRequestValues payload timeout) s = snd (request_values fuel tp mc payload timeout s)"
| "port_exec fuel tp mc i CallFinishCycle s = snd (finish_cycle tp s)"
| "port_exec fuel tp mc i CallDisconnect s = snd (disconnect tp s)"

definition port_run :: "nat \<Rightarrow> 't transport \<Rightarrow> minicbor \<Rightarrow> u16 \<Rightarrow> port_call list \<Rightarrow> 't session \<Rightarrow> 't session" where
  "port_run fuel tp mc i calls s = fold (port_exec fuel tp mc i) calls s"

definition session_ok :: "minicbor \<Rightarrow> u16 \<Rightarrow> 't traced session \<Rightarrow> bool" where
  "session_ok mc i s \<longleftrightarrow> (\<exists>g. session_inv mc i g s)"

lemma session_ok_eq: "session_ok mc i s = session_inv mc i (vs_subscribed_instance s, vs_negotiated s) s"
  by (auto simp: session_ok_def session_inv_def session_facts_def)

section \<open>Every call keeps the invariant\<close>

abbreviation keeps :: "minicbor \<Rightarrow> u16 \<Rightarrow> ('t traced session, 'e, 'a) call \<Rightarrow> bool" where
  "keeps mc i f \<equiv> triple (session_ok mc i) f (\<lambda>_. session_ok mc i) (session_ok mc i)"

lemma keeps_from: "(\<And>g. triple (session_inv mc i g) f (\<lambda>_. session_ok mc i) (session_ok mc i)) \<Longrightarrow> keeps mc i f"
  by (rule tripleI) (metis session_ok_def tripleD)

lemma session_okI: "session_inv mc i g s \<Longrightarrow> session_ok mc i s"
  unfolding session_ok_def by blast

lemma end_ok_snd: "triple P f Q E \<Longrightarrow> P s \<Longrightarrow> (\<And>x s. Q x s \<Longrightarrow> R s) \<Longrightarrow> (\<And>s. E s \<Longrightarrow> R s) \<Longrightarrow> R (snd (f s))"
proof -
  assume a: "triple P f Q E" "P s" "\<And>x s. Q x s \<Longrightarrow> R s" "\<And>s. E s \<Longrightarrow> R s"
  obtain r s' where f: "f s = (r, s')" by fastforce
  from tripleD [OF a(1,2) f] a(3,4) f show ?thesis by (cases r rule: end_cases) auto
qed

lemma keeps_discover: "keeps mc i (discover (recorded tp))"
  unfolding discover_def
proof (rule keeps_from)
  fix g
  have "triple (session_inv mc i g) (call_update (\<lambda>s. s\<lparr>vs_opened := True\<rparr>)) (\<lambda>_. session_ok mc i) (session_ok mc i)"
    by (rule triple_update, rule session_okI [of _ _ g]) (simp add: session_inv_def session_facts_def credit_off_def)
  then show "triple (session_inv mc i g) (call_then (transport_call (tp_open (recorded tp))) (call_update (\<lambda>s. s\<lparr>vs_opened := True\<rparr>)))
      (\<lambda>_. session_ok mc i) (session_ok mc i)"
    by (intro triple_bind [where Q = "\<lambda>_. session_inv mc i g"]) (auto intro!: triple_quiet intro: session_okI)
qed

lemma keeps_connect: "keeps mc i connect"
  by (auto simp: triple_def connect_def call_return_def call_fail_def)

text \<open>The two frames of the negotiation.\<close>

lemma negotiation_logged:
  assumes "session_inv mc i (j, False) s"
  shows "session_inv mc i (j, False) (logged t (SentControl NEGOTIATE_CHUNK_SIZE) s)"
    "session_inv mc i (j, False) (logged t' (SentControl READY_TO_RECEIVE_80) (logged t (SentControl NEGOTIATE_CHUNK_SIZE) s))"
    "negotiated_trace (trace (logged t' (SentControl READY_TO_RECEIVE_80) (logged t (SentControl NEGOTIATE_CHUNK_SIZE) s)))"
proof -
  show a: "session_inv mc i (j, False) (logged t (SentControl NEGOTIATE_CHUNK_SIZE) s)"
    by (rule inv_logged [OF assms]) (simp_all add: is_chunk_def is_credit_def is_request_def NEGOTIATE_CHUNK_SIZE_def)
  show "session_inv mc i (j, False) (logged t' (SentControl READY_TO_RECEIVE_80) (logged t (SentControl NEGOTIATE_CHUNK_SIZE) s))"
    by (rule inv_logged [OF a]) (simp_all add: is_chunk_def is_credit_def is_request_def READY_TO_RECEIVE_80_def)
  show "negotiated_trace (trace (logged t' (SentControl READY_TO_RECEIVE_80) (logged t (SentControl NEGOTIATE_CHUNK_SIZE) s)))"
    unfolding negotiated_trace_def NEGOTIATION_WRITES_def sublist_def by auto
qed

definition half_negotiated :: "minicbor \<Rightarrow> u16 \<Rightarrow> u16 option \<Rightarrow> 't traced session \<Rightarrow> bool" where
  "half_negotiated mc i j s \<longleftrightarrow>
     session_inv mc i (j, False) s \<and> (\<exists>tr. trace s = tr @ [SentControl NEGOTIATE_CHUNK_SIZE])"

definition all_negotiated :: "minicbor \<Rightarrow> u16 \<Rightarrow> u16 option \<Rightarrow> 't traced session \<Rightarrow> bool" where
  "all_negotiated mc i j s \<longleftrightarrow> session_inv mc i (j, False) s \<and> negotiated_trace (trace s)"

lemma half_logged:
  assumes "half_negotiated mc i j s"
  shows "all_negotiated mc i j (logged t (SentControl READY_TO_RECEIVE_80) s)"
proof -
  from assms obtain tr where tr: "session_inv mc i (j, False) s" "trace s = tr @ [SentControl NEGOTIATE_CHUNK_SIZE]"
    by (auto simp: half_negotiated_def)
  have "session_inv mc i (j, False) (logged t (SentControl READY_TO_RECEIVE_80) s)"
    by (rule inv_logged [OF tr(1)]) (simp_all add: is_chunk_def is_credit_def is_request_def READY_TO_RECEIVE_80_def)
  moreover have "negotiated_trace (trace (logged t (SentControl READY_TO_RECEIVE_80) s))"
    using tr(2) by (auto simp: negotiated_trace_def NEGOTIATION_WRITES_def sublist_def)
  ultimately show ?thesis by (simp add: all_negotiated_def)
qed

lemma triple_negotiation_writes:
  "triple (session_inv mc i (j, False)) (write_frames (recorded tp) NEGOTIATION_WRITES) (\<lambda>_. all_negotiated mc i j) (session_ok mc i)"
proof -
  have 1: "triple (session_inv mc i (j, False)) (transport_call (tp_write_control (recorded tp) NEGOTIATE_CHUNK_SIZE))
      (\<lambda>_. half_negotiated mc i j) (session_ok mc i)"
    unfolding recorded_simps
    by (rule triple_write) (auto simp: half_negotiated_def intro: negotiation_logged(1) session_okI)
  have 2: "triple (half_negotiated mc i j) (transport_call (tp_write_control (recorded tp) READY_TO_RECEIVE_80))
      (\<lambda>_. all_negotiated mc i j) (session_ok mc i)"
    unfolding recorded_simps
  proof (rule triple_write)
    fix s :: "'a traced session" and t assume "half_negotiated mc i j s"
    from half_logged [OF this] show "all_negotiated mc i j (logged t (SentControl READY_TO_RECEIVE_80) s)" .
    then show "session_ok mc i (logged t (SentControl READY_TO_RECEIVE_80) s)"
      by (auto simp: all_negotiated_def intro: session_okI)
  qed
  have 3: "triple (all_negotiated mc i j) (call_return ()) (\<lambda>_. all_negotiated mc i j) (session_ok mc i)"
    by (rule triple_return)
  show ?thesis
    unfolding NEGOTIATION_WRITES_def write_frames.simps by (rule triple_bind [OF 1 triple_bind [OF 2 3]])
qed

lemma keeps_negotiate: "keeps mc i (negotiate (recorded tp) NEGOTIATION_WRITES)"
proof (rule tripleI)
  fix s r s' assume s: "session_ok mc i s" "negotiate (recorded tp) NEGOTIATION_WRITES s = (r, s')"
  show "end_ok (\<lambda>_. session_ok mc i) (session_ok mc i) r s'"
  proof (cases "vs_negotiated s")
    case True
    with s show ?thesis by (auto simp: negotiate_def call_return_def)
  next
    case False
    let ?g = "(vs_subscribed_instance s, False)"
    have inv: "session_inv mc i ?g s" using s(1) False by (simp add: session_ok_eq)
    have read: "triple (session_inv mc i ?g) (transport_call (tp_read_control (recorded tp)))
        (\<lambda>_. session_inv mc i ?g) (session_ok mc i)"
      unfolding recorded_simps by (rule triple_quiet) (auto intro: session_okI)
    have info: "triple (session_inv mc i ?g) (call_result v) (\<lambda>_. session_inv mc i ?g) (session_ok mc i)" for v
      by (rule triple_result) (auto intro: session_okI)
    have set: "triple (all_negotiated mc i (vs_subscribed_instance s))
        (call_update (\<lambda>s. s\<lparr>vs_negotiated := True, vs_reusable := False\<rparr>)) (\<lambda>_. session_ok mc i) (session_ok mc i)"
      by (rule triple_update, rule session_okI [of _ _ "(vs_subscribed_instance s, True)"])
        (auto simp: all_negotiated_def session_inv_def session_facts_def credit_off_def)
    have "triple (session_inv mc i ?g) (call_bind (transport_call (tp_read_control (recorded tp))) (\<lambda>control.
        call_bind (call_result (ok_or (BleOther ''invalid control info'') (control_info_parse control))) (\<lambda>info.
        call_then (write_frames (recorded tp) NEGOTIATION_WRITES) (
        call_update (\<lambda>s. s\<lparr>vs_negotiated := True, vs_reusable := False\<rparr>))))) (\<lambda>_. session_ok mc i) (session_ok mc i)"
      by (rule triple_bind [OF read triple_bind [OF info triple_bind [OF triple_negotiation_writes set]]])
    from tripleD [OF this inv] s(2) False show ?thesis by (simp add: negotiate_def)
  qed
qed

lemma keeps_subscribe: "keeps mc i (subscribe fuel (recorded tp) mc i payload)"
proof (rule tripleI)
  fix s r s' assume s: "session_ok mc i s" "subscribe fuel (recorded tp) mc i payload s = (r, s')"
  let ?g = "(vs_subscribed_instance s, vs_negotiated s)"
  have inv: "session_inv mc i ?g s" using s(1) by (simp add: session_ok_eq)
  consider "\<not> vs_negotiated s" | "vs_negotiated s" "vs_subscribed_instance s = Some i"
    | "vs_negotiated s" "vs_subscribed_instance s \<noteq> Some i" by blast
  then show "end_ok (\<lambda>_. session_ok mc i) (session_ok mc i) r s'"
  proof cases
    case 1
    with s show ?thesis by (auto simp: subscribe_def call_fail_def)
  next
    case 2
    with s(2) have "drain_completed_payloads fuel (recorded tp) mc i s = (r, s')" by (simp add: subscribe_def)
    from tripleD [OF triple_drain inv this] show ?thesis
      by (rule end_ok_weaken) (auto intro: session_okI)
  next
    case 3
    have "triple (sending False mc i ?g) (write_request (recorded tp) payload) (\<lambda>_. session_inv mc i ?g) (session_ok mc i)"
      by (rule triple_weaken [OF triple_write_request]) (auto simp: sending_def intro: session_okI)
    note sent = this
    have set: "triple (session_inv mc i ?g) (call_update (\<lambda>s. s\<lparr>vs_subscribed_instance := Some i\<rparr>))
        (\<lambda>_. session_ok mc i) (session_ok mc i)"
      by (rule triple_update, rule session_okI [of _ _ "(Some i, True)"])
        (use 3 in \<open>auto simp: session_inv_def session_facts_def credit_off_def\<close>)
    have drain: "triple (session_inv mc i ?g) (drain_completed_payloads fuel (recorded tp) mc i) (\<lambda>_. session_inv mc i ?g) (session_ok mc i)"
      by (rule triple_weaken [OF triple_drain]) (auto intro: session_okI)
    have "sending False mc i ?g s" using inv 3(1) by (simp add: sending_def)
    from tripleD [OF triple_bind [OF sent triple_bind [OF drain set]] this, of r s'] s(2) 3 show ?thesis
      by (simp add: subscribe_def)
  qed
qed

lemma values_answered:
  assumes "session_inv mc i (Some i, True) s" "request_values fuel (recorded tp) mc payload timeout s = (r, s')"
  shows "end_ok (answer mc i) (session_inv mc i (Some i, True)) r s'"
proof -
  let ?J = "session_inv mc i (Some i, True)"
  let ?again = "value_attempt fuel (recorded tp) mc i payload timeout None"
  have "triple ?J ?again (answer mc i) ?J" by (rule triple_value_attempt) simp
  then have "triple ?J (value_attempt fuel (recorded tp) mc i payload timeout (Some ?again)) (answer mc i) ?J"
    by (intro triple_value_attempt) simp
  moreover have "triple ?J (call_update (\<lambda>s. s\<lparr>vs_reusable := False\<rparr>)) (\<lambda>_. ?J) ?J"
    by (rule triple_update) (rule inv_reusable)
  ultimately have "triple ?J (call_then (call_update (\<lambda>s. s\<lparr>vs_reusable := False\<rparr>))
      (value_attempt fuel (recorded tp) mc i payload timeout (Some ?again))) (answer mc i) ?J"
    by (intro triple_bind [where Q = "\<lambda>_. ?J"])
  from tripleD [OF this assms(1)] assms(2) inv_subscribed [OF assms(1)] show ?thesis by (simp add: request_values_def)
qed

lemma keeps_request_values: "keeps mc i (request_values fuel (recorded tp) mc payload timeout)"
proof (rule tripleI)
  fix s r s' assume s: "session_ok mc i s" "request_values fuel (recorded tp) mc payload timeout s = (r, s')"
  have inv: "session_inv mc i (vs_subscribed_instance s, vs_negotiated s) s" using s(1) by (simp add: session_ok_eq)
  show "end_ok (\<lambda>_. session_ok mc i) (session_ok mc i) r s'"
  proof (cases "vs_subscribed_instance s")
    case None
    with s show ?thesis by (auto simp: request_values_def call_fail_def)
  next
    case (Some j)
    with inv have "session_inv mc i (Some i, True) s" by (simp add: session_inv_def session_facts_def)
    from values_answered [OF this s(2)] show ?thesis
      by (rule end_ok_weaken) (unfold answer_def, (blast intro: session_okI)+)
  qed
qed

lemma keeps_disconnect: "keeps mc i (disconnect (recorded tp))"
proof (rule tripleI)
  fix s r s' assume s: "session_ok mc i s" "disconnect (recorded tp) s = (r, s')"
  have inv: "session_inv mc i (vs_subscribed_instance s, vs_negotiated s) s" using s(1) by (simp add: session_ok_eq)
  obtain q t where q: "tp_close tp (fst (vs_transport s)) = (q, t)" by fastforce
  show "end_ok (\<lambda>_. session_ok mc i) (session_ok mc i) r s'"
  proof (cases q)
    case (Ready u)
    with s(2) q have s': "r = Ready (Inr ())" "s' = s\<lparr>vs_transport := (t, snd (vs_transport s) @ [Closed]), vs_opened := False,
        vs_negotiated := False, vs_subscribed_instance := None, vs_pending := ra_clear (vs_pending s),
        vs_receive_credit := credit_clear (vs_receive_credit s), vs_fallback_values := None, vs_reusable := False\<rparr>"
      by (simp_all add: disconnect_def recorded_def)
    have "session_inv mc i (None, False) s'"
      unfolding s' by (simp add: session_inv_def session_facts_def credit_off_def credit_clear_def requests_after_def)
    then show ?thesis using s'(1) by (simp add: session_okI)
  qed (use s(2) q blindD [OF blind_simps(1) inv, of t] in \<open>auto simp: disconnect_def recorded_def intro: session_okI\<close>)
qed

lemma keeps_finish_cycle: "keeps mc i (finish_cycle (recorded tp))"
  using keeps_disconnect [of mc i tp] by (auto simp: triple_def finish_cycle_def call_return_def)

lemma port_exec_ok: "session_ok mc i s \<Longrightarrow> session_ok mc i (port_exec fuel (recorded tp) mc i c s)"
proof (cases c)
  case CallDiscover
  assume "session_ok mc i s"
  from end_ok_snd [OF keeps_discover this, of "session_ok mc i"] CallDiscover show ?thesis by simp
next
  case CallConnect
  assume "session_ok mc i s"
  from end_ok_snd [OF keeps_connect this, of "session_ok mc i"] CallConnect show ?thesis by simp
next
  case CallNegotiate
  assume "session_ok mc i s"
  from end_ok_snd [OF keeps_negotiate this, of "session_ok mc i"] CallNegotiate show ?thesis by simp
next
  case (CallSubscribe payload)
  assume "session_ok mc i s"
  from end_ok_snd [OF keeps_subscribe this, of "session_ok mc i"] CallSubscribe show ?thesis by simp
next
  case (CallRequestValues payload timeout)
  assume "session_ok mc i s"
  from end_ok_snd [OF keeps_request_values this, of "session_ok mc i"] CallRequestValues show ?thesis by simp
next
  case CallFinishCycle
  assume "session_ok mc i s"
  from end_ok_snd [OF keeps_finish_cycle this, of "session_ok mc i"] CallFinishCycle show ?thesis by simp
next
  case CallDisconnect
  assume "session_ok mc i s"
  from end_ok_snd [OF keeps_disconnect this, of "session_ok mc i"] CallDisconnect show ?thesis by simp
qed

lemma session_new_ok: "session_ok mc i (session_new (t, []))"
  by (rule session_okI [of _ _ "(None, False)"])
    (simp add: session_new_def session_inv_def session_facts_def credit_off_def credit_new_def requests_after_def)

lemma port_run_ok: "session_ok mc i s \<Longrightarrow> session_ok mc i (port_run fuel (recorded tp) mc i calls s)"
  unfolding port_run_def by (induction calls arbitrary: s) (simp_all add: port_exec_ok)

section \<open>Properties\<close>

text \<open>C28: Receive credit is granted for exactly the chunks received. In every history of calls, on any transport
  and whatever is dropped, the chunks received in a connection are 65 for each credit frame and the ones
  counted since, of which there are at most 64; so of the 128 chunks granted by the negotiation at least 64
  are always open to the peer.\<close>

theorem receive_credit_exact:
  "let s = port_run fuel (recorded tp) mc i calls (session_new (t, []));
       chunks = count is_chunk (current (snd (vs_transport s)));
       frames = count is_credit (current (snd (vs_transport s))) in
   chunks = 65 * frames + unat (pending_chunks (vs_receive_credit s)) \<and> 128 + 65 * frames \<ge> chunks + 64"
  using port_run_ok [OF session_new_ok, of mc i fuel tp calls t]
  by (auto simp: session_ok_def session_inv_def credit_off_def Let_def)

text \<open>C29: In every connection the control frames of the negotiation are written, in their order, before the first
  chunk of a request; and a session that counts as reusable has a subscription to the instance, and one that
  has a subscription is negotiated.\<close>

theorem requests_follow_negotiation:
  "let s = port_run fuel (recorded tp) mc i calls (session_new (t, [])) in
   (\<forall>pre e post. current (snd (vs_transport s)) = pre @ e # post \<longrightarrow> is_request e
      \<longrightarrow> sublist (map SentControl NEGOTIATION_WRITES) pre) \<and>
   (vs_reusable s \<longrightarrow> vs_subscribed_instance s = Some i) \<and>
   (vs_subscribed_instance s = Some i \<longrightarrow> sublist (map SentControl NEGOTIATION_WRITES) (current (snd (vs_transport s))))"
  using port_run_ok [OF session_new_ok, of mc i fuel tp calls t]
  by (auto simp: session_ok_def session_inv_def session_facts_def requests_after_def negotiated_trace_def Let_def)

text \<open>C30: Values that a request returns are one complete message of the peer, received in this connection
  between two others or a cleared buffer, and it parses with a value of the subscribed instance.\<close>

theorem values_are_the_peers:
  assumes "s = port_run fuel (recorded tp) mc i calls (session_new (t, []))"
    and "request_values fuel' (recorded tp) mc payload timeout s = (Ready (Inr vals), s')"
  shows "sent_by_peer (current (snd (vs_transport s'))) vals \<and> payload_has_values mc vals i = Inr True"
proof -
  have ok: "session_ok mc i s" unfolding assms(1) by (rule port_run_ok [OF session_new_ok])
  have "vs_subscribed_instance s \<noteq> None"
    using assms(2) by (cases "vs_subscribed_instance s") (simp_all add: request_values_def call_fail_def)
  with ok have "session_inv mc i (Some i, True) s" unfolding session_ok_eq by (auto simp: session_inv_def session_facts_def)
  from values_answered [OF this assms(2)] show ?thesis by (simp add: answer_def)
qed

section \<open>An instance\<close>

text \<open>A solar charger that sends its power right after the subscription: the drain keeps the message, the request
  meets silence, and the kept message is the answer.\<close>

lemma next_item_unfold:
  assumes "get_at (dec_input d) (dec_pos d) = Some b" "budget d \<noteq> 0" "rfc_datatype (dec_input d) (dec_pos d) = Inr ty"
  shows "next_item rfc_minicbor d
    = item_of_type rfc_minicbor (item_levels 16 rfc_minicbor) ty (d\<lparr>budget := budget d - 1\<rparr>)"
proof -
  have "\<not> sd_is_empty d" "MAX_DEPTH + 1 - 0 = Suc 16"
    using assms(1) by (auto simp: sd_is_empty_def sd_remaining_def get_at_def MAX_DEPTH_def split: if_splits)
  moreover have "dec_type rfc_minicbor (d\<lparr>budget := budget d - 1\<rparr>) = Inr ty"
    using assms(3) by (simp add: dec_type_def rfc_minicbor_def)
  ultimately show ?thesis
    using assms(2) by (simp only: next_item_def item_at_def item_levels.simps(2) Let_def try_bind_simps if_False)
qed

lemma rfc_small_uint:
  assumes "get_at (dec_input d) (dec_pos d) = Some b" "unat b < 24" "budget d \<noteq> 0"
  shows "next_item rfc_minicbor d
    = Inr (UInt (of_nat (unat b)), d\<lparr>dec_pos := dec_pos d + 1, budget := budget d - 1\<rparr>)"
proof -
  have pos: "dec_pos d < length (dec_input d)" using assms(1) by (auto simp: get_at_def split: if_splits)
  have "rfc_datatype (dec_input d) (dec_pos d) = Inr TU8"
    using assms(1,2) by (simp add: rfc_datatype_def rfc_type_def)
  moreover have "rfc_expect 0 of_nat (dec_input d) (dec_pos d) = Inr (of_nat (unat b) :: u64, dec_pos d + 1)"
    using assms(1,2) pos by (simp add: rfc_expect_def rfc_head_def arg_width_def get_range_def Let_def)
  ultimately show ?thesis
    using next_item_unfold [OF assms(1,3)] by (simp add: dec_read_def item_of_type_def rfc_minicbor_def)
qed

lemma rfc_one_byte:
  assumes "get_at (dec_input d) (dec_pos d) = Some 65" "get_at (dec_input d) (dec_pos d + 1) = Some b" "budget d \<noteq> 0"
  shows "next_item rfc_minicbor d
    = Inr (Bytes [b], d\<lparr>dec_pos := dec_pos d + 2, budget := budget d - 1\<rparr>)"
proof -
  have pos: "dec_pos d + 1 < length (dec_input d)" "dec_input d ! (dec_pos d + 1) = b"
    using assms(2) by (auto simp: get_at_def split: if_splits)
  have "rfc_datatype (dec_input d) (dec_pos d) = Inr TBytes"
    using assms(1,2) by (simp add: rfc_datatype_def rfc_type_def)
  moreover have "rfc_head (dec_input d) (dec_pos d) = Inr (2, 1, 1, dec_pos d + 1)"
    using assms(1) pos by (simp add: rfc_head_def arg_width_def get_range_def Let_def)
  moreover have "get_range (dec_input d) (dec_pos d + 1) 1 = Some [b]"
    using pos by (simp add: get_range_def take_Suc_conv_app_nth take_Suc hd_drop_conv_nth)
  moreover have "rfc_string 2 (dec_input d) (dec_pos d) = Inr ([Inr [b]], dec_pos d + 2)"
    using assms(1) calculation by (simp add: rfc_string_def rfc_chunk_def)
  ultimately show ?thesis
    using next_item_unfold [OF assms(1,3)] by (simp add: dec_read_def item_of_type_def rfc_minicbor_def MAX_STRING_BYTES_def)
qed

definition power_message :: bytes where
  "power_message = [8, 3, 1, 65, 28]"

lemma power_items: "decode_stream rfc_minicbor power_message = Inr [UInt 8, UInt 3, UInt 1, Bytes [28]]"
  by (simp add: power_message_def decode_stream_def sd_new_def decode_loop.simps rfc_small_uint rfc_one_byte
      sd_is_empty_def sd_remaining_def MAX_ITEMS_def)

lemma power_message_values: "payload_has_values rfc_minicbor power_message 3 = Inr True"
  by (simp add: payload_has_values_def parse_response_stream_def power_items parse_items_def parse_loop.simps
      record_at_def parsed_def u16_try_from_def Let_def ok_or_def)

definition power_notification :: notification where
  "power_notification = \<lparr>n_source = NsLastData, n_value = power_message\<rparr>"

definition power_start :: "(nat \<times> notification list) traced session" where
  "power_start = session_new ((0, [power_notification]), [])"

definition power_transport :: "(nat \<times> notification list) transport" where
  "power_transport = scripted (replicate 7 0)"

lemmas call_simps = call_bind_def call_return_def call_update_def call_result_def call_get_def transport_call_def
  on_transport_def pending_call_def recorded_def untraced_def traced_write_def scripted_def power_transport_def

lemma power_negotiated:
  "port_run fuel (recorded power_transport) mc i [CallDiscover, CallConnect, CallNegotiate] power_start
   = power_start\<lparr>vs_opened := True, vs_negotiated := True,
       vs_transport := ((0, [power_notification]), map SentControl NEGOTIATION_WRITES)\<rparr>"
    by (simp add: port_run_def discover_def connect_def negotiate_def power_start_def call_simps session_new_def control_info_parse_def NEGOTIATION_WRITES_def ok_or_def)

lemma short_request: "split_request [x] 20 = Inr [\<lparr>target = ToLastData, chunk_bytes = [x]\<rparr>]"
  by (simp add: split_request_def split_loop.simps)

lemma first_chunk: "credit_record credit_new NsLastData = (None, \<lparr>pending_chunks = 1\<rparr>)"
  by (simp add: credit_record_def credit_new_def RECEIVE_CREDIT_THRESHOLD_def sat_add_def word_le_nat_alt)

lemma power_received: "ra_push_last_data ra_new power_message = (Inr (Some power_message), ra_new)"
  by (simp add: ra_defs ra_new_def ra_with_max_def DEFAULT_MAX_BUFFER_def power_message_def)

lemma ra_clear_new: "ra_clear ra_new = ra_new"
  by (simp add: ra_clear_def ra_new_def ra_with_max_def)

definition power_session :: "(nat \<times> notification list) traced session" where
  "power_session = port_run 3 (recorded power_transport) rfc_minicbor 3
     [CallDiscover, CallConnect, CallNegotiate, CallSubscribe [3]] power_start"

lemma power_subscribed:
  "power_session = power_start\<lparr>vs_opened := True, vs_negotiated := True, vs_subscribed_instance := Some 3,
     vs_receive_credit := \<lparr>pending_chunks = 1\<rparr>, vs_fallback_values := Some power_message,
     vs_transport := ((500000001, []),
       map SentControl NEGOTIATION_WRITES @ [SentLastData [3], Received power_notification])\<rparr>"
proof -
  have "power_session = port_exec 3 (recorded power_transport) rfc_minicbor 3 (CallSubscribe [3])
     (port_run 3 (recorded power_transport) rfc_minicbor 3 [CallDiscover, CallConnect, CallNegotiate] power_start)"
    unfolding power_session_def port_run_def by simp
  then show ?thesis
    unfolding power_negotiated
    by (simp add: power_message_values power_received call_simps subscribe_def write_request_def short_request
      drain_completed_payloads_def clear_pending_def numeral_3_eq_3 power_notification_def SUBSCRIBE_DRAIN_QUIET_def
      SUBSCRIBE_DRAIN_BUDGET_def power_start_def session_new_def Let_def replenish_receive_credit_def
      record_credit_def drain_notification_def first_chunk ra_clear_new)
qed

lemma power_request:
  "fst (request_values 3 (recorded power_transport) rfc_minicbor [5] 8 power_session) = Ready (Inr power_message)"
  unfolding power_subscribed
  by (simp add: call_simps call_fail_def request_values_def value_attempt_def write_request_def short_request
      clear_pending_def numeral_3_eq_3 power_start_def session_new_def Let_def)

theorem requests_follow_negotiation_witness:
  "vs_subscribed_instance power_session = Some 3 \<and>
   sublist (map SentControl NEGOTIATION_WRITES) (current (snd (vs_transport power_session)))"
proof -
  have "vs_subscribed_instance power_session = Some 3" by (simp add: power_subscribed)
  with requests_follow_negotiation [of 3 power_transport rfc_minicbor 3
      "[CallDiscover, CallConnect, CallNegotiate, CallSubscribe [3]]" "(0, [power_notification])"]
  show ?thesis by (simp add: Let_def power_session_def power_start_def)
qed

theorem values_are_the_peers_witness:
  "sent_by_peer (current (snd (vs_transport
      (snd (request_values 3 (recorded power_transport) rfc_minicbor [5] 8 power_session))))) power_message \<and>
   payload_has_values rfc_minicbor power_message 3 = Inr True"
proof -
  obtain s' where s': "request_values 3 (recorded power_transport) rfc_minicbor [5] 8 power_session
      = (Ready (Inr power_message), s')"
    using power_request by (cases "request_values 3 (recorded power_transport) rfc_minicbor [5] 8 power_session") auto
  show ?thesis
    using values_are_the_peers [OF power_session_def [unfolded power_start_def] s'] by (simp add: s')
qed

end
