(* ===== verification/Client_Diagnostic.thy ===== *)
theory Client_Diagnostic
  imports Client_History Request
begin

text \<open>
  \<open>victron-client\<close>, \<open>session/diagnostic.rs\<close>: the typed read-only operations of the command line tools. A
  request collects the responses that match it until they are complete or the stream is quiet.
\<close>

section \<open>Matching\<close>

fun request_instance :: "request \<Rightarrow> u16 option" where
  "request_instance GetDevices = None"
| "request_instance (Subscribe i) = Some i"
| "request_instance (GetValues i registers) = Some i"
| "request_instance (GetPathList i) = Some i"
| "request_instance (GetPathValues i path_indexes) = Some i"

fun response_matches_request :: "response \<Rightarrow> request \<Rightarrow> bool" where
  "response_matches_request (DeviceList devices) request = (request = GetDevices)"
| "response_matches_request (Value i r d) request =
     (case request of GetValues wanted registers \<Rightarrow> i = ucast wanted \<and> r \<in> set registers | _ \<Rightarrow> False)"
| "response_matches_request (ValueResponse i r c) request =
     (case request of GetValues wanted registers \<Rightarrow> i = ucast wanted \<and> r \<in> set registers | _ \<Rightarrow> False)"
| "response_matches_request (PathList i d) request =
     (case request of GetPathList wanted \<Rightarrow> i = ucast wanted | _ \<Rightarrow> False)"
| "response_matches_request (NewPath i idx p) request =
     (case request of GetPathList wanted \<Rightarrow> i = ucast wanted | _ \<Rightarrow> False)"
| "response_matches_request (PathValue i idx v) request =
     (case request of GetPathValues wanted idxs \<Rightarrow> i = ucast wanted \<and> idx \<in> set idxs | _ \<Rightarrow> False)"
| "response_matches_request (PathResponse i idx c) request =
     (case request of GetPathValues wanted idxs \<Rightarrow> i = ucast wanted \<and> idx \<in> set idxs | _ \<Rightarrow> False)"
| "response_matches_request (ResponseMsg i opcode c) request =
     ((case request_instance request of None \<Rightarrow> True | Some wanted \<Rightarrow> i = ucast wanted)
      \<and> opcode = ucast (out_as_u8 (request_opcode request)))"
| "response_matches_request (UnknownRecord opcode) request = False"

fun is_refusal :: "response \<Rightarrow> bool" where
  "is_refusal (ResponseMsg i opcode c) = (\<not> response_code_is_ok c)"
| "is_refusal _ = False"

fun is_device_list :: "response \<Rightarrow> bool" where
  "is_device_list (DeviceList devices) = True"
| "is_device_list _ = False"

fun is_path_list :: "response \<Rightarrow> bool" where
  "is_path_list (PathList i d) = True"
| "is_path_list _ = False"

fun answers_register :: "u16 \<Rightarrow> response \<Rightarrow> bool" where
  "answers_register wanted (Value i r d) = (r = wanted)"
| "answers_register wanted (ValueResponse i r c) = (r = wanted)"
| "answers_register wanted _ = False"

fun answers_path :: "int \<Rightarrow> response \<Rightarrow> bool" where
  "answers_path wanted (PathValue i idx v) = (idx = wanted)"
| "answers_path wanted (PathResponse i idx c) = (idx = wanted)"
| "answers_path wanted _ = False"

definition request_is_complete :: "request \<Rightarrow> response list \<Rightarrow> bool" where
  "request_is_complete request responses =
     (list_ex is_refusal responses \<or>
      (case request of
         GetDevices \<Rightarrow> list_ex is_device_list responses
       | GetValues i registers \<Rightarrow> list_all (\<lambda>wanted. list_ex (answers_register wanted) responses) registers
       | GetPathList i \<Rightarrow> list_ex is_path_list responses
       | GetPathValues i idxs \<Rightarrow> list_all (\<lambda>wanted. list_ex (answers_path wanted) responses) idxs
       | Subscribe i \<Rightarrow> False))"

section \<open>Operations\<close>

definition open_read_only :: "'t transport \<Rightarrow> ('t session, ble_error, unit) call" where
  "open_read_only tp = call_then (discover tp) (call_then connect (negotiate tp NEGOTIATION_WRITES))"

definition subscribe_read_only :: "nat \<Rightarrow> 't transport \<Rightarrow> minicbor \<Rightarrow> u16 \<Rightarrow> ('t session, ble_error, unit) call" where
  "subscribe_read_only fuel tp mc instance_id =
     (if instance_id = 0 then call_fail (BleOther ''instance must be positive'')
      else call_bind (call_result (map_err map_protocol_error (request_encode mc (Subscribe instance_id)))) (\<lambda>payload.
             subscribe fuel tp mc instance_id payload))"

text \<open>The loop of \<open>request_read_only\<close>: messages until the request is complete, a quiet period after the first
  match, or the deadline.\<close>

fun collect_responses ::
  "nat \<Rightarrow> 't transport \<Rightarrow> minicbor \<Rightarrow> request \<Rightarrow> nat \<Rightarrow> nat option \<Rightarrow> response list
    \<Rightarrow> ('t session, ble_error, response list) call" where
  "collect_responses 0 tp mc request deadline quiet collected s = (Unfinished, s)"
| "collect_responses (Suc fuel) tp mc request deadline quiet collected s =
     (let wait_until = (case quiet of None \<Rightarrow> deadline | Some q \<Rightarrow> min q deadline) in
      case next_payload (Suc fuel) tp wait_until s of
        (Ready (Inr payload), s') \<Rightarrow>
          call_bind (call_result (map_err map_protocol_error (parse_response_stream mc payload))) (\<lambda>responses.
            let collected' = collected @ filter (\<lambda>r. response_matches_request r request) responses in
            if request_is_complete request collected' then call_return collected'
            else (\<lambda>s. collect_responses fuel tp mc request deadline
                   (if collected' \<noteq> [] then Some (tp_now tp (vs_transport s) + SUBSCRIBE_DRAIN_QUIET) else quiet)
                   collected' s)) s'
      | (Ready (Inl e), s') \<Rightarrow>
          (case e of
             BleTimeout operation \<Rightarrow> if collected \<noteq> [] then (Ready (Inr collected), s') else (Ready (Inl e), s')
           | _ \<Rightarrow> (Ready (Inl e), s'))
      | (Dropped, s') \<Rightarrow> (Dropped, s')
      | (Unfinished, s') \<Rightarrow> (Unfinished, s'))"

definition request_read_only ::
  "nat \<Rightarrow> 't transport \<Rightarrow> minicbor \<Rightarrow> request \<Rightarrow> nat \<Rightarrow> ('t session, ble_error, response list) call" where
  "request_read_only fuel tp mc request timeout s =
     (case request of
        Subscribe i \<Rightarrow> call_fail (BleOther ''use subscribe_read_only for subscription requests'') s
      | _ \<Rightarrow>
          if (case request_instance request of None \<Rightarrow> False | Some i \<Rightarrow> vs_subscribed_instance s \<noteq> Some i)
          then call_fail (BleOther ''request instance is not subscribed'') s
          else
            call_then clear_pending (
            call_bind (call_result (map_err map_protocol_error (request_encode mc request))) (\<lambda>payload.
            call_then (write_request tp payload) (\<lambda>s.
              collect_responses fuel tp mc request (tp_now tp (vs_transport s) + timeout) None [] s))) s)"

definition rssi_read_only :: "'t transport \<Rightarrow> ('t session, ble_error, int option) call" where
  "rssi_read_only tp = transport_call (tp_rssi tp)"

definition close_read_only :: "'t transport \<Rightarrow> 't session \<Rightarrow> unit await \<times> 't session" where
  "close_read_only tp s = (case disconnect tp s of (r, s') \<Rightarrow> (await_map (\<lambda>_. ()) r, s'))"

section \<open>Properties\<close>

lemma collect_responses_sound:
  "list_all (\<lambda>r. response_matches_request r request) collected \<Longrightarrow>
    collect_responses fuel tp mc request deadline quiet collected s = (Ready (Inr rs), s') \<Longrightarrow>
    list_all (\<lambda>r. response_matches_request r request) rs \<and> (request_is_complete request rs \<or> rs \<noteq> [])"
proof (induction fuel tp mc request deadline quiet collected s rule: collect_responses.induct)
  case (1 tp mc request deadline quiet collected s)
  then show ?case by simp
next
  case (2 fuel tp mc request deadline quiet collected s)
  let ?u = "case quiet of None \<Rightarrow> deadline | Some q \<Rightarrow> min q deadline"
  obtain r s1 where n: "next_payload (Suc fuel) tp ?u s = (r, s1)" by fastforce
  show ?case
  proof (cases r)
    case (Ready v)
    show ?thesis
    proof (cases v)
      case (Inl e)
      with Ready n 2(2,3) show ?thesis
        by (cases e) (auto simp: Let_def split: if_splits)
    next
      case (Inr payload)
      let ?c = "\<lambda>responses. collected @ filter (\<lambda>r. response_matches_request r request) responses"
      have m: "list_all (\<lambda>r. response_matches_request r request) (?c responses)" for responses
        using 2(2) by (auto simp: list_all_iff)
      show ?thesis
      proof (cases "parse_response_stream mc payload")
        case (Inl e)
        with Ready \<open>v = Inr payload\<close> n 2(3) show ?thesis
          by (simp add: Let_def call_bind_def call_result_def)
      next
        case (Inr responses)
        show ?thesis
        proof (cases "request_is_complete request (?c responses)")
          case True
          with Ready \<open>v = Inr payload\<close> Inr n 2(3) m [of responses] show ?thesis
            by (simp add: Let_def call_bind_def call_result_def call_return_def)
        next
          case False
          with Ready \<open>v = Inr payload\<close> Inr n 2(3) have
            "collect_responses fuel tp mc request deadline
              (if ?c responses \<noteq> [] then Some (tp_now tp (vs_transport s1) + SUBSCRIBE_DRAIN_QUIET) else quiet)
              (?c responses) s1 = (Ready (Inr rs), s')"
            by (simp add: Let_def call_bind_def call_result_def call_return_def)
          with 2(1) [OF refl n [symmetric] Ready \<open>v = Inr payload\<close> refl False m] show ?thesis by blast
        qed
      qed
    qed
  qed (use n 2(3) in \<open>simp_all add: Let_def\<close>)
qed

lemma request_read_only_sound:
  assumes "request_read_only fuel tp mc request timeout s = (Ready (Inr rs), s')"
  shows "(case request_instance request of None \<Rightarrow> True | Some i \<Rightarrow> vs_subscribed_instance s = Some i) \<and>
    list_all (\<lambda>r. response_matches_request r request) rs \<and> (request_is_complete request rs \<or> rs \<noteq> [])"
proof -
  from assms have inst: "case request_instance request of None \<Rightarrow> True | Some i \<Rightarrow> vs_subscribed_instance s = Some i"
    by (auto simp: request_read_only_def call_fail_def split: request.splits option.splits if_splits)
  from assms obtain deadline s1 where
    "collect_responses fuel tp mc request deadline None [] s1 = (Ready (Inr rs), s')"
    by (auto simp: request_read_only_def call_fail_def call_bind_def
        split: request.splits option.splits if_splits prod.splits await.splits sum.splits)
  from collect_responses_sound [OF _ this] inst show ?thesis by simp
qed


lemma power_request_encode: "request_encode rfc_minicbor (GetValues 3 [1]) = Inr [5, 3, 129, 1]"
  by (simp add: request_encode_def encode_into_def enc_then_def rfc_minicbor_def rfc_enc_head_def head_byte_def MAX_REGISTERS_def)

lemma power_request_chunk:
  "split_request [5, 3, 129, 1] 20 = Inr [\<lparr>target = ToLastData, chunk_bytes = [5, 3, 129, 1]\<rparr>]"
  by (simp add: split_request_def split_loop.simps)

lemma power_responses: "parse_response_stream rfc_minicbor power_message = Inr [Value 3 1 [28]]"
  by (simp add: parse_response_stream_def power_items parse_items_def parse_loop.simps
      record_at_def parsed_def u16_try_from_def Let_def ok_or_def)

lemma power_answer:
  "fst (request_read_only (Suc (Suc (Suc 0))) power_transport rfc_minicbor (GetValues 3 [1]) 8
     ((session_new (0, [power_notification]))\<lparr>vs_subscribed_instance := Some 3\<rparr>))
   = Ready (Inr [Value 3 1 [28]])"
    by (simp add: call_simps call_fail_def request_read_only_def power_request_encode write_request_def power_request_chunk
      clear_pending_def session_new_def Let_def power_notification_def 
      replenish_receive_credit_def record_credit_def first_chunk handle_notification_def ra_clear_new power_received power_responses request_is_complete_def)


end
