(* ===== verification/Client_Ends.thy ===== *)
theory Client_Ends
  imports Client_Session Cbor_Rfc8949
begin

text \<open>
  The loops of a session end: when every notification takes time, a wait that has a deadline takes at most as
  many notifications as there are ticks left, and so do the drain and the request.
\<close>

section \<open>Time\<close>

text \<open>Calls of the transport end or are dropped, the clock never goes back, and a notification takes time.\<close>

definition no_later :: "'t transport \<Rightarrow> ('t \<Rightarrow> 'r await \<times> 't) \<Rightarrow> bool" where
  "no_later tp f \<longleftrightarrow> (\<forall>t r t'. f t = (r, t') \<longrightarrow> r \<noteq> Unfinished \<and> tp_now tp t \<le> tp_now tp t')"

definition ticking :: "'t transport \<Rightarrow> bool" where
  "ticking tp \<longleftrightarrow>
     (\<forall>b. no_later tp (tp_write_control tp b) \<and> no_later tp (tp_write_data tp b) \<and> no_later tp (tp_write_last_data tp b)) \<and>
     (\<forall>d. no_later tp (tp_next tp d)) \<and> (\<forall>d. no_later tp (tp_sleep tp d)) \<and>
     (\<forall>d t n t'. tp_next tp d t = (Ready (Inr (Some n)), t') \<longrightarrow> tp_now tp t < tp_now tp t')"

abbreviation now_of :: "'t transport \<Rightarrow> 't session \<Rightarrow> nat" where
  "now_of tp s \<equiv> tp_now tp (vs_transport s)"

text \<open>A call of the session that ends, without the clock going back.\<close>

definition finishes :: "'t transport \<Rightarrow> ('t session, 'e, 'a) call \<Rightarrow> bool" where
  "finishes tp f \<longleftrightarrow> (\<forall>s r s'. f s = (r, s') \<longrightarrow> r \<noteq> Unfinished \<and> now_of tp s \<le> now_of tp s')"

lemma finishesD: "finishes tp f \<Longrightarrow> f s = (r, s') \<Longrightarrow> r \<noteq> Unfinished \<and> now_of tp s \<le> now_of tp s'"
  unfolding finishes_def by blast

lemma finishes_bind:
  assumes "finishes tp f" "\<And>x. finishes tp (k x)"
  shows "finishes tp (call_bind f k)"
  unfolding finishes_def
proof (intro allI impI)
  fix s r s' assume b: "call_bind f k s = (r, s')"
  obtain q s1 where q: "f s = (q, s1)" by fastforce
  note f = finishesD [OF assms(1) q]
  show "r \<noteq> Unfinished \<and> now_of tp s \<le> now_of tp s'"
  proof (cases q rule: end_cases)
    case (good x)
    with b q have "k x s1 = (r, s')" by (simp add: call_bind_def)
    from finishesD [OF assms(2) this] f show ?thesis by simp
  qed (use b q f in \<open>auto simp: call_bind_def\<close>)
qed

lemma finishes_simps:
  "finishes tp (call_return x)" "finishes tp (call_fail e)" "finishes tp (call_result v)"
  "(\<And>s. vs_transport (g s) = vs_transport s) \<Longrightarrow> finishes tp (call_update g)"
  by (simp_all add: finishes_def call_return_def call_fail_def call_result_def call_update_def)

lemma finishes_transport: "no_later tp f \<Longrightarrow> finishes tp (transport_call f)" "no_later tp f \<Longrightarrow> finishes tp (on_transport f)"
proof -
  assume f: "no_later tp f"
  show "finishes tp (transport_call f)" "finishes tp (on_transport f)"
    using f by (auto simp: finishes_def transport_call_def on_transport_def no_later_def split: prod.splits)
qed

lemma finishes_pending: "finishes tp (pending_call f)"
  by (auto simp: finishes_def pending_call_def split: prod.splits)

lemma finishes_credit: "ticking tp \<Longrightarrow> finishes tp (replenish_receive_credit tp source)"
  unfolding replenish_receive_credit_def
proof (rule finishes_bind)
  show "finishes tp (record_credit source)" by (auto simp: finishes_def record_credit_def split: prod.splits)
  show "ticking tp \<Longrightarrow> finishes tp (case credit of None \<Rightarrow> call_return () | Some frame \<Rightarrow> transport_call (tp_write_control tp frame))"
    for credit by (cases credit) (auto simp: finishes_simps ticking_def intro: finishes_transport)
qed

lemma finishes_handle: "finishes tp (handle_notification n)"
proof (cases "n_source n")
  case NsControl
  then show ?thesis
    by (auto simp: handle_notification_def clear_pending_def finishes_simps intro!: finishes_bind split: sum.splits control_message.splits)
qed (auto simp: handle_notification_def finishes_pending finishes_simps intro!: finishes_bind)

lemma finishes_drain_notification: "finishes tp (drain_notification mc i n)"
proof (cases "n_source n")
  case NsLastData
  then show ?thesis
    by (auto simp: drain_notification_def finishes_pending finishes_simps intro!: finishes_bind split: option.splits)
qed (auto simp: drain_notification_def clear_pending_def finishes_pending finishes_simps)

section \<open>Waits\<close>

text \<open>A wait with fuel for every tick to its deadline ends, and a value takes time.\<close>

lemma next_payload_ends:
  assumes "ticking tp"
  shows "Suc deadline - now_of tp s < fuel \<Longrightarrow> next_payload fuel tp deadline s = (r, s') \<Longrightarrow>
    r \<noteq> Unfinished \<and> now_of tp s \<le> now_of tp s' \<and> (\<forall>p. r = Ready (Inr p) \<longrightarrow> now_of tp s < now_of tp s' \<and> now_of tp s \<le> deadline)"
proof (induction fuel arbitrary: s)
  case 0
  then show ?case by simp
next
  case (Suc fuel)
  show ?case
  proof (cases "deadline < now_of tp s")
    case True
    with Suc.prems(2) show ?thesis by (auto simp: call_fail_def)
  next
    case False
    let ?n = "transport_call (tp_next tp (deadline - now_of tp s))"
    let ?step = "\<lambda>n. call_then (replenish_receive_credit tp (n_source n)) (handle_notification n)"
    obtain q s1 where q: "?n s = (q, s1)" by fastforce
    have nl: "no_later tp (tp_next tp (deadline - now_of tp s))" using assms by (simp add: ticking_def)
    note f = finishesD [OF finishes_transport(1) [OF nl] q]
    show ?thesis
    proof (cases "\<exists>n. q = Ready (Inr (Some n))")
      case False
      with \<open>\<not> deadline < now_of tp s\<close> Suc.prems(2) q f show ?thesis
        by (cases q rule: end_cases) (auto simp: call_bind_def call_fail_def split: option.splits)
    next
      case True
      then obtain n where n: "q = Ready (Inr (Some n))" ..
      with q obtain x where "tp_next tp (deadline - now_of tp s) (vs_transport s) = (x, vs_transport s1)"
        "Ready (Inr (Some n)) = await_map (map_err map_transport_error) x"
        by (auto simp: transport_call_def on_transport_def split: prod.splits)
      then have "tp_next tp (deadline - now_of tp s) (vs_transport s) = (Ready (Inr (Some n)), vs_transport s1)"
        by (cases x rule: end_cases) auto
      then have tick: "now_of tp s < now_of tp s1" using assms unfolding ticking_def by blast
      obtain h s2 where h: "?step n s1 = (h, s2)" by fastforce
      have fh: "h \<noteq> Unfinished \<and> now_of tp s1 \<le> now_of tp s2"
        by (rule finishesD [OF finishes_bind h]) (simp_all add: finishes_credit [OF assms] finishes_handle)
      have eq: "call_bind (?step n) (\<lambda>payload. case payload of None \<Rightarrow> next_payload fuel tp deadline | Some p \<Rightarrow> call_return p) s1 = (r, s')"
        using Suc.prems(2) q n \<open>\<not> deadline < now_of tp s\<close> unfolding call_bind_assoc by (simp add: call_bind_def [of ?n] Let_def)
      show ?thesis
      proof (cases h rule: end_cases)
        case (good v)
        show ?thesis
        proof (cases v)
          case None
          with eq good h have "next_payload fuel tp deadline s2 = (r, s')" by (simp add: call_bind_def [of "?step n"])
          moreover have "Suc deadline - now_of tp s2 < fuel" using Suc.prems(1) tick fh False by arith
          ultimately show ?thesis using Suc.IH [of s2] tick fh \<open>\<not> deadline < now_of tp s\<close> by fastforce
        next
          case (Some p)
          with eq good h tick fh \<open>\<not> deadline < now_of tp s\<close> show ?thesis
            by (auto simp: call_bind_def [of "?step n"] call_return_def)
        qed
      qed (use eq h tick fh in \<open>auto simp: call_bind_def [of "?step n"]\<close>)
    qed
  qed
qed

lemma wait_for_values_ends:
  assumes "ticking tp"
  shows "Suc deadline - now_of tp s < fuel \<Longrightarrow> wait_for_values fuel tp mc i deadline s = (r, s') \<Longrightarrow>
    r \<noteq> Unfinished \<and> now_of tp s \<le> now_of tp s'"
proof (induction fuel arbitrary: s)
  case 0
  then show ?case by simp
next
  case (Suc fuel)
  let ?k = "\<lambda>payload. call_bind (call_result (payload_has_values mc payload i)) (\<lambda>correlated.
       if correlated then call_return payload else wait_for_values fuel tp mc i deadline)"
  obtain q s1 where q: "next_payload (Suc fuel) tp deadline s = (q, s1)" by fastforce
  note n = next_payload_ends [OF assms Suc.prems(1) q]
  have b: "call_bind (next_payload (Suc fuel) tp deadline) ?k s = (r, s')"
    using Suc.prems(2) by (simp only: wait_for_values.simps)
  show ?case
  proof (cases q rule: end_cases)
    case (good p)
    with b q have k: "?k p s1 = (r, s')" by (simp only: call_bind_def [of "next_payload (Suc fuel) tp deadline"] prod.case await.case sum.case)
    have "Suc deadline - now_of tp s1 < fuel" using n good Suc.prems(1) by auto
    note ih = Suc.IH [OF this]
    from k ih n show ?thesis
      by (cases "payload_has_values mc p i") (fastforce simp: call_bind_def call_result_def call_return_def split: if_splits)+
  qed (use b q n in \<open>auto simp only: call_bind_def [of "next_payload (Suc fuel) tp deadline"] prod.case await.case sum.case\<close>)
qed

lemma drain_loop_ends:
  assumes "ticking tp"
  shows "Suc deadline - now_of tp s < fuel \<Longrightarrow> drain_loop fuel tp mc i deadline s = (r, s') \<Longrightarrow>
    r \<noteq> Unfinished \<and> now_of tp s \<le> now_of tp s'"
proof (induction fuel arbitrary: s)
  case 0
  then show ?case by simp
next
  case (Suc fuel)
  show ?case
  proof (cases "deadline < now_of tp s")
    case True
    with Suc.prems(2) show ?thesis by (auto simp: call_return_def)
  next
    case False
    let ?n = "on_transport (tp_next tp (min (deadline - now_of tp s) SUBSCRIBE_DRAIN_QUIET))"
    let ?step = "\<lambda>n. call_then (replenish_receive_credit tp (n_source n)) (drain_notification mc i n)"
    obtain q s1 where q: "?n s = (q, s1)" by fastforce
    have nl: "no_later tp (tp_next tp (min (deadline - now_of tp s) SUBSCRIBE_DRAIN_QUIET))"
      using assms by (simp add: ticking_def)
    note f = finishesD [OF finishes_transport(2) [OF nl] q]
    show ?thesis
    proof (cases "\<exists>n. q = Ready (Inr (Some n))")
      case no: False
      then show ?thesis
      proof (cases q rule: end_cases)
        case (good x)
        with no have "x = None" by auto
        with good False Suc.prems(2) q f show ?thesis by (auto simp: Let_def)
      next
        case (failed e)
        with False Suc.prems(2) q f show ?thesis by (cases e) (auto simp: Let_def)
      qed (use False Suc.prems(2) q f in \<open>auto simp: Let_def\<close>)
    next
      case True
      then obtain n where n: "q = Ready (Inr (Some n))" ..
      with q have "tp_next tp (min (deadline - now_of tp s) SUBSCRIBE_DRAIN_QUIET) (vs_transport s) = (Ready (Inr (Some n)), vs_transport s1)"
        by (auto simp: on_transport_def split: prod.splits)
      then have tick: "now_of tp s < now_of tp s1" using assms unfolding ticking_def by blast
      obtain h s2 where h: "?step n s1 = (h, s2)" by fastforce
      have fh: "h \<noteq> Unfinished \<and> now_of tp s1 \<le> now_of tp s2"
        by (rule finishesD [OF finishes_bind h]) (simp_all add: finishes_credit [OF assms] finishes_drain_notification)
      have eq: "call_bind (?step n) (\<lambda>_. drain_loop fuel tp mc i deadline) s1 = (r, s')"
        using Suc.prems(2) q n False unfolding call_bind_assoc by (simp add: Let_def)
      show ?thesis
      proof (cases h rule: end_cases)
        case (good v)
        with eq h have "drain_loop fuel tp mc i deadline s2 = (r, s')" by (simp add: call_bind_def [of "?step n"])
        moreover have "Suc deadline - now_of tp s2 < fuel" using Suc.prems(1) tick fh False by arith
        ultimately show ?thesis using Suc.IH [of s2] tick fh by fastforce
      qed (use eq h tick fh in \<open>auto simp: call_bind_def [of "?step n"]\<close>)
    qed
  qed
qed

section \<open>Calls of the port\<close>

lemma finishes_write_request: "ticking tp \<Longrightarrow> finishes tp (write_request tp payload)"
proof -
  assume t: "ticking tp"
  have "finishes tp (write_chunks tp cs)" for cs
  proof (induction cs)
    case (Cons c cs)
    with t show ?case
      by (cases "target c") (auto simp: ticking_def intro!: finishes_bind intro: finishes_transport)
  qed (simp add: finishes_simps)
  then show ?thesis unfolding write_request_def by (intro finishes_bind) (simp_all add: finishes_simps)
qed

lemma finishes_drain:
  assumes "ticking tp" "Suc SUBSCRIBE_DRAIN_BUDGET < fuel"
  shows "finishes tp (drain_completed_payloads fuel tp mc i)"
proof -
  have "finishes tp (call_bind (call_get (\<lambda>s. now_of tp s)) (\<lambda>started. drain_loop fuel tp mc i (started + SUBSCRIBE_DRAIN_BUDGET)))"
    unfolding finishes_def
  proof (intro allI impI)
    fix s r s'
    assume "call_bind (call_get (\<lambda>s. now_of tp s)) (\<lambda>started. drain_loop fuel tp mc i (started + SUBSCRIBE_DRAIN_BUDGET)) s = (r, s')"
    then have "drain_loop fuel tp mc i (now_of tp s + SUBSCRIBE_DRAIN_BUDGET) s = (r, s')" by (simp add: call_bind_def call_get_def)
    from drain_loop_ends [OF assms(1) _ this] assms(2) show "r \<noteq> Unfinished \<and> now_of tp s \<le> now_of tp s'" by simp
  qed
  note drain = this
  show ?thesis
    unfolding drain_completed_payloads_def clear_pending_def
    by (rule finishes_bind [OF _ finishes_bind [OF _ drain]]) (simp_all add: finishes_simps)
qed

lemma finishes_value_attempt:
  assumes "ticking tp" "Suc timeout < fuel" "\<And>retry. again = Some retry \<Longrightarrow> finishes tp retry"
  shows "finishes tp (value_attempt fuel tp mc i payload timeout again)"
proof -
  let ?wait = "\<lambda>s. case wait_for_values fuel tp mc i (now_of tp s + timeout) s of
         (Ready (Inr values), s') \<Rightarrow> (Ready (Inr values), s'\<lparr>vs_reusable := True\<rparr>)
       | (Ready (Inl e), s') \<Rightarrow>
           (case vs_fallback_values s' of
              Some values \<Rightarrow> (Ready (Inr values), s'\<lparr>vs_fallback_values := None, vs_reusable := True\<rparr>)
            | None \<Rightarrow>
                (case (again, e) of
                   (Some retry, BleTimeout operation) \<Rightarrow> call_then (sleep tp RETRY_PAUSE) retry s'
                 | _ \<Rightarrow> (Ready (Inl e), s')))
       | (Dropped, s') \<Rightarrow> (Dropped, s')
       | (Unfinished, s') \<Rightarrow> (Unfinished, s')"
  have sl: "finishes tp (sleep tp d)" for d
    using assms(1) unfolding finishes_def sleep_def ticking_def no_later_def by (auto split: prod.splits)
  have "finishes tp ?wait"
    unfolding finishes_def
  proof (intro allI impI)
    fix s r s' assume w: "?wait s = (r, s')"
    obtain q s1 where q: "wait_for_values fuel tp mc i (now_of tp s + timeout) s = (q, s1)" by fastforce
    have e: "q \<noteq> Unfinished \<and> now_of tp s \<le> now_of tp s1"
      using wait_for_values_ends [OF assms(1) _ q] assms(2) by simp
    show "r \<noteq> Unfinished \<and> now_of tp s \<le> now_of tp s'"
    proof (cases "\<exists>err retry operation. q = Ready (Inl err) \<and> vs_fallback_values s1 = None \<and> again = Some retry \<and> err = BleTimeout operation")
      case True
      then obtain retry operation where a: "q = Ready (Inl (BleTimeout operation))" "vs_fallback_values s1 = None" "again = Some retry"
        by blast
      with w q have "call_then (sleep tp RETRY_PAUSE) retry s1 = (r, s')" by simp
      from finishesD [OF finishes_bind [OF sl assms(3) [OF a(3)]] this] e show ?thesis by simp
    next
      case False
      with w q e show ?thesis
        by (cases q rule: end_cases) (auto split: option.splits ble_error.splits)
    qed
  qed
  then show ?thesis
    unfolding value_attempt_def clear_pending_def
    by (intro finishes_bind) (simp_all add: finishes_simps finishes_write_request [OF assms(1)])
qed

section \<open>Properties\<close>


lemma scripted_ticking: "ticking (scripted control)"
  by (auto simp: ticking_def no_later_def scripted_def call_return_def split: list.splits)


end
