(* ===== verification/Bluez_Spec.thy ===== *)
theory Bluez_Spec
  imports Ble_Transport Http_Text
begin

text \<open>
  \<open>victron-bluez\<close>, the parts without input and output: \<open>spec.rs\<close> (identity of a VE.Smart device), the pure
  functions of \<open>gatt.rs\<close>, \<open>discovery.rs\<close> and \<open>adapter.rs\<close>. A UUID is its sixteen bytes and an address its six.
  Flags of a characteristic that the code never reads are left out.
\<close>

unbundle bit_operations_syntax

section \<open>Identity of a device\<close>

type_synonym uuid = bytes
type_synonym address = bytes

definition VICTRON_MANUFACTURER_ID :: u16 where
  "VICTRON_MANUFACTURER_ID = 0x02e1"

definition VICTRON_MANUFACTURER_DATA_MASK :: u8 where
  "VICTRON_MANUFACTURER_DATA_MASK = 0xfe"

definition VICTRON_MANUFACTURER_DATA_BYTE :: u8 where
  "VICTRON_MANUFACTURER_DATA_BYTE = 0x10"

definition VE_SMART_SERVICE_UUID_0 :: uuid where
  "VE_SMART_SERVICE_UUID_0 =
     [0x30, 0x6b, 0x00, 0x01, 0xb0, 0x81, 0x40, 0x37, 0x83, 0xdc, 0xe5, 0x9f, 0xcc, 0x3c, 0xdf, 0xd0]"

definition VE_SMART_SERVICE_UUID_1 :: uuid where
  "VE_SMART_SERVICE_UUID_1 =
     [0x30, 0x6b, 0x00, 0x01, 0xb0, 0x81, 0x40, 0x37, 0x83, 0xdc, 0xe5, 0x9f, 0xcc, 0x3c, 0xdf, 0xd1]"

datatype service_variant = Dfd0 | Dfd1

datatype char_role = RoleControl | RoleLastData | RoleData

fun role_index :: "char_role \<Rightarrow> u8" where
  "role_index RoleControl = 1"
| "role_index RoleLastData = 2"
| "role_index RoleData = 3"

fun role_name :: "char_role \<Rightarrow> string" where
  "role_name RoleControl = ''control''"
| "role_name RoleLastData = ''last-data''"
| "role_name RoleData = ''data''"

fun base_bytes :: "service_variant \<Rightarrow> uuid" where
  "base_bytes Dfd0 = VE_SMART_SERVICE_UUID_0"
| "base_bytes Dfd1 = VE_SMART_SERVICE_UUID_1"

definition char_uuid :: "service_variant \<Rightarrow> char_role \<Rightarrow> uuid" where
  "char_uuid v role = (let b = base_bytes v in b[3 := b ! 3 + role_index role])"

definition service_variant_of :: "uuid \<Rightarrow> service_variant option" where
  "service_variant_of u =
     (if u = VE_SMART_SERVICE_UUID_0 then Some Dfd0
      else if u = VE_SMART_SERVICE_UUID_1 then Some Dfd1
      else None)"

definition char_role_of :: "service_variant \<Rightarrow> uuid \<Rightarrow> char_role option" where
  "char_role_of v u =
     (if u = char_uuid v RoleControl then Some RoleControl
      else if u = char_uuid v RoleLastData then Some RoleLastData
      else if u = char_uuid v RoleData then Some RoleData
      else None)"

definition has_victron_service_evidence :: "uuid list \<Rightarrow> bool" where
  "has_victron_service_evidence uuids = list_ex (\<lambda>u. service_variant_of u \<noteq> None) uuids"

definition has_victron_manufacturer_evidence :: "(u16 \<rightharpoonup> bytes) \<Rightarrow> bool" where
  "has_victron_manufacturer_evidence m =
     (case m VICTRON_MANUFACTURER_ID of
        Some (b # rest) \<Rightarrow> b AND VICTRON_MANUFACTURER_DATA_MASK = VICTRON_MANUFACTURER_DATA_BYTE
      | _ \<Rightarrow> False)"

section \<open>Characteristics\<close>

record char_flags =
  fl_read :: bool
  fl_write_without_response :: bool
  fl_write :: bool
  fl_notify :: bool
  fl_indicate :: bool

datatype write_mode = WriteWithoutResponse | WriteWithResponse

definition validate_flags :: "char_flags \<Rightarrow> char_role \<Rightarrow> transport_error + unit" where
  "validate_flags flags role =
     (let notifying = fl_notify flags \<or> fl_indicate flags in
      if \<not> notifying then Inl (TeMissingFlag (role_name role) ''notify|indicate'')
      else if role = RoleControl \<and> \<not> fl_read flags then Inl (TeMissingFlag (role_name role) ''read'')
      else Inr ())"

definition pick_write_mode :: "char_flags \<Rightarrow> char_role \<Rightarrow> transport_error + write_mode" where
  "pick_write_mode flags role =
     (if fl_write_without_response flags then Inr WriteWithoutResponse
      else if fl_write flags then Inr WriteWithResponse
      else Inl (TeMissingFlag (role_name role) ''write|write-without-response''))"

section \<open>The configured device\<close>

definition MAX_ALIAS_LEN :: nat where
  "MAX_ALIAS_LEN = 64"

record device_selector =
  ds_alias :: "string option"
  ds_address :: "address option"

definition selector_validate :: "device_selector \<Rightarrow> transport_error + unit" where
  "selector_validate sel =
     (let alias = (case ds_alias sel of Some a \<Rightarrow> str_trim a | None \<Rightarrow> []); has_alias = (alias \<noteq> []) in
      if \<not> has_alias \<and> ds_address sel = None
      then Inl (TeInvalidConfig ''device selector requires a non-empty alias and/or address'')
      else if has_alias \<and> length (utf8_chars alias) > MAX_ALIAS_LEN
      then Inl (TeInvalidConfig ''device selector alias exceeds 64 characters'')
      else Inr ())"

definition selector_new :: "string option \<Rightarrow> address option \<Rightarrow> transport_error + device_selector" where
  "selector_new alias address =
     (let sel = \<lparr>ds_alias = alias, ds_address = address\<rparr> in try_bind (selector_validate sel) (\<lambda>_. Inr sel))"

definition describe :: "device_selector \<Rightarrow> string" where
  "describe sel = (case ds_alias sel of Some a \<Rightarrow> a | None \<Rightarrow> ''<configured address>'')"

definition selector_matches :: "string \<Rightarrow> string option \<Rightarrow> address \<Rightarrow> device_selector \<Rightarrow> bool" where
  "selector_matches alias name address sel =
     (let alias_wanted = (case map_option str_trim (ds_alias sel) of
                            Some want \<Rightarrow> if want \<noteq> [] then Some want else None | None \<Rightarrow> None);
          alias_hit = (case alias_wanted of
                         Some want \<Rightarrow> eq_ignore_ascii_case (str_trim alias) want | None \<Rightarrow> False);
          name_hit = (case (alias_wanted, name) of
                        (Some want, Some n) \<Rightarrow> eq_ignore_ascii_case (str_trim n) want | _ \<Rightarrow> False);
          address_hit = (ds_address sel = Some address);
          alias_configured = (alias_wanted \<noteq> None) in
      case (alias_configured, ds_address sel \<noteq> None) of
        (True, True) \<Rightarrow> (alias_hit \<or> name_hit) \<and> address_hit
      | (True, False) \<Rightarrow> alias_hit \<or> name_hit
      | (False, _) \<Rightarrow> address_hit)"

definition evidence_ok :: "uuid list \<Rightarrow> (u16 \<rightharpoonup> bytes) \<Rightarrow> bool" where
  "evidence_ok uuids manufacturer_data =
     (has_victron_service_evidence uuids \<or> has_victron_manufacturer_evidence manufacturer_data)"

section \<open>The adapter\<close>

definition DEFAULT_ADAPTER :: string where
  "DEFAULT_ADAPTER = ''hci0''"

datatype power_policy = RequireManual | EnableIfOff

definition pick_adapter_name :: "string list \<Rightarrow> string option \<Rightarrow> transport_error + string" where
  "pick_adapter_name names configured =
     (case configured of
        Some c \<Rightarrow> if c \<in> set names then Inr c else Inl (TeAdapterNotFound c)
      | None \<Rightarrow>
          if DEFAULT_ADAPTER \<in> set names then Inr DEFAULT_ADAPTER
          else (case names of n # ns \<Rightarrow> Inr n | [] \<Rightarrow> Inl (TeAdapterNotFound DEFAULT_ADAPTER)))"

section \<open>Lemmas\<close>

lemmas uuid_defs = char_uuid_def VE_SMART_SERVICE_UUID_0_def VE_SMART_SERVICE_UUID_1_def

lemma char_uuid_eq_iff: "char_uuid v r = char_uuid v' r' \<longleftrightarrow> v = v' \<and> r = r'"
  by (cases v; cases v'; cases r; cases r') (simp_all add: uuid_defs Let_def)

text \<open>The six characteristics are told apart, and none is taken for a service.\<close>

lemma char_role_exact: "char_role_of v u = Some r \<longleftrightarrow> u = char_uuid v r"
  by (cases r) (auto simp: char_role_of_def char_uuid_eq_iff)

lemma service_variant_exact: "service_variant_of u = Some v \<longleftrightarrow> u = base_bytes v"
  by (cases v) (auto simp: service_variant_of_def VE_SMART_SERVICE_UUID_0_def VE_SMART_SERVICE_UUID_1_def)

lemma char_uuid_no_service: "service_variant_of (char_uuid v r) = None"
  by (cases v; cases r) (simp_all add: service_variant_of_def uuid_defs Let_def)

text \<open>A configured address is never given up for an alias.\<close>

lemma selector_address: "selector_matches alias name a sel \<Longrightarrow> ds_address sel \<noteq> None \<Longrightarrow> ds_address sel = Some a"
  by (auto simp: selector_matches_def Let_def split: option.splits if_splits bool.splits)

lemma selector_needs_configuration:
  "selector_matches alias name a sel \<Longrightarrow> ds_address sel = None \<Longrightarrow>
    (\<exists>w. ds_alias sel = Some w \<and> str_trim w \<noteq> [] \<and>
      (eq_ignore_ascii_case (str_trim alias) (str_trim w) \<or>
       (\<exists>n. name = Some n \<and> eq_ignore_ascii_case (str_trim n) (str_trim w))))"
  by (auto simp: selector_matches_def Let_def split: option.splits if_splits bool.splits)

text \<open>The configured name is taken or refused, never replaced.\<close>

lemma pick_adapter_name_known: "pick_adapter_name names c = Inr n \<Longrightarrow> n \<in> set names \<and> (c = None \<or> c = Some n)"
  by (auto simp: pick_adapter_name_def split: option.splits if_splits list.splits)

end
