(* ===== verification/Bluez_Stack.thy ===== *)
theory Bluez_Stack
  imports Bluez_Spec
begin

text \<open>
  \<open>victron-bluez\<close>: the BlueZ stack as the code uses it through the crate bluer, with the errors
  (\<open>error.rs\<close>), the deadlines (\<open>timeout.rs\<close>), the adapter (\<open>adapter.rs\<close>), the search for the configured
  device (\<open>discovery.rs\<close>) and its GATT surface (\<open>gatt.rs\<close>).

  bluer and the daemon behind it are a parameter: a record of functions over a state \<open>'b\<close>. An object of the
  library is a number, its handle. A call that waits is given the time the code allows it; it gives its
  result, or \<open>None\<close> when that time passes first, or is dropped with everything around it.
\<close>

section \<open>Errors\<close>

datatype internal_kind = DBusConnectionLost | DBusError | IoError | OtherInternal

datatype bluer_kind =
    BkAuthenticationCanceled | BkAuthenticationFailed | BkAuthenticationRejected | BkAuthenticationTimeout
  | BkNotAuthorized | BkAlreadyConnected | BkAlreadyExists | BkInProgress | BkNotPermitted | BkDiscoveryActive
  | BkDoesNotExist | BkNotFound | BkConnectionAttemptFailed | BkServicesUnresolved | BkNotificationSessionStopped
  | BkIndicationUnconfirmed | BkNotReady | BkNotSupported | BkNotAvailable | BkFailed | BkInvalidArguments
  | BkInvalidLength | BkInvalidOffset | BkInvalidAddress | BkInvalidName | BkNotRegistered
  | BkAdvertisementMonitorRejected | BkInternal internal_kind | BkOther

fun classify_bluer_kind :: "bluer_kind \<Rightarrow> transport_error" where
  "classify_bluer_kind BkAuthenticationCanceled = TeAuth ''authentication-canceled''"
| "classify_bluer_kind BkAuthenticationFailed = TeAuth ''authentication-failed''"
| "classify_bluer_kind BkAuthenticationRejected = TeAuth ''authentication-rejected''"
| "classify_bluer_kind BkAuthenticationTimeout = TeAuth ''authentication-timeout''"
| "classify_bluer_kind BkNotAuthorized = TeAuth ''not-authorized''"
| "classify_bluer_kind BkAlreadyConnected = TeContention ''already-connected''"
| "classify_bluer_kind BkAlreadyExists = TeContention ''already-exists''"
| "classify_bluer_kind BkInProgress = TeContention ''in-progress''"
| "classify_bluer_kind BkNotPermitted = TeContention ''not-permitted''"
| "classify_bluer_kind BkDiscoveryActive = TeContention ''discovery-active''"
| "classify_bluer_kind BkDoesNotExist = TeDeviceNotFound ''<address>''"
| "classify_bluer_kind BkNotFound = TeDeviceNotFound ''<address>''"
| "classify_bluer_kind BkConnectionAttemptFailed = TeOther ''connection-attempt-failed''"
| "classify_bluer_kind BkServicesUnresolved = TeOther ''services-unresolved''"
| "classify_bluer_kind BkNotificationSessionStopped = TeNotificationStopped"
| "classify_bluer_kind BkIndicationUnconfirmed = TeOther ''indication-unconfirmed''"
| "classify_bluer_kind BkNotReady = TeOther ''not-ready''"
| "classify_bluer_kind BkNotSupported = TeNotSupported ''bluer-operation''"
| "classify_bluer_kind BkNotAvailable = TeOther ''not-available''"
| "classify_bluer_kind BkFailed = TeOther ''failed''"
| "classify_bluer_kind BkInvalidArguments = TeOther ''invalid-arguments''"
| "classify_bluer_kind BkInvalidLength = TeOther ''invalid-length''"
| "classify_bluer_kind BkInvalidOffset = TeOther ''invalid-offset''"
| "classify_bluer_kind BkInvalidAddress = TeOther ''invalid-address''"
| "classify_bluer_kind BkInvalidName = TeOther ''invalid-name''"
| "classify_bluer_kind BkNotRegistered = TeOther ''not-registered''"
| "classify_bluer_kind BkAdvertisementMonitorRejected = TeOther ''advertisement-monitor-rejected''"
| "classify_bluer_kind (BkInternal DBusConnectionLost) = TeDbus ''connection-lost''"
| "classify_bluer_kind (BkInternal DBusError) = TeDbus ''dbus-error''"
| "classify_bluer_kind (BkInternal IoError) = TeOther ''io''"
| "classify_bluer_kind (BkInternal OtherInternal) = TeOther ''internal''"
| "classify_bluer_kind BkOther = TeOther ''unclassified''"

section \<open>The stack\<close>

type_synonym handle = nat

type_synonym ('b, 'a) dbus = "nat \<Rightarrow> 'b \<Rightarrow> (bluer_kind + 'a) option await \<times> 'b"

datatype adapter_event = DeviceAdded address | OtherEvent

text \<open>\<open>bl_event\<close> waits for the next change of a discovery, \<open>Some None\<close> is the end of its stream; \<open>bl_select\<close>
  waits for the first of three notification streams that gives a value or ends.\<close>

record 'b bluer =
  bl_now :: "'b \<Rightarrow> nat"
  bl_sleep :: "nat \<Rightarrow> 'b \<Rightarrow> unit await \<times> 'b"
  bl_session_new :: "('b, handle) dbus"
  bl_adapter_names :: "handle \<Rightarrow> ('b, string list) dbus"
  bl_adapter :: "handle \<Rightarrow> string \<Rightarrow> 'b \<Rightarrow> bluer_kind + handle"
  bl_adapter_name :: "handle \<Rightarrow> string"
  bl_is_powered :: "handle \<Rightarrow> ('b, bool) dbus"
  bl_set_powered :: "handle \<Rightarrow> bool \<Rightarrow> ('b, unit) dbus"
  bl_device_addresses :: "handle \<Rightarrow> ('b, address list) dbus"
  bl_discover :: "handle \<Rightarrow> ('b, handle) dbus"
  bl_event :: "handle \<Rightarrow> nat \<Rightarrow> 'b \<Rightarrow> adapter_event option option await \<times> 'b"
  bl_device :: "handle \<Rightarrow> address \<Rightarrow> 'b \<Rightarrow> bluer_kind + handle"
  bl_alias :: "handle \<Rightarrow> ('b, string) dbus"
  bl_name :: "handle \<Rightarrow> ('b, string option) dbus"
  bl_is_paired :: "handle \<Rightarrow> ('b, bool) dbus"
  bl_uuids :: "handle \<Rightarrow> ('b, uuid list option) dbus"
  bl_manufacturer_data :: "handle \<Rightarrow> ('b, (u16 \<rightharpoonup> bytes) option) dbus"
  bl_is_connected :: "handle \<Rightarrow> ('b, bool) dbus"
  bl_connect :: "handle \<Rightarrow> ('b, unit) dbus"
  bl_disconnect :: "handle \<Rightarrow> ('b, unit) dbus"
  bl_rssi :: "handle \<Rightarrow> ('b, int option) dbus"
  bl_services :: "handle \<Rightarrow> ('b, handle list) dbus"
  bl_service_uuid :: "handle \<Rightarrow> ('b, uuid) dbus"
  bl_characteristics :: "handle \<Rightarrow> ('b, handle list) dbus"
  bl_char_uuid :: "handle \<Rightarrow> ('b, uuid) dbus"
  bl_char_flags :: "handle \<Rightarrow> ('b, char_flags) dbus"
  bl_notify :: "handle \<Rightarrow> ('b, handle) dbus"
  bl_select :: "handle \<Rightarrow> handle \<Rightarrow> handle \<Rightarrow> nat \<Rightarrow> 'b \<Rightarrow> (notification_source \<times> bytes option) option await \<times> 'b"
  bl_read :: "handle \<Rightarrow> ('b, bytes) dbus"
  bl_write :: "handle \<Rightarrow> bytes \<Rightarrow> ('b, unit) dbus"
  bl_write_request :: "handle \<Rightarrow> bytes \<Rightarrow> ('b, unit) dbus"

text \<open>\<open>bounded\<close> of a call of the library with its errors classified, and a call that does not wait.\<close>

definition bounded :: "string \<Rightarrow> nat \<Rightarrow> ('b, 'a) dbus \<Rightarrow> ('b, transport_error, 'a) call" where
  "bounded operation timeout f s =
     (case f timeout s of
        (Ready (Some r), s') \<Rightarrow> (Ready (map_err classify_bluer_kind r), s')
      | (Ready None, s') \<Rightarrow> (Ready (Inl (TeTimeout operation)), s')
      | (Dropped, s') \<Rightarrow> (Dropped, s')
      | (Unfinished, s') \<Rightarrow> (Unfinished, s'))"

definition immediate :: "('b \<Rightarrow> bluer_kind + 'a) \<Rightarrow> ('b, transport_error, 'a) call" where
  "immediate f s = (Ready (map_err classify_bluer_kind (f s)), s)"

text \<open>\<open>match bounded(..).await\<close> with an arm for the error.\<close>

definition call_catch ::
  "('s, 'e, 'a) call \<Rightarrow> ('a \<Rightarrow> ('s, 'e, 'b) call) \<Rightarrow> ('e \<Rightarrow> ('s, 'e, 'b) call) \<Rightarrow> ('s, 'e, 'b) call" where
  "call_catch f ok err s =
     (case f s of
        (Ready (Inr x), s') \<Rightarrow> ok x s'
      | (Ready (Inl e), s') \<Rightarrow> err e s'
      | (Dropped, s') \<Rightarrow> (Dropped, s')
      | (Unfinished, s') \<Rightarrow> (Unfinished, s'))"

section \<open>The adapter\<close>

definition resolve_adapter ::
  "'b bluer \<Rightarrow> handle \<Rightarrow> string option \<Rightarrow> nat \<Rightarrow> ('b, transport_error, handle) call" where
  "resolve_adapter bl session configured op_timeout =
     call_bind (bounded ''adapter-names'' op_timeout (bl_adapter_names bl session)) (\<lambda>names.
     call_bind (call_result (pick_adapter_name names configured)) (\<lambda>name.
       immediate (bl_adapter bl session name)))"

definition ensure_powered ::
  "'b bluer \<Rightarrow> handle \<Rightarrow> power_policy \<Rightarrow> nat \<Rightarrow> ('b, transport_error, unit) call" where
  "ensure_powered bl adapter policy op_timeout =
     call_bind (bounded ''adapter-powered'' op_timeout (bl_is_powered bl adapter)) (\<lambda>powered.
       if powered then call_return ()
       else case policy of
         RequireManual \<Rightarrow> call_fail (TeAdapterNotPowered (bl_adapter_name bl adapter))
       | EnableIfOff \<Rightarrow>
           call_then (bounded ''adapter-set-powered'' op_timeout (bl_set_powered bl adapter True)) (
           call_bind (bounded ''adapter-powered'' op_timeout (bl_is_powered bl adapter)) (\<lambda>on.
             if on then call_return ()
             else call_fail (TeAdapterPowerFailed (bl_adapter_name bl adapter)))))"

section \<open>The configured device\<close>

record candidate =
  cd_device :: handle
  cd_matched :: bool
  cd_bonded :: bool
  cd_evidence :: bool

text \<open>The reads of a device that matched; they give the candidate.\<close>

definition inspect_matched :: "'b bluer \<Rightarrow> nat \<Rightarrow> handle \<Rightarrow> ('b, transport_error, candidate option) call" where
  "inspect_matched bl op_timeout device =
     call_bind (bounded ''device-paired'' op_timeout (bl_is_paired bl device)) (\<lambda>bonded.
     call_bind (bounded ''device-uuids'' op_timeout (bl_uuids bl device)) (\<lambda>uuids.
     call_bind (bounded ''device-manufacturer-data'' op_timeout (bl_manufacturer_data bl device)) (\<lambda>manufacturer_data.
       call_return (Some \<lparr>cd_device = device, cd_matched = True, cd_bonded = bonded,
         cd_evidence = evidence_ok (case uuids of Some u \<Rightarrow> u | None \<Rightarrow> [])
           (case manufacturer_data of Some m \<Rightarrow> m | None \<Rightarrow> Map.empty)\<rparr>))))"

definition inspect ::
  "'b bluer \<Rightarrow> handle \<Rightarrow> device_selector \<Rightarrow> nat \<Rightarrow> address \<Rightarrow> ('b, transport_error, candidate option) call" where
  "inspect bl adapter sel op_timeout address =
     call_bind (immediate (bl_device bl adapter address)) (\<lambda>device.
       let is_address_target = (ds_address sel = Some address);
           with_identity = (\<lambda>alias name.
             if selector_matches alias name address sel then inspect_matched bl op_timeout device
             else call_return None) in
       call_catch (bounded ''device-alias'' op_timeout (bl_alias bl device))
         (\<lambda>alias. call_catch (bounded ''device-name'' op_timeout (bl_name bl device))
            (with_identity alias)
            (\<lambda>e. if is_address_target then call_fail e else with_identity alias None))
         (\<lambda>e. if is_address_target then call_fail e else call_return None))"

definition choose_device :: "candidate list \<Rightarrow> device_selector \<Rightarrow> bool \<Rightarrow> transport_error + handle" where
  "choose_device candidates sel require_evidence =
     (case List.find (\<lambda>c. cd_matched c \<and> cd_bonded c \<and> cd_evidence c) candidates of
        Some c \<Rightarrow> Inr (cd_device c)
      | None \<Rightarrow>
          (case List.find (\<lambda>c. cd_matched c \<and> cd_bonded c) candidates of
             Some c \<Rightarrow> if \<not> require_evidence then Inr (cd_device c) else Inl (TeNoVictronEvidence (describe sel))
           | None \<Rightarrow>
               if list_ex (\<lambda>c. cd_matched c \<and> \<not> cd_bonded c) candidates then Inl (TeNotBonded (describe sel))
               else Inl (TeDeviceNotFound (describe sel))))"

text \<open>\<open>for address in &known\<close>.\<close>

fun inspect_all ::
  "'b bluer \<Rightarrow> handle \<Rightarrow> device_selector \<Rightarrow> nat \<Rightarrow> address list \<Rightarrow> candidate list
    \<Rightarrow> ('b, transport_error, candidate list) call" where
  "inspect_all bl adapter sel op_timeout [] candidates = call_return candidates"
| "inspect_all bl adapter sel op_timeout (a # as) candidates =
     call_bind (inspect bl adapter sel op_timeout a) (\<lambda>c.
       inspect_all bl adapter sel op_timeout as (case c of Some x \<Rightarrow> candidates @ [x] | None \<Rightarrow> candidates))"

text \<open>The scan, until a device is chosen, its stream ends or its time is over. \<open>fuel\<close> bounds the events.\<close>

fun scan_loop ::
  "nat \<Rightarrow> 'b bluer \<Rightarrow> handle \<Rightarrow> device_selector \<Rightarrow> bool \<Rightarrow> nat \<Rightarrow> handle \<Rightarrow> nat \<Rightarrow> address list \<Rightarrow> candidate list
    \<Rightarrow> ('b, transport_error, handle option) call" where
  "scan_loop 0 bl adapter sel require_evidence op_timeout stream deadline seen candidates s = (Unfinished, s)"
| "scan_loop (Suc fuel) bl adapter sel require_evidence op_timeout stream deadline seen candidates s =
     (case bl_event bl stream (deadline - bl_now bl s) s of
        (Ready (Some (Some (DeviceAdded a))), s') \<Rightarrow>
          if a \<in> set seen
          then scan_loop fuel bl adapter sel require_evidence op_timeout stream deadline seen candidates s'
          else
            call_bind (inspect bl adapter sel op_timeout a) (\<lambda>c.
              case c of
                None \<Rightarrow> scan_loop fuel bl adapter sel require_evidence op_timeout stream deadline (a # seen) candidates
              | Some x \<Rightarrow>
                  (case choose_device (candidates @ [x]) sel require_evidence of
                     Inr device \<Rightarrow> call_return (Some device)
                   | Inl e \<Rightarrow> scan_loop fuel bl adapter sel require_evidence op_timeout stream deadline (a # seen)
                       (candidates @ [x]))) s'
      | (Ready (Some (Some OtherEvent)), s') \<Rightarrow>
          scan_loop fuel bl adapter sel require_evidence op_timeout stream deadline seen candidates s'
      | (Ready (Some None), s') \<Rightarrow> (Ready (Inr None), s')
      | (Ready None, s') \<Rightarrow> (Ready (Inr None), s')
      | (Dropped, s') \<Rightarrow> (Dropped, s')
      | (Unfinished, s') \<Rightarrow> (Unfinished, s'))"

definition resolve_device ::
  "nat \<Rightarrow> 'b bluer \<Rightarrow> handle \<Rightarrow> device_selector \<Rightarrow> nat \<Rightarrow> bool \<Rightarrow> nat \<Rightarrow> ('b, transport_error, handle) call" where
  "resolve_device fuel bl adapter sel scan_timeout require_evidence op_timeout =
     call_bind (bounded ''device-addresses'' op_timeout (bl_device_addresses bl adapter)) (\<lambda>known.
     call_bind (inspect_all bl adapter sel op_timeout known []) (\<lambda>candidates.
       case choose_device candidates sel require_evidence of
         Inr device \<Rightarrow> call_return device
       | Inl _ \<Rightarrow>
           call_bind (bounded ''discovery-start'' op_timeout (bl_discover bl adapter)) (\<lambda>stream.
           call_bind (call_get (bl_now bl)) (\<lambda>now.
           call_bind (scan_loop fuel bl adapter sel require_evidence op_timeout stream (now + scan_timeout) known candidates) (\<lambda>found.
             case found of
               Some device \<Rightarrow> call_return device
             | None \<Rightarrow>
                 call_bind (bounded ''device-addresses-refresh'' op_timeout (bl_device_addresses bl adapter)) (\<lambda>refreshed.
                 call_bind (inspect_all bl adapter sel op_timeout refreshed []) (\<lambda>current.
                   call_result (choose_device current sel require_evidence))))))))"

section \<open>The GATT surface\<close>

record ve_smart_gatt =
  gt_variant :: service_variant
  gt_control :: handle
  gt_control_write :: write_mode
  gt_last_data :: handle
  gt_last_data_write :: write_mode
  gt_data :: handle
  gt_data_write :: write_mode

text \<open>The characteristics found so far, each with its write mode.\<close>

fun locate_chars ::
  "'b bluer \<Rightarrow> nat \<Rightarrow> service_variant \<Rightarrow> handle list \<Rightarrow> (char_role \<rightharpoonup> handle \<times> write_mode)
    \<Rightarrow> ('b, transport_error, char_role \<rightharpoonup> handle \<times> write_mode) call" where
  "locate_chars bl op_timeout variant [] found = call_return found"
| "locate_chars bl op_timeout variant (c # cs) found =
     call_bind (bounded ''characteristic-uuid'' op_timeout (bl_char_uuid bl c)) (\<lambda>u.
       case char_role_of variant u of
         None \<Rightarrow> locate_chars bl op_timeout variant cs found
       | Some role \<Rightarrow>
           call_bind (bounded ''characteristic-flags'' op_timeout (bl_char_flags bl c)) (\<lambda>flags.
           call_bind (call_result (validate_flags flags role)) (\<lambda>_.
           call_bind (call_result (pick_write_mode flags role)) (\<lambda>mode.
             locate_chars bl op_timeout variant cs (found(role \<mapsto> (c, mode)))))))"

definition gatt_of :: "service_variant \<Rightarrow> (char_role \<rightharpoonup> handle \<times> write_mode) \<Rightarrow> transport_error + ve_smart_gatt" where
  "gatt_of variant found =
     try_bind (ok_or (TeGattNotFound ''control'') (found RoleControl)) (\<lambda>control.
     try_bind (ok_or (TeGattNotFound ''last-data'') (found RoleLastData)) (\<lambda>last_data.
     try_bind (ok_or (TeGattNotFound ''data'') (found RoleData)) (\<lambda>data.
       Inr \<lparr>gt_variant = variant, gt_control = fst control, gt_control_write = snd control,
            gt_last_data = fst last_data, gt_last_data_write = snd last_data,
            gt_data = fst data, gt_data_write = snd data\<rparr>)))"

fun locate_services :: "'b bluer \<Rightarrow> nat \<Rightarrow> handle list \<Rightarrow> ('b, transport_error, ve_smart_gatt) call" where
  "locate_services bl op_timeout [] = call_fail (TeGattNotFound ''ve-smart-service'')"
| "locate_services bl op_timeout (service # services) =
     call_bind (bounded ''service-uuid'' op_timeout (bl_service_uuid bl service)) (\<lambda>u.
       case service_variant_of u of
         None \<Rightarrow> locate_services bl op_timeout services
       | Some variant \<Rightarrow>
           call_bind (bounded ''service-characteristics'' op_timeout (bl_characteristics bl service)) (\<lambda>cs.
           call_bind (locate_chars bl op_timeout variant cs Map.empty) (\<lambda>found.
             call_result (gatt_of variant found))))"

definition locate :: "'b bluer \<Rightarrow> handle \<Rightarrow> nat \<Rightarrow> ('b, transport_error, ve_smart_gatt) call" where
  "locate bl device op_timeout =
     call_bind (bounded ''service-discovery'' op_timeout (bl_services bl device)) (locate_services bl op_timeout)"

text \<open>\<open>write_bounded\<close> under the deadline of its caller.\<close>

definition write_bounded ::
  "'b bluer \<Rightarrow> string \<Rightarrow> nat \<Rightarrow> handle \<Rightarrow> write_mode \<Rightarrow> bytes \<Rightarrow> nat \<Rightarrow> ('b, transport_error, unit) call" where
  "write_bounded bl operation op_timeout characteristic mode data maximum =
     (if data = [] then call_fail (TeInvalidState ''write'')
      else if length data > maximum then call_fail (TePayloadTooLarge (length data) maximum)
      else bounded operation op_timeout
        (case mode of
           WriteWithoutResponse \<Rightarrow> bl_write bl characteristic data
         | WriteWithResponse \<Rightarrow> bl_write_request bl characteristic data))"

end
