(* ===== verification/Bluez_Session.thy ===== *)
theory Bluez_Session
  imports Bluez_Stack Service_Config
begin

text \<open>
  \<open>victron-bluez\<close>, \<open>session.rs\<close>: the transport over BlueZ. Opening validates the configuration, finds the device,
  connects to it, and keeps nothing when a later step fails; \<open>bluez_transport\<close> is the transport the
  session of \<open>Client_Session\<close> runs on. An \<open>expect\<close> that fails is a call that never returns.
\<close>

section \<open>Configuration\<close>

record transport_config =
  tc_adapter :: "string option"
  tc_selector :: device_selector
  tc_power_policy :: power_policy
  tc_connect_timeout :: nat
  tc_discovery_timeout :: nat
  tc_notification_timeout :: nat
  tc_operation_timeout :: nat
  tc_write_chunk_size :: nat
  tc_require_evidence :: bool

definition transport_config_validate :: "transport_config \<Rightarrow> transport_error + unit" where
  "transport_config_validate c =
     try_bind (selector_validate (tc_selector c)) (\<lambda>_.
       if tc_connect_timeout c = 0 \<or> tc_discovery_timeout c = 0 \<or> tc_notification_timeout c = 0
          \<or> tc_operation_timeout c = 0
       then Inl (TeInvalidConfig ''timeouts must be positive'')
       else if tc_write_chunk_size c = 0 then Inl (TeInvalidConfig ''write_chunk_size must be positive'')
       else Inr ())"

definition transport_config_default :: transport_config where
  "transport_config_default =
     \<lparr>tc_adapter = Some DEFAULT_ADAPTER, tc_selector = \<lparr>ds_alias = None, ds_address = None\<rparr>,
      tc_power_policy = RequireManual, tc_connect_timeout = from_secs 15, tc_discovery_timeout = from_secs 12,
      tc_notification_timeout = from_secs 15, tc_operation_timeout = from_secs 20, tc_write_chunk_size = 20,
      tc_require_evidence = True\<rparr>"

section \<open>State\<close>

record session_state =
  ss_session :: "handle option"
  ss_adapter :: "handle option"
  ss_device :: "handle option"
  ss_gatt :: "ve_smart_gatt option"
  ss_connected_by_us :: bool
  ss_open :: bool

definition ss_new :: session_state where
  "ss_new = \<lparr>ss_session = None, ss_adapter = None, ss_device = None, ss_gatt = None,
     ss_connected_by_us = False, ss_open = False\<rparr>"

definition has_resources :: "session_state \<Rightarrow> bool" where
  "has_resources st \<longleftrightarrow> ss_session st \<noteq> None \<or> ss_adapter st \<noteq> None \<or> ss_device st \<noteq> None \<or> ss_gatt st \<noteq> None"

definition ss_commit :: "handle \<Rightarrow> handle \<Rightarrow> handle \<Rightarrow> ve_smart_gatt \<Rightarrow> session_state \<Rightarrow> session_state" where
  "ss_commit session adapter device gatt st =
     st\<lparr>ss_session := Some session, ss_adapter := Some adapter, ss_device := Some device, ss_gatt := Some gatt,
        ss_connected_by_us := True, ss_open := True\<rparr>"

definition ss_clear :: "session_state \<Rightarrow> session_state" where
  "ss_clear st =
     st\<lparr>ss_session := None, ss_adapter := None, ss_device := None, ss_gatt := None,
        ss_connected_by_us := False, ss_open := False\<rparr>"

record 'b bluez =
  bz_config :: transport_config
  bz_state :: session_state
  bz_control_notifications :: "handle option"
  bz_last_data_notifications :: "handle option"
  bz_data_notifications :: "handle option"
  bz_stack :: 'b

definition bluez_new :: "transport_config \<Rightarrow> 'b \<Rightarrow> 'b bluez" where
  "bluez_new c b = \<lparr>bz_config = c, bz_state = ss_new, bz_control_notifications = None,
     bz_last_data_notifications = None, bz_data_notifications = None, bz_stack = b\<rparr>"

definition on_stack :: "('b, 'e, 'a) call \<Rightarrow> ('b bluez, 'e, 'a) call" where
  "on_stack f s = (case f (bz_stack s) of (r, b) \<Rightarrow> (r, s\<lparr>bz_stack := b\<rparr>))"

text \<open>\<open>let _ = ..\<close> of a call that may fail.\<close>

abbreviation call_ignore :: "('s, 'e, 'a) call \<Rightarrow> ('s, 'e, 'b) call \<Rightarrow> ('s, 'e, 'b) call" where
  "call_ignore f k \<equiv> call_catch f (\<lambda>_. k) (\<lambda>_. k)"

section \<open>Opening\<close>

definition retryable_connect_kind :: "bluer_kind \<Rightarrow> bool" where
  "retryable_connect_kind k \<longleftrightarrow> k \<in> {BkConnectionAttemptFailed, BkFailed, BkInProgress, BkNotReady}"

definition stack_sleep :: "'b bluer \<Rightarrow> nat \<Rightarrow> ('b, transport_error, unit) call" where
  "stack_sleep bl d s = (case bl_sleep bl d s of (r, s') \<Rightarrow> (await_map Inr r, s'))"

fun connect_loop :: "nat \<Rightarrow> 'b bluer \<Rightarrow> nat \<Rightarrow> handle \<Rightarrow> nat \<Rightarrow> ('b, transport_error, unit) call" where
  "connect_loop 0 bl op_timeout device deadline s = (Unfinished, s)"
| "connect_loop (Suc fuel) bl op_timeout device deadline s =
     (let now = bl_now bl s in
      if deadline < now then call_fail (TeTimeout ''connect'') s
      else
        case bl_connect bl device (deadline - now) s of
          (Ready (Some (Inr _)), s') \<Rightarrow> (Ready (Inr ()), s')
        | (Ready (Some (Inl k)), s') \<Rightarrow>
            if retryable_connect_kind k
            then call_ignore (bounded ''connect-retry-cancel'' op_timeout (bl_disconnect bl device)) (\<lambda>s.
                   if deadline < bl_now bl s then call_fail (TeTimeout ''connect'') s
                   else call_then (stack_sleep bl (min (deadline - bl_now bl s) (from_secs 1)))
                          (connect_loop fuel bl op_timeout device deadline) s) s'
            else (Ready (Inl (classify_bluer_kind k)), s')
        | (Ready None, s') \<Rightarrow>
            call_ignore (bounded ''connect-timeout-cancel'' op_timeout (bl_disconnect bl device))
              (call_fail (TeTimeout ''connect'')) s'
        | (Dropped, s') \<Rightarrow> (Dropped, s')
        | (Unfinished, s') \<Rightarrow> (Unfinished, s'))"

definition connect_with_retry ::
  "nat \<Rightarrow> 'b bluer \<Rightarrow> transport_config \<Rightarrow> handle \<Rightarrow> ('b, transport_error, unit) call" where
  "connect_with_retry fuel bl c device s =
     connect_loop fuel bl (tc_operation_timeout c) device (bl_now bl s + tc_connect_timeout c) s"

text \<open>The steps before the connection: session, adapter and device.\<close>

definition find_device ::
  "nat \<Rightarrow> 'b bluer \<Rightarrow> transport_config \<Rightarrow> ('b, transport_error, handle \<times> handle \<times> handle) call" where
  "find_device fuel bl c =
     (let op_timeout = tc_operation_timeout c in
      call_bind (bounded ''session-open'' op_timeout (bl_session_new bl)) (\<lambda>session.
      call_bind (resolve_adapter bl session (tc_adapter c) op_timeout) (\<lambda>adapter.
      call_then (ensure_powered bl adapter (tc_power_policy c) op_timeout) (
      call_bind (resolve_device fuel bl adapter (tc_selector c) (tc_discovery_timeout c) (tc_require_evidence c) op_timeout)
        (\<lambda>device.
      call_bind (bounded ''device-connected'' op_timeout (bl_is_connected bl device)) (\<lambda>already_connected.
        if already_connected then call_fail (TeContention ''already-connected'')
        else call_return (session, adapter, device)))))))"

text \<open>The steps after it, which all must succeed.\<close>

definition subscribe_one :: "'b bluer \<Rightarrow> nat \<Rightarrow> handle \<Rightarrow> ('b, transport_error, handle) call" where
  "subscribe_one bl op_timeout characteristic = bounded ''notify-subscribe'' op_timeout (bl_notify bl characteristic)"

definition open_tail ::
  "'b bluer \<Rightarrow> nat \<Rightarrow> handle \<Rightarrow> ('b, transport_error, ve_smart_gatt \<times> handle \<times> handle \<times> handle) call" where
  "open_tail bl op_timeout device =
     call_bind (locate bl device op_timeout) (\<lambda>gatt.
     call_bind (subscribe_one bl op_timeout (gt_control gatt)) (\<lambda>control.
     call_bind (subscribe_one bl op_timeout (gt_last_data gatt)) (\<lambda>last_data.
     call_bind (subscribe_one bl op_timeout (gt_data gatt)) (\<lambda>data.
       call_return (gatt, control, last_data, data)))))"

definition open_transport :: "nat \<Rightarrow> 'b bluer \<Rightarrow> ('b bluez, transport_error, unit) call" where
  "open_transport fuel bl s =
     (if ss_open (bz_state s) then call_return () s
      else
        let c = bz_config s; op_timeout = tc_operation_timeout c in
        call_then (call_result (transport_config_validate c)) (
        call_bind (on_stack (find_device fuel bl c)) (\<lambda>(session, adapter, device).
        call_then (on_stack (connect_with_retry fuel bl c device)) (
        call_catch (on_stack (open_tail bl op_timeout device))
          (\<lambda>(gatt, control, last_data, data).
             call_update (\<lambda>s. s\<lparr>bz_state := ss_commit session adapter device gatt (bz_state s),
               bz_control_notifications := Some control, bz_last_data_notifications := Some last_data,
               bz_data_notifications := Some data\<rparr>))
          (\<lambda>e. call_ignore (on_stack (bounded ''disconnect-rollback'' op_timeout (bl_disconnect bl device)))
                 (call_fail e))))) s)"

section \<open>The open transport\<close>

text \<open>A method of the open transport, on its GATT surface.\<close>

definition with_gatt ::
  "(transport_config \<Rightarrow> ve_smart_gatt \<Rightarrow> ('b, transport_error, 'a) call) \<Rightarrow> ('b bluez, transport_error, 'a) call" where
  "with_gatt f s =
     (if \<not> ss_open (bz_state s) then call_fail (TeInvalidState ''transport'') s
      else case ss_gatt (bz_state s) of
        Some gatt \<Rightarrow> on_stack (f (bz_config s) gatt) s
      | None \<Rightarrow> (Unfinished, s))"

definition read_control :: "'b bluer \<Rightarrow> ('b bluez, transport_error, bytes) call" where
  "read_control bl =
     with_gatt (\<lambda>c gatt. bounded ''control-read'' (tc_operation_timeout c) (bl_read bl (gt_control gatt)))"

definition write_control :: "'b bluer \<Rightarrow> bytes \<Rightarrow> ('b bluez, transport_error, unit) call" where
  "write_control bl data =
     with_gatt (\<lambda>c gatt. write_bounded bl ''control-write'' (tc_operation_timeout c) (gt_control gatt)
       (gt_control_write gatt) data (tc_write_chunk_size c))"

definition write_data :: "'b bluer \<Rightarrow> bytes \<Rightarrow> ('b bluez, transport_error, unit) call" where
  "write_data bl data =
     with_gatt (\<lambda>c gatt. write_bounded bl ''data-write'' (tc_operation_timeout c) (gt_data gatt)
       (gt_data_write gatt) data (tc_write_chunk_size c))"

definition write_last_data :: "'b bluer \<Rightarrow> bytes \<Rightarrow> ('b bluez, transport_error, unit) call" where
  "write_last_data bl data =
     with_gatt (\<lambda>c gatt. write_bounded bl ''last-data-write'' (tc_operation_timeout c) (gt_last_data gatt)
       (gt_last_data_write gatt) data (tc_write_chunk_size c))"

text \<open>\<open>next_notification\<close> under a deadline of its caller, which is \<open>None\<close> when it passes first.\<close>

definition next_notification :: "'b bluer \<Rightarrow> nat \<Rightarrow> ('b bluez, transport_error, notification option) call" where
  "next_notification bl limit s =
     (let timeout = tc_notification_timeout (bz_config s) in
      if \<not> ss_open (bz_state s) then call_fail (TeInvalidState ''transport'') s
      else case (bz_control_notifications s, bz_last_data_notifications s, bz_data_notifications s) of
        (Some control, Some last_data, Some data) \<Rightarrow>
          (case bl_select bl control last_data data (min limit timeout) (bz_stack s) of
             (Ready (Some (source, Some v)), b) \<Rightarrow>
               (Ready (Inr (Some \<lparr>n_source = source, n_value = v\<rparr>)), s\<lparr>bz_stack := b\<rparr>)
           | (Ready (Some (source, None)), b) \<Rightarrow> (Ready (Inl TeNotificationStopped), s\<lparr>bz_stack := b\<rparr>)
           | (Ready None, b) \<Rightarrow>
               (Ready (if timeout \<le> limit then Inl (TeTimeout ''notification'') else Inr None), s\<lparr>bz_stack := b\<rparr>)
           | (Dropped, b) \<Rightarrow> (Dropped, s\<lparr>bz_stack := b\<rparr>)
           | (Unfinished, b) \<Rightarrow> (Unfinished, s\<lparr>bz_stack := b\<rparr>))
      | _ \<Rightarrow> (Unfinished, s))"

definition rssi :: "'b bluer \<Rightarrow> ('b bluez, transport_error, int option) call" where
  "rssi bl s =
     (if \<not> ss_open (bz_state s) then call_fail (TeInvalidState ''transport'') s
      else case ss_device (bz_state s) of
        Some device \<Rightarrow> on_stack (bounded ''rssi'' (tc_operation_timeout (bz_config s)) (bl_rssi bl device)) s
      | None \<Rightarrow> (Unfinished, s))"

definition close_transport :: "'b bluer \<Rightarrow> 'b bluez \<Rightarrow> unit await \<times> 'b bluez" where
  "close_transport bl s =
     (let st = bz_state s;
          s1 = s\<lparr>bz_control_notifications := None, bz_last_data_notifications := None, bz_data_notifications := None,
                 bz_state := st\<lparr>ss_device := None\<rparr>\<rparr>;
          cleared = (\<lambda>s. s\<lparr>bz_state := ss_clear (bz_state s)\<rparr>) in
      case (ss_device st, ss_connected_by_us st) of
        (Some device, True) \<Rightarrow>
          (case on_stack (bounded ''disconnect'' (tc_operation_timeout (bz_config s)) (bl_disconnect bl device)) s1 of
             (Ready _, s2) \<Rightarrow> (Ready (), cleared s2)
           | (Dropped, s2) \<Rightarrow> (Dropped, s2)
           | (Unfinished, s2) \<Rightarrow> (Unfinished, s2))
      | _ \<Rightarrow> (Ready (), cleared s1))"

definition bluez_transport :: "nat \<Rightarrow> 'b bluer \<Rightarrow> 'b bluez transport" where
  "bluez_transport fuel bl =
     \<lparr>tp_open = open_transport fuel bl, tp_read_control = read_control bl, tp_write_control = write_control bl,
      tp_write_data = write_data bl, tp_write_last_data = write_last_data bl, tp_next = next_notification bl,
      tp_rssi = rssi bl, tp_close = close_transport bl,
      tp_now = (\<lambda>s. bl_now bl (bz_stack s)),
      tp_sleep = (\<lambda>d s. case bl_sleep bl d (bz_stack s) of (r, b) \<Rightarrow> (r, s\<lparr>bz_stack := b\<rparr>))\<rparr>"

end
