(* ===== verification/Bluez_Trace.thy ===== *)
theory Bluez_Trace
  imports Bluez_Session
begin

text \<open>
  What the transport does with the connections of the machine: the stack is watched, and the events it
  answers are the trace. \<open>ends\<close> is a triple with one more condition, for calls that are left.
\<close>

section \<open>Triples with a condition for what is left\<close>

definition ends ::
  "('s \<Rightarrow> bool) \<Rightarrow> ('s, 'e, 'a) call \<Rightarrow> ('a \<Rightarrow> 's \<Rightarrow> bool) \<Rightarrow> ('s \<Rightarrow> bool) \<Rightarrow> ('s \<Rightarrow> bool) \<Rightarrow> bool" where
  "ends P f Q E L \<longleftrightarrow> (\<forall>s r s'. P s \<longrightarrow> f s = (r, s') \<longrightarrow>
     (case r of Ready (Inr x) \<Rightarrow> Q x s' | Ready (Inl e) \<Rightarrow> E s' | Dropped \<Rightarrow> L s' | Unfinished \<Rightarrow> L s'))"

lemma endsI:
  "(\<And>s x s'. P s \<Longrightarrow> f s = (Ready (Inr x), s') \<Longrightarrow> Q x s') \<Longrightarrow> (\<And>s e s'. P s \<Longrightarrow> f s = (Ready (Inl e), s') \<Longrightarrow> E s') \<Longrightarrow>
    (\<And>s r s'. P s \<Longrightarrow> f s = (r, s') \<Longrightarrow> r = Dropped \<or> r = Unfinished \<Longrightarrow> L s') \<Longrightarrow> ends P f Q E L"
  unfolding ends_def by (auto split: await.splits sum.splits)

lemma endsD:
  assumes "ends P f Q E L" "P s"
  shows "f s = (Ready (Inr x), s') \<Longrightarrow> Q x s'" "f s = (Ready (Inl e), s') \<Longrightarrow> E s'"
    "f s = (Dropped, s') \<Longrightarrow> L s'" "f s = (Unfinished, s') \<Longrightarrow> L s'"
  using assms unfolding ends_def by (auto dest!: spec [of _ s])

lemma ends_catch:
  assumes "ends P f Q F L" "\<And>x. ends (Q x) (ok x) R E L" "\<And>e. ends F (err e) R E L"
  shows "ends P (call_catch f ok err) R E L"
proof (rule endsI)
  fix s x s' assume s: "P s" "call_catch f ok err s = (Ready (Inr x), s')"
  then show "R x s'"
    using endsD [OF assms(1) s(1)] endsD(1) [OF assms(2)] endsD(1) [OF assms(3)]
    by (auto simp: call_catch_def split: prod.splits await.splits sum.splits)
next
  fix s e s' assume s: "P s" "call_catch f ok err s = (Ready (Inl e), s')"
  then show "E s'"
    using endsD [OF assms(1) s(1)] endsD(2) [OF assms(2)] endsD(2) [OF assms(3)]
    by (auto simp: call_catch_def split: prod.splits await.splits sum.splits)
next
  fix s r s' assume s: "P s" "call_catch f ok err s = (r, s')" "r = Dropped \<or> r = Unfinished"
  then show "L s'"
    using endsD [OF assms(1) s(1)] endsD(3,4) [OF assms(2)] endsD(3,4) [OF assms(3)]
    by (auto simp: call_catch_def split: prod.splits await.splits sum.splits)
qed

lemma call_bind_catch: "call_bind f k = call_catch f k call_fail"
  by (rule ext) (simp add: call_bind_def call_catch_def call_fail_def split: prod.splits await.splits sum.splits)

lemma ends_fail: "(\<And>s. P s \<Longrightarrow> E s) \<Longrightarrow> ends P (call_fail e) Q E L"
  by (rule endsI) (auto simp: call_fail_def)

lemma ends_return: "(\<And>s. P s \<Longrightarrow> Q x s) \<Longrightarrow> ends P (call_return x) Q E L"
  by (rule endsI) (auto simp: call_return_def)

lemma ends_result: "(\<And>s x. P s \<Longrightarrow> r = Inr x \<Longrightarrow> Q x s) \<Longrightarrow> (\<And>s. P s \<Longrightarrow> E s) \<Longrightarrow> ends P (call_result r) Q E L"
  by (rule endsI) (auto simp: call_result_def)

lemma ends_get: "(\<And>s. P s \<Longrightarrow> Q (f s) s) \<Longrightarrow> ends P (call_get f) Q E L"
  by (rule endsI) (auto simp: call_get_def)

lemma ends_update: "(\<And>s. P s \<Longrightarrow> Q () (f s)) \<Longrightarrow> ends P (call_update f) Q E L"
  by (rule endsI) (auto simp: call_update_def)

lemma ends_bind:
  "ends P f Q E L \<Longrightarrow> (\<And>x. ends (Q x) (k x) R E L) \<Longrightarrow> ends P (call_bind f k) R E L"
  unfolding call_bind_catch by (erule ends_catch) (auto intro: ends_fail)

lemma ends_weaken:
  assumes f: "ends P f Q E L"
    and weaker: "\<And>s. P' s \<Longrightarrow> P s" "\<And>x s. Q x s \<Longrightarrow> Q' x s" "\<And>s. E s \<Longrightarrow> E' s" "\<And>s. L s \<Longrightarrow> L' s"
  shows "ends P' f Q' E' L'"
proof (rule endsI)
  fix s x s' assume s: "P' s" "f s = (Ready (Inr x), s')"
  show "Q' x s'" by (rule weaker(2) [OF endsD(1) [OF f weaker(1) [OF s(1)] s(2)]])
next
  fix s e s' assume s: "P' s" "f s = (Ready (Inl e), s')"
  show "E' s'" by (rule weaker(3) [OF endsD(2) [OF f weaker(1) [OF s(1)] s(2)]])
next
  fix s r s' assume s: "P' s" "f s = (r, s')" "r = Dropped \<or> r = Unfinished"
  from s(3) show "L' s'"
    using weaker(4) [OF endsD(3) [OF f weaker(1) [OF s(1)]]] weaker(4) [OF endsD(4) [OF f weaker(1) [OF s(1)]]] s(2)
    by blast
qed

lemma ends_in: "ends P f Q E L \<Longrightarrow> (\<And>s. P' s \<Longrightarrow> P s) \<Longrightarrow> ends P' f Q E L"
  by (erule ends_weaken)

lemma ends_out: "ends P f Q E L \<Longrightarrow> (\<And>x s. Q x s \<Longrightarrow> Q' x s) \<Longrightarrow> ends P f Q' E L"
  by (erule ends_weaken)

lemma ends_left: "ends P f Q E L \<Longrightarrow> (\<And>s. E s \<Longrightarrow> E' s) \<Longrightarrow> (\<And>s. L s \<Longrightarrow> L' s) \<Longrightarrow> ends P f Q E' L'"
  by (erule ends_weaken)

lemma ends_False: "ends (\<lambda>s. False) f Q E L"
  by (simp add: ends_def)

lemma ends_if: "(b \<Longrightarrow> ends P f Q E L) \<Longrightarrow> (\<not> b \<Longrightarrow> ends P g Q E L) \<Longrightarrow> ends P (if b then f else g) Q E L"
  by simp

lemma ends_pre: "(\<And>s. P s \<Longrightarrow> ends (\<lambda>s'. s' = s) f Q E L) \<Longrightarrow> ends P f Q E L"
  unfolding ends_def by blast

lemma ends_step:
  assumes "f s = g s1" "P s1" "ends P g Q E L"
  shows "ends (\<lambda>s'. s' = s) f Q E L"
  unfolding ends_def using assms(1) assms(3) [unfolded ends_def, rule_format, OF assms(2)] by simp

lemma ends_assume: "(a \<Longrightarrow> ends P f Q E L) \<Longrightarrow> ends (\<lambda>s. a \<and> P s) f Q E L"
  by (auto simp: ends_def)

section \<open>A watched stack\<close>

datatype connecting = Established | Refused | Abandoned

datatype bluez_event =
    AliasIs handle string
  | NameIs handle "string option"
  | PairedIs handle bool
  | UuidsAre handle "uuid list option"
  | DataIs handle "(u16 \<rightharpoonup> bytes) option"
  | ConnectedIs handle bool
  | Connecting handle connecting
  | Disconnecting handle

type_synonym 'b watched = "'b \<times> bluez_event list"

definition quiet :: "(nat \<Rightarrow> 'b \<Rightarrow> 'r \<times> 'b) \<Rightarrow> nat \<Rightarrow> 'b watched \<Rightarrow> 'r \<times> 'b watched" where
  "quiet f d x = (case f d (fst x) of (r, b) \<Rightarrow> (r, (b, snd x)))"

definition seen :: "('a \<Rightarrow> bluez_event) \<Rightarrow> ('b, 'a) dbus \<Rightarrow> ('b watched, 'a) dbus" where
  "seen ev f d x =
     (case f d (fst x) of
        (Ready (Some (Inr a)), b) \<Rightarrow> (Ready (Some (Inr a)), (b, snd x @ [ev a]))
      | (r, b) \<Rightarrow> (r, (b, snd x)))"

text \<open>A connection attempt that is left may still end in a connection.\<close>

fun connecting_of :: "(bluer_kind + unit) option await \<Rightarrow> connecting" where
  "connecting_of (Ready (Some (Inr u))) = Established"
| "connecting_of (Ready (Some (Inl k))) = Refused"
| "connecting_of r = Abandoned"

definition watched :: "'b bluer \<Rightarrow> 'b watched bluer" where
  "watched bl =
     \<lparr>bl_now = (\<lambda>x. bl_now bl (fst x)), bl_sleep = quiet (bl_sleep bl), bl_session_new = quiet (bl_session_new bl),
      bl_adapter_names = (\<lambda>h. quiet (bl_adapter_names bl h)), bl_adapter = (\<lambda>h n x. bl_adapter bl h n (fst x)),
      bl_adapter_name = bl_adapter_name bl, bl_is_powered = (\<lambda>h. quiet (bl_is_powered bl h)),
      bl_set_powered = (\<lambda>h on. quiet (bl_set_powered bl h on)),
      bl_device_addresses = (\<lambda>h. quiet (bl_device_addresses bl h)), bl_discover = (\<lambda>h. quiet (bl_discover bl h)),
      bl_event = (\<lambda>h. quiet (bl_event bl h)), bl_device = (\<lambda>h a x. bl_device bl h a (fst x)),
      bl_alias = (\<lambda>h. seen (AliasIs h) (bl_alias bl h)), bl_name = (\<lambda>h. seen (NameIs h) (bl_name bl h)),
      bl_is_paired = (\<lambda>h. seen (PairedIs h) (bl_is_paired bl h)), bl_uuids = (\<lambda>h. seen (UuidsAre h) (bl_uuids bl h)),
      bl_manufacturer_data = (\<lambda>h. seen (DataIs h) (bl_manufacturer_data bl h)),
      bl_is_connected = (\<lambda>h. seen (ConnectedIs h) (bl_is_connected bl h)),
      bl_connect = (\<lambda>h d x. case bl_connect bl h d (fst x) of
        (r, b) \<Rightarrow> (r, (b, snd x @ [Connecting h (connecting_of r)]))),
      bl_disconnect = (\<lambda>h d x. case bl_disconnect bl h d (fst x) of (r, b) \<Rightarrow> (r, (b, snd x @ [Disconnecting h]))),
      bl_rssi = (\<lambda>h. quiet (bl_rssi bl h)), bl_services = (\<lambda>h. quiet (bl_services bl h)),
      bl_service_uuid = (\<lambda>h. quiet (bl_service_uuid bl h)),
      bl_characteristics = (\<lambda>h. quiet (bl_characteristics bl h)),
      bl_char_uuid = (\<lambda>h. quiet (bl_char_uuid bl h)), bl_char_flags = (\<lambda>h. quiet (bl_char_flags bl h)),
      bl_notify = (\<lambda>h. quiet (bl_notify bl h)), bl_select = (\<lambda>h i j. quiet (bl_select bl h i j)),
      bl_read = (\<lambda>h. quiet (bl_read bl h)), bl_write = (\<lambda>h data. quiet (bl_write bl h data)),
      bl_write_request = (\<lambda>h data. quiet (bl_write_request bl h data))\<rparr>"

lemma watched_simps [simp]:
  "bl_now (watched bl) x = bl_now bl (fst x)" "bl_sleep (watched bl) = quiet (bl_sleep bl)"
  "bl_session_new (watched bl) = quiet (bl_session_new bl)"
  "bl_adapter_names (watched bl) h = quiet (bl_adapter_names bl h)"
  "bl_adapter (watched bl) h n x = bl_adapter bl h n (fst x)"
  "bl_adapter_name (watched bl) h = bl_adapter_name bl h"
  "bl_is_powered (watched bl) h = quiet (bl_is_powered bl h)"
  "bl_set_powered (watched bl) h on = quiet (bl_set_powered bl h on)"
  "bl_device_addresses (watched bl) h = quiet (bl_device_addresses bl h)"
  "bl_discover (watched bl) h = quiet (bl_discover bl h)" "bl_event (watched bl) h = quiet (bl_event bl h)"
  "bl_device (watched bl) h a x = bl_device bl h a (fst x)"
  "bl_alias (watched bl) h = seen (AliasIs h) (bl_alias bl h)"
  "bl_name (watched bl) h = seen (NameIs h) (bl_name bl h)"
  "bl_is_paired (watched bl) h = seen (PairedIs h) (bl_is_paired bl h)"
  "bl_uuids (watched bl) h = seen (UuidsAre h) (bl_uuids bl h)"
  "bl_manufacturer_data (watched bl) h = seen (DataIs h) (bl_manufacturer_data bl h)"
  "bl_is_connected (watched bl) h = seen (ConnectedIs h) (bl_is_connected bl h)"
  "bl_rssi (watched bl) h = quiet (bl_rssi bl h)" "bl_services (watched bl) h = quiet (bl_services bl h)"
  "bl_service_uuid (watched bl) h = quiet (bl_service_uuid bl h)"
  "bl_characteristics (watched bl) h = quiet (bl_characteristics bl h)"
  "bl_char_uuid (watched bl) h = quiet (bl_char_uuid bl h)" "bl_char_flags (watched bl) h = quiet (bl_char_flags bl h)"
  "bl_notify (watched bl) h = quiet (bl_notify bl h)" "bl_select (watched bl) h i j = quiet (bl_select bl h i j)"
  "bl_read (watched bl) h = quiet (bl_read bl h)" "bl_write (watched bl) h data = quiet (bl_write bl h data)"
  "bl_write_request (watched bl) h data = quiet (bl_write_request bl h data)"
  by (simp_all add: watched_def)

section \<open>Connections\<close>

text \<open>The connections of the machine as the transport may touch them: none, one device that was found free,
  or one device that the transport has connected.\<close>

datatype connection = Away | Clear handle | Held handle

fun conn_step :: "connection \<Rightarrow> bluez_event \<Rightarrow> connection option" where
  "conn_step (Held d) (ConnectedIs e on) = None"
| "conn_step k (ConnectedIs e on) = Some (if on then Away else Clear e)"
| "conn_step (Clear d) (Connecting e how) =
     (if d = e then Some (if how = Refused then Clear d else Held d) else None)"
| "conn_step k (Connecting e how) = None"
| "conn_step Away (Disconnecting e) = None"
| "conn_step (Clear d) (Disconnecting e) = (if d = e then Some (Clear d) else None)"
| "conn_step (Held d) (Disconnecting e) = (if d = e then Some (Clear d) else None)"
| "conn_step k e = Some k"

definition conn :: "bluez_event list \<Rightarrow> connection option" where
  "conn tr = foldl (\<lambda>k e. case k of None \<Rightarrow> None | Some k \<Rightarrow> conn_step k e) (Some Away) tr"

lemma conn_simps [simp]: "conn [] = Some Away"
  "conn (tr @ [e]) = (case conn tr of None \<Rightarrow> None | Some k \<Rightarrow> conn_step k e)"
  by (simp_all add: conn_def)

text \<open>What is known of a device when it is connected to: it is the configured one, it is bonded, and its evidence
  is that of a Victron device if this is required.\<close>

definition identified :: "'b bluer \<Rightarrow> device_selector \<Rightarrow> bluez_event list \<Rightarrow> handle \<Rightarrow> bool" where
  "identified bl sel tr d \<longleftrightarrow>
     (\<exists>adapter a b alias name. bl_device bl adapter a b = Inr d \<and> AliasIs d alias \<in> set tr
        \<and> (name = None \<or> NameIs d name \<in> set tr) \<and> selector_matches alias name a sel)"

definition evident :: "bluez_event list \<Rightarrow> handle \<Rightarrow> bool" where
  "evident tr d \<longleftrightarrow>
     (\<exists>uuids data. UuidsAre d uuids \<in> set tr \<and> DataIs d data \<in> set tr
        \<and> evidence_ok (case uuids of Some u \<Rightarrow> u | None \<Rightarrow> []) (case data of Some m \<Rightarrow> m | None \<Rightarrow> Map.empty))"

definition verified :: "'b bluer \<Rightarrow> transport_config \<Rightarrow> bluez_event list \<Rightarrow> handle \<Rightarrow> bool" where
  "verified bl c tr d \<longleftrightarrow>
     identified bl (tc_selector c) tr d \<and> PairedIs d True \<in> set tr \<and> (tc_require_evidence c \<longrightarrow> evident tr d)"

definition guarded :: "'b bluer \<Rightarrow> transport_config \<Rightarrow> bluez_event list \<Rightarrow> bool" where
  "guarded bl c tr \<longleftrightarrow>
     (\<forall>before d how after. tr = before @ Connecting d how # after \<longrightarrow> verified bl c before d)"

definition grounded :: "'b bluer \<Rightarrow> device_selector \<Rightarrow> bluez_event list \<Rightarrow> candidate \<Rightarrow> bool" where
  "grounded bl sel tr cd \<longleftrightarrow>
     identified bl sel tr (cd_device cd) \<and> (cd_bonded cd \<longrightarrow> PairedIs (cd_device cd) True \<in> set tr)
     \<and> (cd_evidence cd \<longrightarrow> evident tr (cd_device cd))"

lemma identified_more: "identified bl sel tr d \<Longrightarrow> set tr \<subseteq> set tr' \<Longrightarrow> identified bl sel tr' d"
  unfolding identified_def by blast

lemma evident_more: "evident tr d \<Longrightarrow> set tr \<subseteq> set tr' \<Longrightarrow> evident tr' d"
  unfolding evident_def by blast

lemma verified_more: "verified bl c tr d \<Longrightarrow> set tr \<subseteq> set tr' \<Longrightarrow> verified bl c tr' d"
  unfolding verified_def using identified_more evident_more by (metis subsetD)

lemma grounded_more: "grounded bl sel tr cd \<Longrightarrow> set tr \<subseteq> set tr' \<Longrightarrow> grounded bl sel tr' cd"
  unfolding grounded_def using identified_more evident_more by (metis subsetD)

lemma guarded_Nil [simp]: "guarded bl c []"
  by (simp add: guarded_def)

lemma guarded_snoc:
  "guarded bl c (tr @ [e]) \<longleftrightarrow> guarded bl c tr \<and> (\<forall>d how. e = Connecting d how \<longrightarrow> verified bl c tr d)"
proof
  assume g: "guarded bl c (tr @ [e])"
  have "verified bl c before d" if "tr = before @ Connecting d how # after" for before d how after
    using g that unfolding guarded_def by (metis append.assoc append_Cons)
  moreover have "verified bl c tr d" if "e = Connecting d how" for d how
    using g that unfolding guarded_def by blast
  ultimately show "guarded bl c tr \<and> (\<forall>d how. e = Connecting d how \<longrightarrow> verified bl c tr d)"
    unfolding guarded_def by blast
next
  assume g: "guarded bl c tr \<and> (\<forall>d how. e = Connecting d how \<longrightarrow> verified bl c tr d)"
  have "verified bl c before d" if t: "tr @ [e] = before @ Connecting d how # after" for before d how after
  proof (cases after rule: rev_cases)
    case Nil
    with t g show ?thesis by auto
  next
    case (snoc after' x)
    with t have "tr = before @ Connecting d how # after'" by simp
    with g show ?thesis unfolding guarded_def by blast
  qed
  then show "guarded bl c (tr @ [e])" unfolding guarded_def by blast
qed

section \<open>What the watched calls keep\<close>

text \<open>An assertion about the trace; answers about a device are neutral for the connections.\<close>

definition on_trace :: "(bluez_event list \<Rightarrow> bool) \<Rightarrow> 'b watched \<Rightarrow> bool" where
  "on_trace P s \<longleftrightarrow> P (snd s)"

fun neutral :: "bluez_event \<Rightarrow> bool" where
  "neutral (ConnectedIs d on) = False"
| "neutral (Connecting d how) = False"
| "neutral (Disconnecting d) = False"
| "neutral e = True"

definition stable :: "(bluez_event list \<Rightarrow> bool) \<Rightarrow> bool" where
  "stable I \<longleftrightarrow> (\<forall>tr e. neutral e \<longrightarrow> I tr \<longrightarrow> I (tr @ [e]))"

lemma stableD: "stable I \<Longrightarrow> neutral e \<Longrightarrow> I tr \<Longrightarrow> I (tr @ [e])"
  by (simp add: stable_def)

lemma stable_conj: "stable I \<Longrightarrow> stable J \<Longrightarrow> stable (\<lambda>tr. I tr \<and> J tr)"
  by (simp add: stable_def)

lemma stable_in: "stable (\<lambda>tr. e \<in> set tr)"
  by (simp add: stable_def)

lemma stable_grounded: "stable (\<lambda>tr. \<forall>cd \<in> set cs. grounded bl sel tr cd)"
  unfolding stable_def using grounded_more [of bl sel] by (metis set_append Un_upper1)

lemma ends_quiet: "ends (on_trace P) (bounded operation d (quiet f)) (\<lambda>_. on_trace P) (on_trace P) (on_trace P)"
  by (rule endsI) (auto simp: on_trace_def bounded_def quiet_def split: prod.splits await.splits option.splits sum.splits)

lemma ends_seen:
  assumes "\<And>tr x. P tr \<Longrightarrow> Q x (tr @ [ev x])"
  shows "ends (on_trace P) (bounded operation d (seen ev f)) (\<lambda>x. on_trace (Q x)) (on_trace P) (on_trace P)"
proof -
  have step: "bounded operation d (seen ev f) s = (r, s') \<Longrightarrow> on_trace P s \<Longrightarrow>
      (case r of Ready (Inr x) \<Rightarrow> Q x (snd s') | _ \<Rightarrow> P (snd s'))" for s s' r
    using assms by (auto simp: on_trace_def bounded_def seen_def split: prod.splits await.splits option.splits sum.splits)
  show ?thesis
  proof (rule endsI)
    fix s x s' assume "on_trace P s" "bounded operation d (seen ev f) s = (Ready (Inr x), s')"
    from step [OF this(2,1)] show "on_trace (Q x) s'" by (simp add: on_trace_def)
  next
    fix s e s' assume "on_trace P s" "bounded operation d (seen ev f) s = (Ready (Inl e), s')"
    from step [OF this(2,1)] show "on_trace P s'" by (simp add: on_trace_def)
  next
    fix s r s' assume "on_trace P s" "bounded operation d (seen ev f) s = (r, s')" "r = Dropped \<or> r = Unfinished"
    from step [OF this(2,1)] this(3) show "on_trace P s'" by (auto simp: on_trace_def)
  qed
qed

lemma ends_immediate:
  "ends (on_trace P) (immediate f) (\<lambda>x. on_trace (\<lambda>tr. P tr \<and> (\<exists>s. f s = Inr x))) (on_trace P) (on_trace P)"
proof (rule endsI)
  fix s x s' assume "on_trace P s" "immediate f s = (Ready (Inr x), s')"
  moreover from this(2) have "f s = Inr x" by (cases "f s") (simp_all add: immediate_def)
  moreover from this have "\<exists>s. f s = Inr x" by blast
  moreover from calculation have "P (snd s')" by (simp add: immediate_def on_trace_def)
  ultimately show "on_trace (\<lambda>tr. P tr \<and> (\<exists>s. f s = Inr x)) s'" unfolding on_trace_def by blast
qed (auto simp: immediate_def)

lemma chosen_sound:
  assumes "choose_device cs sel req = Inr d"
  shows "\<exists>cd \<in> set cs. cd_device cd = d \<and> cd_bonded cd \<and> (req \<longrightarrow> cd_evidence cd)"
proof -
  have found: "List.find p cs = Some cd \<Longrightarrow> cd \<in> set cs \<and> p cd" for p cd
    by (auto simp: find_Some_iff)
  from assms show ?thesis
    by (auto simp: choose_device_def split: option.splits if_splits dest!: found)
qed

lemma ends_inspect_matched:
  assumes I: "stable I" and d: "\<And>tr. I tr \<Longrightarrow> identified bl sel tr device"
  shows "ends (on_trace I) (inspect_matched (watched bl) op_timeout device)
    (\<lambda>r. on_trace (\<lambda>tr. I tr \<and> pred_option (grounded bl sel tr) r)) (on_trace I) (on_trace I)"
proof -
  let ?I1 = "\<lambda>b tr. I tr \<and> PairedIs device b \<in> set tr"
  let ?I2 = "\<lambda>b u tr. ?I1 b tr \<and> UuidsAre device u \<in> set tr"
  let ?I3 = "\<lambda>b u m tr. ?I2 b u tr \<and> DataIs device m \<in> set tr"
  let ?Q = "\<lambda>r. on_trace (\<lambda>tr. I tr \<and> pred_option (grounded bl sel tr) r)"
  have 1: "ends (on_trace I) (bounded op1 op_timeout (seen (PairedIs device) f)) (\<lambda>b. on_trace (?I1 b)) (on_trace I) (on_trace I)" for op1 f
    by (rule ends_seen) (simp add: stableD [OF I])
  have 2: "ends (on_trace (?I1 b)) (bounded op1 op_timeout (seen (UuidsAre device) f)) (\<lambda>u. on_trace (?I2 b u)) (on_trace I) (on_trace I)" for op1 f b
    by (rule ends_left [OF ends_seen]) (auto simp: stableD [OF I] on_trace_def)
  have 3: "ends (on_trace (?I2 b u)) (bounded op1 op_timeout (seen (DataIs device) f)) (\<lambda>m. on_trace (?I3 b u m)) (on_trace I) (on_trace I)" for op1 f b u
    by (rule ends_left [OF ends_seen]) (auto simp: stableD [OF I] on_trace_def)
  have 4: "ends (on_trace (?I3 b u m)) (call_return (Some \<lparr>cd_device = device, cd_matched = True, cd_bonded = b,
         cd_evidence = evidence_ok (case u of Some u \<Rightarrow> u | None \<Rightarrow> []) (case m of Some m \<Rightarrow> m | None \<Rightarrow> Map.empty)\<rparr>))
       ?Q (on_trace I) (on_trace I)" for b u m
    using d by (intro ends_return) (auto simp: on_trace_def grounded_def evident_def)
  show ?thesis
    unfolding inspect_matched_def watched_simps by (rule ends_bind [OF 1 ends_bind [OF 2 ends_bind [OF 3 4]]])
qed

text \<open>An inspection: what it gives is grounded in the answers of the stack.\<close>

abbreviation found :: "'b bluer \<Rightarrow> device_selector \<Rightarrow> (bluez_event list \<Rightarrow> bool) \<Rightarrow> candidate option \<Rightarrow> 'b watched \<Rightarrow> bool" where
  "found bl sel I r \<equiv> on_trace (\<lambda>tr. I tr \<and> pred_option (grounded bl sel tr) r)"

lemma ends_found_None: "ends (on_trace J) (call_return None) (found bl sel I) E L" if "\<And>tr. J tr \<Longrightarrow> I tr"
  using that by (intro ends_return) (simp add: on_trace_def)

lemma ends_with_identity:
  assumes I: "stable I"
    and known: "\<And>tr. I tr \<Longrightarrow> (\<exists>adapter b. bl_device bl adapter address b = Inr device)"
    and named: "\<And>tr. I tr \<Longrightarrow> AliasIs device alias \<in> set tr \<and> (name = None \<or> NameIs device name \<in> set tr)"
  shows "ends (on_trace I)
    (if selector_matches alias name address sel then inspect_matched (watched bl) op_timeout device else call_return None)
    (found bl sel I) (on_trace I) (on_trace I)"
proof (rule ends_if)
  assume "selector_matches alias name address sel"
  then have "identified bl sel tr device" if "I tr" for tr
    using known [OF that] named [OF that] unfolding identified_def by blast
  then show "ends (on_trace I) (inspect_matched (watched bl) op_timeout device) (found bl sel I) (on_trace I) (on_trace I)"
    by (rule ends_inspect_matched [OF I])
next
  show "ends (on_trace I) (call_return None) (found bl sel I) (on_trace I) (on_trace I)"
    by (rule ends_found_None)
qed

lemma ends_inspect:
  assumes I: "stable I"
  shows "ends (on_trace I) (inspect (watched bl) adapter sel op_timeout address) (found bl sel I) (on_trace I) (on_trace I)"
proof -
  let ?at = "\<lambda>device. \<exists>b. bl_device bl adapter address b = Inr device"
  let ?D = "\<lambda>device tr. I tr \<and> ?at device"
  let ?A = "\<lambda>device alias tr. ?D device tr \<and> AliasIs device alias \<in> set tr"
  let ?N = "\<lambda>device alias name tr. ?A device alias tr \<and> NameIs device name \<in> set tr"
  have D: "stable (?D device)" for device using I by (simp add: stable_def)
  have A: "stable (?A device alias)" for device "alias" using I by (simp add: stable_def)
  have N: "stable (?N device alias name)" for device "alias" name using I by (simp add: stable_def)
  have outer: "ends (on_trace J) f (found bl sel J) (on_trace J) (on_trace J) \<Longrightarrow> (\<And>tr. J tr \<Longrightarrow> I tr)
      \<Longrightarrow> ends (on_trace J) f (found bl sel I) (on_trace I) (on_trace I)" for J f
    by (erule ends_weaken) (auto simp: on_trace_def)
  have fail: "ends (on_trace J) (call_fail e) Q (on_trace I) L" if "\<And>tr. J tr \<Longrightarrow> I tr" for J e Q and L :: "'a watched \<Rightarrow> bool"
    using that by (intro ends_fail) (simp add: on_trace_def)
  have dev: "ends (on_trace I) (immediate (bl_device (watched bl) adapter address)) (\<lambda>device. on_trace (?D device)) (on_trace I) (on_trace I)"
    by (rule ends_out [OF ends_immediate]) (auto simp: on_trace_def)
  have rd: "ends (on_trace (?D device)) (bounded op1 op_timeout (seen (AliasIs device) f)) (\<lambda>alias. on_trace (?A device alias))
      (on_trace (?D device)) (on_trace I)" for device op1 f
    by (rule ends_left [OF ends_seen]) (auto simp: stableD [OF I] on_trace_def)
  have nm: "ends (on_trace (?A device alias)) (bounded op1 op_timeout (seen (NameIs device) f)) (\<lambda>name. on_trace (?N device alias name))
      (on_trace (?A device alias)) (on_trace I)" for device "alias" op1 f
    by (rule ends_left [OF ends_seen]) (auto simp: stableD [OF I] on_trace_def)
  have with_name: "ends (on_trace (?N device alias name))
      (if selector_matches alias name address sel then inspect_matched (watched bl) op_timeout device else call_return None)
      (found bl sel I) (on_trace I) (on_trace I)" for device "alias" name
    by (rule outer [OF ends_with_identity [OF N]]) auto
  have without: "ends (on_trace (?A device alias))
      (if selector_matches alias None address sel then inspect_matched (watched bl) op_timeout device else call_return None)
      (found bl sel I) (on_trace I) (on_trace I)" for device "alias"
    by (rule outer [OF ends_with_identity [OF A]]) auto
  have no_name: "ends (on_trace (?A device alias))
      (if target then call_fail e
       else if selector_matches alias None address sel then inspect_matched (watched bl) op_timeout device else call_return None)
      (found bl sel I) (on_trace I) (on_trace I)" for device "alias" target e
    by (rule ends_if) (simp_all only: without, rule fail, blast)
  have no_alias: "ends (on_trace (?D device)) (if target then call_fail e else call_return None)
      (found bl sel I) (on_trace I) (on_trace I)" for device target e
    by (rule ends_if) (rule fail ends_found_None, blast)+
  show ?thesis
    unfolding inspect_def Let_def watched_simps(13,14)
    by (intro ends_bind [OF dev] ends_catch [OF rd] ends_catch [OF nm] with_name no_name no_alias)
qed

lemma ends_inspect_all:
  assumes I: "stable I"
  shows "ends (on_trace (\<lambda>tr. I tr \<and> (\<forall>cd \<in> set cs. grounded bl sel tr cd)))
    (inspect_all (watched bl) adapter sel op_timeout as cs)
    (\<lambda>cs'. on_trace (\<lambda>tr. I tr \<and> (\<forall>cd \<in> set cs'. grounded bl sel tr cd))) (on_trace I) (on_trace I)"
proof (induction as arbitrary: cs)
  case Nil
  show ?case unfolding inspect_all.simps by (rule ends_return)
next
  case (Cons a as)
  let ?J = "\<lambda>cs tr. I tr \<and> (\<forall>cd \<in> set cs. grounded bl sel tr cd)"
  have J: "stable (?J cs)" by (rule stable_conj [OF I stable_grounded])
  have one: "ends (on_trace (?J cs)) (inspect (watched bl) adapter sel op_timeout a) (found bl sel (?J cs)) (on_trace I) (on_trace I)"
    by (rule ends_left [OF ends_inspect [OF J]]) (auto simp: on_trace_def)
  have rest: "ends (found bl sel (?J cs) r)
      (inspect_all (watched bl) adapter sel op_timeout as (case r of Some x \<Rightarrow> cs @ [x] | None \<Rightarrow> cs))
      (\<lambda>cs'. on_trace (?J cs')) (on_trace I) (on_trace I)" for r
    by (rule ends_in [OF Cons.IH]) (auto simp: on_trace_def split: option.splits)
  show ?case unfolding inspect_all.simps by (rule ends_bind [OF one rest])
qed

text \<open>The device that is chosen.\<close>

definition chosen :: "'b bluer \<Rightarrow> device_selector \<Rightarrow> bool \<Rightarrow> bluez_event list \<Rightarrow> handle \<Rightarrow> bool" where
  "chosen bl sel req tr d \<longleftrightarrow>
     identified bl sel tr d \<and> PairedIs d True \<in> set tr \<and> (req \<longrightarrow> evident tr d)"

lemma chosen_grounded:
  assumes "choose_device cs sel req = Inr d" "\<forall>cd \<in> set cs. grounded bl sel tr cd"
  shows "chosen bl sel req tr d"
  using chosen_sound [OF assms(1)] assms(2) by (auto simp: chosen_def grounded_def)

end
