(* ===== verification/Bluez_Steps.thy ===== *)
theory Bluez_Steps
  imports Bluez_Trace
begin

text \<open>
  What one opening of the transport does with the trace of the machine: the search, the connection with its
  retries, the tail that must succeed, and the roll-back.
\<close>

section \<open>Finding the device\<close>

lemma quiet_cases:
  "quiet f d x = (r, x') \<Longrightarrow> snd x' = snd x"
  by (auto simp: quiet_def split: prod.splits)

declare scan_loop.simps(2) [simp del] connect_loop.simps(2) [simp del]

lemma ends_scan_loop:
  assumes I: "stable I"
  shows "ends (on_trace (\<lambda>tr. I tr \<and> (\<forall>cd \<in> set cs. grounded bl sel tr cd)))
    (scan_loop fuel (watched bl) adapter sel req op_timeout stream deadline known cs)
    (\<lambda>r. on_trace (\<lambda>tr. I tr \<and> pred_option (chosen bl sel req tr) r)) (on_trace I) (on_trace I)"
proof (induction fuel arbitrary: known cs)
  case 0
  show ?case by (rule endsI) (auto simp: on_trace_def)
next
  case (Suc fuel)
  let ?J = "\<lambda>cs tr. I tr \<and> (\<forall>cd \<in> set cs. grounded bl sel tr cd)"
  let ?R = "\<lambda>r. on_trace (\<lambda>tr. I tr \<and> pred_option (chosen bl sel req tr) r)"
  have J: "stable (?J cs)" for cs by (rule stable_conj [OF I stable_grounded])
  have one: "ends (on_trace (?J cs)) (inspect (watched bl) adapter sel op_timeout a) (found bl sel (?J cs)) (on_trace I) (on_trace I)" for a
    by (rule ends_left [OF ends_inspect [OF J]]) (auto simp: on_trace_def)
  have next_one: "ends (found bl sel (?J cs) r)
      (case r of None \<Rightarrow> scan_loop fuel (watched bl) adapter sel req op_timeout stream deadline known' cs
       | Some x \<Rightarrow> (case choose_device (cs @ [x]) sel req of
           Inr device \<Rightarrow> call_return (Some device)
         | Inl e \<Rightarrow> scan_loop fuel (watched bl) adapter sel req op_timeout stream deadline known' (cs @ [x])))
      ?R (on_trace I) (on_trace I)" for r known'
  proof (cases r)
    case None
    then show ?thesis using Suc.IH [of cs known'] by simp
  next
    case (Some x)
    show ?thesis
    proof (cases "choose_device (cs @ [x]) sel req")
      case (Inl e)
      have "ends (found bl sel (?J cs) (Some x)) (scan_loop fuel (watched bl) adapter sel req op_timeout stream deadline known' (cs @ [x]))
          ?R (on_trace I) (on_trace I)"
        by (rule ends_in [OF Suc.IH]) (auto simp: on_trace_def)
      then show ?thesis using Some Inl by simp
    next
      case (Inr device)
      have "ends (found bl sel (?J cs) (Some x)) (call_return (Some device)) ?R (on_trace I) (on_trace I)"
        by (rule ends_return) (use chosen_grounded [OF Inr] in \<open>auto simp: on_trace_def\<close>)
      then show ?thesis using Some Inr by simp
    qed
  qed
  have fresh: "ends (on_trace (?J cs)) (call_bind (inspect (watched bl) adapter sel op_timeout a) (\<lambda>r.
      case r of None \<Rightarrow> scan_loop fuel (watched bl) adapter sel req op_timeout stream deadline known' cs
       | Some x \<Rightarrow> (case choose_device (cs @ [x]) sel req of
           Inr device \<Rightarrow> call_return (Some device)
         | Inl e \<Rightarrow> scan_loop fuel (watched bl) adapter sel req op_timeout stream deadline known' (cs @ [x]))))
      ?R (on_trace I) (on_trace I)" for a known'
    by (rule ends_bind [OF one next_one])
  show ?case
  proof (rule ends_pre)
    fix s :: "'a watched" assume s: "on_trace (?J cs) s"
    obtain r s1 where ev: "bl_event (watched bl) stream (deadline - bl_now (watched bl) s) s = (r, s1)"
      by (meson surj_pair)
    then have s1: "on_trace (?J cs) s1" using s quiet_cases [of "bl_event bl stream" _ s r s1] by (simp add: on_trace_def)
    have I1: "on_trace I s1" using s1 by (simp add: on_trace_def)
    have unfolded: "scan_loop (Suc fuel) (watched bl) adapter sel req op_timeout stream deadline known cs s =
      (case r of
        Ready (Some (Some (DeviceAdded a))) \<Rightarrow>
          (if a \<in> set known then scan_loop fuel (watched bl) adapter sel req op_timeout stream deadline known cs s1
          else call_bind (inspect (watched bl) adapter sel op_timeout a) (\<lambda>r.
             case r of None \<Rightarrow> scan_loop fuel (watched bl) adapter sel req op_timeout stream deadline (a # known) cs
             | Some x \<Rightarrow> (case choose_device (cs @ [x]) sel req of
                 Inr device \<Rightarrow> call_return (Some device)
               | Inl e \<Rightarrow> scan_loop fuel (watched bl) adapter sel req op_timeout stream deadline (a # known) (cs @ [x]))) s1)
      | Ready (Some (Some OtherEvent)) \<Rightarrow> scan_loop fuel (watched bl) adapter sel req op_timeout stream deadline known cs s1
      | Ready (Some None) \<Rightarrow> (Ready (Inr None), s1)
      | Ready None \<Rightarrow> (Ready (Inr None), s1)
      | Dropped \<Rightarrow> (Dropped, s1)
      | Unfinished \<Rightarrow> (Unfinished, s1))"
      using ev by (cases r) (auto simp: scan_loop.simps(2) split: option.splits adapter_event.splits)
    show "ends (\<lambda>s'. s' = s) (scan_loop (Suc fuel) (watched bl) adapter sel req op_timeout stream deadline known cs)
      ?R (on_trace I) (on_trace I)"
    proof (cases "\<exists>e. r = Ready (Some (Some e))")
      case True
      then obtain e where e: "r = Ready (Some (Some e))" ..
      show ?thesis
      proof (cases "\<exists>a. e = DeviceAdded a \<and> a \<notin> set known")
        case True
        then obtain a where a: "e = DeviceAdded a" "a \<notin> set known" by blast
        show ?thesis by (rule ends_step [OF _ s1 fresh [of a "a # known"]]) (simp add: unfolded e a)
      next
        case False
        then show ?thesis by (intro ends_step [OF _ s1 Suc.IH [of cs known]]) (cases e, auto simp: unfolded e)
      qed
    next
      case False
      then have "scan_loop (Suc fuel) (watched bl) adapter sel req op_timeout stream deadline known cs s \<in>
          {(Ready (Inr None), s1), (Dropped, s1), (Unfinished, s1)}"
        by (cases r) (auto simp: unfolded split: option.splits)
      with I1 show ?thesis unfolding ends_def by (auto simp: on_trace_def)
    qed
  qed
qed

lemma ends_resolve_device:
  assumes I: "stable I"
  shows "ends (on_trace I) (resolve_device fuel (watched bl) adapter sel scan_timeout req op_timeout)
    (\<lambda>d. on_trace (\<lambda>tr. I tr \<and> chosen bl sel req tr d)) (on_trace I) (on_trace I)"
proof -
  let ?J = "\<lambda>cs tr. I tr \<and> (\<forall>cd \<in> set cs. grounded bl sel tr cd)"
  let ?R = "\<lambda>d. on_trace (\<lambda>tr. I tr \<and> chosen bl sel req tr d)"
  have known: "ends (on_trace J) (bounded op1 op_timeout (bl_device_addresses (watched bl) adapter)) (\<lambda>_. on_trace J) (on_trace I) (on_trace I)"
    if "\<And>tr. J tr \<Longrightarrow> I tr" for op1 J
    using that by (auto simp: on_trace_def intro: ends_left [OF ends_quiet])
  have all: "ends (on_trace I) (inspect_all (watched bl) adapter sel op_timeout as []) (\<lambda>cs. on_trace (?J cs)) (on_trace I) (on_trace I)" for as
    by (rule ends_in [OF ends_inspect_all [OF I]]) (auto simp: on_trace_def)
  have last_choice: "ends (on_trace (?J cs)) (call_result (choose_device cs sel req)) ?R (on_trace I) (on_trace I)" for cs
    by (rule ends_result) (auto simp: on_trace_def dest: chosen_grounded)
  have start: "ends (on_trace (?J cs)) (bounded op1 op_timeout (bl_discover (watched bl) adapter)) (\<lambda>_. on_trace (?J cs)) (on_trace I) (on_trace I)" for op1 cs
    unfolding watched_simps by (rule ends_left [OF ends_quiet]) (auto simp: on_trace_def)
  have now: "ends (on_trace (?J cs)) (call_get f) (\<lambda>_. on_trace (?J cs)) (on_trace I) (on_trace I)" for f :: "'a watched \<Rightarrow> nat" and cs
    by (rule ends_get)
  have refresh: "ends (on_trace I) (call_bind (bounded op1 op_timeout (bl_device_addresses (watched bl) adapter)) (\<lambda>refreshed.
      call_bind (inspect_all (watched bl) adapter sel op_timeout refreshed []) (\<lambda>current. call_result (choose_device current sel req))))
      ?R (on_trace I) (on_trace I)" for op1
    by (rule ends_bind [OF known ends_bind [OF all last_choice]])
  have after_scan: "ends (on_trace (\<lambda>tr. I tr \<and> pred_option (chosen bl sel req tr) r))
      (case r of Some device \<Rightarrow> call_return device
       | None \<Rightarrow> call_bind (bounded op1 op_timeout (bl_device_addresses (watched bl) adapter)) (\<lambda>refreshed.
           call_bind (inspect_all (watched bl) adapter sel op_timeout refreshed []) (\<lambda>current. call_result (choose_device current sel req))))
      ?R (on_trace I) (on_trace I)" for r op1
  proof (cases r)
    case None
    with refresh show ?thesis by simp
  next
    case (Some d)
    then show ?thesis by (auto intro!: ends_return simp: on_trace_def)
  qed
  have after_known: "ends (on_trace (?J cs))
     (case choose_device cs sel req of
         Inr device \<Rightarrow> call_return device
       | Inl e \<Rightarrow>
           call_bind (bounded op1 op_timeout (bl_discover (watched bl) adapter)) (\<lambda>stream.
           call_bind (call_get (bl_now (watched bl))) (\<lambda>now.
           call_bind (scan_loop fuel (watched bl) adapter sel req op_timeout stream (now + scan_timeout) known cs) (\<lambda>r.
             case r of Some device \<Rightarrow> call_return device
             | None \<Rightarrow> call_bind (bounded op2 op_timeout (bl_device_addresses (watched bl) adapter)) (\<lambda>refreshed.
                 call_bind (inspect_all (watched bl) adapter sel op_timeout refreshed []) (\<lambda>current. call_result (choose_device current sel req)))))))
     ?R (on_trace I) (on_trace I)" for cs known op1 op2
  proof (cases "choose_device cs sel req")
    case (Inr d)
    then show ?thesis using chosen_grounded [OF Inr] by (auto intro!: ends_return simp: on_trace_def)
  next
    case (Inl e)
    show ?thesis
      unfolding Inl sum.case by (rule ends_bind [OF start ends_bind [OF now ends_bind [OF ends_scan_loop [OF I] after_scan]]])
  qed
  show ?thesis
    unfolding resolve_device_def by (rule ends_bind [OF known ends_bind [OF all after_known]])
qed

section \<open>Opening and closing\<close>

definition free :: "'b bluer \<Rightarrow> transport_config \<Rightarrow> bool \<Rightarrow> bluez_event list \<Rightarrow> bool" where
  "free bl c clean tr \<longleftrightarrow> guarded bl c tr \<and> (clean \<longrightarrow> (\<exists>k. conn tr = Some k \<and> (\<forall>d. k \<noteq> Held d)))"

definition cleared :: "'b bluer \<Rightarrow> transport_config \<Rightarrow> bool \<Rightarrow> handle \<Rightarrow> bluez_event list \<Rightarrow> bool" where
  "cleared bl c clean d tr \<longleftrightarrow> guarded bl c tr \<and> verified bl c tr d \<and> (clean \<longrightarrow> conn tr = Some (Clear d))"

definition holding :: "'b bluer \<Rightarrow> transport_config \<Rightarrow> bool \<Rightarrow> handle \<Rightarrow> bluez_event list \<Rightarrow> bool" where
  "holding bl c clean d tr \<longleftrightarrow> guarded bl c tr \<and> verified bl c tr d \<and> (clean \<longrightarrow> conn tr = Some (Held d))"

lemmas ownership_defs = free_def cleared_def holding_def

lemma conn_neutral: "neutral e \<Longrightarrow> conn_step k e = Some k"
  by (cases e; cases k) simp_all

lemma free_stable: "stable (free bl c clean)"
  by (auto simp: stable_def free_def guarded_snoc conn_neutral)

lemma cleared_free: "cleared bl c clean d tr \<Longrightarrow> free bl c clean tr"
  by (auto simp: ownership_defs)

lemma holding_left: "holding bl c clean d tr \<Longrightarrow> free bl c False tr"
  by (simp add: ownership_defs)

lemma cleared_left: "cleared bl c clean d tr \<Longrightarrow> free bl c False tr"
  by (simp add: ownership_defs)

lemma free_left: "free bl c clean tr \<Longrightarrow> free bl c False tr"
  by (simp add: free_def)

lemma connected_step:
  "free bl c clean tr \<and> chosen bl (tc_selector c) (tc_require_evidence c) tr d \<Longrightarrow>
    (if on then free bl c clean else cleared bl c clean d) (tr @ [ConnectedIs d on])"
proof -
  assume a: "free bl c clean tr \<and> chosen bl (tc_selector c) (tc_require_evidence c) tr d"
  have v: "verified bl c (tr @ [ConnectedIs d on]) d"
    by (rule verified_more [of bl c tr]) (use a in \<open>auto simp: verified_def chosen_def\<close>)
  have k: "conn_step k (ConnectedIs d on) = Some (if on then Away else Clear d)" if "\<forall>d. k \<noteq> Held d" for k on
    using that by (cases k) simp_all
  show ?thesis using a v by (auto simp: ownership_defs guarded_snoc k)
qed

lemma connecting_step:
  assumes "cleared bl c clean d tr"
  shows "how = Refused \<Longrightarrow> cleared bl c clean d (tr @ [Connecting d how])"
    "how \<noteq> Refused \<Longrightarrow> holding bl c clean d (tr @ [Connecting d how])"
proof -
  have v: "verified bl c (tr @ [Connecting d how]) d"
    by (rule verified_more [of bl c tr]) (use assms in \<open>auto simp: cleared_def\<close>)
  show "how = Refused \<Longrightarrow> cleared bl c clean d (tr @ [Connecting d how])"
    "how \<noteq> Refused \<Longrightarrow> holding bl c clean d (tr @ [Connecting d how])"
    using assms v by (auto simp: ownership_defs guarded_snoc)
qed

lemma disconnecting_step:
  assumes "cleared bl c clean d tr \<or> holding bl c clean d tr"
  shows "cleared bl c clean d (tr @ [Disconnecting d])"
proof -
  have v: "verified bl c (tr @ [Disconnecting d]) d"
    by (rule verified_more [of bl c tr]) (use assms in \<open>auto simp: ownership_defs\<close>)
  then show ?thesis using assms by (auto simp: ownership_defs guarded_snoc)
qed

abbreviation keeps_trace :: "(bluez_event list \<Rightarrow> bool) \<Rightarrow> ('b watched, transport_error, 'a) call \<Rightarrow> bool" where
  "keeps_trace P f \<equiv> ends (on_trace P) f (\<lambda>_. on_trace P) (on_trace P) (on_trace P)"

lemma keeps_return: "keeps_trace P (call_return x)"
  by (rule ends_return)

lemma keeps_fail: "keeps_trace P (call_fail e)"
  by (rule ends_fail)

lemma keeps_result: "keeps_trace P (call_result r)"
  by (rule ends_result)

lemma keeps_bind: "keeps_trace P f \<Longrightarrow> (\<And>x. keeps_trace P (k x)) \<Longrightarrow> keeps_trace P (call_bind f k)"
  by (rule ends_bind)

lemma keeps_immediate: "keeps_trace P (immediate f)"
  by (rule ends_out [OF ends_immediate]) (simp add: on_trace_def)

lemmas keeps_rules = keeps_return keeps_fail keeps_result keeps_bind keeps_immediate ends_quiet

lemma keeps_resolve_adapter: "keeps_trace P (resolve_adapter (watched bl) session configured op_timeout)"
  unfolding resolve_adapter_def watched_simps by (intro keeps_rules)

lemma keeps_ensure_powered: "keeps_trace P (ensure_powered (watched bl) adapter policy op_timeout)"
  unfolding ensure_powered_def watched_simps
  by (cases policy) (auto intro!: keeps_rules ends_if)

lemma ends_find_device:
  "ends (on_trace (free bl c clean)) (find_device fuel (watched bl) c) (\<lambda>(session, adapter, d). on_trace (cleared bl c clean d))
    (on_trace (free bl c clean)) (on_trace (free bl c clean))"
proof -
  let ?F = "free bl c clean"
  let ?C = "\<lambda>d tr. ?F tr \<and> chosen bl (tc_selector c) (tc_require_evidence c) tr d"
  have connected: "ends (on_trace (?C d)) (bounded op1 t (seen (ConnectedIs d) f))
      (\<lambda>on. on_trace (if on then ?F else cleared bl c clean d)) (on_trace ?F) (on_trace ?F)" for op1 t f d
    by (rule ends_left [OF ends_seen]) (erule connected_step, simp_all add: on_trace_def)
  have last_step: "ends (on_trace (if on then ?F else cleared bl c clean d))
      (if on then call_fail e else call_return (session, adapter, d))
      (\<lambda>(session, adapter, d). on_trace (cleared bl c clean d)) (on_trace ?F) (on_trace ?F)" for on d e session adapter
    by (cases on) (auto intro: ends_fail ends_return)
  show ?thesis
    unfolding find_device_def Let_def watched_simps
    by (rule ends_bind [OF ends_quiet], rule ends_bind [OF keeps_resolve_adapter], rule ends_bind [OF keeps_ensure_powered],
        rule ends_bind [OF ends_resolve_device [OF free_stable]], rule ends_bind [OF connected last_step])
qed

lemma ends_disconnect:
  "ends (on_trace (\<lambda>tr. cleared bl c clean d tr \<or> holding bl c clean d tr)) (bounded op1 t (bl_disconnect (watched bl) d))
    (\<lambda>_. on_trace (cleared bl c clean d)) (on_trace (cleared bl c clean d)) (on_trace (cleared bl c clean d))"
proof -
  have tr: "snd s' = snd s @ [Disconnecting d]" if "bounded op1 t (bl_disconnect (watched bl) d) s = (r, s')" for s r s'
    using that by (auto simp: bounded_def watched_def split: prod.splits await.splits option.splits)
  show ?thesis
    by (rule endsI) (auto simp: on_trace_def tr disconnecting_step)
qed

lemma ends_connect_loop:
  "ends (on_trace (cleared bl c clean d)) (connect_loop fuel (watched bl) t d deadline)
    (\<lambda>_. on_trace (holding bl c clean d)) (on_trace (free bl c clean)) (on_trace (free bl c False))"
proof (induction fuel)
  case 0
  show ?case by (rule endsI) (auto simp: on_trace_def ownership_defs)
next
  case (Suc fuel)
  let ?E = "on_trace (free bl c clean)" and ?L = "on_trace (free bl c False)"
  let ?H = "\<lambda>_. on_trace (holding bl c clean d)" and ?C = "cleared bl c clean d"
  have cancel: "ends (on_trace (\<lambda>tr. ?C tr \<or> holding bl c clean d tr)) (bounded op1 t (bl_disconnect (watched bl) d))
      (\<lambda>_. on_trace ?C) (on_trace ?C) ?L" for op1
    by (rule ends_left [OF ends_disconnect]) (auto simp: on_trace_def intro: free_left cleared_free)
  have give_up: "ends (on_trace ?C) (call_fail e) ?H ?E ?L" for e
    by (rule ends_fail) (auto simp: on_trace_def intro: cleared_free)
  have pause: "ends (on_trace ?C) (stack_sleep (watched bl) n) (\<lambda>_. on_trace ?C) ?E ?L" for n
    by (rule endsI) (auto simp: stack_sleep_def quiet_def on_trace_def split: prod.splits
        elim!: await_map.elims intro: cleared_left)
  have again: "ends (on_trace ?C) (\<lambda>s. if deadline < bl_now (watched bl) s then call_fail (TeTimeout ''connect'') s
      else call_then (stack_sleep (watched bl) (min (deadline - bl_now (watched bl) s) (from_secs 1)))
        (connect_loop fuel (watched bl) t d deadline) s) ?H ?E ?L"
  proof (rule ends_pre)
    fix s :: "'a watched" assume s: "on_trace ?C s"
    show "ends (\<lambda>s'. s' = s) (\<lambda>s. if deadline < bl_now (watched bl) s then call_fail (TeTimeout ''connect'') s
      else call_then (stack_sleep (watched bl) (min (deadline - bl_now (watched bl) s) (from_secs 1)))
        (connect_loop fuel (watched bl) t d deadline) s) ?H ?E ?L"
    proof (cases "deadline < bl_now (watched bl) s")
      case True
      then show ?thesis by (intro ends_step [OF _ s give_up [of "TeTimeout ''connect''"]]) simp
    next
      case False
      then show ?thesis
        by (intro ends_step [OF _ s ends_bind [OF pause Suc.IH, of "min (deadline - bl_now (watched bl) s) (from_secs 1)"]]) simp
    qed
  qed
  show ?case
  proof (rule ends_pre)
    fix s :: "'a watched" assume s: "on_trace ?C s"
    let ?rest = "deadline - bl_now (watched bl) s"
    obtain r b where con: "bl_connect bl d ?rest (fst s) = (r, b)" by (meson surj_pair)
    let ?s1 = "(b, snd s @ [Connecting d (connecting_of r)])"
    have w: "bl_connect (watched bl) d ?rest s = (r, ?s1)" using con by (simp add: watched_def)
    have refused: "on_trace ?C ?s1" if "connecting_of r = Refused"
      using connecting_step(1) that s by (simp add: on_trace_def)
    have connected: "on_trace (holding bl c clean d) ?s1" if "connecting_of r \<noteq> Refused"
      using connecting_step(2) that s by (simp add: on_trace_def)
    note unfolded = connect_loop.simps(2) [of fuel "watched bl" t d deadline s]
    show "ends (\<lambda>s'. s' = s) (connect_loop (Suc fuel) (watched bl) t d deadline) ?H ?E ?L"
    proof (cases "deadline < bl_now (watched bl) s")
      case True
      then show ?thesis by (intro ends_step [OF _ s give_up [of "TeTimeout ''connect''"]]) (simp add: unfolded)
    next
      case False
      show ?thesis
      proof (cases r)
        case (Ready v)
        show ?thesis
        proof (cases v)
          case None
          have "ends (on_trace (holding bl c clean d))
              (call_ignore (bounded ''connect-timeout-cancel'' t (bl_disconnect (watched bl) d)) (call_fail (TeTimeout ''connect''))) ?H ?E ?L"
            by (rule ends_in [OF ends_catch [OF cancel give_up give_up]]) (simp add: on_trace_def)
          then show ?thesis
            by (rule ends_step [rotated -1]) (use connected in \<open>simp_all add: unfolded False w Ready None del: watched_simps\<close>)
        next
          case (Some v')
          show ?thesis
          proof (cases v')
            case (Inr u)
            have "ends (on_trace (holding bl c clean d)) (call_return ()) ?H ?E ?L" by (rule ends_return)
            then show ?thesis
              by (rule ends_step [rotated -1]) (use connected in \<open>simp_all add: unfolded False w Ready Some Inr call_return_def del: watched_simps\<close>)
          next
            case (Inl k)
            show ?thesis
            proof (cases "retryable_connect_kind k")
              case True
              have "ends (on_trace ?C) (call_ignore (bounded ''connect-retry-cancel'' t (bl_disconnect (watched bl) d))
                  (\<lambda>s. if deadline < bl_now (watched bl) s then call_fail (TeTimeout ''connect'') s
                    else call_then (stack_sleep (watched bl) (min (deadline - bl_now (watched bl) s) (from_secs 1)))
                      (connect_loop fuel (watched bl) t d deadline) s)) ?H ?E ?L"
                by (rule ends_in [OF ends_catch [OF cancel again again]]) (simp add: on_trace_def)
              then show ?thesis
                by (rule ends_step [rotated -1]) (use refused in \<open>simp_all add: unfolded False w Ready Some Inl True del: watched_simps\<close>)
            next
              case no: False
              show ?thesis
                by (rule ends_step [OF _ _ give_up [of "classify_bluer_kind k"]])
                  (use refused in \<open>simp_all add: unfolded False w Ready Some Inl no call_fail_def del: watched_simps\<close>)
            qed
          qed
        qed
      next
        case Dropped
        with connected have "?L ?s1" by (auto simp: on_trace_def dest: holding_left)
        then show ?thesis unfolding ends_def by (simp add: unfolded False w Dropped del: watched_simps)
      next
        case Unfinished
        with connected have "?L ?s1" by (auto simp: on_trace_def dest: holding_left)
        then show ?thesis unfolding ends_def by (simp add: unfolded False w Unfinished del: watched_simps)
      qed
    qed
  qed
qed

lemma keeps_locate_chars: "keeps_trace P (locate_chars (watched bl) t variant cs m)"
  by (induction cs arbitrary: m) (auto intro!: keeps_rules split: option.splits)

lemma keeps_locate_services: "keeps_trace P (locate_services (watched bl) t services)"
  by (induction services) (auto intro!: keeps_rules keeps_locate_chars split: option.splits)

lemma keeps_open_tail: "keeps_trace P (open_tail (watched bl) t d)"
  unfolding open_tail_def locate_def subscribe_one_def watched_simps by (intro keeps_rules keeps_locate_services)

text \<open>The transport with another state of the stack.\<close>

definition upon :: "'b bluez \<Rightarrow> ('b \<Rightarrow> bool) \<Rightarrow> 'b bluez \<Rightarrow> bool" where
  "upon s0 P s \<longleftrightarrow> (\<exists>b. s = s0\<lparr>bz_stack := b\<rparr> \<and> P b)"

lemma ends_on_stack: "ends P f Q E L \<Longrightarrow> ends (upon s0 P) (on_stack f) (\<lambda>x. upon s0 (Q x)) (upon s0 E) (upon s0 L)"
proof -
  assume f: "ends P f Q E L"
  have stack: "on_stack f (s0\<lparr>bz_stack := b\<rparr>) = (r, s') \<Longrightarrow> \<exists>b'. f b = (r, b') \<and> s' = s0\<lparr>bz_stack := b'\<rparr>" for b r s'
    by (auto simp: on_stack_def split: prod.splits)
  show ?thesis
    by (rule endsI) (auto simp: upon_def dest!: stack dest: endsD [OF f])
qed

lemma upon_mono: "upon s0 (on_trace P) s \<Longrightarrow> (\<And>tr. P tr \<Longrightarrow> Q tr) \<Longrightarrow> upon s0 (on_trace Q) s"
  by (auto simp: upon_def on_trace_def)

text \<open>The two states a transport has between calls, and what is known of the trace in them.\<close>

definition shut :: "transport_config \<Rightarrow> 'b bluez \<Rightarrow> bool" where
  "shut c s \<longleftrightarrow> bz_config s = c \<and> \<not> ss_open (bz_state s) \<and> \<not> ss_connected_by_us (bz_state s) \<and> \<not> has_resources (bz_state s)"

definition opened :: "transport_config \<Rightarrow> (handle \<Rightarrow> bluez_event list \<Rightarrow> bool) \<Rightarrow> 'b watched bluez \<Rightarrow> bool" where
  "opened c P s \<longleftrightarrow>
     bz_config s = c \<and> ss_open (bz_state s) \<and> ss_connected_by_us (bz_state s) \<and> ss_session (bz_state s) \<noteq> None
     \<and> ss_adapter (bz_state s) \<noteq> None \<and> ss_gatt (bz_state s) \<noteq> None \<and> bz_control_notifications s \<noteq> None
     \<and> bz_last_data_notifications s \<noteq> None \<and> bz_data_notifications s \<noteq> None
     \<and> (\<exists>d. ss_device (bz_state s) = Some d \<and> P d (snd (bz_stack s)))"

lemma ends_open:
  assumes "\<not> ss_open (bz_state s0)" "bz_config s0 = c"
  shows "ends (upon s0 (on_trace (free bl c clean))) (open_transport fuel (watched bl))
    (\<lambda>_. opened c (holding bl c clean)) (upon s0 (on_trace (free bl c clean))) (upon s0 (on_trace (free bl c False)))"
proof -
  let ?F = "upon s0 (on_trace (free bl c clean))" and ?L = "upon s0 (on_trace (free bl c False))"
  let ?Q = "\<lambda>_ :: unit. opened c (holding bl c clean)"
  have find: "ends ?F (on_stack (find_device fuel (watched bl) c))
      (\<lambda>(session, adapter, d). upon s0 (on_trace (cleared bl c clean d))) ?F ?L"
    using ends_on_stack [OF ends_find_device [of bl c clean fuel], of s0]
    by (rule ends_weaken) (auto elim: upon_mono intro: free_left)
  have connect: "ends (upon s0 (on_trace (cleared bl c clean d))) (on_stack (connect_with_retry fuel (watched bl) c d))
      (\<lambda>_. upon s0 (on_trace (holding bl c clean d))) ?F ?L" for d
  proof -
    have "ends (on_trace (cleared bl c clean d)) (connect_with_retry fuel (watched bl) c d)
        (\<lambda>_. on_trace (holding bl c clean d)) (on_trace (free bl c clean)) (on_trace (free bl c False))"
      by (rule ends_pre, rule ends_step [OF connect_with_retry_def _ ends_connect_loop])
    from ends_on_stack [OF this] show ?thesis .
  qed
  have tail: "ends (upon s0 (on_trace (holding bl c clean d))) (on_stack (open_tail (watched bl) t d))
      (\<lambda>_. upon s0 (on_trace (holding bl c clean d))) (upon s0 (on_trace (holding bl c clean d))) ?L" for d t
    by (rule ends_left [OF ends_on_stack [OF keeps_open_tail]]) (auto elim: upon_mono intro: holding_left)
  have commit: "ends (upon s0 (on_trace (holding bl c clean d)))
      (call_update (\<lambda>s. s\<lparr>bz_state := ss_commit session adapter d gatt (bz_state s), bz_control_notifications := Some control,
         bz_last_data_notifications := Some last_data, bz_data_notifications := Some data\<rparr>)) ?Q ?F ?L"
    for session adapter d gatt control last_data data
    using assms(2) by (intro ends_update) (auto simp: upon_def opened_def ss_commit_def on_trace_def)
  have rollback: "ends (upon s0 (on_trace (holding bl c clean d)))
      (call_ignore (on_stack (bounded op1 t (bl_disconnect (watched bl) d))) (call_fail e)) ?Q ?F ?L" for d op1 t e
  proof -
    have asked: "ends (upon s0 (on_trace (holding bl c clean d))) (on_stack (bounded op1 t (bl_disconnect (watched bl) d)))
        (\<lambda>_. upon s0 (on_trace (cleared bl c clean d))) (upon s0 (on_trace (cleared bl c clean d))) ?L"
      using ends_on_stack [OF ends_disconnect [of bl c clean d op1 t], of s0]
      by (rule ends_weaken) (auto elim: upon_mono intro: cleared_left)
    have fin: "ends (upon s0 (on_trace (cleared bl c clean d))) (call_fail e) ?Q ?F ?L"
      by (rule ends_fail) (auto elim: upon_mono intro: cleared_free)
    show ?thesis by (rule ends_catch [OF asked fin fin])
  qed
  show ?thesis
  proof (rule ends_pre)
    fix s :: "'a watched bluez" assume s: "?F s"
    then have closed: "\<not> ss_open (bz_state s)" "bz_config s = c" using assms by (auto simp: upon_def)
    let ?t = "tc_operation_timeout c"
    let ?rest = "\<lambda>(session, adapter, device).
        call_then (on_stack (connect_with_retry fuel (watched bl) c device)) (
        call_catch (on_stack (open_tail (watched bl) ?t device))
          (\<lambda>(gatt, control, last_data, data).
             call_update (\<lambda>s. s\<lparr>bz_state := ss_commit session adapter device gatt (bz_state s),
               bz_control_notifications := Some control, bz_last_data_notifications := Some last_data,
               bz_data_notifications := Some data\<rparr>))
          (\<lambda>e. call_ignore (on_stack (bounded ''disconnect-rollback'' ?t (bl_disconnect (watched bl) device)))
                 (call_fail e)))"
    have rest: "ends (case p of (session, adapter, d) \<Rightarrow> upon s0 (on_trace (cleared bl c clean d))) (?rest p) ?Q ?F ?L" for p
      by (cases p) (auto intro!: ends_bind [OF connect] ends_catch [OF tail] commit rollback)
    have check: "ends ?F (call_result (transport_config_validate c)) (\<lambda>_. ?F) ?F ?L" by (rule ends_result)
    have "ends ?F (call_then (call_result (transport_config_validate c))
        (call_bind (on_stack (find_device fuel (watched bl) c)) ?rest)) ?Q ?F ?L"
      by (rule ends_bind [OF check ends_bind [OF find rest]])
    then show "ends (\<lambda>s'. s' = s) (open_transport fuel (watched bl)) ?Q ?F ?L"
      by (rule ends_step [where P = ?F, rotated 2]) (simp add: open_transport_def closed Let_def, rule s)
  qed
qed

end
