(* ===== verification/Bluez_History.thy ===== *)
theory Bluez_History
  imports Bluez_Steps
begin

text \<open>
  Histories of the transport over BlueZ: it connects only to a device that answered as the configured, bonded
  one, it owns the connections it makes, and an opening that is left is forgotten. The section before the
  properties has a concrete machine.
\<close>

section \<open>Histories\<close>

text \<open>The other methods, each with any of its arguments.\<close>

inductive uses :: "'b bluer \<Rightarrow> 'b bluez \<Rightarrow> 'b bluez \<Rightarrow> bool" for bl :: "'b bluer" and s :: "'b bluez" where
  reads: "read_control bl s = (r, s') \<Longrightarrow> uses bl s s'"
| writes_control: "write_control bl data s = (r, s') \<Longrightarrow> uses bl s s'"
| writes_data: "write_data bl data s = (r, s') \<Longrightarrow> uses bl s s'"
| writes_last_data: "write_last_data bl data s = (r, s') \<Longrightarrow> uses bl s s'"
| waits: "next_notification bl limit s = (r, s') \<Longrightarrow> uses bl s s'"
| asks_rssi: "rssi bl s = (r, s') \<Longrightarrow> uses bl s s'"

text \<open>Any calls in any order, over a machine that changes between them. A history is clean while every opening and
  closing is awaited to its end.\<close>

inductive reach :: "nat \<Rightarrow> 'b bluer \<Rightarrow> transport_config \<Rightarrow> bool \<Rightarrow> 'b watched bluez \<Rightarrow> bool"
  for fuel :: nat and bl :: "'b bluer" and c :: transport_config where
  start: "reach fuel bl c True (bluez_new c (b, []))"
| opens: "reach fuel bl c clean s \<Longrightarrow> open_transport fuel (watched bl) s = (r, s') \<Longrightarrow>
    reach fuel bl c (clean \<and> (\<exists>v. r = Ready v)) s'"
| closes: "reach fuel bl c clean s \<Longrightarrow> close_transport (watched bl) s = (r, s') \<Longrightarrow>
    reach fuel bl c (clean \<and> r = Ready ()) s'"
| using_it: "reach fuel bl c clean s \<Longrightarrow> uses (watched bl) s s' \<Longrightarrow> reach fuel bl c clean s'"
| machine: "reach fuel bl c clean s \<Longrightarrow> reach fuel bl c clean (s\<lparr>bz_stack := (b, snd (bz_stack s))\<rparr>)"

definition transport_inv :: "'b bluer \<Rightarrow> transport_config \<Rightarrow> bool \<Rightarrow> 'b watched bluez \<Rightarrow> bool" where
  "transport_inv bl c clean s \<longleftrightarrow>
     bz_config s = c \<and> guarded bl c (snd (bz_stack s)) \<and>
     (clean \<longrightarrow> shut c s \<and> free bl c True (snd (bz_stack s)) \<or> opened c (holding bl c True) s)"

lemma quiet_call:
  assumes "keeps_trace (\<lambda>tr. tr = snd b) f" "f b = (r, b')"
  shows "snd b' = snd b"
proof -
  have b: "on_trace (\<lambda>tr. tr = snd b) b" by (simp add: on_trace_def)
  show ?thesis
    using endsD [OF assms(1) b] assms(2) by (cases r rule: end_cases) (auto simp: on_trace_def)
qed

definition restacked :: "'b watched bluez \<Rightarrow> 'b watched bluez \<Rightarrow> bool" where
  "restacked s s' \<longleftrightarrow> (\<exists>b. s' = s\<lparr>bz_stack := b\<rparr> \<and> snd b = snd (bz_stack s))"

lemma restackedI: "restacked s s" "snd b = snd (bz_stack s) \<Longrightarrow> restacked s (s\<lparr>bz_stack := b\<rparr>)"
proof -
  have "s = s\<lparr>bz_stack := bz_stack s\<rparr>" by simp
  then show "restacked s s" unfolding restacked_def by blast
  show "snd b = snd (bz_stack s) \<Longrightarrow> restacked s (s\<lparr>bz_stack := b\<rparr>)" unfolding restacked_def by blast
qed

lemma with_gatt_stack:
  assumes "\<And>c gatt. keeps_trace (\<lambda>tr. tr = snd (bz_stack s)) (f c gatt)" "with_gatt f s = (r, s')"
  shows "restacked s s'"
proof -
  from assms(2) have "s' = s \<or> (\<exists>c gatt b. f c gatt (bz_stack s) = (r, b) \<and> s' = s\<lparr>bz_stack := b\<rparr>)"
    by (auto simp: with_gatt_def call_fail_def on_stack_def split: if_splits option.splits prod.splits)
  then show ?thesis using quiet_call [OF assms(1)] restackedI by blast
qed

lemma keeps_write_bounded: "keeps_trace P (write_bounded (watched bl) operation t h mode data maximum)"
  unfolding write_bounded_def watched_simps by (cases mode) (auto intro!: ends_if keeps_rules)

lemma uses_stack:
  assumes "uses (watched bl) s s'"
  shows "restacked s s'"
  using assms
proof cases
  case (reads r)
  then show ?thesis unfolding read_control_def watched_simps by (rule with_gatt_stack [OF ends_quiet])
next
  case (writes_control data r)
  then show ?thesis unfolding write_control_def by (rule with_gatt_stack [OF keeps_write_bounded])
next
  case (writes_data data r)
  then show ?thesis unfolding write_data_def by (rule with_gatt_stack [OF keeps_write_bounded])
next
  case (writes_last_data data r)
  then show ?thesis unfolding write_last_data_def by (rule with_gatt_stack [OF keeps_write_bounded])
next
  case (waits limit r)
  then show ?thesis
    by (auto simp: next_notification_def call_fail_def Let_def intro: restackedI
        split: if_splits option.splits prod.splits await.splits dest: quiet_cases)
next
  case (asks_rssi r)
  then show ?thesis
    by (auto simp: rssi_def call_fail_def on_stack_def intro: restackedI dest: quiet_call [OF ends_quiet] split: if_splits option.splits prod.splits)
qed

lemma inv_stack: "transport_inv bl c clean s \<Longrightarrow> snd b = snd (bz_stack s) \<Longrightarrow> transport_inv bl c clean (s\<lparr>bz_stack := b\<rparr>)"
  by (auto simp: transport_inv_def shut_def opened_def)

lemma inv_open:
  assumes inv: "transport_inv bl c clean s" and run: "open_transport fuel (watched bl) s = (r, s')"
  shows "transport_inv bl c (clean \<and> (\<exists>v. r = Ready v)) s'"
proof (cases "ss_open (bz_state s)")
  case True
  with run inv show ?thesis by (auto simp: open_transport_def call_return_def)
next
  case False
  have config: "bz_config s = c" using inv by (simp add: transport_inv_def)
  have "clean \<Longrightarrow> shut c s" "on_trace (free bl c clean) (bz_stack s)"
    using inv False by (auto simp: transport_inv_def opened_def on_trace_def free_def)
  then have pre: "upon s (on_trace (free bl c clean)) s" unfolding upon_def by (intro exI [of _ "bz_stack s"]) simp
  note e = endsD [OF ends_open [OF False config] pre]
  have left: "transport_inv bl c False s'" if "upon s (on_trace (free bl c False)) s'" for s'
    using that config by (auto simp: upon_def transport_inv_def on_trace_def free_def)
  have failed: "transport_inv bl c clean s'" if "upon s (on_trace (free bl c clean)) s'" for s'
    using that config \<open>clean \<Longrightarrow> shut c s\<close> by (auto simp: upon_def transport_inv_def on_trace_def free_def shut_def)
  have good: "transport_inv bl c clean s'" if "opened c (holding bl c clean) s'" for s'
    using that by (cases clean) (auto simp: transport_inv_def opened_def holding_def)
  show ?thesis
    using run e left failed good by (cases r rule: end_cases) auto
qed

lemma inv_close:
  assumes inv: "transport_inv bl c clean s" and run: "close_transport (watched bl) s = (r, s')"
  shows "transport_inv bl c (clean \<and> r = Ready ()) s'"
proof (cases "ss_connected_by_us (bz_state s) \<and> ss_device (bz_state s) \<noteq> None")
  case False
  have s': "s' = s\<lparr>bz_control_notifications := None, bz_last_data_notifications := None, bz_data_notifications := None,
      bz_state := ss_clear (bz_state s)\<rparr>"
    using run False by (auto simp: close_transport_def ss_clear_def Let_def split: option.splits)
  have "\<not> opened c (holding bl c True) s" using False by (auto simp: opened_def)
  with inv show ?thesis
    unfolding s' by (auto simp: transport_inv_def shut_def has_resources_def ss_clear_def opened_def)
next
  case True
  then obtain d where d: "ss_device (bz_state s) = Some d" by blast
  let ?b = "bounded ''disconnect'' (tc_operation_timeout (bz_config s)) (bl_disconnect (watched bl) d) (bz_stack s)"
  have tr: "snd (snd ?b) = snd (bz_stack s) @ [Disconnecting d]"
    by (auto simp: bounded_def watched_def split: prod.splits await.splits option.splits)
  let ?s1 = "s\<lparr>bz_control_notifications := None, bz_last_data_notifications := None, bz_data_notifications := None,
      bz_state := (bz_state s)\<lparr>ss_device := None\<rparr>, bz_stack := snd ?b\<rparr>"
  have s': "s' = (if r = Ready () then ?s1\<lparr>bz_state := ss_clear (bz_state s)\<rparr> else ?s1)"
    using run True d by (auto simp: close_transport_def on_stack_def ss_clear_def Let_def split: prod.splits await.splits)
  have g: "guarded bl c (snd (bz_stack s'))"
    using inv unfolding s' by (auto simp: transport_inv_def tr guarded_snoc)
  have held: "holding bl c True d (snd (bz_stack s))" if clean
    using inv that True d by (auto simp: transport_inv_def shut_def opened_def)
  have "free bl c True (snd (bz_stack s'))" if clean
    using cleared_free [OF disconnecting_step [OF disjI2 [OF held [OF that]]]] unfolding s' by (simp add: tr)
  with g inv show ?thesis
    unfolding s' by (auto simp: transport_inv_def shut_def has_resources_def ss_clear_def)
qed

lemma reach_inv: "reach fuel bl c clean s \<Longrightarrow> transport_inv bl c clean s"
proof (induction rule: reach.induct)
  case (start b)
  show ?case by (auto simp: transport_inv_def bluez_new_def shut_def ss_new_def has_resources_def free_def)
next
  case (opens clean s r s')
  then show ?case by (blast intro: inv_open)
next
  case (closes clean s r s')
  then show ?case by (blast intro: inv_close)
next
  case (using_it clean s s')
  from uses_stack [OF using_it.hyps(2)] show ?case using using_it.IH by (auto simp: restacked_def intro: inv_stack)
next
  case (machine clean s b)
  then show ?case by (intro inv_stack) simp_all
qed

section \<open>A machine\<close>

text \<open>One adapter and one bonded charger; its state says whether it is connected. With \<open>awaited\<close> false every
  connection attempt is left, and the machine completes it all the same.\<close>

definition charger_address :: address where
  "charger_address = [0xc0, 0x01, 0x02, 0x03, 0x04, 0x05]"

definition at_once :: "'a \<Rightarrow> ('b, 'a) dbus" where
  "at_once x d b = (Ready (Some (Inr x)), b)"

definition charger_uuid :: "handle \<Rightarrow> uuid" where
  "charger_uuid h = (if h = 1 then char_uuid Dfd0 RoleControl else if h = 2 then char_uuid Dfd0 RoleLastData
     else char_uuid Dfd0 RoleData)"

definition charger :: "bool \<Rightarrow> bool bluer" where
  "charger awaited =
     \<lparr>bl_now = (\<lambda>b. 0), bl_sleep = (\<lambda>d b. (Ready (), b)), bl_session_new = at_once 0,
      bl_adapter_names = (\<lambda>h. at_once [DEFAULT_ADAPTER]), bl_adapter = (\<lambda>h n b. Inr 0), bl_adapter_name = (\<lambda>h. DEFAULT_ADAPTER),
      bl_is_powered = (\<lambda>h. at_once True), bl_set_powered = (\<lambda>h on. at_once ()),
      bl_device_addresses = (\<lambda>h. at_once [charger_address]), bl_discover = (\<lambda>h. at_once 0),
      bl_event = (\<lambda>h d b. (Ready None, b)), bl_device = (\<lambda>h a b. Inr 7),
      bl_alias = (\<lambda>h. at_once ''Solar Charger''), bl_name = (\<lambda>h. at_once None),
      bl_is_paired = (\<lambda>h. at_once True), bl_uuids = (\<lambda>h. at_once None), bl_manufacturer_data = (\<lambda>h. at_once None),
      bl_is_connected = (\<lambda>h d b. (Ready (Some (Inr b)), b)),
      bl_connect = (\<lambda>h d b. (if awaited then Ready (Some (Inr ())) else Dropped, True)),
      bl_disconnect = (\<lambda>h d b. (Ready (Some (Inr ())), False)),
      bl_rssi = (\<lambda>h. at_once None), bl_services = (\<lambda>h. at_once [0]), bl_service_uuid = (\<lambda>h. at_once VE_SMART_SERVICE_UUID_0),
      bl_characteristics = (\<lambda>h. at_once [1, 2, 3]), bl_char_uuid = (\<lambda>h. at_once (charger_uuid h)),
      bl_char_flags = (\<lambda>h. at_once \<lparr>fl_read = True, fl_write_without_response = True, fl_write = True, fl_notify = True, fl_indicate = False\<rparr>),
      bl_notify = (\<lambda>h. at_once h), bl_select = (\<lambda>h i j d b. (Ready None, b)), bl_read = (\<lambda>h. at_once []),
      bl_write = (\<lambda>h data. at_once ()), bl_write_request = (\<lambda>h data. at_once ())\<rparr>"

definition charger_config :: transport_config where
  "charger_config = transport_config_default\<lparr>tc_selector := \<lparr>ds_alias = None, ds_address = Some charger_address\<rparr>,
     tc_require_evidence := False\<rparr>"

lemmas charger_simps = charger_def at_once_def charger_config_def transport_config_default_def from_secs_def

lemmas step_simps = bounded_def immediate_def call_bind_def call_catch_def call_return_def call_fail_def call_result_def
  call_update_def call_get_def on_stack_def quiet_def seen_def

lemmas find_simps = find_device_def resolve_adapter_def ensure_powered_def resolve_device_def inspect_def
  inspect_matched_def choose_device_def pick_adapter_name_def selector_matches_def evidence_ok_def
  has_victron_service_evidence_def has_victron_manufacturer_evidence_def

lemma charger_known:
  "find_device fuel (watched (charger awaited)) charger_config (False, [])
   = (Ready (Inr (0, 0, 7)), (False, [AliasIs 7 ''Solar Charger'', NameIs 7 None, PairedIs 7 True, UuidsAre 7 None,
       DataIs 7 None, ConnectedIs 7 False]))"
  by (simp add: find_simps step_simps charger_simps Let_def)

lemma charger_taken:
  "\<exists>x. find_device fuel (watched (charger awaited)) charger_config (True, tr)
     = (Ready (Inl (TeContention ''already-connected'')), x)"
  by (simp add: find_simps step_simps charger_simps Let_def, blast)

lemma charger_tail:
  "\<exists>gatt control last_data data. open_tail (watched (charger awaited)) t 7 b = (Ready (Inr (gatt, control, last_data, data)), b)"
  by (cases b) (simp add: open_tail_def locate_def subscribe_one_def char_role_exact step_simps charger_simps
      charger_uuid_def service_variant_of_def char_role_of_def char_uuid_eq_iff validate_flags_def pick_write_mode_def gatt_of_def ok_or_def Let_def)

definition charger_checks :: "bluez_event list" where
  "charger_checks = [AliasIs 7 ''Solar Charger'', NameIs 7 None, PairedIs 7 True, UuidsAre 7 None, DataIs 7 None, ConnectedIs 7 False]"

lemma charger_valid: "transport_config_validate charger_config = Inr ()"
  by (simp add: transport_config_validate_def selector_validate_def charger_simps Let_def)

lemma charger_connects:
  "connect_with_retry (Suc fuel) (watched (charger True)) charger_config 7 (False, tr) = (Ready (Inr ()), (True, tr @ [Connecting 7 Established]))"
  by (simp add: connect_with_retry_def connect_loop.simps(2) watched_def charger_simps Let_def)

lemma charger_left:
  "connect_with_retry (Suc fuel) (watched (charger False)) charger_config 7 (False, tr) = (Dropped, (True, tr @ [Connecting 7 Abandoned]))"
  by (simp add: connect_with_retry_def connect_loop.simps(2) watched_def charger_simps Let_def)

lemma charger_open:
  "\<exists>s'. open_transport 1 (watched (charger True)) (bluez_new charger_config (False, [])) = (Ready (Inr ()), s')
    \<and> ss_open (bz_state s') \<and> snd (bz_stack s') = charger_checks @ [Connecting 7 Established]"
proof -
  obtain gatt control last_data data where t: "open_tail (watched (charger True)) (tc_operation_timeout charger_config) 7
      (True, charger_checks @ [Connecting 7 Established]) = (Ready (Inr (gatt, control, last_data, data)),
      (True, charger_checks @ [Connecting 7 Established]))"
    using charger_tail by blast
  note k = charger_known [folded charger_checks_def, of "Suc 0" True]
  show ?thesis
    by (simp add: open_transport_def bluez_new_def ss_new_def charger_valid k charger_connects [of 0] t
        call_bind_def call_catch_def call_result_def call_update_def on_stack_def ss_commit_def Let_def)
qed

definition left_open :: "bool watched bluez" where
  "left_open = (bluez_new charger_config (True, charger_checks @ [Connecting 7 Abandoned]))"

lemma charger_open_left:
  "open_transport 1 (watched (charger False)) (bluez_new charger_config (False, [])) = (Dropped, left_open)"
proof -
  note k = charger_known [folded charger_checks_def, of "Suc 0" False]
  show ?thesis
    by (simp add: open_transport_def bluez_new_def ss_new_def charger_valid k charger_left [of 0] left_open_def
        call_bind_def call_catch_def call_result_def on_stack_def Let_def)
qed

section \<open>Properties\<close>



text \<open>C7: The transport connects to no other device than the configured one. In every history, with any calls left,
  each connection attempt comes after answers of BlueZ by which this device has the configured address or name, is
  bonded, and, if the configuration asks for it, advertises itself as a Victron device.\<close>

theorem connects_only_the_configured_device:
  assumes "reach fuel bl c clean s" "snd (bz_stack s) = before @ Connecting d how # after"
  shows "(\<exists>adapter a b alias name. bl_device bl adapter a b = Inr d \<and> AliasIs d alias \<in> set before
        \<and> (name = None \<or> NameIs d name \<in> set before) \<and> selector_matches alias name a (tc_selector c)
        \<and> (ds_address (tc_selector c) \<noteq> None \<longrightarrow> ds_address (tc_selector c) = Some a))
    \<and> PairedIs d True \<in> set before \<and> (tc_require_evidence c \<longrightarrow> evident before d)"
proof -
  have "verified bl c before d"
    using reach_inv [OF assms(1)] assms(2) unfolding transport_inv_def guarded_def by blast
  then show ?thesis unfolding verified_def identified_def using selector_address by blast
qed

theorem connects_only_the_configured_device_witness:
  "\<exists>adapter a b alias name. bl_device (charger False) adapter a b = Inr 7 \<and> AliasIs 7 alias \<in> set charger_checks
     \<and> selector_matches alias name a (tc_selector charger_config)"
proof -
  have "reach 1 (charger False) charger_config False left_open"
    using reach.opens [OF reach.start charger_open_left] by simp
  moreover have "snd (bz_stack left_open) = charger_checks @ Connecting 7 Abandoned # []"
    by (simp add: left_open_def bluez_new_def)
  ultimately show ?thesis using connects_only_the_configured_device by blast
qed



end
