(* ===== verification/Storage_Adapter.thy ===== *)
theory Storage_Adapter
  imports Storage_System Service_Ports
begin

text \<open>
  \<open>victron-collector\<close>, \<open>adapters/storage.rs\<close>: the storage port of the service over the SQLite facade.

  The world of the collector is its database and the rest, \<open>'x\<close>. Each call runs on a worker of the
  runtime: \<open>call_env\<close> says for each call which statements SQLite refuses, what the storage clock reads
  and whether the worker is lost, with or without having done its work. The theorems hold for all of
  them. \<open>UNIX_EPOCH + Duration\<close> does not overflow for an \<open>i64\<close> of milliseconds, and \<open>usize\<close> has 64 bits.
\<close>

section \<open>The world and its calls\<close>

record call_env =
  ce_faults :: faults
  ce_now_ms :: int
  ce_worker_lost :: "string option"
  ce_worker_ran :: bool

definition quiet_call :: "int \<Rightarrow> call_env" where
  "quiet_call now = \<lparr>ce_faults = no_faults, ce_now_ms = now, ce_worker_lost = None, ce_worker_ran = True\<rparr>"

record 'x world =
  w_db :: db
  w_calls :: nat
  w_rest :: 'x

record sqlite_adapter =
  sq_config :: storage_config
  sq_device :: string
  sq_env :: "nat \<Rightarrow> call_env"

fun map_error :: "storage_error \<Rightarrow> port_storage_error" where
  "map_error (DatabaseTooNew found supported) =
     PsSchema (''database schema '' @ int_to_dec found @ '' is newer than supported '' @ int_to_dec supported)"
| "map_error EnergyAnchorConflict = PsEnergyAnchorConflict"
| "map_error (Inconsistent m) = PsCorrupt"
| "map_error (Sqlite e) = PsIo e"
| "map_error (InvalidArgument m) = PsSchema m"

text \<open>A reading call has no effect on the tables; a writing one returns them.\<close>

definition blocking ::
  "sqlite_adapter \<Rightarrow> (faults \<Rightarrow> int \<Rightarrow> db \<Rightarrow> (storage_error + 'a) \<times> db) \<Rightarrow> 'x world \<Rightarrow> (port_storage_error + 'a) \<times> 'x world" where
  "blocking sq operation w =
     (let env = sq_env sq (w_calls w);
          (r, d) = operation (ce_faults env) (ce_now_ms env) (w_db w) in
      case ce_worker_lost env of
        Some m \<Rightarrow> (Inl (PsIo (''SQLite worker failed: '' @ m)),
                   w\<lparr>w_calls := w_calls w + 1, w_db := (if ce_worker_ran env then d else w_db w)\<rparr>)
      | None \<Rightarrow> (map_err map_error r, w\<lparr>w_calls := w_calls w + 1, w_db := d\<rparr>))"

definition reading :: "(faults \<Rightarrow> db \<Rightarrow> storage_error + 'a) \<Rightarrow> faults \<Rightarrow> int \<Rightarrow> db \<Rightarrow> (storage_error + 'a) \<times> db" where
  "reading f io now d = (f io d, d)"

text \<open>\<open>f(..)?\<close> on the result of a port.\<close>

definition port_map :: "('a \<Rightarrow> 'e + 'b) \<Rightarrow> ('e + 'a) \<times> 'w \<Rightarrow> ('e + 'b) \<times> 'w" where
  "port_map f r = (try_bind (fst r) f, snd r)"

section \<open>Conversions\<close>

definition time_to_ms :: "system_time \<Rightarrow> port_storage_error + int" where
  "time_to_ms t =
     (if t < 0 then Inl (PsInvalidTimestamp t)
      else let millis = t div 1000000 in
        if millis > i64_max then Inl (PsInvalidTimestamp t)
        else if millis \<le> 0 then Inl (PsInvalidTimestamp t)
        else Inr millis)"

definition ms_to_time :: "int \<Rightarrow> port_storage_error + system_time" where
  "ms_to_time ms = (if ms < 0 then Inl PsCorrupt else if ms = 0 then Inl PsCorrupt else Inr (ms * 1000000))"

definition duration_to_ms :: "duration \<Rightarrow> port_storage_error + int" where
  "duration_to_ms d =
     (let millis = int (d div 1000000) in
      if millis \<le> i64_max \<and> millis > 0 then Inr millis
      else Inl (PsSchema ''claim TTL must fit in positive milliseconds''))"

definition claim_id :: "u64 \<Rightarrow> port_storage_error + int" where
  "claim_id i = (if uint i \<le> i64_max then Inr (uint i) else Inl PsCorrupt)"

definition require_changed :: "bool \<Rightarrow> u64 \<Rightarrow> string \<Rightarrow> port_storage_error + unit" where
  "require_changed changed i operation =
     (if changed then Inr ()
      else Inl (PsIo (''spool batch '' @ int_to_dec (uint i) @ '' disappeared before '' @ operation)))"

definition opt_try :: "('a \<Rightarrow> 'e + 'b) \<Rightarrow> 'a option \<Rightarrow> 'e + 'b option" where
  "opt_try f x = (case x of None \<Rightarrow> Inr None | Some y \<Rightarrow> try_bind (f y) (\<lambda>z. Inr (Some z)))"

definition service_energy_to_sqlite :: "energy_state \<Rightarrow> port_storage_error + acquisition_energy" where
  "service_energy_to_sqlite e =
     try_bind (opt_try time_to_ms (es_last_sample_at e)) (\<lambda>t.
       Inr \<lparr>ae_total_kwh = es_total_kwh e, ae_last_power_watts = es_last_power_watts e, ae_last_sample_at_ms = t\<rparr>)"

section \<open>The port\<close>

definition sq_last_success :: "sqlite_adapter \<Rightarrow> 'x world \<Rightarrow> (port_storage_error + system_time option) \<times> 'x world" where
  "sq_last_success sq w =
     port_map (opt_try ms_to_time) (blocking sq (reading (\<lambda>io. last_success io (sq_device sq))) w)"

definition sq_energy_state :: "sqlite_adapter \<Rightarrow> 'x world \<Rightarrow> (port_storage_error + energy_state option) \<times> 'x world" where
  "sq_energy_state sq w =
     port_map (opt_try (\<lambda>r.
         try_bind (opt_try ms_to_time (er_last_sample_at_ms r)) (\<lambda>t.
           Inr \<lparr>es_total_kwh = er_total_kwh r, es_last_power_watts = er_last_power_watts r, es_last_sample_at = t\<rparr>)))
       (blocking sq (reading (\<lambda>io. get_energy io (sq_device sq))) w)"

definition sqlite_commit :: "port_commit \<Rightarrow> port_storage_error + acquisition_commit" where
  "sqlite_commit c =
     try_bind (time_to_ms (pc_observed_at c)) (\<lambda>ms.
     try_bind (opt_try service_energy_to_sqlite (pc_expected_energy c)) (\<lambda>expected.
     try_bind (service_energy_to_sqlite (pc_next_energy c)) (\<lambda>nxt.
       Inr \<lparr>ac_device = device_name (pc_device c), ac_observed_at_ms = ms, ac_expected_energy = expected,
            ac_next_energy = nxt, ac_payload = pc_payload c\<rparr>)))"

definition sq_commit_acquisition ::
  "sqlite_adapter \<Rightarrow> port_commit \<Rightarrow> 'x world \<Rightarrow> (port_storage_error + port_commit_outcome) \<times> 'x world" where
  "sq_commit_acquisition sq c w =
     (case sqlite_commit c of
        Inl e \<Rightarrow> (Inl e, w)
      | Inr ac \<Rightarrow>
          port_map (\<lambda>out. Inr (case out of Committed i \<Rightarrow> PortCommitted | AlreadyCommitted \<Rightarrow> PortAlreadyCommitted))
            (blocking sq (\<lambda>io now. commit_acquisition io ac) w))"

definition sq_spool_health :: "sqlite_adapter \<Rightarrow> system_time \<Rightarrow> 'x world \<Rightarrow> (port_storage_error + spool_health) \<times> 'x world" where
  "sq_spool_health sq now w =
     (case time_to_ms now of
        Inl e \<Rightarrow> (Inl e, w)
      | Inr now_ms \<Rightarrow>
          port_map (\<lambda>st. Inr \<lparr>sh_depth = unat (queued_batches st),
              sh_oldest_age = map_option (\<lambda>oldest. nat (max (sat_i64 (now_ms - oldest)) 0) * 1000000)
                                (oldest_created_at_ms st)\<rparr>)
            (blocking sq (reading stats) w))"

definition claimed :: "spool_batch \<Rightarrow> port_storage_error + claimed_batch" where
  "claimed b =
     (if b_id b < 0 then Inl PsCorrupt
      else Inr \<lparr>cb_id = of_int (b_id b), cb_payload = b_payload b, cb_attempts = b_attempts b\<rparr>)"

definition sq_spool_claim_next ::
  "sqlite_adapter \<Rightarrow> duration \<Rightarrow> system_time \<Rightarrow> 'x world \<Rightarrow> (port_storage_error + claimed_batch option) \<times> 'x world" where
  "sq_spool_claim_next sq claim_ttl now w =
     (case try_bind (time_to_ms now) (\<lambda>now_ms.
           try_bind (duration_to_ms claim_ttl) (\<lambda>claim_ms.
             if claim_ms \<noteq> spool_inflight_ms (sq_config sq)
             then Inl (PsSchema (''service claim TTL ('' @ int_to_dec claim_ms @ '' ms) differs from SQLite spool TTL ('' @
                    int_to_dec (spool_inflight_ms (sq_config sq)) @ '' ms)''))
             else Inr now_ms)) of
        Inl e \<Rightarrow> (Inl e, w)
      | Inr now_ms \<Rightarrow>
          port_map (opt_try claimed) (blocking sq (\<lambda>io now. claim_oldest io now_ms (sq_config sq)) w))"

definition sq_spool_complete :: "sqlite_adapter \<Rightarrow> claimed_batch \<Rightarrow> 'x world \<Rightarrow> (port_storage_error + unit) \<times> 'x world" where
  "sq_spool_complete sq claim w =
     (case claim_id (cb_id claim) of
        Inl e \<Rightarrow> (Inl e, w)
      | Inr i \<Rightarrow>
          port_map (\<lambda>changed. require_changed changed (cb_id claim) ''complete'')
            (blocking sq (\<lambda>io now. mark_delivered io i now) w))"

definition sq_spool_retry ::
  "sqlite_adapter \<Rightarrow> claimed_batch \<Rightarrow> system_time \<Rightarrow> 'x world \<Rightarrow> (port_storage_error + port_retry_outcome) \<times> 'x world" where
  "sq_spool_retry sq claim now w =
     (case try_bind (claim_id (cb_id claim)) (\<lambda>i. try_bind (time_to_ms now) (\<lambda>now_ms. Inr (i, now_ms))) of
        Inl e \<Rightarrow> (Inl e, w)
      | Inr (i, now_ms) \<Rightarrow>
          port_map (\<lambda>out. Inr (case out of Retried nxt attempts \<Rightarrow> PortRetried attempts | Dropped attempts \<Rightarrow> PortDropped attempts))
            (blocking sq (\<lambda>io now. record_retry io i now_ms (sq_config sq)) w))"

definition sq_spool_drop :: "sqlite_adapter \<Rightarrow> claimed_batch \<Rightarrow> 'x world \<Rightarrow> (port_storage_error + unit) \<times> 'x world" where
  "sq_spool_drop sq claim w =
     (case claim_id (cb_id claim) of
        Inl e \<Rightarrow> (Inl e, w)
      | Inr i \<Rightarrow>
          port_map (\<lambda>changed. require_changed changed (cb_id claim) ''drop'')
            (blocking sq (\<lambda>io now. drop_batch io i now) w))"

section \<open>Every call is an operation of the storage\<close>

text \<open>What the adapter asks of the storage: commits, claims, removals and retries.\<close>

fun adapter_op :: "storage_op \<Rightarrow> bool" where
  "adapter_op (OpCommit c) = in_i64 (ac_observed_at_ms c)"
| "adapter_op (OpClaim now) = True"
| "adapter_op (OpDelivered i now) = True"
| "adapter_op (OpDrop i now) = True"
| "adapter_op (OpRetry i now) = True"
| "adapter_op op = False"

definition reaches :: "storage_config \<Rightarrow> 'x world \<Rightarrow> 'x world \<Rightarrow> bool" where
  "reaches cfg w w' \<longleftrightarrow> (\<exists>ops. list_all (adapter_op \<circ> snd) ops \<and> w_db w' = storage_run cfg ops (w_db w))"

lemma storage_run_append: "storage_run cfg (xs @ ys) d = storage_run cfg ys (storage_run cfg xs d)"
  by (induction cfg xs d rule: storage_run.induct) simp_all

lemma reaches_same: "w_db w' = w_db w \<Longrightarrow> reaches cfg w w'"
  unfolding reaches_def by (rule exI [of _ "[]"]) simp

lemma reaches_op: "adapter_op op \<Longrightarrow> w_db w' = storage_exec cfg io op (w_db w) \<Longrightarrow> reaches cfg w w'"
  unfolding reaches_def by (rule exI [of _ "[(io, op)]"]) simp

lemma reaches_trans: "reaches cfg w w1 \<Longrightarrow> reaches cfg w1 w2 \<Longrightarrow> reaches cfg w w2"
  unfolding reaches_def by (metis storage_run_append list_all_append)

lemma port_map_world [simp]: "snd (port_map f r) = snd r"
  by (simp add: port_map_def)

lemma blocking_cases:
  obtains (kept) "w_db (snd (blocking sq operation w)) = w_db w"
  | (effect) io now where "w_db (snd (blocking sq operation w)) = snd (operation io now (w_db w))"
proof -
  let ?env = "sq_env sq (w_calls w)"
  show thesis
    using kept effect [of "ce_faults ?env" "ce_now_ms ?env"]
    by (cases "operation (ce_faults ?env) (ce_now_ms ?env) (w_db w)"; cases "ce_worker_lost ?env"; cases "ce_worker_ran ?env")
      (simp_all add: blocking_def Let_def)
qed

lemma blocking_reading [simp]: "w_db (snd (blocking sq (reading f) w)) = w_db w"
  by (rule blocking_cases [of sq "reading f" w]) (simp_all add: reading_def)

lemma blocking_reaches:
  assumes "\<And>io now d. snd (operation io now d) = storage_exec cfg io (op now) d" "\<And>now. adapter_op (op now)"
  shows "reaches cfg w (snd (blocking sq operation w))"
proof (cases rule: blocking_cases [of sq operation w])
  case kept
  then show ?thesis by (rule reaches_same)
next
  case (effect io now)
  with assms(1) have "w_db (snd (blocking sq operation w)) = storage_exec cfg io (op now) (w_db w)" by simp
  with assms(2) show ?thesis by (rule reaches_op)
qed

lemma time_to_ms_range: "time_to_ms t = Inr ms \<Longrightarrow> 0 < ms \<and> in_i64 ms \<and> ms = t div 1000000"
  by (auto simp: time_to_ms_def Let_def in_i64_def i64_min_def split: if_splits)

lemma sqlite_commit_range: "sqlite_commit c = Inr ac \<Longrightarrow> in_i64 (ac_observed_at_ms ac) \<and> 0 < ac_observed_at_ms ac"
  by (auto simp: sqlite_commit_def try_simps dest: time_to_ms_range)

lemma adapter_reaches:
  "reaches (sq_config sq) w (snd (sq_last_success sq w))"
  "reaches (sq_config sq) w (snd (sq_energy_state sq w))"
  "reaches (sq_config sq) w (snd (sq_commit_acquisition sq c w))"
  "reaches (sq_config sq) w (snd (sq_spool_health sq now w))"
  "reaches (sq_config sq) w (snd (sq_spool_claim_next sq ttl now w))"
  "reaches (sq_config sq) w (snd (sq_spool_complete sq claim w))"
  "reaches (sq_config sq) w (snd (sq_spool_retry sq claim now w))"
  "reaches (sq_config sq) w (snd (sq_spool_drop sq claim w))"
proof -
  show "reaches (sq_config sq) w (snd (sq_commit_acquisition sq c w))"
    by (cases "sqlite_commit c")
      (auto simp: sq_commit_acquisition_def reaches_same sqlite_commit_range
        intro!: blocking_reaches [where op = "\<lambda>now. OpCommit (projr (sqlite_commit c))"])
  show "reaches (sq_config sq) w (snd (sq_spool_claim_next sq ttl now w))"
    by (auto simp: sq_spool_claim_next_def reaches_same split: sum.splits
        intro!: blocking_reaches [where op = "\<lambda>n. OpClaim (projr (time_to_ms now))"])
      (auto simp: try_simps split: if_splits)
  show "reaches (sq_config sq) w (snd (sq_spool_complete sq claim w))"
    by (auto simp: sq_spool_complete_def reaches_same split: sum.splits
        intro!: blocking_reaches [where op = "\<lambda>n. OpDelivered (projr (claim_id (cb_id claim))) n"])
  show "reaches (sq_config sq) w (snd (sq_spool_drop sq claim w))"
    by (auto simp: sq_spool_drop_def reaches_same split: sum.splits
        intro!: blocking_reaches [where op = "\<lambda>n. OpDrop (projr (claim_id (cb_id claim))) n"])
  show "reaches (sq_config sq) w (snd (sq_spool_retry sq claim now w))"
    by (auto simp: sq_spool_retry_def reaches_same split: sum.splits
        intro!: blocking_reaches [where op = "\<lambda>n. OpRetry (projr (claim_id (cb_id claim))) (projr (time_to_ms now))"])
      (auto simp: try_simps)
qed (simp_all add: sq_last_success_def sq_energy_state_def sq_spool_health_def reaches_same split: sum.splits)

lemma reaches_inv: "reaches cfg w w' \<Longrightarrow> spool_inv cfg (w_db w) \<Longrightarrow> spool_inv cfg (w_db w')"
proof -
  assume r: "reaches cfg w w'" and inv: "spool_inv cfg (w_db w)"
  have "adapter_op op \<Longrightarrow> op_typed op" for op by (cases op) simp_all
  with r obtain ops where "list_all (op_typed \<circ> snd) ops" "w_db w' = storage_run cfg ops (w_db w)"
    by (auto simp: reaches_def list_all_iff)
  with run_inv [OF inv] show ?thesis by simp
qed

lemma blocking_Inr:
  assumes "blocking sq operation w = (Inr x, w')"
  shows "\<exists>io now. operation io now (w_db w) = (Inr x, w_db w')"
proof -
  let ?env = "sq_env sq (w_calls w)"
  from assms have "operation (ce_faults ?env) (ce_now_ms ?env) (w_db w) = (Inr x, w_db w')"
    by (cases "operation (ce_faults ?env) (ce_now_ms ?env) (w_db w)"; cases "ce_worker_lost ?env")
      (auto simp: blocking_def Let_def map_err_Inr_iff)
  then show ?thesis by blast
qed

lemma port_map_Inr: "port_map f r = (Inr y, w') \<longleftrightarrow> (\<exists>x. r = (Inr x, w') \<and> f x = Inr y)"
  by (cases r) (auto simp: port_map_def try_bind_Inr_iff)

section \<open>What is recorded\<close>

definition recorded_at :: "device_id \<Rightarrow> system_time \<Rightarrow> 'x world \<Rightarrow> bool" where
  "recorded_at device t w \<longleftrightarrow> not_older (Some (t div 1000000)) (last_observed (device_name device) (w_db w))"

lemma reaches_recorded: "reaches cfg w w' \<Longrightarrow> recorded_at device t w \<Longrightarrow> recorded_at device t w'"
proof -
  assume r: "reaches cfg w w'" and t: "recorded_at device t w"
  have "adapter_op op \<Longrightarrow> op_typed op" for op by (cases op) simp_all
  with r obtain ops where "list_all (op_typed \<circ> snd) ops" "w_db w' = storage_run cfg ops (w_db w)"
    by (auto simp: reaches_def list_all_iff)
  with storage_run_last_observed [of ops "device_name device" "w_db w" cfg] t show ?thesis
    by (auto simp: recorded_at_def intro: not_older_trans)
qed

lemma commit_recorded_at:
  assumes "sq_commit_acquisition sq c w = (Inr out, w')"
  shows "recorded_at (pc_device c) (pc_observed_at c) w'"
proof -
  from assms obtain ac where ac: "sqlite_commit c = Inr ac"
    by (auto simp: sq_commit_acquisition_def split: sum.splits)
  then have a: "ac_device ac = device_name (pc_device c)" "ac_observed_at_ms ac = pc_observed_at c div 1000000"
    by (auto simp: sqlite_commit_def try_simps dest: time_to_ms_range)
  from assms ac obtain x where "blocking sq (\<lambda>io now. commit_acquisition io ac) w = (Inr x, w')"
    by (auto simp: sq_commit_acquisition_def port_map_Inr)
  from blocking_Inr [OF this] obtain io where b: "commit_acquisition io ac (w_db w) = (Inr x, w_db w')" by blast
  from sqlite_commit_range [OF ac] have "in_i64 (ac_observed_at_ms ac)" by simp
  then show ?thesis
  proof (cases rule: commit_acquisition_cases [where io = io and d = "w_db w"])
    case (failed e)
    with b show ?thesis by simp
  next
    case (already t)
    with b a show ?thesis by (simp add: recorded_at_def not_older_def)
  next
    case (committed i d')
    with b a show ?thesis by (simp add: recorded_at_def not_older_def acquired_def)
  qed
qed

lemma last_success_recorded:
  assumes "sq_last_success sq w = (Inr (Some ls), w')" "t \<le> ls" "sq_device sq = device_name device"
  shows "recorded_at device t w'"
proof -
  from assms(1) obtain x where x: "blocking sq (reading (\<lambda>io. last_success io (sq_device sq))) w = (Inr x, w')"
    "opt_try ms_to_time x = Inr (Some ls)" by (auto simp: sq_last_success_def port_map_Inr)
  then obtain ms where ms: "x = Some ms" "ls = ms * 1000000"
    by (auto simp: opt_try_def ms_to_time_def try_simps split: option.splits if_splits)
  from blocking_Inr [OF x(1)] obtain io now
    where "reading (\<lambda>io. last_success io (sq_device sq)) io now (w_db w) = (Inr (Some ms), w_db w')" unfolding ms(1) by blast
  then have "last_success io (sq_device sq) (w_db w) = Inr (Some ms)" "w_db w' = w_db w"
    unfolding reading_def prod.inject by (blast, simp)
  then have g: "get_kv_i64 io 0 (w_db w') (last_success_key (device_name device)) = Inr (Some ms)"
    by (auto simp: last_success_def try_simps assms(3))
  from get_kv_i64_faultless [OF g, of 0] have "last_observed (device_name device) (w_db w') = Some ms"
    by (simp add: last_observed_def)
  moreover have "t div 1000000 \<le> ms" using zdiv_mono1 [OF assms(2), of 1000000] ms(2) by simp
  ultimately show ?thesis by (simp add: recorded_at_def not_older_def)
qed

section \<open>The claims that are left\<close>

definition claims_left :: "storage_config \<Rightarrow> db \<Rightarrow> nat" where
  "claims_left cfg d = sum_list (map (\<lambda>r. nat (uint (max_spool_attempts cfg) - sr_attempts r)) (db_spool d))"

lemma sum_list_less:
  "x \<in> set xs \<Longrightarrow> f (g x) < (f x :: nat) \<Longrightarrow> (\<And>y. y \<in> set xs \<Longrightarrow> f (g y) \<le> f y) \<Longrightarrow>
    sum_list (map (\<lambda>x. f (g x)) xs) < sum_list (map f xs)"
proof (induction xs)
  case Nil
  then show ?case by simp
next
  case (Cons y xs)
  have le: "sum_list (map (\<lambda>x. f (g x)) xs) \<le> sum_list (map f xs)"
    by (rule sum_list_mono) (simp add: Cons.prems(3))
  show ?case
  proof (cases "x = y")
    case True
    with Cons.prems(2) le show ?thesis by simp
  next
    case False
    with Cons have "sum_list (map (\<lambda>x. f (g x)) xs) < sum_list (map f xs)" by simp
    with Cons.prems(3) [of y] show ?thesis by simp
  qed
qed

lemma claims_left_delete: "claims_left cfg (snd (spool_delete p d)) \<le> claims_left cfg d"
  by (simp add: claims_left_def spool_delete_def sum_list_filter_le_nat)

lemma claims_left_same: "db_spool d' = db_spool d \<Longrightarrow> claims_left cfg d' = claims_left cfg d"
  by (simp add: claims_left_def)

lemma claims_left_update:
  assumes "spool_update p f d = Inr (n, d')" "\<And>r. sr_attempts r \<le> sr_attempts (f r)"
  shows "claims_left cfg d' \<le> claims_left cfg d"
proof -
  from assms(1) have "db_spool d' = map (\<lambda>r. if p r then f r else r) (db_spool d)"
    by (auto simp: spool_update_def try_simps)
  then show ?thesis
    unfolding claims_left_def by (simp only: map_map) (rule sum_list_mono, use assms(2) in \<open>auto intro: nat_mono\<close>)
qed

lemma claim_uses_one:
  assumes "spool_inv cfg d" "claim_oldest io now cfg d = (Inr (Some b), d')"
  shows "claims_left cfg d' < claims_left cfg d"
proof -
  from claim_oldest_some [OF assms] obtain row where row: "row \<in> set (db_spool d)" "ready now (max_spool_attempts cfg) row"
    and d': "db_spool d' = map (\<lambda>q. if sr_id q = sr_id row then leased cfg now q else q) (db_spool d)" by blast
  show ?thesis
    unfolding claims_left_def d' map_map comp_def
    by (rule sum_list_less [of row]) (use row in \<open>auto simp: leased_def ready_def\<close>)
qed

lemma claims_left_immediate:
  "(\<And>r d'. body d = Inr (r, d') \<Longrightarrow> claims_left cfg d' \<le> claims_left cfg d) \<Longrightarrow>
    claims_left cfg (snd (immediate io body d)) \<le> claims_left cfg d"
  by (rule immediate_invariant [where I = "\<lambda>d'. claims_left cfg d' \<le> claims_left cfg d"]) simp_all

lemma claims_left_remove: "claims_left cfg (snd (immediate io (remove_body io key i now) d)) \<le> claims_left cfg d"
proof (rule claims_left_immediate)
  fix r d'
  assume "remove_body io key i now d = Inr (r, d')"
  then have "db_spool d' = db_spool (snd (spool_delete (\<lambda>r. sr_id r = i) d))"
    by (auto simp: remove_body_def try_simps split: if_splits prod.splits dest!: bump_counter_spec)
  with claims_left_same claims_left_delete show "claims_left cfg d' \<le> claims_left cfg d" by metis
qed

lemma claims_left_retry: "claims_left cfg (snd (record_retry io i now cfg d)) \<le> claims_left cfg d"
  unfolding record_retry_def
proof (rule claims_left_immediate)
  fix r d'
  assume "retry_body io i now cfg d = Inr (r, d')"
  then show "claims_left cfg d' \<le> claims_left cfg d"
  proof (cases rule: retry_body_cases)
    case unknown
    then show ?thesis by simp
  next
    case (dropped row k)
    from bump_counter_spec [OF dropped(4)] show ?thesis
      using claims_left_same claims_left_delete by metis
  next
    case (retried row n)
    from claims_left_update [OF retried(4)] show ?thesis by simp
  qed
qed

lemma claims_left_claim: "claims_left cfg (snd (claim_oldest io now cfg d)) \<le> claims_left cfg d"
  unfolding claim_oldest_def
proof (rule claims_left_immediate)
  fix r d'
  assume "claim_body io now cfg d = Inr (r, d')"
  then show "claims_left cfg d' \<le> claims_left cfg d"
    by (cases rule: claim_body_cases) (auto dest: claims_left_update)
qed

end
