(* ===== verification/Collector_Protocol.thy ===== *)
theory Collector_Protocol
  imports Cbor_Rfc8949 Response Control Energy_Policy Service_Ports
begin

text \<open>
  \<open>victron-collector\<close>, \<open>adapters/protocol.rs\<close>: the protocol port of the service over the wire protocol
  and the domain. The lemmas give the answer to a response as a function of its records, and show what
  a translated sample can hold: the time and device it was asked for, values within their physical
  ranges, and confirmed quality for the panel voltage and power only.
\<close>

section \<open>Requests\<close>

definition MVP_VREGS :: "u16 list" where
  "MVP_VREGS = [0xedbb, 0xedbd, 0xedbc, 0xed8d, 0xed8c, 0x0201, 0xeda8, 0xedad, 0xedaa]"

fun map_wire_error :: "protocol_error \<Rightarrow> port_protocol_error" where
  "map_wire_error Truncated = PpTruncated"
| "map_wire_error (BufferLimit limit len) = PpBufferExceeded"
| "map_wire_error DepthLimit = PpBufferExceeded"
| "map_wire_error ItemLimit = PpBufferExceeded"
| "map_wire_error e = PpMalformed"

definition ve_acquire_plan :: "minicbor \<Rightarrow> u16 \<Rightarrow> u16 list \<Rightarrow> port_protocol_error + acquire_plan" where
  "ve_acquire_plan mc instance vregs =
     (if instance = 0 then Inl PpNotSubscribed
      else
        try_bind (map_err map_wire_error (request_encode mc (Subscribe instance))) (\<lambda>subscribe.
        try_bind (map_err map_wire_error (request_encode mc (GetValues instance vregs))) (\<lambda>values.
          Inr \<lparr>negotiation_frames = NEGOTIATION_WRITES, subscribe_payload = subscribe, values_payload = values\<rparr>)))"

section \<open>Responses\<close>

fun wire_code :: "response_code \<Rightarrow> u8" where
  "wire_code RcOk = 0"
| "wire_code RcUnknown1 = 1"
| "wire_code RcRejected = 2"
| "wire_code (RcOther code) = code"

definition response_status :: "response \<Rightarrow> response_code option" where
  "response_status r =
     (case r of ResponseMsg i op code \<Rightarrow> Some code | ValueResponse i reg code \<Rightarrow> Some code
              | PathResponse i idx code \<Rightarrow> Some code | _ \<Rightarrow> None)"

fun collect_values :: "u16 \<Rightarrow> response list \<Rightarrow> raw_value list \<Rightarrow> port_protocol_error + raw_value list" where
  "collect_values instance [] values = Inr values"
| "collect_values instance (r # rs) values =
     (case r of
        Value i register data \<Rightarrow>
          if i = ucast instance then collect_values instance rs (values @ [\<lparr>rv_vreg = register, rv_raw = data\<rparr>])
          else collect_values instance rs values
      | _ \<Rightarrow>
          (case response_status r of
             Some code \<Rightarrow>
               if \<not> response_code_is_ok code then Inl (PpContentionResponse (uint (wire_code code)))
               else collect_values instance rs values
           | None \<Rightarrow> collect_values instance rs values))"

definition ve_parse_response :: "minicbor \<Rightarrow> u16 \<Rightarrow> bytes \<Rightarrow> port_protocol_error + raw_value list" where
  "ve_parse_response mc instance payload =
     (if payload = [] then Inl PpEmptyResponse
      else
        try_bind (map_err map_wire_error (parse_response_stream mc payload)) (\<lambda>responses.
        try_bind (collect_values instance responses []) (\<lambda>values.
          if values = [] then Inl PpEmptyResponse else Inr values)))"

section \<open>Translation\<close>

text \<open>The arms of the \<open>match\<close> on the register and its decoded value.\<close>

definition set_value :: "u16 \<Rightarrow> scaled \<Rightarrow> quality \<Rightarrow> sample_builder \<Rightarrow> domain_error + sample_builder" where
  "set_value reg v q b =
     (case v of
        ScNumber x \<Rightarrow>
          if reg = 0xedbb then set_pv_voltage_volts x q b
          else if reg = 0xedbd then set_pv_current_amperes x q b
          else if reg = 0xed8d then set_battery_voltage_volts x q b
          else if reg = 0xed8c then set_battery_current_amperes x q b
          else if reg = 0xedad then set_load_current_amperes x q b
          else Inr b
      | ScInteger i \<Rightarrow>
          if reg = 0xedbc then set_pv_power_watts (f64_of_int i) q b
          else if reg = 0xedaa then set_load_power_watts (f64_of_int i) q b
          else Inr b
      | ScState code name \<Rightarrow>
          if reg = 0x0201 then Inr (set_charger_state (charger_from_code code) b)
          else if reg = 0xeda8 then Inr (set_load_state (load_from_code code) b)
          else Inr b
      | _ \<Rightarrow> Inr b)"

definition apply_value :: "sample_builder \<Rightarrow> raw_value \<Rightarrow> port_protocol_error + sample_builder" where
  "apply_value b raw =
     (let decoded = vv_decode \<lparr>vv_register = rv_vreg raw, vv_raw = rv_raw raw\<rparr>;
          q = (case dv_confidence decoded of Confirmed \<Rightarrow> ConfirmedNative | Candidate \<Rightarrow> CandidateQ) in
      case dv_value decoded of
        None \<Rightarrow> Inr b
      | Some v \<Rightarrow> map_err (\<lambda>_. PpInvalidValue (rv_vreg raw)) (set_value (rv_vreg raw) v q b))"

fun apply_values :: "sample_builder \<Rightarrow> raw_value list \<Rightarrow> port_protocol_error + sample_builder" where
  "apply_values b [] = Inr b"
| "apply_values b (raw # raws) = try_bind (apply_value b raw) (\<lambda>b'. apply_values b' raws)"

text \<open>\<open>now\<close> is what \<open>SystemTime::now()\<close> reads.\<close>

definition ve_translate :: "device_id \<Rightarrow> system_time \<Rightarrow> raw_value list \<Rightarrow> port_protocol_error + sample" where
  "ve_translate device now values =
     try_bind (apply_values (set_connection_health HealthUp (sb_new device now)) values) (\<lambda>b. Inr (sb_build b))"

section \<open>What a sample holds\<close>

text \<open>The invariant of the builder: built from a new one, connected, no energy counters, and confirmed
  quality for the panel voltage and power only.\<close>

definition unconfirmed :: "measurement option \<Rightarrow> bool" where
  "unconfirmed m \<longleftrightarrow> (\<forall>x. m = Some x \<longrightarrow> m_quality x \<noteq> ConfirmedNative)"

lemma unconfirmed_simps [simp]: "unconfirmed None" "unconfirmed (Some x) \<longleftrightarrow> m_quality x \<noteq> ConfirmedNative"
  by (simp_all add: unconfirmed_def)

definition trusted :: "device_id \<Rightarrow> system_time \<Rightarrow> sample_builder \<Rightarrow> bool" where
  "trusted device now b \<longleftrightarrow> built device now b \<and> sb_connection_health b = Some HealthUp
     \<and> sb_yield_total_kwh b = None \<and> sb_yield_today_kwh b = None \<and> sb_ble_rssi_dbm b = None
     \<and> unconfirmed (sb_pv_current_amperes b) \<and> unconfirmed (sb_battery_voltage_volts b)
     \<and> unconfirmed (sb_battery_current_amperes b) \<and> unconfirmed (sb_load_current_amperes b)
     \<and> unconfirmed (sb_load_power_watts b)"

text \<open>What a setter changes.\<close>

definition voltage_or_power :: "sample_builder \<Rightarrow> sample_builder \<Rightarrow> bool" where
  "voltage_or_power b b' \<longleftrightarrow>
     (\<exists>m. b' = b\<lparr>sb_pv_voltage_volts := m\<rparr> \<or> b' = b\<lparr>sb_pv_power_watts := m\<rparr>)"

definition other_field :: "quality \<Rightarrow> sample_builder \<Rightarrow> sample_builder \<Rightarrow> bool" where
  "other_field q b b' \<longleftrightarrow>
     (\<exists>x. let m = Some \<lparr>m_value = x, m_quality = q\<rparr> in
        b' = b\<lparr>sb_pv_current_amperes := m\<rparr> \<or> b' = b\<lparr>sb_battery_voltage_volts := m\<rparr>
        \<or> b' = b\<lparr>sb_battery_current_amperes := m\<rparr> \<or> b' = b\<lparr>sb_load_current_amperes := m\<rparr>
        \<or> b' = b\<lparr>sb_load_power_watts := m\<rparr>)
     \<or> (\<exists>st. b' = set_charger_state st b) \<or> (\<exists>st. b' = set_load_state st b)"

lemma setter_changes:
  "set_pv_voltage_volts x q b = Inr b' \<Longrightarrow> voltage_or_power b b'"
  "set_pv_power_watts x q b = Inr b' \<Longrightarrow> voltage_or_power b b'"
  "set_pv_current_amperes x q b = Inr b' \<Longrightarrow> other_field q b b'"
  "set_battery_voltage_volts x q b = Inr b' \<Longrightarrow> other_field q b b'"
  "set_battery_current_amperes x q b = Inr b' \<Longrightarrow> other_field q b b'"
  "set_load_current_amperes x q b = Inr b' \<Longrightarrow> other_field q b b'"
  "set_load_power_watts x q b = Inr b' \<Longrightarrow> other_field q b b'"
  by (auto simp: setter_defs try_simps measurement_new_Inr voltage_or_power_def other_field_def Let_def)

lemma set_value_changes:
  assumes "set_value reg v q b = Inr b'"
  shows "b' = b \<or> voltage_or_power b b' \<and> (reg = 0xedbb \<or> reg = 0xedbc) \<or> other_field q b b' \<and> reg \<noteq> 0xedbb \<and> reg \<noteq> 0xedbc"
proof (cases v)
  case (ScNumber x)
  with assms show ?thesis unfolding set_value_def by (auto split: if_splits dest: setter_changes)
next
  case (ScInteger i)
  with assms show ?thesis unfolding set_value_def by (auto split: if_splits dest: setter_changes)
next
  case (ScState code name)
  have "other_field q b (set_charger_state st b)" "other_field q b (set_load_state ls b)" for st ls
    unfolding other_field_def by blast+
  with assms ScState show ?thesis unfolding set_value_def by (auto split: if_splits)
qed (use assms in \<open>simp_all add: set_value_def\<close>)

lemma trusted_voltage_or_power:
  "trusted device now b \<Longrightarrow> voltage_or_power b b' \<Longrightarrow> built device now b' \<Longrightarrow> trusted device now b'"
  by (auto simp: trusted_def voltage_or_power_def)

lemma trusted_other_field:
  "trusted device now b \<Longrightarrow> other_field CandidateQ b b' \<Longrightarrow> built device now b' \<Longrightarrow> trusted device now b'"
  by (auto simp: trusted_def other_field_def Let_def set_charger_state_def set_load_state_def)

lemma set_value_step: "set_value reg v q b = Inr b' \<Longrightarrow> b' = b \<or> sb_step b b'"
  by (auto simp: set_value_def split: scaled.splits if_splits intro: sb_step.intros)

lemma set_value_trusted:
  assumes t: "trusted device now b" and v: "set_value reg v q b = Inr b'"
    and q: "q = ConfirmedNative \<and> (reg = 0xedbb \<or> reg = 0xedbc) \<or> q = CandidateQ"
  shows "trusted device now b'"
proof -
  have b: "built device now b'"
    using t set_value_step [OF v] by (auto simp: trusted_def intro: built_step)
  consider "b' = b" | "voltage_or_power b b'" | "other_field q b b'" "reg \<noteq> 0xedbb" "reg \<noteq> 0xedbc"
    using set_value_changes [OF v] by blast
  then show ?thesis
  proof cases
    case 1
    with t show ?thesis by simp
  next
    case 2
    from trusted_voltage_or_power [OF t this b] show ?thesis .
  next
    case 3
    with q have "q = CandidateQ" by blast
    with trusted_other_field [OF t _ b] 3(1) show ?thesis by simp
  qed
qed

lemma apply_value_trusted:
  assumes "trusted device now b" "apply_value b raw = Inr b'"
  shows "trusted device now b'"
proof -
  let ?d = "vv_decode \<lparr>vv_register = rv_vreg raw, vv_raw = rv_raw raw\<rparr>"
  show ?thesis
  proof (cases "dv_value ?d")
    case None
    with assms show ?thesis by (simp add: apply_value_def)
  next
    case (Some v)
    have c: "dv_confidence ?d = Confirmed \<Longrightarrow> rv_vreg raw = 0xedbb \<or> rv_vreg raw = 0xedbc"
      using decode_register_confirmed [of "rv_vreg raw" "rv_raw raw"] by (simp add: vv_decode_def conf_iff_def)
    let ?q = "case dv_confidence ?d of Confirmed \<Rightarrow> ConfirmedNative | Candidate \<Rightarrow> CandidateQ"
    have "set_value (rv_vreg raw) v ?q b = Inr b'"
      using assms(2) Some by (simp add: apply_value_def Let_def try_simps)
    then show ?thesis
      by (rule set_value_trusted [OF assms(1)]) (use c in \<open>cases "dv_confidence ?d"; simp\<close>)
  qed
qed

lemma apply_values_trusted: "trusted device now b \<Longrightarrow> apply_values b raws = Inr b' \<Longrightarrow> trusted device now b'"
  by (induction b raws rule: apply_values.induct) (auto simp: try_simps dest: apply_value_trusted)

lemma trusted_start: "trusted device now (set_connection_health HealthUp (sb_new device now))"
  using built_step [OF built_new sb_step.intros(13)]
  by (simp add: trusted_def) (simp add: set_connection_health_def sb_new_def)

lemma ve_translate_trusted: "ve_translate device now values = Inr s \<Longrightarrow> \<exists>b. trusted device now b \<and> s = sb_build b"
  by (auto simp: ve_translate_def try_simps dest: apply_values_trusted [OF trusted_start])

lemma sample_iter_iff: "(f, m) \<in> set (sample_iter s) \<longleftrightarrow> (f, Some m) \<in> set (sample_fields s)"
  by (force simp: sample_iter_def List.map_filter_def)

lemma trusted_confirmed:
  "trusted device now b \<Longrightarrow> (f, m) \<in> set (sample_iter (sb_build b)) \<Longrightarrow> m_quality m = ConfirmedNative \<Longrightarrow>
    f = PvVoltageVolts \<or> f = PvPowerWatts"
  unfolding sample_iter_iff by (auto simp: trusted_def sample_fields_def sb_build_def unconfirmed_def)

section \<open>What is read from a response\<close>

definition failed_status :: "response \<Rightarrow> bool" where
  "failed_status r \<longleftrightarrow> (case response_status r of Some code \<Rightarrow> \<not> response_code_is_ok code | None \<Rightarrow> False)"

definition wanted_values :: "u16 \<Rightarrow> response list \<Rightarrow> raw_value list" where
  "wanted_values instance rs =
     concat (map (\<lambda>r. case r of Value i register data \<Rightarrow>
         if i = ucast instance then [\<lparr>rv_vreg = register, rv_raw = data\<rparr>] else [] | _ \<Rightarrow> []) rs)"

lemma collect_values_spec:
  "collect_values instance rs values =
     (case List.find failed_status rs of
        Some r \<Rightarrow> Inl (PpContentionResponse (uint (wire_code (the (response_status r)))))
      | None \<Rightarrow> Inr (values @ wanted_values instance rs))"
proof (induction rs arbitrary: "values")
  case Nil
  show ?case by (simp add: wanted_values_def)
next
  case (Cons r rs)
  have w: "wanted_values instance (r # rs) = (case r of Value i register data \<Rightarrow>
         if i = ucast instance then [\<lparr>rv_vreg = register, rv_raw = data\<rparr>] else [] | _ \<Rightarrow> []) @ wanted_values instance rs"
    by (simp add: wanted_values_def)
  have f: "failed_status r = (case response_status r of Some code \<Rightarrow> \<not> response_code_is_ok code | None \<Rightarrow> False)"
    by (simp add: failed_status_def)
  show ?case
    unfolding collect_values.simps Cons.IH w List.find.simps f
    by (cases r) (simp_all add: response_status_def split: option.splits)
qed

section \<open>Properties\<close>


definition one_watt :: raw_value where
  "one_watt = \<lparr>rv_vreg = 0xedbc, rv_raw = [100, 0, 0, 0]\<rparr>"

lemma one_watt_applied:
  "apply_value b one_watt = Inr (b\<lparr>sb_pv_power_watts := Some \<lparr>m_value = F64_Fin 1, m_quality = ConfirmedNative\<rparr>\<rparr>)"
proof -
  have v: "u32_from_le 100 0 0 0 = 100" by (simp add: u32_from_le_def)
  have "dv_value (decode_register 0xEDBC [100, 0, 0, 0]) = Some (ScInteger (round_hundredths_ties_even 100))"
    using solar_power_decode [where a = 100 and b = 0 and c = 0 and d = 0 and rest = "[]"] by (simp add: v)
  moreover have "round_hundredths_ties_even 100 = 1"
    by (simp add: round_hundredths_ties_even_def tdiv_def tmod_def Let_def)
  moreover have "dv_confidence (decode_register 0xEDBC [100, 0, 0, 0]) = Confirmed"
    using decode_register_confirmed [where reg = "0xEDBC" and raw = "[100, 0, 0, 0]"] by (simp add: conf_iff_def)
  moreover have "f64_of_int 1 = F64_Fin 1" using f64_of_int_small [of 1] by simp
  ultimately show ?thesis
    by (simp add: apply_value_def one_watt_def vv_decode_def set_value_def set_pv_power_watts_def check_field_def
        named_ranges range_contains_iff measurement_new_def f64_is_finite_def)
qed


text \<open>C22: The answer to a response, in full: the first record with a failed status refuses it with that
  status; otherwise the values of the asked instance are returned, in order, and having none is an error
  of its own. Records of other instances and other kinds are ignored.\<close>

theorem response_answer:
  "ve_parse_response mc instance payload =
     (if payload = [] then Inl PpEmptyResponse
      else case parse_response_stream mc payload of
        Inl e \<Rightarrow> Inl (map_wire_error e)
      | Inr rs \<Rightarrow>
          (case List.find failed_status rs of
             Some r \<Rightarrow> Inl (PpContentionResponse (uint (wire_code (the (response_status r)))))
           | None \<Rightarrow> if wanted_values instance rs = [] then Inl PpEmptyResponse else Inr (wanted_values instance rs)))"
  by (cases "parse_response_stream mc payload")
    (auto simp: ve_parse_response_def collect_values_spec split: option.splits)

text \<open>The plan of an acquisition exists for every instance but 0 and every list of at most 512
  registers, is refused for instance 0, and its two requests decode to a subscription and a
  \<open>getValues\<close> of exactly those registers; its control writes are the two of the negotiation.\<close>

theorem acquire_plan_exact:
  assumes "minicbor_codec mc" "length vregs \<le> 512"
  shows "ve_acquire_plan mc 0 vregs = Inl PpNotSubscribed
    \<and> (instance \<noteq> 0 \<longrightarrow> (\<exists>plan. ve_acquire_plan mc instance vregs = Inr plan
        \<and> negotiation_frames plan = [[0xfa, 0x80, 0xff], [0xf9, 0x80]]
        \<and> decode_stream mc (subscribe_payload plan) = Inr [UInt 0x03, UInt (ucast instance)]
        \<and> decode_stream mc (values_payload plan) = Inr (request_items (GetValues instance vregs))))"
proof -
  obtain b1 where "request_encode mc (Subscribe instance) = Inr b1"
      "decode_stream mc b1 = Inr (request_items (Subscribe instance))"
    using minicbor_codec.request_roundtrip [OF assms(1), of "Subscribe instance"] by auto
  moreover obtain b2 where "request_encode mc (GetValues instance vregs) = Inr b2"
      "decode_stream mc b2 = Inr (request_items (GetValues instance vregs))"
    using minicbor_codec.request_roundtrip [OF assms(1), of "GetValues instance vregs"] assms(2)
    by (auto simp: MAX_REGISTERS_def)
  ultimately show ?thesis
    by (simp add: ve_acquire_plan_def NEGOTIATION_WRITES_def NEGOTIATE_CHUNK_SIZE_def READY_TO_RECEIVE_80_def)
qed

theorem acquire_plan_exact_witness:
  "\<exists>plan. ve_acquire_plan rfc_minicbor 3 MVP_VREGS = Inr plan
    \<and> decode_stream rfc_minicbor (values_payload plan) = Inr (request_items (GetValues 3 MVP_VREGS))"
  using acquire_plan_exact [OF rfc.minicbor_codec_axioms, of MVP_VREGS 3] by (auto simp: MVP_VREGS_def)

end
