(* ===== verification/Collector.thy ===== *)
theory Collector
  imports Storage_Adapter Collector_Protocol Service_Durable
begin

text \<open>
  \<open>victron-collector\<close>, \<open>main.rs\<close>: the collector put together, the service over the SQLite storage and the
  wire protocol. What stays outside is the Bluetooth stack, the metrics server with the rendering of its
  payload, the system clock and the shutdown channel, \<open>'x\<close>. The interfaces of the service are
  interpreted here: whatever happens outside, a run only ever changes the tables by commits, claims,
  removals and retries, its drains end, and its successes are recorded.
\<close>

section \<open>Wiring\<close>

text \<open>\<open>duration_ms\<close> and \<open>days_ms\<close>; the multiplication saturates at \<open>u64::MAX\<close>.\<close>

definition duration_ms :: "duration \<Rightarrow> int" where
  "duration_ms d = (if int (d div 1000000) \<le> i64_max then int (d div 1000000) else i64_max)"

definition days_ms :: "u64 \<Rightarrow> int" where
  "days_ms days =
     (let millis = min (uint days * 86400000) (2 ^ 64 - 1) in if millis \<le> i64_max then millis else i64_max)"

definition collector_storage_config :: "service_config \<Rightarrow> u64 \<Rightarrow> u64 \<Rightarrow> storage_config" where
  "collector_storage_config c maximum_spool_batches maximum_spool_age_days =
     conservative\<lparr>max_spool_attempts := sc_spool_max_attempts c, spool_inflight_ms := duration_ms (sc_spool_claim_ttl c),
       max_spool_batches := maximum_spool_batches, max_spool_age_ms := days_ms maximum_spool_age_days,
       energy_gap_threshold_ms := duration_ms (sc_maximum_energy_gap c)\<rparr>"

text \<open>\<open>SqliteStorage::open\<close> of an open database, for the device of the configuration.\<close>

definition sqlite_storage :: "storage_config \<Rightarrow> device_id \<Rightarrow> (nat \<Rightarrow> call_env) \<Rightarrow> sqlite_adapter" where
  "sqlite_storage cfg device env = \<lparr>sq_config = cfg, sq_device = device_name device, sq_env = env\<rparr>"

text \<open>A port of the outside in the world of the collector.\<close>

definition outside :: "('x \<Rightarrow> 'r \<times> 'x) \<Rightarrow> 'x world \<Rightarrow> 'r \<times> 'x world" where
  "outside f w = (case f (w_rest w) of (r, x) \<Rightarrow> (r, w\<lparr>w_rest := x\<rparr>))"

definition collector_ports ::
  "'x ports \<Rightarrow> minicbor \<Rightarrow> storage_config \<Rightarrow> device_id \<Rightarrow> (nat \<Rightarrow> call_env) \<Rightarrow> service_config \<Rightarrow> 'x world ports" where
  "collector_ports q mc cfg device env c =
     (let sq = sqlite_storage cfg device env in
      \<lparr>ble_discover = (\<lambda>d. outside (ble_discover q d)),
       ble_connect = (\<lambda>d. outside (ble_connect q d)),
       ble_negotiate = (\<lambda>fs d. outside (ble_negotiate q fs d)),
       ble_subscribe = (\<lambda>i b d. outside (ble_subscribe q i b d)),
       ble_request_values = (\<lambda>b t d. outside (ble_request_values q b t d)),
       ble_finish_cycle = (\<lambda>d. outside (ble_finish_cycle q d)),
       ble_disconnect = (\<lambda>d. outside (ble_disconnect q d)),
       proto_vregs = MVP_VREGS,
       proto_acquire_plan = ve_acquire_plan mc,
       proto_parse_response = ve_parse_response mc,
       proto_translate = (\<lambda>i values w. case outside (clock_now q) w of (now, w') \<Rightarrow> (ve_translate device now values, w')),
       st_last_success = sq_last_success sq,
       st_energy_state = sq_energy_state sq,
       st_commit_acquisition = sq_commit_acquisition sq,
       st_spool_health = sq_spool_health sq,
       st_spool_claim_next = sq_spool_claim_next sq,
       st_spool_complete = sq_spool_complete sq,
       st_spool_retry = sq_spool_retry sq,
       st_spool_drop = sq_spool_drop sq,
       deliver = (\<lambda>payload. outside (deliver q payload)),
       render = render q,
       clock_now = outside (clock_now q),
       shutdown_set = (\<lambda>w. shutdown_set q (w_rest w)),
       shutdown_closed = (\<lambda>w. shutdown_closed q (w_rest w)),
       sleep_or_shutdown = (\<lambda>d w. w\<lparr>w_rest := sleep_or_shutdown q d (w_rest w)\<rparr>),
       backoff_policy = backoff_delay (config_backoff c),
       interval_policy = solar_kind\<rparr>)"

section \<open>The interfaces\<close>

lemma outside_db: "outside f w = (r, w') \<Longrightarrow> w_db w' = w_db w"
  by (auto simp: outside_def split: prod.splits)

lemma outside_reaches: "outside f w = (r, w') \<Longrightarrow> reaches cfg w w'"
  by (rule reaches_same) (rule outside_db)

lemma sq_config_storage [simp]: "sq_config (sqlite_storage cfg device env) = cfg"
  "sq_device (sqlite_storage cfg device env) = device_name device"
  by (simp_all add: sqlite_storage_def)

lemma storage_reaches:
  "sq_last_success (sqlite_storage cfg device env) w = (r1, w') \<Longrightarrow> reaches cfg w w'"
  "sq_energy_state (sqlite_storage cfg device env) w = (r2, w') \<Longrightarrow> reaches cfg w w'"
  "sq_commit_acquisition (sqlite_storage cfg device env) c w = (r3, w') \<Longrightarrow> reaches cfg w w'"
  "sq_spool_health (sqlite_storage cfg device env) now w = (r4, w') \<Longrightarrow> reaches cfg w w'"
  "sq_spool_claim_next (sqlite_storage cfg device env) ttl now w = (r5, w') \<Longrightarrow> reaches cfg w w'"
  "sq_spool_complete (sqlite_storage cfg device env) claim w = (r6, w') \<Longrightarrow> reaches cfg w w'"
  "sq_spool_retry (sqlite_storage cfg device env) claim now w = (r7, w') \<Longrightarrow> reaches cfg w w'"
  "sq_spool_drop (sqlite_storage cfg device env) claim w = (r6, w') \<Longrightarrow> reaches cfg w w'"
  using adapter_reaches [of "sqlite_storage cfg device env" w] by (metis snd_conv sq_config_storage(1))+

interpretation collector: port_steps "collector_ports q mc cfg device env c" "reaches cfg"
  for q :: "'x ports" and mc cfg device env c
  by unfold_locales
    (auto simp: collector_ports_def Let_def reaches_same split: prod.splits
      intro: reaches_trans outside_reaches storage_reaches)

interpretation durable: durable_storage "collector_ports q mc cfg device env c" "reaches cfg" device "recorded_at device"
  for q :: "'x ports" and mc cfg device env c
  by unfold_locales
    (auto simp: collector_ports_def Let_def intro: reaches_recorded commit_recorded_at
      last_success_recorded [where sq = "sqlite_storage cfg device env"])

lemma outside_left: "outside f w = (r, w') \<Longrightarrow> spool_inv cfg (w_db w) \<Longrightarrow>
    spool_inv cfg (w_db w') \<and> claims_left cfg (w_db w') \<le> claims_left cfg (w_db w)"
  by (simp add: outside_db)

lemma blocking_left:
  assumes "\<And>io now d. claims_left cfg (snd (operation io now d)) \<le> claims_left cfg d"
  shows "claims_left cfg (w_db (snd (blocking sq operation w))) \<le> claims_left cfg (w_db w)"
  by (rule blocking_cases [of sq operation w]) (use assms in simp_all)

lemma delivery_left:
  "claims_left cfg (w_db (snd (sq_spool_complete (sqlite_storage cfg device env) claim w))) \<le> claims_left cfg (w_db w)"
  "claims_left cfg (w_db (snd (sq_spool_drop (sqlite_storage cfg device env) claim w))) \<le> claims_left cfg (w_db w)"
  "claims_left cfg (w_db (snd (sq_spool_retry (sqlite_storage cfg device env) claim now w))) \<le> claims_left cfg (w_db w)"
  by (auto simp: sq_spool_complete_def sq_spool_drop_def sq_spool_retry_def mark_delivered_def drop_batch_def
      claims_left_remove claims_left_retry split: sum.splits prod.splits intro!: blocking_left)

lemma claim_left:
  assumes "spool_inv cfg (w_db w)" "sq_spool_claim_next (sqlite_storage cfg device env) ttl now w = (Inr (Some claim), w')"
  shows "claims_left cfg (w_db w') < claims_left cfg (w_db w)"
proof -
  from assms(2) obtain now_ms x where
    x: "blocking (sqlite_storage cfg device env) (\<lambda>io now. claim_oldest io now_ms cfg) w = (Inr x, w')"
    "opt_try claimed x = Inr (Some claim)"
    by (auto simp: sq_spool_claim_next_def port_map_Inr split: sum.splits)
  then obtain b where "x = Some b" by (cases x) (auto simp: opt_try_def)
  with blocking_Inr [OF x(1)] obtain io where "claim_oldest io now_ms cfg (w_db w) = (Inr (Some b), w_db w')" by blast
  with claim_uses_one [OF assms(1)] show ?thesis .
qed

lemma storage_inv:
  "spool_inv cfg (w_db w) \<Longrightarrow> reaches cfg w w' \<Longrightarrow> spool_inv cfg (w_db w')"
  using reaches_inv by blast

interpretation queue: bounded_queue "collector_ports q mc cfg device env c" "\<lambda>w. spool_inv cfg (w_db w)"
    "\<lambda>w. claims_left cfg (w_db w)"
  for q :: "'x ports" and mc cfg device env c
proof unfold_locales
  fix w w' :: "'x world" and ttl now claim r1
  assume inv: "spool_inv cfg (w_db w)"
  let ?p = "collector_ports q mc cfg device env c"
  {
    assume a: "st_spool_claim_next ?p ttl now w = (Inr (Some claim), w')"
    then have c: "sq_spool_claim_next (sqlite_storage cfg device env) ttl now w = (Inr (Some claim), w')"
      by (simp add: collector_ports_def Let_def)
    show "spool_inv cfg (w_db w') \<and> claims_left cfg (w_db w') < claims_left cfg (w_db w)"
      using claim_left [OF inv c] storage_inv [OF inv storage_reaches(5) [OF c]] by simp
  next
    assume "st_spool_complete ?p claim w = (r1, w')"
    then have c: "sq_spool_complete (sqlite_storage cfg device env) claim w = (r1, w')"
      by (simp add: collector_ports_def Let_def)
    show "spool_inv cfg (w_db w') \<and> claims_left cfg (w_db w') \<le> claims_left cfg (w_db w)"
      using delivery_left(1) [of cfg device env claim w] storage_inv [OF inv storage_reaches(6) [OF c]] by (simp add: c)
  next
    assume "st_spool_drop ?p claim w = (r1, w')"
    then have c: "sq_spool_drop (sqlite_storage cfg device env) claim w = (r1, w')"
      by (simp add: collector_ports_def Let_def)
    show "spool_inv cfg (w_db w') \<and> claims_left cfg (w_db w') \<le> claims_left cfg (w_db w)"
      using delivery_left(2) [of cfg device env claim w] storage_inv [OF inv storage_reaches(8) [OF c]] by (simp add: c)
  }
next
  fix w w' :: "'x world" and claim now r2
  assume inv: "spool_inv cfg (w_db w)"
    and "st_spool_retry (collector_ports q mc cfg device env c) claim now w = (r2, w')"
  then have c: "sq_spool_retry (sqlite_storage cfg device env) claim now w = (r2, w')"
    by (simp add: collector_ports_def Let_def)
  show "spool_inv cfg (w_db w') \<and> claims_left cfg (w_db w') \<le> claims_left cfg (w_db w)"
    using delivery_left(3) [of cfg device env claim now w] storage_inv [OF inv storage_reaches(7) [OF c]] by (simp add: c)
next
  fix w w' :: "'x world" and payload r3
  assume "spool_inv cfg (w_db w)" "deliver (collector_ports q mc cfg device env c) payload w = (r3, w')"
  then show "spool_inv cfg (w_db w') \<and> claims_left cfg (w_db w') \<le> claims_left cfg (w_db w)"
    by (auto simp: collector_ports_def Let_def dest: outside_left)
next
  fix w w' :: "'x world" and now
  assume "spool_inv cfg (w_db w)" "clock_now (collector_ports q mc cfg device env c) w = (now, w')"
  then show "spool_inv cfg (w_db w') \<and> claims_left cfg (w_db w') \<le> claims_left cfg (w_db w)"
    by (auto simp: collector_ports_def Let_def dest: outside_left)
qed

section \<open>Whole runs\<close>

lemma adapter_op_facts: "list_all (adapter_op \<circ> snd) ops \<Longrightarrow> list_all (op_typed \<circ> snd) ops \<and> pruned_total cfg ops d = 0"
proof (induction ops arbitrary: d)
  case Nil
  then show ?case by simp
next
  case (Cons x ops)
  obtain io op where x: "x = (io, op)" by (cases x)
  with Cons.prems have "op_typed op" "pruned_by cfg io op d = 0" by (cases op; simp)+
  with Cons x show ?case by simp
qed

lemma reaches_books:
  assumes "reaches cfg w w'" "w_db w = empty_db"
  shows "spool_inv cfg (w_db w') \<and> books (w_db w') \<and> uncounted (w_db w') = 0"
proof -
  from assms obtain ops where ops: "list_all (adapter_op \<circ> snd) ops" "w_db w' = storage_run cfg ops empty_db"
    by (auto simp: reaches_def)
  from storage_run_books [OF spool_inv_empty empty_db_ok(1), of ops cfg] adapter_op_facts [OF ops(1), of cfg empty_db] ops(2)
  show ?thesis by (simp add: empty_db_ok)
qed

lemma config_same_run:
  assumes "run_collector n df p c w = (RunGoing l, s)"
  shows "cx_config (fst s) = c"
  using run_collector_end [OF assms] by (simp add: loop_end_def legal_def context_new_def)

text \<open>The default configuration has an identity.\<close>

definition default_device :: device_id where
  "default_device = \<lparr>device_name = ''solar-charger''\<rparr>"

lemma default_identity: "\<exists>d. config_device default_config = Some d \<and> di_device d = default_device"
proof -
  have "device_id_new (sc_device_name default_config) = Inr \<lparr>device_name = sc_device_name default_config\<rparr>"
    using config_validate_name [OF default_config_valid] unfolding device_id_new_iff by (simp add: default_config_def)
  then show ?thesis by (simp add: config_device_def default_device_def default_config_def)
qed

section \<open>Properties\<close>

text \<open>C2: No run of the collector loses a batch. After any number of iterations on a new database, with any
  radio, server and clock, any refusals of SQLite and any lost workers, every batch that was accepted is
  in the queue or counted as delivered or as dropped: nothing else leaves the queue. (In particular the
  collector never prunes it, so only deliveries and drops bound its length.)\<close>

theorem collector_accounts_for_every_batch:
  assumes "w_db w = empty_db"
  shows "let d = w_db (snd (snd (run_collector n df (collector_ports q mc cfg device env c) c w))) in
    db_seq d = int (length (db_spool d)) + counter ''spool.delivered_total'' d + counter ''spool.dropped_total'' d
    \<and> spool_inv cfg d"
proof -
  obtain r s where r: "run_collector n df (collector_ports q mc cfg device env c) c w = (r, s)"
    by (cases "run_collector n df (collector_ports q mc cfg device env c) c w")
  from reaches_books [OF collector.run_collector_R [OF r] assms] show ?thesis
    by (simp add: r Let_def uncounted_def)
qed

theorem collector_accounts_for_every_batch_witness:
  "let d = w_db (snd (snd (run_collector 3 100 (collector_ports silent_ports rfc_minicbor conservative
        default_device (\<lambda>_. quiet_call 1000) default_config) default_config
        \<lparr>w_db = empty_db, w_calls = 0, w_rest = ()\<rparr>))) in
    db_seq d = int (length (db_spool d)) + counter ''spool.delivered_total'' d + counter ''spool.dropped_total'' d
    \<and> spool_inv conservative d"
  by (rule collector_accounts_for_every_batch) simp



text \<open>C5: Every iteration of the collector's loop ends: in every state that a run reaches, a drain of the
  queue needs at most as many passes as the claims that the attempt limit leaves to its rows, and with
  these the iteration returns or goes on.\<close>

theorem every_iteration_ends:
  assumes "spool_inv cfg (w_db w)" "config_device c \<noteq> None"
    and "run_collector n df (collector_ports q mc cfg device env c) c w = (RunGoing l, s)"
    and "claims_left cfg (w_db (snd s)) < df'"
  shows "fst (run_iteration df' (collector_ports q mc cfg device env c) l s) \<noteq> RunStuck"
proof (rule queue.iteration_returns)
  show "spool_inv cfg (w_db (snd s))"
    by (rule reaches_inv [OF collector.run_collector_R [OF assms(3)] assms(1)])
  show "config_device (cx_config (fst s)) \<noteq> None" using assms(2) config_same_run [OF assms(3)] by simp
qed (rule assms(4))

theorem every_iteration_ends_witness:
  "fst (run_iteration 1 (collector_ports silent_ports rfc_minicbor conservative default_device (\<lambda>_. quiet_call 1000) default_config)
      loop_start (context_new default_config, \<lparr>w_db = empty_db, w_calls = 0, w_rest = ()\<rparr>)) \<noteq> RunStuck"
proof (rule every_iteration_ends)
  show "spool_inv conservative (w_db \<lparr>w_db = empty_db, w_calls = 0, w_rest = ()\<rparr>)" by (simp add: spool_inv_empty)
  show "config_device default_config \<noteq> None" using default_identity by auto
  show "run_collector 0 1 (collector_ports silent_ports rfc_minicbor conservative default_device (\<lambda>_. quiet_call 1000) default_config)
      default_config \<lparr>w_db = empty_db, w_calls = 0, w_rest = ()\<rparr>
    = (RunGoing loop_start, (context_new default_config, \<lparr>w_db = empty_db, w_calls = 0, w_rest = ()\<rparr>))"
    by (simp add: run_collector_def)
  show "claims_left conservative (w_db (snd (context_new default_config, \<lparr>w_db = empty_db, w_calls = 0, w_rest = ()\<rparr>))) < 1"
    by (simp add: claims_left_def empty_db_def)
qed

end
