(* ===== verification/Collector_Config.thy ===== *)
theory Collector_Config
  imports Service_Config Http_Client Bluez_Session
begin

text \<open>
  \<open>victron-collector\<close>, \<open>config.rs\<close>: the configuration file of the daemon, its validation and the configuration
  of the service it gives. The TOML reader with the derived \<open>Deserialize\<close> and the file system are parameters.
  The validation has its own check of the URL of the metrics server; it is shown to agree with the client.
\<close>

section \<open>The file\<close>

record device_section =
  dv_name :: string
  dv_bluez_alias :: string
  dv_instance :: u16
  dv_adapter :: string

record poll_section =
  po_active_interval_seconds :: u64
  po_idle_interval_seconds :: u64
  po_response_timeout_seconds :: u64
  po_phase_timeout_seconds :: u64
  po_maximum_energy_gap_seconds :: u64
  po_spool_claim_ttl_seconds :: u64
  po_spool_max_attempts :: u32
  po_backoff_base_seconds :: u64
  po_backoff_factor :: u32
  po_backoff_cap_seconds :: u64
  po_solar_active_threshold_watts :: f64

definition default_solar_threshold :: f64 where
  "default_solar_threshold = f64_lit 5"

record victoria_metrics_section =
  vs_url :: string
  vs_request_timeout_seconds :: u64

record storage_section =
  st_path :: string
  st_maximum_spool_batches :: u64
  st_maximum_spool_age_days :: u64

record config =
  cf_device :: device_section
  cf_poll :: poll_section
  cf_victoria_metrics :: victoria_metrics_section
  cf_storage :: storage_section

text \<open>\<open>ConfigError\<close>; the source of a TOML error is left out, as nothing reads it.\<close>

datatype collector_config_error =
    CfRead | CfToml | CfEmptyDeviceName | CfInstanceZero | CfTimeoutZero string | CfBadUrl string
  | CfSolarThresholdInvalid f64 | CfSpoolBatchLimitZero | CfService config_error | CfDelivery string
  | CfDeviceIdentity string | CfBluetooth string

section \<open>The URL\<close>

definition cfg_valid_host :: "string \<Rightarrow> bool" where
  "cfg_valid_host host \<longleftrightarrow> host \<noteq> [] \<and> length host \<le> 253
     \<and> list_all (\<lambda>b. is_ascii_alphanumeric b \<or> b \<in> {CHR ''-'', CHR ''.'', CHR ''_''}) host"

definition cfg_valid_path :: "string \<Rightarrow> bool" where
  "cfg_valid_path path =
     (if \<not> starts_with ''/'' path then False
      else list_all (\<lambda>b. 0x21 \<le> (of_char b :: nat) \<and> (of_char b :: nat) \<le> 0x7e
        \<and> b \<notin> set ('' '' @ [CHR 0x22] @ ''<>'' @ [CHR 0x5C] @ ''^`{|}#?'')) path)"

definition cfg_host_port :: "string \<Rightarrow> collector_config_error + string \<times> nat" where
  "cfg_host_port authority =
     (case rsplit_once CHR '':'' authority of
        Some (h, p) \<Rightarrow>
          if h = [] \<or> CHR '':'' \<in> set h \<or> starts_with ''['' h
          then Inl (CfBadUrl ''unsupported host (IPv6/brackets not supported)'')
          else (case parse_unsigned 10 65535 p of
                  Some port \<Rightarrow> if port \<noteq> 0 then Inr (h, port) else Inl (CfBadUrl ''invalid or zero port'')
                | None \<Rightarrow> Inl (CfBadUrl ''invalid or zero port''))
      | None \<Rightarrow> Inr (authority, 80))"

definition validate_metrics_url :: "string \<Rightarrow> collector_config_error + unit" where
  "validate_metrics_url url =
     (if \<not> starts_with ''http://'' url
      then Inl (CfBadUrl ''only plaintext http:// is supported (no TLS on ARMv6)'')
      else
        let rest = drop 7 url in
        if CHR ''?'' \<in> set rest \<or> CHR ''#'' \<in> set rest
        then Inl (CfBadUrl ''query strings and fragments are never sent'')
        else
          case (case find_at ''/'' rest of
                  Some i \<Rightarrow> (take i rest, drop i rest) | None \<Rightarrow> (rest, ''/api/v1/import/prometheus'')) of
            (authority, path) \<Rightarrow>
              if authority = [] then Inl (CfBadUrl ''missing host'')
              else if CHR ''@'' \<in> set authority then Inl (CfBadUrl ''userinfo is not supported'')
              else
                try_bind (cfg_host_port authority) (\<lambda>(host, port).
                  if \<not> cfg_valid_host host
                  then Inl (CfBadUrl (''host must be a plain IPv4 address or DNS name without whitespace''
                                        @ '' or control characters''))
                  else if \<not> cfg_valid_path path
                  then Inl (CfBadUrl (''path must start with '' @ [CHR 0x27] @ ''/'' @ [CHR 0x27]
                                        @ '' and contain only safe request-line bytes''))
                  else Inr ()))"

section \<open>Validation\<close>

definition seconds :: "u64 \<Rightarrow> duration" where
  "seconds n = from_secs (unat n)"

definition service_config_of :: "config \<Rightarrow> config_error + service_config" where
  "service_config_of c =
     (let p = cf_poll c;
          cfg = \<lparr>sc_device_name = dv_name (cf_device c), sc_instance = dv_instance (cf_device c),
            sc_active_interval = seconds (po_active_interval_seconds p),
            sc_idle_interval = seconds (po_idle_interval_seconds p),
            sc_solar_active_threshold_watts = po_solar_active_threshold_watts p,
            sc_response_timeout = seconds (po_response_timeout_seconds p),
            sc_phase_timeout = seconds (po_phase_timeout_seconds p),
            sc_maximum_energy_gap = seconds (po_maximum_energy_gap_seconds p),
            sc_spool_claim_ttl = seconds (po_spool_claim_ttl_seconds p),
            sc_spool_max_attempts = po_spool_max_attempts p,
            sc_backoff_base = seconds (po_backoff_base_seconds p), sc_backoff_factor = po_backoff_factor p,
            sc_backoff_cap = seconds (po_backoff_cap_seconds p)\<rparr> in
      try_bind (config_validate cfg) (\<lambda>_. Inr cfg))"

definition cf_validate :: "config \<Rightarrow> collector_config_error + unit" where
  "cf_validate c =
     (let threshold = po_solar_active_threshold_watts (cf_poll c) in
      if str_trim (dv_name (cf_device c)) = [] then Inl CfEmptyDeviceName
      else if dv_instance (cf_device c) = 0 then Inl CfInstanceZero
      else if vs_request_timeout_seconds (cf_victoria_metrics c) = 0
      then Inl (CfTimeoutZero ''victoria_metrics.request_timeout_seconds'')
      else
        try_bind (validate_metrics_url (vs_url (cf_victoria_metrics c))) (\<lambda>_.
          if \<not> f64_is_finite threshold \<or> f64_lt threshold (f64_lit 0) then Inl (CfSolarThresholdInvalid threshold)
          else if st_maximum_spool_batches (cf_storage c) = 0 then Inl CfSpoolBatchLimitZero
          else try_bind (map_err CfService (service_config_of c)) (\<lambda>_. Inr ())))"

text \<open>\<open>from_str\<close> is the TOML reader, \<open>None\<close> its refusals; \<open>read\<close> is the file system.\<close>

definition from_toml :: "(string \<Rightarrow> config option) \<Rightarrow> string \<Rightarrow> collector_config_error + config" where
  "from_toml from_str txt =
     try_bind (ok_or CfToml (from_str txt)) (\<lambda>c. try_bind (cf_validate c) (\<lambda>_. Inr c))"

definition config_load ::
  "(string \<Rightarrow> config option) \<Rightarrow> (string \<Rightarrow> string option) \<Rightarrow> string \<Rightarrow> collector_config_error + config" where
  "config_load from_str read path = try_bind (ok_or CfRead (read path)) (from_toml from_str)"

section \<open>What is accepted\<close>

lemma valid_parts: "cfg_valid_host = is_valid_host" "cfg_valid_path = is_valid_path"
  by (auto simp: fun_eq_iff cfg_valid_host_def is_valid_host_def host_byte_def cfg_valid_path_def is_valid_path_def
      path_byte_def list_all_iff)

lemma host_port_agrees:
  assumes "authority \<noteq> []" "CHR ''@'' \<notin> set authority"
  shows "cfg_host_port authority = Inr hp \<longleftrightarrow> split_authority authority = Inr hp"
  using assms by (auto simp: cfg_host_port_def split_authority_def split: option.splits if_splits)

lemma host_port_not_at:
  "split_authority authority = Inr hp \<Longrightarrow> authority \<noteq> [] \<and> CHR ''@'' \<notin> set authority"
  by (auto simp: split_authority_def split: if_splits)

lemma metrics_url_parts:
  "validate_metrics_url (''http://'' @ rest) = Inr () \<longleftrightarrow>
     CHR ''?'' \<notin> set rest \<and> CHR ''#'' \<notin> set rest
     \<and> (\<exists>authority path host port. cut_path rest = (authority, path) \<and> split_authority authority = Inr (host, port)
          \<and> is_valid_host host \<and> is_valid_path path)"
proof (cases "CHR ''?'' \<in> set rest \<or> CHR ''#'' \<in> set rest")
  case True
  then show ?thesis by (auto simp: validate_metrics_url_def starts_with_def)
next
  case False
  obtain authority path where cut: "cut_path rest = (authority, path)" by (cases "cut_path rest")
  then have "(case find_at ''/'' rest of
       Some i \<Rightarrow> (take i rest, drop i rest) | None \<Rightarrow> (rest, ''/api/v1/import/prometheus'')) = (authority, path)"
    unfolding cut_path_def DEFAULT_IMPORT_PATH_def .
  then have "validate_metrics_url (''http://'' @ rest) = Inr () \<longleftrightarrow>
      authority \<noteq> [] \<and> CHR ''@'' \<notin> set authority
      \<and> (\<exists>hp. cfg_host_port authority = Inr hp \<and> is_valid_host (fst hp) \<and> is_valid_path path)"
    using False unfolding validate_metrics_url_def
    by (auto simp: starts_with_def Let_def try_bind_Inr_iff valid_parts split: if_splits)
  then show ?thesis
    using False cut host_port_agrees host_port_not_at by fastforce
qed

lemma validate_metrics_url_iff: "validate_metrics_url url = Inr () \<longleftrightarrow> (\<exists>r. parse_http_url url = Inr r)"
proof (cases "\<exists>rest. url = ''http://'' @ rest")
  case True
  then obtain rest where rest: "url = ''http://'' @ rest" ..
  obtain authority path where cut: "cut_path rest = (authority, path)" by (cases "cut_path rest")
  have "(\<exists>r. parse_http_url url = Inr r) \<longleftrightarrow> CHR ''?'' \<notin> set rest \<and> CHR ''#'' \<notin> set rest
      \<and> (\<exists>host port. split_authority authority = Inr (host, port) \<and> is_valid_host host \<and> is_valid_path path)"
    unfolding rest parse_http_url_parts cut
    by (auto simp: try_bind_Inr_iff validate_host_def validate_path_def split: if_splits)
  then show ?thesis unfolding rest metrics_url_parts by (auto simp: cut)
next
  case False
  then show ?thesis
    by (auto simp: validate_metrics_url_def parse_http_url_def starts_with_iff)
qed

text \<open>What a valid configuration has.\<close>

lemma cf_validate_iff:
  "cf_validate c = Inr () \<longleftrightarrow>
     vs_request_timeout_seconds (cf_victoria_metrics c) \<noteq> 0 \<and> validate_metrics_url (vs_url (cf_victoria_metrics c)) = Inr ()
     \<and> st_maximum_spool_batches (cf_storage c) \<noteq> 0 \<and> (\<exists>sc. service_config_of c = Inr sc)"
proof -
  have "str_trim (dv_name (cf_device c)) \<noteq> [] \<and> dv_instance (cf_device c) \<noteq> 0
      \<and> f64_is_finite (po_solar_active_threshold_watts (cf_poll c))
      \<and> \<not> f64_lt (po_solar_active_threshold_watts (cf_poll c)) (f64_lit 0)"
    if "service_config_of c = Inr sc" for sc
    using that by (auto simp: service_config_of_def try_bind_Inr_iff config_validate_def Let_def split: if_splits)
  then show ?thesis
    by (auto simp: cf_validate_def Let_def try_bind_Inr_iff map_err_def split: if_splits sum.splits)
qed

lemma service_config_of_valid: "service_config_of c = Inr sc \<Longrightarrow> config_validate sc = Inr ()"
  by (auto simp: service_config_of_def Let_def try_bind_Inr_iff)

lemma metrics_url_has_client:
  "validate_metrics_url url = Inr () \<longleftrightarrow> (\<exists>client. vm_delivery_new dbg url timeout = Inr client)"
  unfolding validate_metrics_url_iff
  by (cases "parse_http_url url") (auto simp: vm_delivery_new_def client_new_def map_err_def)

section \<open>Properties\<close>

text \<open>C38: The validation of the configuration and the client of the metrics server, which each have their own reader
  of the URL, accept the same URLs. So a configuration that passes has a client, and no usable server is refused.\<close>

theorem config_url_agrees:
  "validate_metrics_url url = Inr () \<longleftrightarrow> (\<exists>client. vm_delivery_new dbg url timeout = Inr client)"
  by (rule metrics_url_has_client)

end
