(* ===== verification/Collector_Watchdog.thy ===== *)
theory Collector_Watchdog
  imports Service_Runner Http_Client
begin

text \<open>
  \<open>victron-collector\<close>, \<open>watchdog.rs\<close>: the observer of the phases with a budget of time for each, and the
  heartbeat that feeds the watchdog of systemd while the budget lasts. An instant is a natural number of
  nanoseconds; what the notification socket answers is an argument. The budgets are compared with the
  longest times the service and the client allow themselves.
\<close>

section \<open>The observer\<close>

type_synonym instant = nat

definition MIN_HEARTBEAT_INTERVAL :: duration where
  "MIN_HEARTBEAT_INTERVAL = from_secs 1"

definition MAX_HEARTBEAT_INTERVAL :: duration where
  "MAX_HEARTBEAT_INTERVAL = from_secs 30"

record progress =
  pg_phase :: cycle_phase
  pg_entered_at :: instant
  pg_budget :: duration

record progress_observer =
  ob_progress :: progress
  ob_transition :: "cycle_phase \<times> instant"
  ob_phase_timeout :: duration
  ob_maximum_idle :: duration
  ob_delivery_timeout :: duration

definition observer_new :: "instant \<Rightarrow> duration \<Rightarrow> duration \<Rightarrow> duration \<Rightarrow> progress_observer" where
  "observer_new now phase_timeout maximum_idle delivery_timeout =
     \<lparr>ob_progress = \<lparr>pg_phase = Idle, pg_entered_at = now, pg_budget = maximum_idle\<rparr>, ob_transition = (Idle, now),
      ob_phase_timeout = phase_timeout, ob_maximum_idle = maximum_idle, ob_delivery_timeout = delivery_timeout\<rparr>"

fun budget_for :: "progress_observer \<Rightarrow> cycle_phase \<Rightarrow> duration" where
  "budget_for ob Idle = ob_maximum_idle ob"
| "budget_for ob Backoff = ob_maximum_idle ob"
| "budget_for ob Discovering = ob_phase_timeout ob"
| "budget_for ob Connecting = ob_phase_timeout ob"
| "budget_for ob Negotiating = ob_phase_timeout ob"
| "budget_for ob Subscribing = ob_phase_timeout ob"
| "budget_for ob Requesting = ob_phase_timeout ob"
| "budget_for ob Disconnecting = ob_phase_timeout ob"
| "budget_for ob Collecting = ob_phase_timeout ob"
| "budget_for ob Persisting = ob_phase_timeout ob"
| "budget_for ob Delivering = ob_delivery_timeout ob"
| "budget_for ob ShuttingDown = 0"

definition healthy_progress :: "instant \<Rightarrow> progress_observer \<Rightarrow> cycle_phase option" where
  "healthy_progress now ob =
     (let p = ob_progress ob in
      if 0 < pg_budget p \<and> now - pg_entered_at p \<le> pg_budget p then Some (pg_phase p) else None)"

definition observe_progress :: "instant \<Rightarrow> cycle_phase \<Rightarrow> progress_observer \<Rightarrow> progress_observer" where
  "observe_progress now ph ob =
     ob\<lparr>ob_progress := \<lparr>pg_phase = ph, pg_entered_at = now, pg_budget = budget_for ob ph\<rparr>\<rparr>"

text \<open>\<open>on_phase\<close> reads the clock for the transition and again for the progress.\<close>

definition observe_phase :: "instant \<Rightarrow> instant \<Rightarrow> cycle_phase \<Rightarrow> progress_observer \<Rightarrow> progress_observer" where
  "observe_phase now later ph ob = observe_progress later ph (ob\<lparr>ob_transition := (ph, now)\<rparr>)"

section \<open>The heartbeat\<close>

definition heartbeat_interval :: "duration \<Rightarrow> duration" where
  "heartbeat_interval timeout = max MIN_HEARTBEAT_INTERVAL (min MAX_HEARTBEAT_INTERVAL (timeout div 3))"

datatype notify_state = NotifyReady | NotifyStopping | NotifyWatchdog | NotifyWatchdogTrigger | NotifyStatus string

text \<open>What the task waits for: a tick, with the time, the observer at that time and whether the notification
  succeeds; or a change of the shutdown channel, \<open>None\<close> when its sender is gone.\<close>

datatype heartbeat_event = Tick instant progress_observer bool | ShutdownChanged "bool option"

fun heartbeat :: "heartbeat_event list \<Rightarrow> notify_state list list" where
  "heartbeat [] = []"
| "heartbeat (Tick now ob sent # es) =
     (case healthy_progress now ob of
        Some ph \<Rightarrow> [NotifyWatchdog, NotifyStatus (phase_as_str ph)] # (if sent then heartbeat es else [])
      | None \<Rightarrow> [[NotifyWatchdogTrigger, NotifyStatus ''collector progress deadline exceeded'']])"
| "heartbeat (ShutdownChanged v # es) = (if v = None \<or> v = Some True then [] else heartbeat es)"

definition start_status :: "duration option \<Rightarrow> string" where
  "start_status watchdog_timeout =
     (case watchdog_timeout of
        Some timeout \<Rightarrow>
          ''collector initialized; progress watchdog enabled ('' @ nat_to_dec (timeout div from_secs 1) @ ''s)''
      | None \<Rightarrow> ''collector initialized; systemd watchdog disabled'')"

text \<open>The notifications of \<open>start\<close>; \<open>es\<close> is what its task meets after the first tick, which it skips.\<close>

definition watchdog_start ::
  "duration option \<Rightarrow> string + unit \<Rightarrow> heartbeat_event list \<Rightarrow> (string + unit) \<times> notify_state list list" where
  "watchdog_start watchdog_timeout ready es =
     (let first = [NotifyReady, NotifyStatus (start_status watchdog_timeout)] in
      case ready of
        Inl e \<Rightarrow> (Inl e, [first])
      | Inr _ \<Rightarrow> (Inr (), first # (if watchdog_timeout = None then [] else heartbeat es)))"

definition watchdog_stopping :: "notify_state list" where
  "watchdog_stopping = [NotifyStopping, NotifyStatus ''collector shutting down'']"

section \<open>Budgets\<close>

text \<open>The time an attempt of the client may take, the deadline of \<open>import\<close>, and the observer that
  \<open>main.rs\<close> makes for a configuration.\<close>

definition attempt_limit :: "http_client \<Rightarrow> duration" where
  "attempt_limit client = hc_connect_timeout client + hc_read_timeout client"

definition watchdog_observer :: "instant \<Rightarrow> service_config \<Rightarrow> duration \<Rightarrow> progress_observer" where
  "watchdog_observer now c request_timeout =
     observer_new now (sc_phase_timeout c)
       (min DURATION_MAX (min DURATION_MAX (sc_idle_interval c + sc_backoff_cap c) + sc_phase_timeout c)) request_timeout"

lemma healthy_after:
  "healthy_progress (t + d) (observe_progress t ph ob) = (if 0 < budget_for ob ph \<and> d \<le> budget_for ob ph then Some ph else None)"
  by (simp add: healthy_progress_def observe_progress_def)

lemma heartbeat_feeds:
  "m \<in> set (heartbeat es) \<Longrightarrow> NotifyWatchdog \<in> set m \<Longrightarrow>
     \<exists>now ob sent ph. Tick now ob sent \<in> set es \<and> healthy_progress now ob = Some ph"
  by (induction es rule: heartbeat.induct) (auto split: option.splits if_splits)

lemma heartbeat_interval_bounds:
  "MIN_HEARTBEAT_INTERVAL \<le> heartbeat_interval timeout \<and> heartbeat_interval timeout \<le> MAX_HEARTBEAT_INTERVAL"
  by (simp add: heartbeat_interval_def MIN_HEARTBEAT_INTERVAL_def MAX_HEARTBEAT_INTERVAL_def from_secs_def)

lemma next_wait_limit:
  assumes "backoff_policy p = backoff_delay (config_backoff (cx_config c))"
    "sc_active_interval (cx_config c) \<le> sc_idle_interval (cx_config c) + sc_phase_timeout (cx_config c)"
  shows "next_wait p l c now \<le> ob_maximum_idle (watchdog_observer t (cx_config c) r)"
proof -
  let ?c = "cx_config c"
  have "backoff_policy p n \<le> sc_backoff_cap ?c" for n
    using backoff_delay_le_cap [of "config_backoff ?c" n] by (simp add: assms(1) config_backoff_def)
  moreover have "(case k of IntervalActive \<Rightarrow> sc_active_interval ?c | IntervalIdle \<Rightarrow> sc_idle_interval ?c)
      \<le> sc_idle_interval ?c + sc_phase_timeout ?c" for k
    using assms(2) by (cases k) simp_all
  ultimately have "(case k of IntervalActive \<Rightarrow> sc_active_interval ?c | IntervalIdle \<Rightarrow> sc_idle_interval ?c)
      + backoff_policy p n \<le> sc_idle_interval ?c + sc_backoff_cap ?c + sc_phase_timeout ?c" for k n
    by (smt (verit) add.assoc add.commute add_mono)
  then show ?thesis
    by (simp add: next_wait_def Let_def watchdog_observer_def observer_new_def min_def) (meson le_trans nat_le_linear)
qed

section \<open>Properties\<close>

text \<open>The watchdog is fed only while the collector makes progress: in whatever order ticks and changes of the shutdown
  channel come, each feeding is for a tick within its budget, and the first tick that is not ends the heartbeat.\<close>

lemma heartbeat_append:
  "heartbeat (es @ Tick now ob sent # es') =
     (if list_all (\<lambda>e. case e of Tick t b ok \<Rightarrow> ok \<and> healthy_progress t b \<noteq> None | ShutdownChanged v \<Rightarrow> v = Some False) es
      then map (\<lambda>e. [NotifyWatchdog, NotifyStatus (case e of Tick t b ok \<Rightarrow> phase_as_str (the (healthy_progress t b)) | _ \<Rightarrow> [])])
             (filter (\<lambda>e. case e of Tick t b ok \<Rightarrow> True | _ \<Rightarrow> False) es)
           @ (case healthy_progress now ob of
                None \<Rightarrow> [[NotifyWatchdogTrigger, NotifyStatus ''collector progress deadline exceeded'']]
              | Some ph \<Rightarrow> [NotifyWatchdog, NotifyStatus (phase_as_str ph)] # (if sent then heartbeat es' else []))
      else heartbeat es)"
proof (induction es)
  case Nil
  then show ?case by (simp split: option.splits)
next
  case (Cons e es)
  then show ?case by (cases e) (auto split: option.splits)
qed

section \<open>Properties\<close>

text \<open>C39: A regular wait never trips the watchdog, if the active interval is not longer than the idle interval and a
  phase: the wait before a cycle, with whatever backoff, is within the budget of the phase it is spent in.\<close>

theorem waits_within_budget:
  assumes "backoff_policy p = backoff_delay (config_backoff (cx_config c))"
    and "sc_active_interval (cx_config c) \<le> sc_idle_interval (cx_config c) + sc_phase_timeout (cx_config c)"
    and "0 < sc_phase_timeout (cx_config c)" "ph \<in> {Idle, Backoff}"
  shows "healthy_progress (t + next_wait p l c now)
    (observe_progress t ph (watchdog_observer t0 (cx_config c) request_timeout)) = Some ph"
proof -
  let ?ob = "watchdog_observer t0 (cx_config c) request_timeout"
  have "budget_for ?ob ph = ob_maximum_idle ?ob" using assms(4) by auto
  moreover have "0 < ob_maximum_idle ?ob" using assms(3) by (simp add: watchdog_observer_def observer_new_def DURATION_MAX_def)
  ultimately show ?thesis using next_wait_limit [OF assms(1,2)] by (simp add: healthy_after)
qed

definition waiting_ports :: "service_config \<Rightarrow> unit ports" where
  "waiting_ports c = silent_ports\<lparr>backoff_policy := backoff_delay (config_backoff c), interval_policy := solar_kind\<rparr>"

theorem waits_within_budget_witness:
  "healthy_progress (5 + next_wait (waiting_ports default_config) loop_start (context_new default_config) 0)
     (observe_progress 5 Idle (watchdog_observer 0 default_config (from_secs 10))) = Some Idle
   \<and> next_wait (waiting_ports default_config) loop_start (context_new default_config) 0 = from_secs 15"
proof -
  have "next_wait (waiting_ports default_config) loop_start (context_new default_config) 0 = from_secs 15"
    by (simp add: next_wait_def waiting_ports_def context_new_def health_new_def loop_start_def solar_kind_def
        default_config_def backoff_delay_def DURATION_MAX_def from_secs_def)
  with waits_within_budget [of "waiting_ports default_config" "context_new default_config" Idle 5 loop_start 0 0 "from_secs 10"]
  show ?thesis by (simp add: waiting_ports_def context_new_def default_config_def from_secs_def)
qed

text \<open>The validation does not compare the two intervals. With a longer active interval the same wait is a stall for the
  watchdog, which restarts a collector that has nothing to do.\<close>

definition slow_active_config :: service_config where
  "slow_active_config = default_config\<lparr>sc_active_interval := from_secs 600\<rparr>"

lemma long_active_interval_trips_watchdog:
  "config_validate slow_active_config = Inr ()"
  "healthy_progress (t + next_wait (waiting_ports slow_active_config) loop_start (context_new slow_active_config) 0)
     (observe_progress t Idle (watchdog_observer t0 slow_active_config request_timeout)) = None"
proof -
  show "config_validate slow_active_config = Inr ()"
    using default_config_valid
    by (auto simp: config_validate_def slow_active_config_def from_secs_def default_config_def split: if_splits)
  have "next_wait (waiting_ports slow_active_config) loop_start (context_new slow_active_config) 0 = from_secs 600"
    by (simp add: next_wait_def waiting_ports_def context_new_def health_new_def loop_start_def solar_kind_def
        slow_active_config_def default_config_def backoff_delay_def DURATION_MAX_def from_secs_def)
  then show "healthy_progress (t + next_wait (waiting_ports slow_active_config) loop_start (context_new slow_active_config) 0)
     (observe_progress t Idle (watchdog_observer t0 slow_active_config request_timeout)) = None"
    by (simp add: healthy_after watchdog_observer_def observer_new_def slow_active_config_def default_config_def
        DURATION_MAX_def from_secs_def)
qed

text \<open>C40: A slow delivery trips the watchdog. The client of the metrics server may use the configured request timeout
  twice for one attempt, once to connect and once to read, while the budget of the delivery is this timeout
  once: a heartbeat in the second half of an attempt that keeps its limit triggers the watchdog.\<close>

theorem slow_delivery_trips_watchdog:
  assumes "vm_delivery_new dbg url request_timeout = Inr client" "0 < request_timeout"
  shows "attempt_limit client = 2 * request_timeout
    \<and> heartbeat [Tick (t + d) (observe_progress t Delivering (watchdog_observer t0 c request_timeout)) sent] =
        (if d \<le> request_timeout then [[NotifyWatchdog, NotifyStatus ''delivering'']]
         else [[NotifyWatchdogTrigger, NotifyStatus ''collector progress deadline exceeded'']])"
proof
  show "attempt_limit client = 2 * request_timeout"
    using assms(1) by (auto simp: vm_delivery_new_def try_bind_Inr_iff with_timeouts_def attempt_limit_def)
qed (use assms(2) in \<open>simp add: healthy_after watchdog_observer_def observer_new_def\<close>)

theorem slow_delivery_trips_watchdog_witness:
  "\<exists>client. vm_delivery_new id ''http://100.64.0.2:8429'' (from_secs 10) = Inr client
     \<and> from_secs 11 \<le> attempt_limit client
     \<and> heartbeat [Tick (from_secs 11) (observe_progress 0 Delivering (watchdog_observer 0 default_config (from_secs 10))) True]
         = [[NotifyWatchdogTrigger, NotifyStatus ''collector progress deadline exceeded'']]"
proof -
  obtain client where c: "vm_delivery_new id ''http://100.64.0.2:8429'' (from_secs 10) = Inr client"
    using accepted_example by (auto simp: vm_delivery_new_def client_new_def map_err_def)
  from slow_delivery_trips_watchdog [OF c, of 0 "from_secs 11" 0 default_config True] c show ?thesis
    by (auto simp: from_secs_def)
qed

end
