(* ===== verification/Collector_Daemon.thy ===== *)
theory Collector_Daemon
  imports Collector Collector_Config Collector_Watchdog Metric_Sample
begin

text \<open>
  \<open>victron-collector\<close>, \<open>main.rs\<close>: the daemon from its configuration to its exit code. The assembly checks the rest
  of the configuration and makes the parts, the ports are those of \<open>Collector\<close> over the client and the
  renderer, and the process ends with a code. What the daemon only calls is an argument: the TOML reader and
  the files, opening the database, installing the signal handlers, the notification socket.
\<close>

section \<open>Exit codes\<close>

definition EXIT_OK :: u8 where "EXIT_OK = 0"
definition EXIT_RUNTIME :: u8 where "EXIT_RUNTIME = 1"
definition EXIT_CONFIG :: u8 where "EXIT_CONFIG = 2"
definition EXIT_NOT_WIRED :: u8 where "EXIT_NOT_WIRED = 3"

datatype daemon_error =
    DmConfig collector_config_error | DmShutdown string | DmWatchdog string | DmRun cycle_error | DmRunLoop run_error

fun exit_code :: "daemon_error \<Rightarrow> u8" where
  "exit_code (DmConfig e) = EXIT_CONFIG"
| "exit_code (DmShutdown e) = EXIT_RUNTIME"
| "exit_code (DmWatchdog e) = EXIT_RUNTIME"
| "exit_code (DmRunLoop e) = EXIT_RUNTIME"
| "exit_code (DmRun (CePlan (PpNotWired m))) = EXIT_NOT_WIRED"
| "exit_code (DmRun (CeDiscover (BleNotWired m))) = EXIT_NOT_WIRED"
| "exit_code (DmRun (CeConnect (BleNotWired m))) = EXIT_NOT_WIRED"
| "exit_code (DmRun (CeNegotiate (BleNotWired m))) = EXIT_NOT_WIRED"
| "exit_code (DmRun (CeSubscribe (BleNotWired m))) = EXIT_NOT_WIRED"
| "exit_code (DmRun (CeRequest (BleNotWired m))) = EXIT_NOT_WIRED"
| "exit_code (DmRun (CeDisconnect (BleNotWired m))) = EXIT_NOT_WIRED"
| "exit_code (DmRun e) = EXIT_RUNTIME"

text \<open>The end of \<open>main\<close>.\<close>

definition process_exit :: "daemon_error + u8 \<Rightarrow> u8" where
  "process_exit r = (case r of Inr code \<Rightarrow> code | Inl e \<Rightarrow> exit_code e)"

section \<open>Assembly\<close>

text \<open>The texts of the errors that configuration errors quote; \<open>num\<close> is the library's text of a double.\<close>

fun domain_error_fmt :: "(string \<Rightarrow> string) \<Rightarrow> (f64 \<Rightarrow> string) \<Rightarrow> domain_error \<Rightarrow> string" where
  "domain_error_fmt dbg num (InvalidDeviceId v why) = ''invalid device id '' @ dbg v @ '': '' @ why"
| "domain_error_fmt dbg num (NonFinite context v) = context @ '' value must be finite, got '' @ num v"
| "domain_error_fmt dbg num (OutOfRange field v lo hi) =
     field @ '' value '' @ num v @ '' outside conservative physical range ['' @ num lo @ '', '' @ num hi @ '']''"

fun delivery_error_fmt :: "delivery_error \<Rightarrow> string" where
  "delivery_error_fmt (DeTransport m) = ''delivery transport failed: '' @ m"
| "delivery_error_fmt DeTimeout = ''delivery timed out''"
| "delivery_error_fmt (DeHttp status) = ''delivery rejected with HTTP '' @ nat_to_dec (unat status)"
| "delivery_error_fmt (DeMalformedResponse m) = ''malformed import response: '' @ m"
| "delivery_error_fmt (DeRejected m) = ''delivery permanently rejected: '' @ m"
| "delivery_error_fmt (DeNotWired m) = ''not wired: '' @ m"

definition wired_transport :: "config \<Rightarrow> service_config \<Rightarrow> device_selector \<Rightarrow> transport_config" where
  "wired_transport cfg sc sel =
     \<lparr>tc_adapter = Some (dv_adapter (cf_device cfg)), tc_selector = sel, tc_power_policy = RequireManual,
      tc_connect_timeout = sc_phase_timeout sc - sc_response_timeout sc, tc_discovery_timeout = sc_phase_timeout sc,
      tc_notification_timeout = sc_response_timeout sc, tc_operation_timeout = sc_response_timeout sc,
      tc_write_chunk_size = MIN_ATT_CHUNK_SIZE, tc_require_evidence = False\<rparr>"

record daemon =
  dm_service :: service_config
  dm_transport :: transport_config
  dm_device :: device_id
  dm_storage_config :: storage_config
  dm_client :: http_client
  dm_observer :: progress_observer

definition daemon_setup ::
  "(string \<Rightarrow> string) \<Rightarrow> (f64 \<Rightarrow> string) \<Rightarrow> (string \<Rightarrow> string \<Rightarrow> storage_config \<Rightarrow> port_storage_error + unit) \<Rightarrow> instant
    \<Rightarrow> config \<Rightarrow> daemon_error + daemon" where
  "daemon_setup dbg num open_storage now cfg =
     (let request_timeout = seconds (vs_request_timeout_seconds (cf_victoria_metrics cfg)) in
      try_bind (map_err (DmConfig \<circ> CfService) (service_config_of cfg)) (\<lambda>sc.
      try_bind (map_err (\<lambda>e. DmConfig (CfBluetooth (te_fmt e))) (selector_new (Some (dv_bluez_alias (cf_device cfg))) None)) (\<lambda>sel.
      try_bind (map_err (\<lambda>e. DmConfig (CfDeviceIdentity (domain_error_fmt dbg num e))) (device_id_new (dv_name (cf_device cfg)))) (\<lambda>device.
      let storage_config = collector_storage_config sc (st_maximum_spool_batches (cf_storage cfg))
            (st_maximum_spool_age_days (cf_storage cfg)) in
      try_bind (map_err (DmRun \<circ> CePersist) (open_storage (st_path (cf_storage cfg)) (dv_name (cf_device cfg)) storage_config)) (\<lambda>_.
      try_bind (map_err (\<lambda>e. DmConfig (CfDelivery (delivery_error_fmt e))) (vm_delivery_new dbg (vs_url (cf_victoria_metrics cfg)) request_timeout)) (\<lambda>client.
        Inr \<lparr>dm_service = sc, dm_transport = wired_transport cfg sc sel, dm_device = device,
             dm_storage_config = storage_config, dm_client = client,
             dm_observer = watchdog_observer now sc request_timeout\<rparr>))))))"

text \<open>The ports over the client and the renderer; \<open>q\<close> has the Bluetooth session, the clock and the shutdown channel.\<close>

definition daemon_ports ::
  "'x ports \<Rightarrow> minicbor \<Rightarrow> (string \<Rightarrow> string) \<Rightarrow> (string \<Rightarrow> 'x \<Rightarrow> network \<times> 'x) \<Rightarrow> (nat \<Rightarrow> call_env) \<Rightarrow> daemon \<Rightarrow> 'x world ports" where
  "daemon_ports q mc dbg exchange env d =
     collector_ports (q\<lparr>deliver := vm_deliver dbg (dm_client d) exchange, render := prometheus_render dbg\<rparr>) mc
       (dm_storage_config d) (dm_device d) env (dm_service d)"

section \<open>The daemon\<close>

record cli =
  cli_config :: string
  cli_check_config :: bool
  cli_run_once :: bool

text \<open>\<open>watch::channel(false).1\<close>: a channel whose sender is gone.\<close>

definition orphaned :: "'w ports \<Rightarrow> 'w ports" where
  "orphaned p = p\<lparr>shutdown_set := (\<lambda>_. False), shutdown_closed := (\<lambda>_. True)\<rparr>"

definition run_once :: "'w ports \<Rightarrow> service_config \<Rightarrow> 'w \<Rightarrow> (daemon_error + u8) option" where
  "run_once p sc w =
     map_option (\<lambda>out. case out of
         CycleSuccess r \<Rightarrow> Inr EXIT_OK
       | CycleFailure ph e \<Rightarrow> Inl (DmRun e)
       | CycleShutdown ph sample \<Rightarrow> Inr EXIT_OK)
       (fst (run_cycle (orphaned p) (context_new sc, w)))"

text \<open>Up to \<open>n\<close> iterations; \<open>None\<close> is a daemon that still runs, or is stuck.\<close>

definition run_service ::
  "nat \<Rightarrow> nat \<Rightarrow> string + unit \<Rightarrow> string + unit \<Rightarrow> 'w ports \<Rightarrow> service_config \<Rightarrow> 'w \<Rightarrow> (daemon_error + u8) option" where
  "run_service n fuel install notified p sc w =
     (case install of
        Inl e \<Rightarrow> Some (Inl (DmShutdown e))
      | Inr _ \<Rightarrow>
          (case notified of
             Inl e \<Rightarrow> Some (Inl (DmWatchdog e))
           | Inr _ \<Rightarrow>
               (case fst (run_collector n fuel p sc w) of
                  RunReturned (Inl e) \<Rightarrow> Some (Inl (DmRunLoop e))
                | RunReturned (Inr sm) \<Rightarrow> Some (Inr (if rs_graceful sm then EXIT_OK else EXIT_RUNTIME))
                | RunGoing l \<Rightarrow> None
                | RunStuck \<Rightarrow> None)))"

definition run_daemon ::
  "nat \<Rightarrow> nat \<Rightarrow> (collector_config_error + config) \<Rightarrow> (config \<Rightarrow> daemon_error + daemon) \<Rightarrow> (daemon \<Rightarrow> 'w ports)
    \<Rightarrow> string + unit \<Rightarrow> string + unit \<Rightarrow> cli \<Rightarrow> 'w \<Rightarrow> (daemon_error + u8) option" where
  "run_daemon n fuel loaded assemble mk_ports install notified args w =
     (case loaded of
        Inl e \<Rightarrow> Some (Inl (DmConfig e))
      | Inr cfg \<Rightarrow>
          if cli_check_config args then Some (Inr EXIT_OK)
          else
            (case assemble cfg of
               Inl e \<Rightarrow> Some (Inl e)
             | Inr d \<Rightarrow>
                 if cli_run_once args then run_once (mk_ports d) (dm_service d) w
                 else run_service n fuel install notified (mk_ports d) (dm_service d) w))"

section \<open>What the assembly gives\<close>

lemma setup_parts:
  assumes "daemon_setup dbg num open_storage now cfg = Inr d"
  shows "service_config_of cfg = Inr (dm_service d)" "config_validate (dm_service d) = Inr ()"
    "selector_new (Some (dv_bluez_alias (cf_device cfg))) None = Inr (tc_selector (dm_transport d))"
    "dm_transport d = wired_transport cfg (dm_service d) (tc_selector (dm_transport d))"
proof -
  show "service_config_of cfg = Inr (dm_service d)"
    "selector_new (Some (dv_bluez_alias (cf_device cfg))) None = Inr (tc_selector (dm_transport d))"
    "dm_transport d = wired_transport cfg (dm_service d) (tc_selector (dm_transport d))"
    using assms by (auto simp: daemon_setup_def Let_def try_bind_Inr_iff map_err_def wired_transport_def split: sum.splits)
  then show "config_validate (dm_service d) = Inr ()" using service_config_of_valid by blast
qed

lemma selector_new_valid: "selector_new a b = Inr sel \<Longrightarrow> selector_validate sel = Inr ()"
  by (auto simp: selector_new_def Let_def try_bind_Inr_iff)

lemma valid_timeouts:
  "config_validate c = Inr () \<Longrightarrow>
     0 < sc_response_timeout c \<and> sc_response_timeout c \<le> sc_phase_timeout c"
  by (auto simp: config_validate_def split: if_splits)

text \<open>An alias as the selector wants it.\<close>

definition alias_ok :: "string \<Rightarrow> bool" where
  "alias_ok a \<longleftrightarrow> str_trim a \<noteq> [] \<and> length (utf8_chars (str_trim a)) \<le> 64"

lemma selector_alias: "(\<exists>sel. selector_new (Some a) None = Inr sel) \<longleftrightarrow> alias_ok a"
  by (auto simp: selector_new_def selector_validate_def Let_def try_bind_def alias_ok_def MAX_ALIAS_LEN_def)

lemma setup_cases:
  assumes "cf_validate cfg = Inr ()"
  shows "case daemon_setup dbg num open_storage now cfg of
      Inr d \<Rightarrow> alias_ok (dv_bluez_alias (cf_device cfg)) \<and> length (dv_name (cf_device cfg)) \<le> 64
    | Inl (DmConfig (CfBluetooth m)) \<Rightarrow> \<not> alias_ok (dv_bluez_alias (cf_device cfg))
    | Inl (DmConfig (CfDeviceIdentity m)) \<Rightarrow> 64 < length (dv_name (cf_device cfg))
    | Inl (DmRun (CePersist e)) \<Rightarrow> alias_ok (dv_bluez_alias (cf_device cfg)) \<and> length (dv_name (cf_device cfg)) \<le> 64
        \<and> (\<exists>sc. open_storage (st_path (cf_storage cfg)) (dv_name (cf_device cfg)) sc = Inl e)
    | Inl e \<Rightarrow> False"
proof -
  obtain sc where sc: "service_config_of cfg = Inr sc" using assms unfolding cf_validate_iff by blast
  then have name: "dv_name (cf_device cfg) \<noteq> []" "list_all device_id_byte (dv_name (cf_device cfg))"
    using config_validate_name [OF service_config_of_valid [OF sc]]
    by (auto simp: service_config_of_def Let_def try_bind_Inr_iff)
  have client: "\<exists>client. vm_delivery_new dbg (vs_url (cf_victoria_metrics cfg)) t = Inr client" for t
    using assms metrics_url_has_client unfolding cf_validate_iff by blast
  show ?thesis
  proof (cases "selector_new (Some (dv_bluez_alias (cf_device cfg))) None")
    case (Inl e)
    then have "\<not> alias_ok (dv_bluez_alias (cf_device cfg))" using selector_alias by force
    with sc Inl show ?thesis by (simp add: daemon_setup_def Let_def map_err_def try_bind_def)
  next
    case (Inr sel)
    then have al: "alias_ok (dv_bluez_alias (cf_device cfg))" using selector_alias by blast
    show ?thesis
    proof (cases "device_id_new (dv_name (cf_device cfg))")
      case (Inl e)
      then have "64 < length (dv_name (cf_device cfg))"
        using name device_id_new_iff [of "dv_name (cf_device cfg)"] by (metis Inl_Inr_False linorder_not_le)
      with sc \<open>selector_new _ _ = Inr sel\<close> Inl show ?thesis by (simp add: daemon_setup_def Let_def map_err_def try_bind_def)
    next
      case (Inr dev)
      then have "length (dv_name (cf_device cfg)) \<le> 64" unfolding device_id_new_iff by blast
      moreover obtain client where "vm_delivery_new dbg (vs_url (cf_victoria_metrics cfg))
          (seconds (vs_request_timeout_seconds (cf_victoria_metrics cfg))) = Inr client" using client by blast
      ultimately show ?thesis
        using sc \<open>selector_new _ _ = Inr sel\<close> Inr al
        by (auto simp: daemon_setup_def Let_def map_err_def try_bind_def split: sum.splits)
    qed
  qed
qed

text \<open>A cycle on an orphaned channel stops where it would deliver.\<close>

lemma orphaned_stop: "act_bind (act_shutdown (orphaned p)) k = k True"
  by (simp add: fun_eq_iff act_bind_def act_shutdown_def shutdown_requested_def orphaned_def)

lemma orphaned_cycle:
  "cycle_states (orphaned p) device =
     act_bind (act_get cx_config) (\<lambda>c.
     act_bind (acquire_sample (orphaned p) c) (\<lambda>sample.
     act_bind (persist_sample (orphaned p) device sample) (\<lambda>(energy, duplicate). act_return (StepShutdown Delivering sample))))"
  by (simp add: cycle_states_def orphaned_stop)

lemma orphaned_blind:
  "acquire_sample (orphaned (p\<lparr>deliver := f, st_spool_claim_next := g, ble_finish_cycle := h\<rparr>)) = acquire_sample (orphaned p)"
  "persist_sample (orphaned (p\<lparr>deliver := f, st_spool_claim_next := g, ble_finish_cycle := h\<rparr>)) = persist_sample (orphaned p)"
  "teardown_after_failure (orphaned (p\<lparr>deliver := f, st_spool_claim_next := g, ble_finish_cycle := h\<rparr>)) = teardown_after_failure (orphaned p)"
  "finish_gracefully (orphaned (p\<lparr>deliver := f, st_spool_claim_next := g, ble_finish_cycle := h\<rparr>)) = finish_gracefully (orphaned p)"
  unfolding fun_eq_iff acquire_sample_def persist_sample_def commit_sample_def act_now_def teardown_after_failure_def
    finish_gracefully_def teardown_to_shutdown_def hard_disconnect_def orphaned_def
  by (simp_all cong: if_cong)

lemma orphaned_no_success: "fst (run_cycle (orphaned p) s) \<noteq> Some (CycleSuccess r)"
proof -
  have "cycle_states (orphaned p) device s \<noteq> (Inr (StepDone x), s')" for device x s'
    by (auto simp: orphaned_cycle act_bind_def act_return_def split: sum.splits prod.splits)
  then show ?thesis
    by (auto simp: run_cycle_def finish_gracefully_def split: option.splits sum.splits prod.splits cycle_step.splits)
qed

section \<open>An example\<close>

definition example_config :: config where
  "example_config =
     \<lparr>cf_device = \<lparr>dv_name = ''solar-charger'', dv_bluez_alias = ''SmartSolar'', dv_instance = 3, dv_adapter = ''hci0''\<rparr>,
      cf_poll = \<lparr>po_active_interval_seconds = 15, po_idle_interval_seconds = 60, po_response_timeout_seconds = 8,
        po_phase_timeout_seconds = 12, po_maximum_energy_gap_seconds = 300, po_spool_claim_ttl_seconds = 120,
        po_spool_max_attempts = 5, po_backoff_base_seconds = 5, po_backoff_factor = 2, po_backoff_cap_seconds = 300,
        po_solar_active_threshold_watts = default_solar_threshold\<rparr>,
      cf_victoria_metrics = \<lparr>vs_url = ''http://100.64.0.2:8429'', vs_request_timeout_seconds = 10\<rparr>,
      cf_storage = \<lparr>st_path = ''/var/lib/victron-collector/state.sqlite3'', st_maximum_spool_batches = 10000,
        st_maximum_spool_age_days = 7\<rparr>\<rparr>"

lemma example_service: "service_config_of example_config = Inr default_config"
proof -
  have "service_config_of example_config = try_bind (config_validate default_config) (\<lambda>_. Inr default_config)"
    by (simp add: Let_def service_config_of_def example_config_def default_config_def seconds_def default_solar_threshold_def)
  then show ?thesis by (simp add: default_config_valid)
qed

lemma example_url: "validate_metrics_url ''http://100.64.0.2:8429'' = Inr ()"
  unfolding validate_metrics_url_iff using accepted_example by blast

lemma example_valid: "cf_validate example_config = Inr ()"
  unfolding cf_validate_iff using example_service by (simp add: example_config_def example_url)

lemma example_alias: "alias_ok ''SmartSolar''"
proof -
  have "str_trim ''SmartSolar'' = ''SmartSolar''"
    by (rule str_trim_id) (simp add: device_id_byte_def is_ascii_alphanumeric_def)
  then show ?thesis by (simp add: alias_ok_def is_continuation_def)
qed

lemma similar_setup:
  assumes "service_config_of cfg = Inr sc" "cf_device cfg = cf_device example_config"
    "cf_victoria_metrics cfg = cf_victoria_metrics example_config"
  shows "\<exists>d. daemon_setup dbg num (\<lambda>_ _ _. Inr ()) now cfg = Inr d \<and> dm_service d = sc"
proof -
  obtain sel where sel: "selector_new (Some ''SmartSolar'') None = Inr sel"
    using selector_alias example_alias by blast
  obtain dev where dev: "device_id_new ''solar-charger'' = Inr dev"
    using config_validate_name [OF default_config_valid] by (auto simp: device_id_new_iff default_config_def)
  obtain client where "vm_delivery_new dbg ''http://100.64.0.2:8429'' (seconds 10) = Inr client"
    using metrics_url_has_client example_url by blast
  with sel dev assms show ?thesis
    by (simp add: daemon_setup_def Let_def map_err_def try_bind_def example_config_def)
qed

lemma example_setup:
  "\<exists>d. daemon_setup dbg num (\<lambda>_ _ _. Inr ()) now example_config = Inr d \<and> dm_service d = default_config"
  by (rule similar_setup [OF example_service]) simp_all

text \<open>The timeouts equal, which the validation accepts.\<close>

definition equal_timeouts_config :: config where
  "equal_timeouts_config = example_config\<lparr>cf_poll := (cf_poll example_config)\<lparr>po_response_timeout_seconds := 12\<rparr>\<rparr>"

lemma equal_timeouts_service:
  "service_config_of equal_timeouts_config = Inr (default_config\<lparr>sc_response_timeout := from_secs 12\<rparr>)"
proof -
  have "config_validate (default_config\<lparr>sc_response_timeout := from_secs 12\<rparr>) = Inr ()"
    using default_config_valid by (auto simp: config_validate_def default_config_def from_secs_def split: if_splits)
  moreover have "service_config_of equal_timeouts_config =
      try_bind (config_validate (default_config\<lparr>sc_response_timeout := from_secs 12\<rparr>))
        (\<lambda>_. Inr (default_config\<lparr>sc_response_timeout := from_secs 12\<rparr>))"
    by (simp add: Let_def service_config_of_def equal_timeouts_config_def example_config_def default_config_def seconds_def
        default_solar_threshold_def)
  ultimately show ?thesis by simp
qed

lemma equal_timeouts_valid: "cf_validate equal_timeouts_config = Inr ()"
  using example_valid equal_timeouts_service unfolding cf_validate_iff by (simp add: equal_timeouts_config_def)

lemma open_invalid:
  "transport_config_validate c = Inl e \<Longrightarrow> open_transport fuel bl (bluez_new c b) = (Ready (Inl e), bluez_new c b)"
  by (simp add: open_transport_def bluez_new_def ss_new_def call_bind_def call_result_def Let_def)

section \<open>Properties\<close>

text \<open>C34: What \<open>--check-config\<close> accepts and how the daemon then starts. A configuration that the file passes with is
  refused at the start in exactly two cases more, both with the exit code of a bad configuration: the alias is
  blank or too long, or the device name has more than 64 bytes. Otherwise the daemon is assembled, unless its
  database does not open.\<close>

theorem checked_config_starts:
  assumes "config_load from_str read path = Inr cfg"
  shows "case daemon_setup dbg num open_storage now cfg of
      Inr d \<Rightarrow> alias_ok (dv_bluez_alias (cf_device cfg)) \<and> length (dv_name (cf_device cfg)) \<le> 64
    | Inl e \<Rightarrow>
        if alias_ok (dv_bluez_alias (cf_device cfg)) \<and> length (dv_name (cf_device cfg)) \<le> 64
        then \<exists>f sc. e = DmRun (CePersist f) \<and> open_storage (st_path (cf_storage cfg)) (dv_name (cf_device cfg)) sc = Inl f
        else process_exit (Inl e) = EXIT_CONFIG"
proof -
  have "cf_validate cfg = Inr ()"
    using assms by (auto simp: config_load_def from_toml_def try_bind_Inr_iff)
  from setup_cases [OF this, where dbg = dbg and num = num and open_storage = open_storage and now = now] show ?thesis
    by (auto simp: process_exit_def split: sum.splits daemon_error.splits collector_config_error.splits cycle_error.splits)
qed

theorem checked_config_starts_witness:
  "config_load (\<lambda>_. Some example_config) (\<lambda>_. Some []) [] = Inr example_config
   \<and> (\<exists>d. daemon_setup id (\<lambda>_. []) (\<lambda>_ _ _. Inr ()) 0 example_config = Inr d)
   \<and> length (dv_name (cf_device example_config)) \<le> 64"
proof -
  have l: "config_load (\<lambda>_. Some example_config) (\<lambda>_. Some []) [] = Inr example_config"
    by (simp add: config_load_def from_toml_def ok_or_def try_bind_def example_valid)
  obtain d where "daemon_setup id (\<lambda>_. []) (\<lambda>_ _ _. Inr ()) 0 example_config = Inr d" using example_setup by blast
  with checked_config_starts [OF l, where dbg = id and num = "\<lambda>_. []" and open_storage = "\<lambda>_ _ _. Inr ()" and now = 0] l show ?thesis by simp
qed

text \<open>C36: The transport that the daemon configures can open only if the response timeout is below the phase timeout. The
  validation also accepts equal timeouts; then nothing is left for the connection, and every opening fails at
  once as an invalid configuration.\<close>

theorem wired_transport_valid:
  assumes "daemon_setup dbg num open_storage now cfg = Inr d"
  shows "if sc_response_timeout (dm_service d) < sc_phase_timeout (dm_service d)
    then transport_config_validate (dm_transport d) = Inr ()
    else open_transport fuel bl (bluez_new (dm_transport d) b)
      = (Ready (Inl (TeInvalidConfig ''timeouts must be positive'')), bluez_new (dm_transport d) b)"
proof -
  have "transport_config_validate (dm_transport d) =
      (if sc_response_timeout (dm_service d) < sc_phase_timeout (dm_service d) then Inr ()
       else Inl (TeInvalidConfig ''timeouts must be positive''))"
    using selector_new_valid [OF setup_parts(3) [OF assms]] valid_timeouts [OF setup_parts(2) [OF assms]]
    by (subst setup_parts(4) [OF assms])
      (auto simp: transport_config_validate_def wired_transport_def try_bind_def MIN_ATT_CHUNK_SIZE_def)
  then show ?thesis by (simp add: open_invalid)
qed

theorem wired_transport_valid_witness:
  "\<exists>d. daemon_setup id (\<lambda>_. []) (\<lambda>_ _ _. Inr ()) 0 equal_timeouts_config = Inr d
     \<and> cf_validate equal_timeouts_config = Inr ()
     \<and> (\<forall>(bl :: unit bluer) b. fst (open_transport 1 bl (bluez_new (dm_transport d) b))
          = Ready (Inl (TeInvalidConfig ''timeouts must be positive'')))"
proof -
  obtain d where d: "daemon_setup id (\<lambda>_. []) (\<lambda>_ _ _. Inr ()) 0 equal_timeouts_config = Inr d"
    "dm_service d = default_config\<lparr>sc_response_timeout := from_secs 12\<rparr>"
    using similar_setup [OF equal_timeouts_service, of id "\<lambda>_. []" 0] by (auto simp: equal_timeouts_config_def)
  have "fst (open_transport 1 bl (bluez_new (dm_transport d) b)) = Ready (Inl (TeInvalidConfig ''timeouts must be positive''))"
    for bl :: "unit bluer" and b
    using wired_transport_valid [OF d(1), of 1 bl b] d(2) by (simp add: default_config_def)
  with d equal_timeouts_valid show ?thesis by blast
qed



text \<open>C37: A single cycle (\<open>--run-once\<close>) never delivers. Its shutdown channel has lost its sender, which the service
  takes for a shutdown: the cycle never ends as a success, and what the queue hands out, the metrics server
  answers or the closing of the session would do makes no difference to it.\<close>

theorem run_once_never_delivers:
  "fst (run_cycle (orphaned p) s) \<noteq> Some (CycleSuccess r)
   \<and> run_cycle (orphaned (p\<lparr>deliver := f, st_spool_claim_next := g, ble_finish_cycle := h\<rparr>)) s = run_cycle (orphaned p) s"
  unfolding run_cycle_def [of "orphaned (p\<lparr>deliver := f, st_spool_claim_next := g, ble_finish_cycle := h\<rparr>)"]
    orphaned_cycle orphaned_blind
  unfolding run_cycle_def [of "orphaned p", symmetric] orphaned_cycle [of p, symmetric]
  by (simp add: orphaned_no_success)

end
